(* ===== verification/Go_Base.thy ===== *)
theory Go_Base
  imports Main "HOL-Library.List_Lexorder" "HOL-Library.Char_ord" "HOL-Library.Product_Lexorder"
    "HOL-Library.Word"
begin

text \<open>
  The Go vocabulary every component shares: byte strings and instants, error values and
  results, Go maps (kept as association lists with strictly ascending keys, the order in
  which \<open>encoding/json\<close> writes them), and the state file a store reads and replaces.
  The two collections \<open>result_iff\<close> and \<open>gomap_simps\<close> carry the proofs of the
  components.
\<close>

named_theorems result_iff \<open>when a computation that may fail returns a value\<close>
named_theorems gomap_simps \<open>lookups in updated maps\<close>

section \<open>Values\<close>

text \<open>
  A Go \<open>string\<close> and a Go \<open>[]byte\<close> are both sequences of bytes; \<open>char\<close> is the
  8-bit character type. An instant is a number of nanoseconds since January 1 of year 1,
  UTC, which is Go's zero \<open>time.Time\<close>; \<open>UTC()\<close> changes only how an instant is
  displayed, so it is the identity here. A \<open>time.Duration\<close> counts nanoseconds.
\<close>

type_synonym bytes = string
type_synonym time = int
type_synonym duration = int
type_synonym u64 = "64 word"
type_synonym u32 = "32 word"

definition time_is_zero :: "time \<Rightarrow> bool" where
  "time_is_zero t \<longleftrightarrow> t = 0"

section \<open>Errors and results\<close>

text \<open>
  A sentinel made by \<open>errors.New\<close> is identified by its text (no two sentinels of the
  program share one); each component declares an abbreviation with the Go name of each of
  its sentinels. \<open>Msg\<close> is an error made by \<open>fmt.Errorf\<close> without a sentinel, \<open>Wrap\<close> one
  that adds a prefix to an error with \<open>%w\<close>. The texts of \<open>Msg\<close> and \<open>Wrap\<close> leave out
  interpolated values.
\<close>

datatype go_error = Sentinel string | Msg string | Wrap string go_error

text \<open>Failures of the operating system, the JSON decoder and readers.\<close>

abbreviation ErrNotExist :: go_error where "ErrNotExist \<equiv> Sentinel ''file does not exist''"
abbreviation ErrRead :: go_error where "ErrRead \<equiv> Sentinel ''read failed''"
abbreviation ErrDecode :: go_error where "ErrDecode \<equiv> Sentinel ''invalid JSON''"
abbreviation ErrWrite :: go_error where "ErrWrite \<equiv> Sentinel ''write failed''"
abbreviation ErrEOF :: go_error where "ErrEOF \<equiv> Sentinel ''EOF''"
abbreviation ErrUnexpectedEOF :: go_error where "ErrUnexpectedEOF \<equiv> Sentinel ''unexpected EOF''"

type_synonym 'a result = "go_error + 'a"

text \<open>
  The idiom \<open>v, err := f(); if err != nil { return err }; ...\<close> is \<open>and_then\<close>; a
  check that returns an error when its condition fails is \<open>ensure\<close>.
\<close>

definition and_then :: "'a result \<Rightarrow> ('a \<Rightarrow> 'b result) \<Rightarrow> 'b result" where
  "and_then r f = (case r of Inl e \<Rightarrow> Inl e | Inr v \<Rightarrow> f v)"

definition ensure :: "bool \<Rightarrow> go_error \<Rightarrow> unit result" where
  "ensure c e = (if c then Inr () else Inl e)"

definition wrap_error :: "string \<Rightarrow> 'a result \<Rightarrow> 'a result" where
  "wrap_error s r = (case r of Inl e \<Rightarrow> Inl (Wrap s e) | Inr v \<Rightarrow> Inr v)"

definition is_ok :: "'a result \<Rightarrow> bool" where
  "is_ok r = (case r of Inl _ \<Rightarrow> False | Inr _ \<Rightarrow> True)"

lemma and_then_simps [simp]:
  "and_then (Inl e) f = Inl e"
  "and_then (Inr v) f = f v"
  by (simp_all add: and_then_def)

lemma wrap_error_simps [simp]:
  "wrap_error s (Inl e) = Inl (Wrap s e)"
  "wrap_error s (Inr v) = Inr v"
  by (simp_all add: wrap_error_def)

lemma is_ok_simps [simp]:
  "is_ok (Inl e) = False"
  "is_ok (Inr v) = True"
  by (simp_all add: is_ok_def)

lemma ensure_simps [simp]:
  "ensure True e = Inr ()"
  "ensure False e = Inl e"
  by (simp_all add: ensure_def)

lemma and_then_Inr [result_iff]: "and_then r f = Inr y \<longleftrightarrow> (\<exists>x. r = Inr x \<and> f x = Inr y)"
  by (cases r) auto

lemma wrap_error_Inr [result_iff]: "wrap_error s r = Inr y \<longleftrightarrow> r = Inr y"
  by (cases r) auto

lemma ensure_Inr [result_iff]: "ensure c e = Inr u \<longleftrightarrow> c"
  by (simp add: ensure_def)

lemma ensure_Inl [result_iff]: "ensure c e = Inl e' \<longleftrightarrow> \<not> c \<and> e' = e"
  by (auto simp: ensure_def)

lemma if_Inl_Inr [result_iff]: "(if c then Inl e else r) = Inr y \<longleftrightarrow> \<not> c \<and> r = Inr y"
  by simp

lemma is_ok_iff: "is_ok r \<longleftrightarrow> (\<exists>v. r = Inr v)"
  by (cases r) auto

lemma not_is_ok_iff: "\<not> is_ok r \<longleftrightarrow> (\<exists>e. r = Inl e)"
  by (cases r) auto

section \<open>Go maps\<close>

text \<open>
  A Go map has no order of its own, so it is kept in the canonical form of ascending,
  distinct keys: \<open>map_put\<close> is \<open>m[k] = v\<close>, \<open>map_del\<close> is \<open>delete(m, k)\<close>,
  \<open>map_of m k\<close> is the two-value lookup \<open>v, ok := m[k]\<close>.
\<close>

type_synonym ('k, 'v) gomap = "('k \<times> 'v) list"

fun map_put :: "'k::linorder \<Rightarrow> 'v \<Rightarrow> ('k, 'v) gomap \<Rightarrow> ('k, 'v) gomap" where
  "map_put k v [] = [(k, v)]"
| "map_put k v ((a, b) # m) =
     (if k < a then (k, v) # (a, b) # m
      else if k = a then (k, v) # m
      else (a, b) # map_put k v m)"

definition map_del :: "'k::linorder \<Rightarrow> ('k, 'v) gomap \<Rightarrow> ('k, 'v) gomap" where
  "map_del k m = filter (\<lambda>p. fst p \<noteq> k) m"

definition map_wf :: "('k::linorder, 'v) gomap \<Rightarrow> bool" where
  "map_wf m \<longleftrightarrow> sorted_wrt (<) (map fst m)"

text \<open>Decoding a JSON object into a map assigns its members in order, the last one wins.\<close>

definition map_from :: "('k::linorder \<times> 'v) list \<Rightarrow> ('k, 'v) gomap" where
  "map_from ps = fold (\<lambda>(k, v). map_put k v) ps []"

lemma map_of_put [gomap_simps]: "map_of (map_put k v m) = (map_of m)(k \<mapsto> v)"
  by (induction k v m rule: map_put.induct) (auto simp: fun_eq_iff)

lemma map_of_del [gomap_simps]: "map_of (map_del k m) = (map_of m)(k := None)"
  by (induction m) (auto simp: map_del_def fun_eq_iff)

lemma set_keys_put [gomap_simps]: "fst ` set (map_put k v m) = insert k (fst ` set m)"
  by (induction k v m rule: map_put.induct) auto

lemma set_del [gomap_simps]: "set (map_del k m) = {p \<in> set m. fst p \<noteq> k}"
  by (auto simp: map_del_def)

lemma map_wf_Nil [simp]: "map_wf []"
  by (simp add: map_wf_def)

lemma map_wf_Cons: "map_wf (p # m) \<longleftrightarrow> (\<forall>q \<in> set m. fst p < fst q) \<and> map_wf m"
  by (simp add: map_wf_def)

lemma map_wf_put [simp, intro]: "map_wf m \<Longrightarrow> map_wf (map_put k v m)"
proof (induction k v m rule: map_put.induct)
  case (2 k v a b m)
  have "fst q \<in> insert k (fst ` set m)" if "q \<in> set (map_put k v m)" for q
    using that set_keys_put [of k v m] by blast
  then have "\<forall>q \<in> set (map_put k v m). fst q = k \<or> (\<exists>r \<in> set m. fst q = fst r)"
    by blast
  with 2 show ?case by (fastforce simp: map_wf_Cons)
qed (simp add: map_wf_Cons)

lemma map_wf_filter [simp, intro]: "map_wf m \<Longrightarrow> map_wf (filter P m)"
  by (simp add: map_wf_def sorted_wrt_map sorted_wrt_filter)

lemma map_wf_del [simp, intro]: "map_wf m \<Longrightarrow> map_wf (map_del k m)"
  by (simp add: map_del_def)

lemma map_wf_distinct: "map_wf m \<Longrightarrow> distinct (map fst m)"
  by (simp add: map_wf_def strict_sorted_iff)

lemma map_of_wf_iff: "map_wf m \<Longrightarrow> map_of m k = Some v \<longleftrightarrow> (k, v) \<in> set m"
  by (simp add: map_wf_distinct)

lemma set_put: "map_wf m \<Longrightarrow> set (map_put k v m) = insert (k, v) {p \<in> set m. fst p \<noteq> k}"
  by (induction k v m rule: map_put.induct) (auto simp: map_wf_Cons)

lemma set_put_subset: "set (map_put k v m) \<subseteq> insert (k, v) (set m)"
  by (induction k v m rule: map_put.induct) auto

lemma fold_put_wf: "map_wf m \<Longrightarrow> map_wf (fold (\<lambda>(k, v). map_put k v) ps m)"
  by (induction ps arbitrary: m) (auto simp: split_beta)

lemma fold_put_map_of:
  "map_of (fold (\<lambda>(k, v). map_put k v) ps m) = map_of m ++ map_of (rev ps)"
  by (induction ps arbitrary: m) (auto simp: split_beta map_of_put map_add_def fun_eq_iff
      split: option.splits)

lemma map_wf_from [simp]: "map_wf (map_from ps)"
  by (simp add: map_from_def fold_put_wf)

lemma map_of_from: "map_of (map_from ps) = map_of (rev ps)"
  by (simp add: map_from_def fold_put_map_of)

lemma set_fold_put: "set (fold (\<lambda>(k, v). map_put k v) ps m) \<subseteq> set m \<union> set ps"
proof (induction ps arbitrary: m)
  case (Cons p ps)
  have "set (fold (\<lambda>(k, v). map_put k v) ps (map_put (fst p) (snd p) m)) \<subseteq>
      set (map_put (fst p) (snd p) m) \<union> set ps"
    by (rule Cons.IH)
  also have "\<dots> \<subseteq> insert p (set m) \<union> set ps"
    using set_put_subset [of "fst p" "snd p" m] by auto
  finally show ?case by (cases p) simp
qed simp

lemma set_map_from: "set (map_from ps) \<subseteq> set ps"
  using set_fold_put [of ps "[]"] by (simp add: map_from_def)

lemma map_put_last: "\<forall>q \<in> set m. fst q < k \<Longrightarrow> map_put k v m = m @ [(k, v)]"
  by (induction k v m rule: map_put.induct) auto

text \<open>A map written by \<open>encoding/json\<close> (ascending keys) decodes to itself.\<close>

lemma map_from_wf_aux:
  "map_wf (m @ ps) \<Longrightarrow> fold (\<lambda>(k, v). map_put k v) ps m = m @ ps"
proof (induction ps arbitrary: m)
  case (Cons p ps)
  have "\<forall>q \<in> set m. fst q < fst p"
    using Cons.prems by (auto simp: map_wf_def sorted_wrt_append)
  then have "map_put (fst p) (snd p) m = m @ [p]" by (simp add: map_put_last)
  with Cons.IH [of "m @ [p]"] Cons.prems show ?case by (simp add: split_beta)
qed simp

lemma map_from_wf [simp]: "map_wf m \<Longrightarrow> map_from m = m"
  using map_from_wf_aux [of "[]" m] by (simp add: map_from_def)

text \<open>Two canonical maps with the same bindings, or the same lookups, are the same list.\<close>

lemma map_wf_set_unique:
  assumes "map_wf m" and "map_wf m'" and "set m = set m'"
  shows "m = m'"
proof -
  have "sorted_wrt (\<lambda>p q. fst p < fst q) m" "sorted_wrt (\<lambda>p q. fst p < fst q) m'"
    using assms(1,2) by (simp_all add: map_wf_def sorted_wrt_map)
  with assms(3) show ?thesis
  proof (induction m arbitrary: m')
    case (Cons p m)
    then obtain q m'' where m': "m' = q # m''" by (cases m') auto
    have "p = q"
      using Cons.prems m' by (metis insert_iff less_asym list.set(2) sorted_wrt.simps(2))
    moreover have "p \<notin> set m" "q \<notin> set m''"
      using Cons.prems m' by (auto intro: less_irrefl)
    ultimately have "set m = set m''" using Cons.prems(1) m' by auto
    with Cons.IH [of m''] Cons.prems m' \<open>p = q\<close> show ?case by simp
  qed simp
qed

lemma map_wf_unique:
  assumes "map_wf m" and "map_wf m'" and "map_of m = map_of m'"
  shows "m = m'"
proof (rule map_wf_set_unique [OF assms(1,2)])
  show "set m = set m'"
    using assms by (metis map_of_wf_iff set_eqI surj_pair)
qed

text \<open>
  The interface the components use: a map type with an update, a deletion and a lookup. The
  laws are those of a Go map; the facts below are what the stores need of them.
\<close>

locale go_map =
  fixes look :: "'m \<Rightarrow> 'k \<Rightarrow> 'v option"
    and put :: "'k \<Rightarrow> 'v \<Rightarrow> 'm \<Rightarrow> 'm"
    and del :: "'k \<Rightarrow> 'm \<Rightarrow> 'm"
    and wf :: "'m \<Rightarrow> bool"
  assumes look_put: "look (put k v m) = (look m)(k \<mapsto> v)"
    and look_del: "look (del k m) = (look m)(k := None)"
    and wf_put: "wf m \<Longrightarrow> wf (put k v m)"
    and wf_del: "wf m \<Longrightarrow> wf (del k m)"
    and ext: "wf m \<Longrightarrow> wf m' \<Longrightarrow> look m = look m' \<Longrightarrow> m = m'"
begin

lemma put_put: "wf m \<Longrightarrow> put k v (put k w m) = put k v m"
  by (rule ext) (simp_all add: wf_put look_put)

lemma put_commute: "wf m \<Longrightarrow> k \<noteq> l \<Longrightarrow> put k v (put l w m) = put l w (put k v m)"
  by (rule ext) (simp_all add: wf_put look_put fun_upd_twist)

lemma del_put: "wf m \<Longrightarrow> look m k = None \<Longrightarrow> del k (put k v m) = m"
  by (rule ext) (auto simp: wf_put wf_del look_put look_del)

lemma put_same: "wf m \<Longrightarrow> look m k = Some v \<Longrightarrow> put k v m = m"
  by (rule ext) (auto simp: wf_put look_put)

lemma del_absent: "wf m \<Longrightarrow> look m k = None \<Longrightarrow> del k m = m"
  by (rule ext) (auto simp: wf_del look_del)

end

interpretation gm: go_map map_of map_put map_del map_wf
  by unfold_locales (auto simp: gomap_simps intro: map_wf_unique)

section \<open>The file of a store\<close>

text \<open>
  Every persistent store keeps its whole state in one JSON file. \<open>Holds x\<close> is a file the
  decoder reads as \<open>x\<close>; \<open>Garbage\<close> is content it rejects, \<open>Blank\<close> an empty file,
  \<open>Unreadable\<close> a file whose open or read fails, \<open>Absent\<close> a path that does not exist.
  (A file holding the JSON value \<open>null\<close>, which no store writes, is not modelled.)
\<close>

datatype 'a content = Absent | Unreadable | Blank | Garbage | Holds 'a

record 'a disk =
  disk_file :: "'a content"
  disk_mode :: u32

text \<open>
  A store writes a temporary sibling and renames it over the path, with mode \<open>0600\<close>. The
  flag is the outcome the environment gives that sequence (making the directory, encoding,
  writing, renaming): if any step fails the path keeps its old content.
\<close>

definition disk_save :: "bool \<Rightarrow> 'a \<Rightarrow> 'a disk \<Rightarrow> unit result \<times> 'a disk" where
  "disk_save ok x d =
     (if ok then (Inr (), \<lparr>disk_file = Holds x, disk_mode = 384\<rparr>) else (Inl ErrWrite, d))"

lemma disk_save_True [simp]:
  "disk_save True x d = (Inr (), \<lparr>disk_file = Holds x, disk_mode = 384\<rparr>)"
  by (simp add: disk_save_def)

lemma disk_save_False [simp]: "disk_save False x d = (Inl ErrWrite, d)"
  by (simp add: disk_save_def)

end
