(* ===== verification/Go_Text.thy ===== *)
theory Go_Text
  imports Go_Base
begin

text \<open>
  The text functions of Go's standard library the program relies on, over byte strings:
  \<open>strings.TrimSpace\<close>, \<open>strings.ToLower\<close>, \<open>strings.HasPrefix\<close>,
  \<open>encoding/hex\<close>, the raw URL alphabet of \<open>encoding/base64\<close>, decimal formatting; and
  the record of the cryptographic and formatting functions that stay parameters of the model.
\<close>

section \<open>Trimming and case\<close>

text \<open>
  The UTF-8 encodings of the runes \<open>unicode.IsSpace\<close> accepts. No encoding is a prefix or
  a suffix of another, so \<open>TrimSpace\<close> removes one of these byte sequences at a time from
  each end.
\<close>

definition space_runes :: "bytes list" where
  "space_runes =
     [[CHR 0x09], [CHR 0x0A], [CHR 0x0B], [CHR 0x0C], [CHR 0x0D], [CHR 0x20],
      [CHR 0xC2, CHR 0x85], [CHR 0xC2, CHR 0xA0], [CHR 0xE1, CHR 0x9A, CHR 0x80],
      [CHR 0xE2, CHR 0x80, CHR 0x80], [CHR 0xE2, CHR 0x80, CHR 0x81],
      [CHR 0xE2, CHR 0x80, CHR 0x82], [CHR 0xE2, CHR 0x80, CHR 0x83],
      [CHR 0xE2, CHR 0x80, CHR 0x84], [CHR 0xE2, CHR 0x80, CHR 0x85],
      [CHR 0xE2, CHR 0x80, CHR 0x86], [CHR 0xE2, CHR 0x80, CHR 0x87],
      [CHR 0xE2, CHR 0x80, CHR 0x88], [CHR 0xE2, CHR 0x80, CHR 0x89],
      [CHR 0xE2, CHR 0x80, CHR 0x8A], [CHR 0xE2, CHR 0x80, CHR 0xA8],
      [CHR 0xE2, CHR 0x80, CHR 0xA9], [CHR 0xE2, CHR 0x80, CHR 0xAF],
      [CHR 0xE2, CHR 0x81, CHR 0x9F], [CHR 0xE3, CHR 0x80, CHR 0x80]]"

definition starts_with :: "bytes \<Rightarrow> bytes \<Rightarrow> bool" where
  "starts_with s p \<longleftrightarrow> take (length p) s = p"

function trim_left :: "bytes list \<Rightarrow> bytes \<Rightarrow> bytes" where
  "trim_left rs s =
     (case find (\<lambda>r. r \<noteq> [] \<and> starts_with s r) rs of
        None \<Rightarrow> s
      | Some r \<Rightarrow> trim_left rs (drop (length r) s))"
  by pat_completeness auto
termination
proof (relation "measure (\<lambda>(rs, s). length s)")
  fix rs :: "bytes list" and s r :: bytes
  assume "find (\<lambda>r. r \<noteq> [] \<and> starts_with s r) rs = Some r"
  then have "r \<noteq> []" "take (length r) s = r" by (auto simp: find_Some_iff starts_with_def)
  then have "0 < length s" "0 < length r" by (cases s; auto)+
  then show "((rs, drop (length r) s), rs, s) \<in> measure (\<lambda>(rs, s). length s)" by simp
qed simp

declare trim_left.simps [simp del]

definition trim_space :: "bytes \<Rightarrow> bytes" where
  "trim_space s = rev (trim_left (map rev space_runes) (rev (trim_left space_runes s)))"

definition is_blank :: "bytes \<Rightarrow> bool" where
  "is_blank s \<longleftrightarrow> trim_space s = []"

lemma trim_left_id: "(\<forall>r \<in> set rs. r \<noteq> [] \<longrightarrow> \<not> starts_with s r) \<Longrightarrow> trim_left rs s = s"
proof -
  assume "\<forall>r \<in> set rs. r \<noteq> [] \<longrightarrow> \<not> starts_with s r"
  then have "find (\<lambda>r. r \<noteq> [] \<and> starts_with s r) rs = None" by (auto simp: find_None_iff)
  then show ?thesis by (simp add: trim_left.simps)
qed

lemma trim_left_Nil [simp]: "trim_left rs [] = []"
  by (rule trim_left_id) (auto simp: starts_with_def)

lemma trim_space_Nil [simp]: "trim_space [] = []"
  by (simp add: trim_space_def)

lemma is_blank_Nil [simp]: "is_blank []"
  by (simp add: is_blank_def)

lemma not_blank_nonempty: "\<not> is_blank s \<Longrightarrow> s \<noteq> []"
  by auto

text \<open>A string whose first and last bytes are printable ASCII is its own trimming.\<close>

definition printable :: "char \<Rightarrow> bool" where
  "printable c \<longleftrightarrow> 33 \<le> (of_char c :: nat) \<and> (of_char c :: nat) < 127"

lemma space_runes_not_printable:
  "\<forall>r \<in> set space_runes. r \<noteq> [] \<and> \<not> printable (hd r) \<and> \<not> printable (last r)"
  by (simp add: space_runes_def printable_def)

lemma trim_space_printable:
  assumes "s \<noteq> []" and "printable (hd s)" and "printable (last s)"
  shows "trim_space s = s"
proof -
  have no: "\<not> starts_with t r" if "printable (hd t)" "\<not> printable (hd r)" "r \<noteq> []" for t r :: bytes
    using that by (cases t; cases r) (auto simp: starts_with_def)
  have "trim_left space_runes s = s"
    by (rule trim_left_id) (metis assms(2) space_runes_not_printable no)
  moreover have "trim_left (map rev space_runes) (rev s) = rev s"
  proof (rule trim_left_id, intro ballI impI)
    fix r assume "r \<in> set (map rev space_runes)" "r \<noteq> []"
    with space_runes_not_printable have "\<not> printable (hd r)" by (auto simp: hd_rev)
    with \<open>r \<noteq> []\<close> assms show "\<not> starts_with (rev s) r" by (intro no) (simp_all add: hd_rev)
  qed
  ultimately show ?thesis by (simp add: trim_space_def)
qed

lemma trim_left_trimmed: "r \<in> set rs \<Longrightarrow> r \<noteq> [] \<Longrightarrow> \<not> starts_with (trim_left rs s) r"
proof (induction rs s rule: trim_left.induct)
  case (1 rs s)
  then show ?case
    by (subst trim_left.simps) (auto split: option.splits simp: find_None_iff)
qed

lemma trim_left_suffix: "\<exists>p. s = p @ trim_left rs s"
proof (induction rs s rule: trim_left.induct)
  case (1 rs s)
  show ?case
  proof (cases "find (\<lambda>r. r \<noteq> [] \<and> starts_with s r) rs")
    case None
    then show ?thesis by (simp add: trim_left.simps)
  next
    case (Some r)
    then obtain p where "drop (length r) s = p @ trim_left rs (drop (length r) s)" using "1" by blast
    moreover have "trim_left rs s = trim_left rs (drop (length r) s)"
      by (subst trim_left.simps) (simp add: Some)
    ultimately show ?thesis
      by (intro exI [of _ "take (length r) s @ p"]) (metis append.assoc append_take_drop_id)
  qed
qed

lemma starts_with_append: "starts_with s r \<Longrightarrow> starts_with (s @ t) r"
  by (auto simp: starts_with_def) (metis append_Nil2 diff_is_0_eq length_take min.absorb_iff2 take0)

lemma trim_space_idem [simp]: "trim_space (trim_space s) = trim_space s"
proof -
  let ?R = space_runes and ?t = "trim_left space_runes s"
  let ?u = "trim_left (map rev ?R) (rev ?t)"
  obtain p where "rev ?t = p @ ?u" using trim_left_suffix by blast
  then have t: "?t = rev ?u @ rev p" by (metis rev_append rev_rev_ident)
  have "\<not> starts_with (rev ?u) r" if "r \<in> set ?R" "r \<noteq> []" for r
    using trim_left_trimmed [OF that, of s] starts_with_append [of "rev ?u" r "rev p"] t by auto
  then have left: "trim_left ?R (rev ?u) = rev ?u" by (intro trim_left_id) blast
  have "trim_left (map rev ?R) ?u = ?u" by (rule trim_left_id) (use trim_left_trimmed in blast)
  with left show ?thesis by (simp add: trim_space_def)
qed

text \<open>
  \<open>strings.ToLower\<close>, exact wherever its result is ASCII: the only runes outside ASCII with
  an ASCII lower case are U+212A (Kelvin sign) and U+0130. Bytes of other runes are kept; Go may
  map those to other bytes that are not ASCII, which no caller tells apart (the callers compare
  with ASCII texts or go on to require hexadecimal digits).
\<close>

fun to_lower :: "bytes \<Rightarrow> bytes" where
  "to_lower [] = []"
| "to_lower (c # s) =
     (if starts_with (c # s) [CHR 0xE2, CHR 0x84, CHR 0xAA] then CHR ''k'' # to_lower (drop 2 s)
      else if starts_with (c # s) [CHR 0xC4, CHR 0xB0] then CHR ''i'' # to_lower (drop 1 s)
      else (if 65 \<le> (of_char c :: nat) \<and> (of_char c :: nat) \<le> 90
            then char_of ((of_char c :: nat) + 32) else c) # to_lower s)"

section \<open>Hexadecimal\<close>

definition hex_alphabet :: bytes where
  "hex_alphabet = ''0123456789abcdef''"

definition hex_digit :: "nat \<Rightarrow> char" where
  "hex_digit n = hex_alphabet ! n"

definition hex_val :: "char \<Rightarrow> nat option" where
  "hex_val c = (let n = of_char c :: nat in
     if 48 \<le> n \<and> n \<le> 57 then Some (n - 48)
     else if 97 \<le> n \<and> n \<le> 102 then Some (n - 87)
     else if 65 \<le> n \<and> n \<le> 70 then Some (n - 55)
     else None)"

fun hex_encode :: "bytes \<Rightarrow> bytes" where
  "hex_encode [] = []"
| "hex_encode (c # s) =
     hex_digit ((of_char c :: nat) div 16) # hex_digit ((of_char c :: nat) mod 16) # hex_encode s"

fun hex_decode :: "bytes \<Rightarrow> bytes option" where
  "hex_decode [] = Some []"
| "hex_decode [c] = None"
| "hex_decode (a # b # s) =
     (case (hex_val a, hex_val b, hex_decode s) of
        (Some x, Some y, Some t) \<Rightarrow> Some (char_of (16 * x + y) # t)
      | _ \<Rightarrow> None)"

lemma of_char_nat_less: "(of_char c :: nat) < 256"
  by (rule nat_of_char_less_256)

lemma of_char_nibble: "(of_char c :: nat) div 16 < 16"
proof -
  have "n < 256 \<Longrightarrow> n div 16 < 16" for n :: nat by arith
  then show ?thesis using of_char_nat_less .
qed

lemma hex_table: "map hex_val hex_alphabet = map Some [0..<16]"
  by (simp add: hex_alphabet_def hex_val_def Let_def upt_conv_Cons)

lemma hex_digit_props:
  assumes "n < 16"
  shows "hex_val (hex_digit n) = Some n" and "hex_digit n \<in> set hex_alphabet"
proof -
  have len: "length hex_alphabet = 16" by (simp add: hex_alphabet_def)
  then have "map hex_val hex_alphabet ! n = map Some [0..<16] ! n"
    by (simp only: hex_table)
  with assms len show "hex_val (hex_digit n) = Some n" by (simp add: hex_digit_def)
  from assms len show "hex_digit n \<in> set hex_alphabet" by (simp add: hex_digit_def)
qed

lemma length_hex_encode [simp]: "length (hex_encode s) = 2 * length s"
  by (induction s) auto

lemma hex_encode_chars: "set (hex_encode s) \<subseteq> set hex_alphabet"
proof (induction s)
  case (Cons c s)
  have "(of_char c :: nat) div 16 < 16" by (rule of_char_nibble)
  with Cons show ?case using hex_digit_props(2) by auto
qed simp

lemma hex_decode_encode [simp]: "hex_decode (hex_encode s) = Some s"
proof (induction s)
  case (Cons c s)
  have "(of_char c :: nat) div 16 < 16" by (rule of_char_nibble)
  moreover have "char_of (16 * ((of_char c :: nat) div 16) + of_char c mod 16) = c"
    by (simp add: mult_div_mod_eq)
  ultimately show ?case using Cons by (simp add: hex_digit_props)
qed simp

lemma hex_encode_inject [simp]: "hex_encode s = hex_encode t \<longleftrightarrow> s = t"
  by (metis hex_decode_encode option.inject)

lemma hex_encode_eq_Nil [simp]: "hex_encode s = [] \<longleftrightarrow> s = []"
  by (cases s) auto

lemma hex_alphabet_range:
  "\<forall>c \<in> set hex_alphabet. (of_char c :: nat) < 65 \<or> 90 < (of_char c :: nat) \<and> (of_char c :: nat) < 128"
  by (simp add: hex_alphabet_def)

lemma to_lower_hex_Cons:
  assumes "c \<in> set hex_alphabet"
  shows "to_lower (c # t) = c # to_lower t"
proof -
  have c: "(of_char c :: nat) < 65 \<or> 90 < (of_char c :: nat) \<and> (of_char c :: nat) < 128"
    using assms hex_alphabet_range by blast
  then have "c \<noteq> CHR 0xE2" "c \<noteq> CHR 0xC4" by auto
  with c show ?thesis by (auto simp: starts_with_def)
qed

lemma to_lower_hex: "set s \<subseteq> set hex_alphabet \<Longrightarrow> to_lower s = s"
proof (induction s)
  case (Cons c s)
  then have "c \<in> set hex_alphabet" by simp
  from to_lower_hex_Cons [OF this] Cons show ?case by simp
qed simp

lemma to_lower_hex_encode [simp]: "to_lower (hex_encode s) = hex_encode s"
  by (rule to_lower_hex) (rule hex_encode_chars)

section \<open>Base64, raw URL alphabet\<close>

text \<open>
  \<open>base64.RawURLEncoding\<close>: no padding. Decoding is the library's default, not its strict
  mode: carriage returns and line feeds are skipped anywhere, and the unused low bits of a short
  final group are ignored.
\<close>

definition b64_alphabet :: bytes where
  "b64_alphabet = ''ABCDEFGHIJKLMNOPQRSTUVWXYZabcdefghijklmnopqrstuvwxyz0123456789-_''"

definition b64_char :: "nat \<Rightarrow> char" where
  "b64_char n = b64_alphabet ! n"

definition b64_val :: "char \<Rightarrow> nat option" where
  "b64_val c = (let n = of_char c :: nat in
     if 65 \<le> n \<and> n \<le> 90 then Some (n - 65)
     else if 97 \<le> n \<and> n \<le> 122 then Some (n - 71)
     else if 48 \<le> n \<and> n \<le> 57 then Some (n + 4)
     else if n = 45 then Some 62
     else if n = 95 then Some 63
     else None)"

fun b64_encode :: "bytes \<Rightarrow> bytes" where
  "b64_encode [] = []"
| "b64_encode [x] =
     (let a = of_char x :: nat in [b64_char (a div 4), b64_char (a mod 4 * 16)])"
| "b64_encode [x, y] =
     (let a = of_char x :: nat; b = of_char y :: nat in
      [b64_char (a div 4), b64_char (a mod 4 * 16 + b div 16), b64_char (b mod 16 * 4)])"
| "b64_encode (x # y # z # s) =
     (let a = of_char x :: nat; b = of_char y :: nat; c = of_char z :: nat in
      b64_char (a div 4) # b64_char (a mod 4 * 16 + b div 16) #
      b64_char (b mod 16 * 4 + c div 64) # b64_char (c mod 64) # b64_encode s)"

fun b64_quanta :: "bytes \<Rightarrow> bytes option" where
  "b64_quanta [] = Some []"
| "b64_quanta [p] = None"
| "b64_quanta [p, q] =
     (case (b64_val p, b64_val q) of
        (Some a, Some b) \<Rightarrow> Some [char_of (a * 4 + b div 16)]
      | _ \<Rightarrow> None)"
| "b64_quanta [p, q, r] =
     (case (b64_val p, b64_val q, b64_val r) of
        (Some a, Some b, Some c) \<Rightarrow>
          Some [char_of (a * 4 + b div 16), char_of (b mod 16 * 16 + c div 4)]
      | _ \<Rightarrow> None)"
| "b64_quanta (p # q # r # t # s) =
     (case (b64_val p, b64_val q, b64_val r, b64_val t, b64_quanta s) of
        (Some a, Some b, Some c, Some d, Some u) \<Rightarrow>
          Some (char_of (a * 4 + b div 16) # char_of (b mod 16 * 16 + c div 4) #
                char_of (c mod 4 * 64 + d) # u)
      | _ \<Rightarrow> None)"

definition b64_decode :: "bytes \<Rightarrow> bytes option" where
  "b64_decode s = b64_quanta (filter (\<lambda>c. c \<noteq> CHR 0x0A \<and> c \<noteq> CHR 0x0D) s)"

lemma b64_table: "map b64_val b64_alphabet = map Some [0..<64]"
  by (simp add: b64_alphabet_def b64_val_def Let_def upt_conv_Cons)

lemma b64_char_props:
  assumes "n < 64"
  shows "b64_val (b64_char n) = Some n" and "b64_char n \<in> set b64_alphabet"
proof -
  have len: "length b64_alphabet = 64" by (simp add: b64_alphabet_def)
  then have "map b64_val b64_alphabet ! n = map Some [0..<64] ! n"
    by (simp only: b64_table)
  with assms len show "b64_val (b64_char n) = Some n" by (simp add: b64_char_def)
  from assms len show "b64_char n \<in> set b64_alphabet" by (simp add: b64_char_def)
qed

lemma byte_bounds:
  "(of_char c :: nat) div 4 < 64" "(of_char c :: nat) div 16 < 16" "(of_char c :: nat) div 64 < 4"
  "(of_char c :: nat) mod 4 < 4" "(of_char c :: nat) mod 16 < 16" "(of_char c :: nat) mod 64 < 64"
  using of_char_nat_less [of c] by (simp_all add: div_less_iff_less_mult)

lemma byte_split:
  fixes x y :: char
  shows "(of_char x :: nat) mod 4 * 16 < 64"
    and "(of_char x :: nat) mod 4 * 16 + of_char y div 16 < 64"
    and "(of_char x :: nat) mod 16 * 4 < 64"
    and "(of_char x :: nat) mod 16 * 4 + of_char y div 64 < 64"
  using byte_bounds [of x] byte_bounds [of y] by linarith+

lemma byte_join:
  fixes c :: char
  shows "(of_char c :: nat) div 16 div 16 = 0" and "(of_char c :: nat) div 16 mod 16 = of_char c div 16"
    and "(of_char c :: nat) div 64 div 4 = 0" and "(of_char c :: nat) div 64 mod 4 = of_char c div 64"
  using byte_bounds [of c] by simp_all

lemma b64_quanta_encode: "b64_quanta (b64_encode s) = Some s"
  by (induction s rule: b64_encode.induct)
    (simp_all add: Let_def b64_char_props byte_bounds byte_split byte_join del: div_mult2_eq)

lemma b64_encode_chars: "set (b64_encode s) \<subseteq> set b64_alphabet"
  by (induction s rule: b64_encode.induct)
    (simp_all add: Let_def b64_char_props byte_bounds byte_split)

lemma b64_alphabet_plain: "CHR 0x0A \<notin> set b64_alphabet \<and> CHR 0x0D \<notin> set b64_alphabet"
  by code_simp

lemma b64_decode_encode [simp]: "b64_decode (b64_encode s) = Some s"
proof -
  have "filter (\<lambda>c. c \<noteq> CHR 0x0A \<and> c \<noteq> CHR 0x0D) (b64_encode s) = b64_encode s"
    using b64_encode_chars [of s] b64_alphabet_plain by (intro filter_True) auto
  then show ?thesis by (simp add: b64_decode_def b64_quanta_encode)
qed

lemma length_b64_encode: "length (b64_encode s) \<le> 2 * length s"
  by (induction s rule: b64_encode.induct) (simp_all add: Let_def le_SucI)

lemma b64_encode_eq_Nil [simp]: "b64_encode s = [] \<longleftrightarrow> s = []"
  by (cases s rule: b64_encode.cases) (simp_all add: Let_def)

section \<open>Decimal numbers\<close>

text \<open>The verb \<open>%d\<close> of \<open>fmt.Sprintf\<close>.\<close>

fun show_nat :: "nat \<Rightarrow> bytes" where
  "show_nat n =
     (if n < 10 then [char_of (48 + n)] else show_nat (n div 10) @ [char_of (48 + n mod 10)])"

declare show_nat.simps [simp del]

definition show_int :: "int \<Rightarrow> bytes" where
  "show_int i = (if i < 0 then CHR ''-'' # show_nat (nat (- i)) else show_nat (nat i))"

definition read_nat :: "bytes \<Rightarrow> nat" where
  "read_nat s = foldl (\<lambda>a c. a * 10 + ((of_char c :: nat) - 48)) 0 s"

lemma read_show_nat [simp]: "read_nat (show_nat n) = n"
proof (induction n rule: show_nat.induct)
  case (1 n)
  then show ?case by (subst show_nat.simps) (auto simp: read_nat_def)
qed

lemma show_nat_inject [simp]: "show_nat m = show_nat n \<longleftrightarrow> m = n"
  by (metis read_show_nat)

lemma show_nat_digits: "c \<in> set (show_nat n) \<Longrightarrow> 48 \<le> (of_char c :: nat) \<and> (of_char c :: nat) \<le> 57"
proof (induction n rule: show_nat.induct)
  case (1 n)
  show ?case
  proof (cases "n < 10")
    case True
    with "1.prems" show ?thesis by (auto simp: show_nat.simps [of n])
  next
    case False
    with "1.prems" consider "c \<in> set (show_nat (n div 10))" | "c = char_of (48 + n mod 10)"
      by (auto simp: show_nat.simps [of n])
    then show ?thesis using "1.IH" [OF False] by cases auto
  qed
qed

lemma show_int_inject [simp]: "show_int i = show_int j \<longleftrightarrow> i = j"
proof
  have no_minus: "CHR ''-'' # s \<noteq> show_nat n" for s n
  proof
    assume "CHR ''-'' # s = show_nat n"
    then have "CHR ''-'' \<in> set (show_nat n)" by (metis list.set_intros(1))
    from show_nat_digits [OF this] show False by simp
  qed
  assume "show_int i = show_int j"
  then show "i = j"
    using no_minus no_minus [symmetric] by (auto simp: show_int_def split: if_splits)
qed simp

definition show_bool :: "bool \<Rightarrow> bytes" where
  "show_bool b = (if b then ''true'' else ''false'')"

section \<open>Lines\<close>

text \<open>
  Texts that are signed or hashed are lines joined with a line feed. A text is determined line
  by line as long as at most one of its lines, at a known place, may itself hold line feeds.
\<close>

abbreviation line_feed :: char where
  "line_feed \<equiv> CHR 0x0A"

fun join_lines :: "bytes list \<Rightarrow> bytes" where
  "join_lines [] = []"
| "join_lines [l] = l"
| "join_lines (l # ls) = l @ line_feed # join_lines ls"

lemma join_lines_Cons: "ls \<noteq> [] \<Longrightarrow> join_lines (l # ls) = l @ line_feed # join_lines ls"
  by (cases ls) auto

lemma join_lines_snoc: "ls \<noteq> [] \<Longrightarrow> join_lines (ls @ [l]) = join_lines ls @ line_feed # l"
proof (induction ls)
  case (Cons a ls)
  then show ?case by (cases "ls = []") (auto simp: join_lines_Cons)
qed simp

lemma line_front:
  "line_feed \<notin> set a \<Longrightarrow> line_feed \<notin> set b \<Longrightarrow>
     a @ line_feed # x = b @ line_feed # y \<longleftrightarrow> a = b \<and> x = y"
proof (induction a arbitrary: b)
  case Nil
  then show ?case by (cases b) auto
next
  case (Cons c a)
  then show ?case by (cases b) auto
qed

lemma line_back:
  assumes "line_feed \<notin> set a" and "line_feed \<notin> set b"
  shows "x @ line_feed # a = y @ line_feed # b \<longleftrightarrow> x = y \<and> a = b"
proof -
  have "x @ line_feed # a = y @ line_feed # b \<longleftrightarrow>
      rev a @ line_feed # rev x = rev b @ line_feed # rev y"
    by (metis append_Cons append_assoc append_Nil rev.simps(2) rev_append rev_rev_ident)
  with line_front [of "rev a" "rev b" "rev x" "rev y"] assms show ?thesis by auto
qed

lemma join_lines_inject:
  assumes "\<forall>l \<in> set ps \<union> set ps' \<union> set ss \<union> set ss'. line_feed \<notin> set l"
    and "length ps = length ps'" and "length ss = length ss'"
    and "join_lines (ps @ [m] @ ss) = join_lines (ps' @ [m'] @ ss')"
  shows "ps = ps' \<and> m = m' \<and> ss = ss'"
proof -
  have tails: "join_lines (ps @ [m]) = join_lines (ps' @ [m']) \<and> ss = ss'"
    using assms(3,1,4)
  proof (induction ss ss' rule: rev_induct2)
    case (4 s ss s' ss')
    then have "join_lines (ps @ [m] @ ss) @ line_feed # s = join_lines (ps' @ [m'] @ ss') @ line_feed # s'"
      using join_lines_snoc [of "ps @ m # ss" s] join_lines_snoc [of "ps' @ m' # ss'" s'] by simp
    with 4 show ?case by (simp add: line_back)
  qed auto
  have "ps = ps' \<and> m = m'"
    using assms(2,1) conjunct1 [OF tails]
    by (induction ps ps' rule: list_induct2) (auto simp: join_lines_Cons line_front)
  with tails show ?thesis by simp
qed

end
