(* ===== verification/Runtime.thy ===== *)
theory Runtime
  imports Go_Text
begin

text \<open>
  The functions of Go's standard library that stay parameters of the model: the SHA-256 and
  Ed25519 primitives of \<open>crypto\<close>, the text \<open>json.Marshal\<close> gives an application payload, and
  the RFC 3339 text of an instant. Every definition that uses one takes the record as its
  argument; the documented behaviour a theorem relies on is a named hypothesis on it.
\<close>

text \<open>
  A decoded JSON value (\<open>any\<close> in Go); a number is kept as its text. A payload is a
  \<open>map[string]any\<close>: \<open>None\<close> is the nil map, \<open>Some []\<close> the empty map.
\<close>

datatype json = JNull | JBool bool | JNumber bytes | JString bytes
  | JArray "json list" | JObject "(bytes \<times> json) list"

type_synonym payload = "(bytes \<times> json) list option"

record runtime =
  rt_sha256 :: "bytes \<Rightarrow> bytes"
  rt_sign :: "bytes \<Rightarrow> bytes \<Rightarrow> bytes"
  rt_verify :: "bytes \<Rightarrow> bytes \<Rightarrow> bytes \<Rightarrow> bool"
  rt_payload :: "payload \<Rightarrow> bytes"
  rt_time :: "time \<Rightarrow> bytes"

text \<open>Documented behaviour: digest and signature lengths, verification of honest signatures.\<close>

definition sha256_sized :: "runtime \<Rightarrow> bool" where
  "sha256_sized rt \<longleftrightarrow> (\<forall>x. length (rt_sha256 rt x) = 32)"

definition keypair_ok :: "runtime \<Rightarrow> bytes \<Rightarrow> bytes \<Rightarrow> bool" where
  "keypair_ok rt pub priv \<longleftrightarrow>
     (\<forall>m. length (rt_sign rt priv m) = 64 \<and> rt_verify rt pub m (rt_sign rt priv m))"

text \<open>Distinct instants print differently, and no line feed occurs in a printed instant.\<close>

definition time_text_ok :: "runtime \<Rightarrow> bool" where
  "time_text_ok rt \<longleftrightarrow> inj (rt_time rt) \<and> (\<forall>t. CHR 0x0A \<notin> set (rt_time rt t))"

text \<open>
  SHA-256 is not injective; a theorem that needs two digests to tell two inputs apart names
  the two inputs.
\<close>

definition no_collision :: "runtime \<Rightarrow> bytes \<Rightarrow> bytes \<Rightarrow> bool" where
  "no_collision rt x y \<longleftrightarrow> (rt_sha256 rt x = rt_sha256 rt y \<longrightarrow> x = y)"

text \<open>
  \<open>ed25519.PrivateKey.Public()\<close> returns the last 32 of the 64 bytes of the private key.
\<close>

definition public_of :: "bytes \<Rightarrow> bytes" where
  "public_of priv = drop 32 priv"

definition public_key_size :: nat where "public_key_size = 32"
definition private_key_size :: nat where "private_key_size = 64"
definition signature_size :: nat where "signature_size = 64"

lemmas key_sizes = public_key_size_def private_key_size_def signature_size_def

text \<open>
  An executable instance for the witnesses: the digest keeps the first 32 bytes of its input,
  a signature is the public key followed by the first 32 bytes of the message.
\<close>

definition pad32 :: "bytes \<Rightarrow> bytes" where
  "pad32 s = take 32 (s @ replicate 32 (CHR 0x00))"

definition sample_runtime :: runtime where
  "sample_runtime = \<lparr>
     rt_sha256 = pad32,
     rt_sign = (\<lambda>priv m. pad32 (public_of priv) @ pad32 m),
     rt_verify = (\<lambda>pub m s. s = pad32 pub @ pad32 m),
     rt_payload = (\<lambda>p. case p of None \<Rightarrow> ''null'' | Some ms \<Rightarrow> ''{'' @ concat (map fst ms) @ ''}''),
     rt_time = show_int\<rparr>"

lemma length_pad32 [simp]: "length (pad32 s) = 32"
  by (simp add: pad32_def)

lemma pad32_id: "length s = 32 \<Longrightarrow> pad32 s = s"
  by (simp add: pad32_def)

lemma show_int_no_newline: "CHR 0x0A \<notin> set (show_int i)"
proof -
  have "CHR 0x0A \<notin> set (show_nat n)" for n
    using show_nat_digits [of "CHR 0x0A" n] by auto
  then show ?thesis by (simp add: show_int_def)
qed

lemma sample_runtime_ok:
  "sha256_sized sample_runtime" "time_text_ok sample_runtime"
  "keypair_ok sample_runtime (public_of priv) priv"
  using show_int_no_newline
  by (simp_all add: sample_runtime_def sha256_sized_def time_text_ok_def keypair_ok_def inj_def)

end
