(* ===== verification/Manifests.thy ===== *)
theory Manifests
  imports Runtime
begin

text \<open>
  Package \<open>internal/transfer\<close>, the manifest of a payload (\<open>manifest.go\<close>, \<open>chunk.go\<close>,
  \<open>transfer.go\<close>): readers, building a manifest from a stream, its validation, and the
  verification of chunks and of a whole payload against it.
\<close>

section \<open>Readers\<close>

text \<open>
  An \<open>io.Reader\<close> is the bytes it will still yield and how it ends; the sizes of the
  individual reads are not visible to \<open>io.ReadFull\<close>. A nil reader is \<open>None\<close>.
\<close>

datatype stream_end = Eof | Broken go_error

record reader =
  rd_bytes :: bytes
  rd_end :: stream_end

text \<open>
  The error of \<open>io.ReadFull\<close> on a stream that ends before the buffer is filled: where a part of it was
  filled, \<open>io.EOF\<close> becomes \<open>io.ErrUnexpectedEOF\<close>.
\<close>

definition full_error :: "bool \<Rightarrow> stream_end \<Rightarrow> go_error" where
  "full_error filled e =
     (let err = (case e of Broken x \<Rightarrow> x | Eof \<Rightarrow> ErrEOF) in
      if err = ErrEOF \<and> filled then ErrUnexpectedEOF else err)"

text \<open>
  \<open>io.ReadFull\<close> into a buffer of the given length: the bytes read, the error if the buffer
  was not filled, and the reader after it.
\<close>

definition read_full :: "nat \<Rightarrow> reader \<Rightarrow> bytes \<times> go_error option \<times> reader" where
  "read_full n r =
     (if n \<le> length (rd_bytes r)
      then (take n (rd_bytes r), None, r\<lparr>rd_bytes := drop n (rd_bytes r)\<rparr>)
      else (rd_bytes r, Some (full_error (rd_bytes r \<noteq> []) (rd_end r)), r\<lparr>rd_bytes := []\<rparr>))"

text \<open>\<open>io.CopyN(io.Discard, r, 1)\<close>: whether a byte came, and the error.\<close>

definition read_one :: "reader \<Rightarrow> bool \<times> go_error option \<times> reader" where
  "read_one r =
     (case rd_bytes r of
        b # bs \<Rightarrow> (True, None, r\<lparr>rd_bytes := bs\<rparr>)
      | [] \<Rightarrow> (False, Some (case rd_end r of Eof \<Rightarrow> ErrEOF | Broken e \<Rightarrow> e), r))"

section \<open>Chunks and manifests\<close>

definition default_chunk_size :: int where
  "default_chunk_size = 1024 * 1024"

definition manifest_version :: int where
  "manifest_version = 1"

record chunk =
  ch_index :: int
  ch_size :: int
  ch_hash :: bytes

record manifest =
  mf_version :: int
  mf_filename :: bytes
  mf_size :: int
  mf_chunk_size :: int
  mf_hash :: bytes
  mf_chunks :: "chunk list"

definition hash_of :: "runtime \<Rightarrow> bytes \<Rightarrow> bytes" where
  "hash_of rt data = hex_encode (rt_sha256 rt data)"

definition hash_reader :: "runtime \<Rightarrow> reader \<Rightarrow> bytes result" where
  "hash_reader rt r =
     (case rd_end r of Broken e \<Rightarrow> Inl e | Eof \<Rightarrow> Inr (hex_encode (rt_sha256 rt (rd_bytes r))))"

definition validate_filename :: "bytes \<Rightarrow> unit result" where
  "validate_filename filename =
     (if is_blank filename then Inl (Msg ''manifest filename is required'')
      else if CHR 0x00 \<in> set filename then Inl (Msg ''manifest filename contains a NUL byte'')
      else if filename = ''.'' \<or> filename = ''..''
      then Inl (Msg ''manifest filename must be a path-independent leaf name'')
      else if CHR ''/'' \<in> set filename \<or> CHR 0x5C \<in> set filename
      then Inl (Msg ''manifest filename must not contain path separators'')
      else Inr ())"

definition validate_chunk_size :: "int \<Rightarrow> unit result" where
  "validate_chunk_size chunk_size =
     (if chunk_size \<le> 0 \<or> default_chunk_size < chunk_size
      then Inl (Msg ''chunk size is outside current allowed range'') else Inr ())"

definition validate_digest :: "bytes \<Rightarrow> unit result" where
  "validate_digest digest =
     (if length digest \<noteq> 64 then Inl (Msg ''SHA-256 digest must contain 64 lowercase hexadecimal characters'')
      else if digest \<noteq> to_lower digest then Inl (Msg ''SHA-256 digest must use lowercase hexadecimal'')
      else if hex_decode digest = None then Inl (Msg ''SHA-256 digest is not valid hexadecimal'')
      else Inr ())"

text \<open>The loop over the chunks returns the sum of their sizes.\<close>

fun validate_chunks :: "int \<Rightarrow> nat \<Rightarrow> nat \<Rightarrow> chunk list \<Rightarrow> int \<Rightarrow> int result" where
  "validate_chunks chunk_size count index [] byte_total = Inr byte_total"
| "validate_chunks chunk_size count index (c # cs) byte_total =
     (if ch_index c \<noteq> int index then Inl (Msg ''manifest chunk index does not match position'')
      else if ch_size c \<le> 0 \<or> chunk_size < ch_size c
      then Inl (Msg ''manifest chunk size is outside allowed bounds'')
      else if int index < int count - 1 \<and> ch_size c \<noteq> chunk_size
      then Inl (Msg ''manifest chunk must use the full configured chunk size'')
      else and_then (wrap_error ''manifest chunk hash'' (validate_digest (ch_hash c)))
        (\<lambda>_. validate_chunks chunk_size count (index + 1) cs (byte_total + ch_size c)))"

definition validate_manifest :: "runtime \<Rightarrow> manifest \<Rightarrow> unit result" where
  "validate_manifest rt m =
     (if mf_version m \<noteq> manifest_version then Inl (Msg ''unsupported manifest version'')
      else and_then (validate_filename (mf_filename m)) (\<lambda>_.
        if mf_size m < 0 then Inl (Msg ''manifest size must not be negative'')
        else and_then (validate_chunk_size (mf_chunk_size m)) (\<lambda>_.
          and_then (wrap_error ''manifest payload hash'' (validate_digest (mf_hash m))) (\<lambda>_.
            if mf_size m = 0 then
              (if mf_chunks m \<noteq> [] then Inl (Msg ''empty payload manifest must not contain chunks'')
               else if mf_hash m \<noteq> hash_of rt [] then Inl (Msg ''empty payload manifest hash is invalid'')
               else Inr ())
            else if mf_chunks m = [] then Inl (Msg ''non-empty payload manifest requires chunks'')
            else
              let expected = mf_size m div mf_chunk_size m +
                    (if mf_size m mod mf_chunk_size m \<noteq> 0 then 1 else 0) in
              if int (length (mf_chunks m)) \<noteq> expected
              then Inl (Msg ''manifest chunk count does not match expected'')
              else and_then (validate_chunks (mf_chunk_size m) (length (mf_chunks m)) 0 (mf_chunks m) 0) (\<lambda>byte_total.
                if byte_total \<noteq> mf_size m then Inl (Msg ''manifest chunk bytes do not match payload size'')
                else Inr ())))))"

definition verify_chunk :: "runtime \<Rightarrow> chunk \<Rightarrow> bytes \<Rightarrow> unit result" where
  "verify_chunk rt expected data =
     (if ch_index expected < 0 then Inl (Msg ''chunk index must not be negative'')
      else if ch_size expected \<le> 0 \<or> default_chunk_size < ch_size expected
      then Inl (Msg ''chunk size is outside allowed bounds'')
      else and_then (wrap_error ''chunk hash'' (validate_digest (ch_hash expected))) (\<lambda>_.
        if int (length data) \<noteq> ch_size expected then Inl (Msg ''chunk size does not match expected'')
        else if hash_of rt data \<noteq> ch_hash expected then Inl (Msg ''chunk integrity verification failed'')
        else Inr ()))"

section \<open>Building and verifying\<close>

text \<open>
  The endless loop of \<open>BuildManifest\<close>, left at the first read that does not fill the buffer;
  \<open>None\<close> is a loop that never ends, which an empty buffer would give. \<open>hashed\<close> is what the
  running digest has seen.
\<close>

partial_function (option) build_chunks ::
  "runtime \<Rightarrow> nat \<Rightarrow> int \<Rightarrow> reader \<Rightarrow> chunk list \<Rightarrow> bytes \<Rightarrow> int \<Rightarrow>
     (chunk list \<times> bytes \<times> int \<times> go_error) option" where
  "build_chunks rt buffer index r chunks hashed byte_total =
     (case read_full buffer r of
        (data, err, r') \<Rightarrow>
          let chunks' = (if data = [] then chunks
                else chunks @ [\<lparr>ch_index = index, ch_size = int (length data), ch_hash = hash_of rt data\<rparr>]);
              hashed' = hashed @ data;
              byte_total' = byte_total + int (length data) in
          case err of
            None \<Rightarrow> build_chunks rt buffer (index + 1) r' chunks' hashed' byte_total'
          | Some e \<Rightarrow> Some (chunks', hashed', byte_total', e))"

definition build_manifest ::
  "runtime \<Rightarrow> bytes \<Rightarrow> reader option \<Rightarrow> int \<Rightarrow> manifest result option" where
  "build_manifest rt filename source chunk_size =
     (case validate_filename filename of
        Inl e \<Rightarrow> Some (Inl e)
      | Inr _ \<Rightarrow>
      case source of
        None \<Rightarrow> Some (Inl (Msg ''manifest reader must not be nil''))
      | Some r \<Rightarrow>
      case validate_chunk_size chunk_size of
        Inl e \<Rightarrow> Some (Inl e)
      | Inr _ \<Rightarrow>
      case build_chunks rt (nat chunk_size) 0 r [] [] 0 of
        None \<Rightarrow> None
      | Some (chunks, hashed, byte_total, err) \<Rightarrow>
          if err = ErrEOF \<or> err = ErrUnexpectedEOF then
            let m = \<lparr>mf_version = manifest_version, mf_filename = filename, mf_size = byte_total,
                  mf_chunk_size = chunk_size, mf_hash = hex_encode (rt_sha256 rt hashed),
                  mf_chunks = chunks\<rparr> in
            Some (and_then (wrap_error ''validate built manifest'' (validate_manifest rt m)) (\<lambda>_. Inr m))
          else Some (Inl (Wrap ''read payload for manifest'' err)))"

fun verify_chunks :: "runtime \<Rightarrow> chunk list \<Rightarrow> reader \<Rightarrow> bytes \<Rightarrow> (bytes \<times> reader) result" where
  "verify_chunks rt [] r hashed = Inr (hashed, r)"
| "verify_chunks rt (expected # cs) r hashed =
     (case read_full (nat (ch_size expected)) r of
        (data, Some e, r') \<Rightarrow> Inl (Wrap ''read chunk'' e)
      | (data, None, r') \<Rightarrow>
          and_then (verify_chunk rt expected data) (\<lambda>_. verify_chunks rt cs r' (hashed @ data)))"

definition verify_payload :: "runtime \<Rightarrow> manifest \<Rightarrow> reader option \<Rightarrow> unit result" where
  "verify_payload rt m source =
     and_then (wrap_error ''validate manifest'' (validate_manifest rt m)) (\<lambda>_.
       case source of
         None \<Rightarrow> Inl (Msg ''payload reader must not be nil'')
       | Some r \<Rightarrow>
           and_then (verify_chunks rt (mf_chunks m) r []) (\<lambda>(hashed, r').
             case read_one r' of
               (True, _) \<Rightarrow> Inl (Msg ''payload contains undeclared trailing data'')
             | (False, err, _) \<Rightarrow>
                 if err \<noteq> None \<and> err \<noteq> Some ErrEOF
                 then Inl (Wrap ''check payload boundary'' (the err))
                 else if hex_encode (rt_sha256 rt hashed) \<noteq> mf_hash m
                 then Inl (Msg ''whole-payload integrity verification failed'')
                 else Inr ()))"

section \<open>The chunks of a payload\<close>

text \<open>The reference: cut the payload into blocks, the last one possibly shorter.\<close>

function blocks :: "nat \<Rightarrow> bytes \<Rightarrow> bytes list" where
  "blocks n bs = (if n = 0 \<or> bs = [] then [] else take n bs # blocks n (drop n bs))"
  by pat_completeness auto
termination by (relation "measure (\<lambda>(n, bs). length bs)") auto

declare blocks.simps [simp del]

lemma blocks_Nil [simp]: "blocks n [] = []"
  by (simp add: blocks.simps)

lemma blocks_step: "0 < n \<Longrightarrow> bs \<noteq> [] \<Longrightarrow> blocks n bs = take n bs # blocks n (drop n bs)"
  by (subst blocks.simps) simp

lemma concat_blocks: "0 < n \<Longrightarrow> concat (blocks n bs) = bs"
proof (induction n bs rule: blocks.induct)
  case (1 n bs)
  then show ?case by (cases "bs = []") (simp_all add: blocks_step)
qed

lemma blocks_sizes: "b \<in> set (blocks n bs) \<Longrightarrow> b \<noteq> [] \<and> length b \<le> n"
proof (induction n bs rule: blocks.induct)
  case (1 n bs)
  then show ?case by (cases "n = 0 \<or> bs = []") (auto simp: blocks.simps [of n bs])
qed

lemma blocks_full:
  "i + 1 < length (blocks n bs) \<Longrightarrow> length (blocks n bs ! i) = n"
proof (induction n bs arbitrary: i rule: blocks.induct)
  case (1 n bs)
  have ne: "\<not> (n = 0 \<or> bs = [])"
  proof
    assume "n = 0 \<or> bs = []"
    then have "blocks n bs = []" by (subst blocks.simps) simp
    with 1(2) show False by simp
  qed
  then have step: "blocks n bs = take n bs # blocks n (drop n bs)" by (simp add: blocks_step)
  with 1(2) have more: "blocks n (drop n bs) \<noteq> []" by auto
  show ?case
  proof (cases i)
    case 0
    from more have "drop n bs \<noteq> []" by (intro notI) simp
    with 0 show ?thesis by (simp add: step)
  next
    case (Suc j)
    with 1(1) [OF ne, of j] 1(2) show ?thesis by (simp add: step)
  qed
qed

lemma length_blocks:
  "0 < n \<Longrightarrow> length (blocks n bs) = length bs div n + (if length bs mod n = 0 then 0 else 1)"
proof (induction n bs rule: blocks.induct)
  case (1 n bs)
  show ?case
  proof (cases "bs = []")
    case False
    then have step: "length (blocks n bs) = Suc (length (blocks n (drop n bs)))"
      using 1(2) by (simp add: blocks_step)
    show ?thesis
    proof (cases "n \<le> length bs")
      case True
      then have "length bs div n = Suc (length (drop n bs) div n)" "length bs mod n = length (drop n bs) mod n"
        using 1(2) by (simp_all add: le_div_geq le_mod_geq)
      with 1 False step show ?thesis by simp
    next
      case False
      with \<open>bs \<noteq> []\<close> step show ?thesis by simp
    qed
  qed simp
qed

definition chunk_of :: "runtime \<Rightarrow> int \<Rightarrow> bytes \<Rightarrow> chunk" where
  "chunk_of rt i b = \<lparr>ch_index = i, ch_size = int (length b), ch_hash = hash_of rt b\<rparr>"

fun chunks_from :: "runtime \<Rightarrow> int \<Rightarrow> bytes list \<Rightarrow> chunk list" where
  "chunks_from rt i [] = []"
| "chunks_from rt i (b # bs) = chunk_of rt i b # chunks_from rt (i + 1) bs"

lemma length_chunks_from [simp]: "length (chunks_from rt i bs) = length bs"
  by (induction bs arbitrary: i) auto

lemma chunks_from_eq_Nil [simp]: "chunks_from rt i bs = [] \<longleftrightarrow> bs = []"
  by (cases bs) auto

definition manifest_of :: "runtime \<Rightarrow> bytes \<Rightarrow> bytes \<Rightarrow> int \<Rightarrow> manifest" where
  "manifest_of rt filename payload chunk_size =
     \<lparr>mf_version = manifest_version, mf_filename = filename, mf_size = int (length payload),
      mf_chunk_size = chunk_size, mf_hash = hash_of rt payload,
      mf_chunks = chunks_from rt 0 (blocks (nat chunk_size) payload)\<rparr>"

text \<open>The loop of \<open>BuildManifest\<close> computes the reference, in as many reads as there are blocks.\<close>

lemma build_chunks_blocks:
  assumes "0 < n"
  shows "build_chunks rt n i \<lparr>rd_bytes = bs, rd_end = e\<rparr> cs hashed t =
    Some (cs @ chunks_from rt i (blocks n bs), hashed @ bs, t + int (length bs),
      full_error (length bs mod n \<noteq> 0) e)"
proof (induction "length bs" arbitrary: bs i cs hashed t rule: less_induct)
  case less
  show ?case
  proof (cases "n \<le> length bs")
    case True
    then have ne: "bs \<noteq> []" "take n bs \<noteq> []" and less_bs: "length (drop n bs) < length bs"
      using assms by auto
    have "build_chunks rt n i \<lparr>rd_bytes = bs, rd_end = e\<rparr> cs hashed t =
        build_chunks rt n (i + 1) \<lparr>rd_bytes = drop n bs, rd_end = e\<rparr> (cs @ [chunk_of rt i (take n bs)])
          (hashed @ take n bs) (t + int n)"
      using True ne by (subst build_chunks.simps) (simp add: read_full_def chunk_of_def min_absorb2 Let_def)
    also have "\<dots> = Some (cs @ chunks_from rt i (blocks n bs), hashed @ bs, t + int (length bs),
        full_error (length bs mod n \<noteq> 0) e)"
      using True less [OF less_bs] assms ne
      by (simp add: blocks_step [of n bs] le_mod_geq of_nat_diff)
    finally show ?thesis .
  next
    case False
    then have "length bs mod n = length bs" by simp
    moreover have "blocks n bs = (if bs = [] then [] else [bs])"
      using False assms by (simp add: blocks_step)
    ultimately show ?thesis
      using False by (subst build_chunks.simps) (auto simp: read_full_def chunk_of_def Let_def)
  qed
qed

text \<open>The reference manifest is valid.\<close>

lemma validate_digest_hash [simp]: "sha256_sized rt \<Longrightarrow> validate_digest (hash_of rt b) = Inr ()"
  by (simp add: validate_digest_def hash_of_def sha256_sized_def)

lemma validate_chunks_blocks:
  assumes "sha256_sized rt" and "\<forall>b \<in> set bs. b \<noteq> [] \<and> int (length b) \<le> chunk_size"
    and "\<forall>j. j + 1 < length bs \<longrightarrow> int (length (bs ! j)) = chunk_size"
    and "count = i + length bs"
  shows "validate_chunks chunk_size count i (chunks_from rt (int i) bs) t = Inr (t + int (length (concat bs)))"
  using assms
proof (induction bs arbitrary: i t)
  case (Cons b bs)
  have "int (length b) = chunk_size" if "bs \<noteq> []" using Cons.prems(3) [rule_format, of 0] that by simp
  moreover have "\<forall>j. j + 1 < length bs \<longrightarrow> int (length (bs ! j)) = chunk_size"
    using Cons.prems(3) by (metis Suc_eq_plus1 Suc_less_eq length_Cons nth_Cons_Suc)
  moreover have "int (i + 1) = int i + 1" by simp
  ultimately show ?case
    using Cons.IH [of "i + 1" "t + int (length b)"] Cons.prems(1,2,4)
    by (auto simp: chunk_of_def add_ac)
qed simp

lemma manifest_of_valid:
  assumes rt: "sha256_sized rt" and name: "validate_filename filename = Inr ()"
    and size: "validate_chunk_size chunk_size = Inr ()"
  shows "validate_manifest rt (manifest_of rt filename payload chunk_size) = Inr ()"
proof -
  define n where "n = nat chunk_size"
  have n: "0 < n" "chunk_size = int n"
    using size by (auto simp: validate_chunk_size_def n_def split: if_splits)
  let ?bs = "blocks n payload"
  have chunks: "validate_chunks chunk_size (length ?bs) 0 (chunks_from rt 0 ?bs) 0 =
      Inr (int (length payload))"
    using validate_chunks_blocks [OF rt, of ?bs chunk_size "length ?bs" 0 0] blocks_sizes [of _ n payload]
      blocks_full [of _ n payload] n concat_blocks [OF n(1), of payload] by auto
  have count: "int (length ?bs) = int (length payload) div chunk_size +
      (if int (length payload) mod chunk_size \<noteq> 0 then 1 else 0)"
    unfolding n(2) length_blocks [OF n(1)] by (simp add: zdiv_int flip: zmod_int)
  have ne: "?bs \<noteq> []" if "payload \<noteq> []" using concat_blocks [OF n(1), of payload] that by auto
  show ?thesis
  proof (cases "payload = []")
    case True
    with rt name size show ?thesis by (simp add: validate_manifest_def manifest_of_def)
  next
    case False
    with ne chunks count rt name size show ?thesis
      by (simp add: validate_manifest_def manifest_of_def Let_def flip: n_def)
  qed
qed

text \<open>Reading the payload back.\<close>

lemma verify_chunks_blocks:
  assumes "sha256_sized rt" and "\<forall>b \<in> set bs. b \<noteq> [] \<and> int (length b) \<le> default_chunk_size" and "0 \<le> i"
  shows "verify_chunks rt (chunks_from rt i bs) \<lparr>rd_bytes = concat bs @ rest, rd_end = e\<rparr> hashed =
    Inr (hashed @ concat bs, \<lparr>rd_bytes = rest, rd_end = e\<rparr>)"
  using assms
proof (induction bs arbitrary: i hashed)
  case (Cons b bs)
  have "verify_chunk rt (chunk_of rt i b) b = Inr ()"
    using Cons.prems by (simp add: verify_chunk_def chunk_of_def)
  with Cons show ?case by (simp add: read_full_def chunk_of_def)
qed simp

text \<open>What a successful verification has read.\<close>

lemma verify_chunks_Inr:
  "verify_chunks rt cs r hashed = Inr (h, r') \<Longrightarrow>
     \<exists>bs. rd_bytes r = concat bs @ rd_bytes r' \<and> h = hashed @ concat bs \<and> rd_end r' = rd_end r \<and>
       list_all2 (\<lambda>c b. verify_chunk rt c b = Inr ()) cs bs"
proof (induction cs arbitrary: r hashed)
  case (Cons c cs)
  let ?n = "nat (ch_size c)"
  from Cons.prems have len: "?n \<le> length (rd_bytes r)"
    and ok: "verify_chunk rt c (take ?n (rd_bytes r)) = Inr ()"
    and rest: "verify_chunks rt cs (r\<lparr>rd_bytes := drop ?n (rd_bytes r)\<rparr>) (hashed @ take ?n (rd_bytes r)) = Inr (h, r')"
    by (auto simp: read_full_def result_iff split: if_splits)
  from Cons.IH [OF rest] obtain bs where "drop ?n (rd_bytes r) = concat bs @ rd_bytes r'"
    "h = (hashed @ take ?n (rd_bytes r)) @ concat bs" "rd_end r' = rd_end r"
    "list_all2 (\<lambda>c b. verify_chunk rt c b = Inr ()) cs bs" by auto
  with ok show ?case
    by (intro exI [of _ "take ?n (rd_bytes r) # bs"])
      (auto, metis append_assoc append_take_drop_id)
qed simp

lemma verify_payload_Inr:
  assumes "verify_payload rt m (Some r) = Inr ()"
  shows "validate_manifest rt m = Inr () \<and> rd_end r \<in> {Eof, Broken ErrEOF} \<and> hash_of rt (rd_bytes r) = mf_hash m \<and>
     (\<exists>bs. rd_bytes r = concat bs \<and> list_all2 (\<lambda>c b. verify_chunk rt c b = Inr ()) (mf_chunks m) bs)"
proof -
  from assms obtain h r' where valid: "validate_manifest rt m = Inr ()"
    and chunks: "verify_chunks rt (mf_chunks m) r [] = Inr (h, r')"
    and rest: "(case read_one r' of
             (True, _) \<Rightarrow> Inl (Msg ''payload contains undeclared trailing data'')
           | (False, err, _) \<Rightarrow>
               if err \<noteq> None \<and> err \<noteq> Some ErrEOF
               then Inl (Wrap ''check payload boundary'' (the err))
               else if hex_encode (rt_sha256 rt h) \<noteq> mf_hash m
               then Inl (Msg ''whole-payload integrity verification failed'')
               else Inr ()) = Inr ()"
    by (auto simp: verify_payload_def result_iff)
  then have "rd_bytes r' = [] \<and> rd_end r' \<in> {Eof, Broken ErrEOF} \<and> hex_encode (rt_sha256 rt h) = mf_hash m"
    by (auto simp: read_one_def split: list.splits stream_end.splits if_splits)
  with verify_chunks_Inr [OF chunks] valid show ?thesis by (auto simp: hash_of_def)
qed

lemma verify_chunk_Inr:
  "verify_chunk rt c b = Inr () \<longleftrightarrow>
     0 \<le> ch_index c \<and> 0 < ch_size c \<and> ch_size c \<le> default_chunk_size \<and>
     validate_digest (ch_hash c) = Inr () \<and> int (length b) = ch_size c \<and> hash_of rt b = ch_hash c"
  by (auto simp: verify_chunk_def result_iff not_le)

lemma validate_chunks_Inr:
  "validate_chunks chunk_size count i cs t = Inr t' \<Longrightarrow> t' = t + sum_list (map ch_size cs)"
  by (induction chunk_size count i cs t rule: validate_chunks.induct) (auto simp: result_iff split: if_splits)

lemma validate_manifest_size:
  "validate_manifest rt m = Inr () \<Longrightarrow> mf_size m = sum_list (map ch_size (mf_chunks m))"
  by (auto simp: validate_manifest_def result_iff Let_def dest: validate_chunks_Inr split: if_splits)

lemma build_manifest_returns: "\<exists>res. build_manifest rt filename source chunk_size = Some res"
proof (cases "validate_filename filename")
  case (Inr u)
  show ?thesis
  proof (cases source)
    case (Some r)
    show ?thesis
    proof (cases "validate_chunk_size chunk_size")
      case (Inr v)
      then have "0 < nat chunk_size" by (auto simp: validate_chunk_size_def split: if_splits)
      from build_chunks_blocks [OF this, of rt 0 "rd_bytes r" "rd_end r" "[]" "[]" 0]
      obtain cs h t e where "build_chunks rt (nat chunk_size) 0 r [] [] 0 = Some (cs, h, t, e)" by (cases r) auto
      with \<open>validate_filename filename = Inr u\<close> Some Inr show ?thesis
        by (simp add: build_manifest_def Let_def)
    qed (simp add: build_manifest_def Inr Some)
  qed (simp add: build_manifest_def Inr)
qed (simp add: build_manifest_def)

lemma manifest_verifies:
  assumes rt: "sha256_sized rt" and name: "validate_filename filename = Inr ()"
    and size: "validate_chunk_size chunk_size = Inr ()"
  shows "verify_payload rt (manifest_of rt filename payload chunk_size)
    (Some \<lparr>rd_bytes = payload, rd_end = Eof\<rparr>) = Inr ()"
proof -
  let ?m = "manifest_of rt filename payload chunk_size"
  define n where "n = nat chunk_size"
  have n: "0 < n" "chunk_size = int n" "int n \<le> default_chunk_size"
    using size by (auto simp: validate_chunk_size_def n_def split: if_splits)
  have valid: "validate_manifest rt ?m = Inr ()" using assms by (rule manifest_of_valid)
  have "\<forall>b \<in> set (blocks n payload). b \<noteq> [] \<and> int (length b) \<le> default_chunk_size"
    using blocks_sizes [of _ n payload] n by fastforce
  from verify_chunks_blocks [OF rt this, of 0 "[]" Eof "[]"]
  have "verify_chunks rt (mf_chunks ?m) \<lparr>rd_bytes = payload, rd_end = Eof\<rparr> [] =
      Inr (payload, \<lparr>rd_bytes = [], rd_end = Eof\<rparr>)"
    using concat_blocks [OF n(1), of payload] by (simp add: manifest_of_def n)
  with valid show ?thesis
    by (simp add: verify_payload_def read_one_def manifest_of_def hash_of_def)
qed

section \<open>Properties\<close>

text \<open>
  C32. Building a manifest always ends. On a payload that can be read to its end, with a valid
  leaf name and a chunk size in bounds, it returns the manifest that cuts the payload into
  full chunks and one last shorter one, which is valid. Where reading breaks off with an error, it
  is passed on, but for \<open>io.ErrUnexpectedEOF\<close>: a stream that says itself that it was cut short is
  taken for a whole payload, like one that ends with \<open>io.EOF\<close>.
\<close>

theorem build_manifest_correct:
  assumes "sha256_sized rt"
  shows "(\<exists>res. build_manifest rt filename source chunk_size = Some res) \<and>
    (validate_filename filename = Inr () \<and> validate_chunk_size chunk_size = Inr () \<longrightarrow>
       build_manifest rt filename (Some \<lparr>rd_bytes = payload, rd_end = Eof\<rparr>) chunk_size =
         Some (Inr (manifest_of rt filename payload chunk_size)) \<and>
       validate_manifest rt (manifest_of rt filename payload chunk_size) = Inr () \<and>
       (\<forall>e. build_manifest rt filename (Some \<lparr>rd_bytes = payload, rd_end = Broken e\<rparr>) chunk_size =
          Some (if e = ErrEOF \<or> e = ErrUnexpectedEOF then Inr (manifest_of rt filename payload chunk_size)
                else Inl (Wrap ''read payload for manifest'' e))))"
proof (intro conjI impI allI)
  show "\<exists>res. build_manifest rt filename source chunk_size = Some res"
    by (rule build_manifest_returns)
  assume ok: "validate_filename filename = Inr () \<and> validate_chunk_size chunk_size = Inr ()"
  then show valid: "validate_manifest rt (manifest_of rt filename payload chunk_size) = Inr ()"
    using assms manifest_of_valid by blast
  have "0 < nat chunk_size" using ok by (auto simp: validate_chunk_size_def split: if_splits)
  note built = build_chunks_blocks [OF this, of rt 0 payload _ "[]" "[]" 0]
  show "build_manifest rt filename (Some \<lparr>rd_bytes = payload, rd_end = Eof\<rparr>) chunk_size =
      Some (Inr (manifest_of rt filename payload chunk_size))"
    using built ok valid by (simp add: build_manifest_def manifest_of_def hash_of_def full_error_def Let_def)
  show "build_manifest rt filename (Some \<lparr>rd_bytes = payload, rd_end = Broken e\<rparr>) chunk_size =
      Some (if e = ErrEOF \<or> e = ErrUnexpectedEOF then Inr (manifest_of rt filename payload chunk_size)
            else Inl (Wrap ''read payload for manifest'' e))" for e
    using built ok valid by (simp add: build_manifest_def manifest_of_def hash_of_def full_error_def Let_def)
qed

lemma sample_filename: "validate_filename ''a.txt'' = Inr ()"
  by (simp add: validate_filename_def is_blank_def trim_space_printable printable_def)

lemma sample_chunk_size: "validate_chunk_size 4 = Inr ()"
  by (simp add: validate_chunk_size_def default_chunk_size_def)

theorem build_manifest_correct_witness:
  "\<exists>m. build_manifest sample_runtime ''a.txt'' (Some \<lparr>rd_bytes = ''0123456789'', rd_end = Eof\<rparr>) 4 = Some (Inr m) \<and>
     map ch_size (mf_chunks m) = [4, 4, 2]"
proof -
  have "build_manifest sample_runtime ''a.txt'' (Some \<lparr>rd_bytes = ''0123456789'', rd_end = Eof\<rparr>) 4 =
      Some (Inr (manifest_of sample_runtime ''a.txt'' ''0123456789'' 4))"
    using build_manifest_correct [OF sample_runtime_ok(1), of "''a.txt''" None 4 "''0123456789''"]
      sample_filename sample_chunk_size by simp
  moreover have "map ch_size (mf_chunks (manifest_of sample_runtime ''a.txt'' ''0123456789'' 4)) = [4, 4, 2]"
    by (simp add: manifest_of_def chunk_of_def blocks_step)
  ultimately show ?thesis by (intro exI conjI)
qed

text \<open>
  C22. A payload verifies against the manifest built from it, and against that manifest nothing
  else does: a stream that verifies has exactly the size the manifest declares, ends where
  the chunks end, and is the same payload unless the digest collides.
\<close>

theorem manifest_identifies_payload:
  assumes rt: "sha256_sized rt" and name: "validate_filename filename = Inr ()"
    and size: "validate_chunk_size chunk_size = Inr ()"
  shows "verify_payload rt (manifest_of rt filename payload chunk_size)
      (Some \<lparr>rd_bytes = payload, rd_end = Eof\<rparr>) = Inr () \<and>
    (\<forall>r. verify_payload rt (manifest_of rt filename payload chunk_size) (Some r) = Inr () \<longrightarrow>
       rd_end r \<in> {Eof, Broken ErrEOF} \<and> length (rd_bytes r) = length payload \<and>
       (no_collision rt (rd_bytes r) payload \<longrightarrow> rd_bytes r = payload))"
proof (intro conjI allI impI)
  let ?m = "manifest_of rt filename payload chunk_size"
  have valid: "validate_manifest rt ?m = Inr ()" using assms by (rule manifest_of_valid)
  show "verify_payload rt ?m (Some \<lparr>rd_bytes = payload, rd_end = Eof\<rparr>) = Inr ()"
    using assms by (rule manifest_verifies)
  fix r assume ok: "verify_payload rt ?m (Some r) = Inr ()"
  note read = verify_payload_Inr [OF ok]
  then show "rd_end r \<in> {Eof, Broken ErrEOF}" by blast
  from read obtain bs where bs: "rd_bytes r = concat bs"
    "list_all2 (\<lambda>c b. verify_chunk rt c b = Inr ()) (mf_chunks ?m) bs" by blast
  from bs(2) have "sum_list (map ch_size (mf_chunks ?m)) = int (length (concat bs))"
    by (induction rule: list_all2_induct) (auto simp: verify_chunk_Inr)
  with validate_manifest_size [OF valid] bs(1) show "length (rd_bytes r) = length payload"
    by (simp add: manifest_of_def)
  assume "no_collision rt (rd_bytes r) payload"
  with read show "rd_bytes r = payload"
    by (simp add: manifest_of_def hash_of_def no_collision_def)
qed

theorem manifest_identifies_payload_witness:
  "verify_payload sample_runtime (manifest_of sample_runtime ''a.txt'' ''0123456789'' 4)
     (Some \<lparr>rd_bytes = ''0123456789'', rd_end = Eof\<rparr>) = Inr () \<and>
   verify_payload sample_runtime (manifest_of sample_runtime ''a.txt'' ''0123456789'' 4)
     (Some \<lparr>rd_bytes = ''01234567899'', rd_end = Eof\<rparr>) \<noteq> Inr ()"
  using manifest_identifies_payload [OF sample_runtime_ok(1) sample_filename sample_chunk_size,
      of "''0123456789''"] by auto

section \<open>The record of a transfer\<close>

text \<open>The data types of \<open>session.go\<close>, which no code of the repository uses yet; a status has its JSON text.\<close>

datatype transfer_status = Queued | Transferring | Verifying | Completed | Failed

fun transfer_status_text :: "transfer_status \<Rightarrow> bytes" where
  "transfer_status_text Queued = ''queued''"
| "transfer_status_text Transferring = ''transferring''"
| "transfer_status_text Verifying = ''verifying''"
| "transfer_status_text Completed = ''completed''"
| "transfer_status_text Failed = ''failed''"

record transfer_session =
  ts_id :: bytes
  ts_filename :: bytes
  ts_size :: int
  ts_status :: transfer_status
  ts_created :: time

lemma transfer_status_text_inj: "transfer_status_text a = transfer_status_text b \<longleftrightarrow> a = b"
  by (cases a; cases b) simp_all

end
