(* ===== verification/Frames.thy ===== *)
theory Frames
  imports Manifests
begin

text \<open>
  Length-prefixed frames (\<open>transport/frame.go\<close>, \<open>transport/binary_frame.go\<close>): writers that may
  write part of what they are given, the big-endian prefix on 32-bit words, binary frames and
  JSON control frames. What \<open>encoding/json\<close> makes of a control record is a parameter, a codec
  per record type; the documented behaviour a theorem needs is \<open>codec_ok\<close>.
\<close>

section \<open>Writers\<close>

abbreviation ErrShortWrite :: go_error where
  "ErrShortWrite \<equiv> Sentinel ''short write''"

text \<open>
  An \<open>io.Writer\<close>: what it has written, and for each coming call how many bytes it takes and
  whether it fails; past the end of this plan it takes everything.
\<close>

record writer =
  wr_bytes :: bytes
  wr_plan :: "(nat \<times> go_error option) list"

definition write_once :: "writer \<Rightarrow> bytes \<Rightarrow> nat \<times> go_error option \<times> writer" where
  "write_once w data =
     (case wr_plan w of
        [] \<Rightarrow> (length data, None, w\<lparr>wr_bytes := wr_bytes w @ data\<rparr>)
      | (n, err) # plan \<Rightarrow>
          let n = min n (length data) in
          (n, err, \<lparr>wr_bytes = wr_bytes w @ take n data, wr_plan = plan\<rparr>))"

function write_frame_bytes :: "writer \<Rightarrow> bytes \<Rightarrow> unit result \<times> writer" where
  "write_frame_bytes w data =
     (if data = [] then (Inr (), w)
      else case write_once w data of
        (n, err, w') \<Rightarrow>
          let rest = (if 0 < n then drop n data else data) in
          case err of
            Some e \<Rightarrow> (Inl e, w')
          | None \<Rightarrow> if n = 0 then (Inl ErrShortWrite, w') else write_frame_bytes w' rest)"
  by pat_completeness auto
termination by (relation "measure (\<lambda>(w, data). length data)") auto

declare write_frame_bytes.simps [simp del]

definition open_writer :: "writer \<Rightarrow> bool" where
  "open_writer w \<longleftrightarrow> wr_plan w = []"

lemma write_frame_bytes_open:
  "open_writer w \<Longrightarrow> write_frame_bytes w data = (Inr (), w\<lparr>wr_bytes := wr_bytes w @ data\<rparr>)"
  by (cases "data = []")
    (simp_all add: write_frame_bytes.simps [of w data] write_once_def open_writer_def
      write_frame_bytes.simps [of _ "[]"])

text \<open>A writer has written a prefix of the data, all of it exactly on success.\<close>

lemma write_frame_bytes_prefix:
  "write_frame_bytes w data = (r, w') \<Longrightarrow>
     \<exists>k \<le> length data. wr_bytes w' = wr_bytes w @ take k data \<and> (is_ok r \<longrightarrow> k = length data)"
proof (induction "length data" arbitrary: w data r w' rule: less_induct)
  case less
  show ?case
  proof (cases "data = []")
    case True
    with less(2) show ?thesis by (simp add: write_frame_bytes.simps [of w "[]"])
  next
    case False
    obtain n err w1 where one: "write_once w data = (n, err, w1)" by (cases "write_once w data")
    then have w1: "wr_bytes w1 = wr_bytes w @ take n data" "n \<le> length data"
      by (auto simp: write_once_def Let_def split: list.splits)
    show ?thesis
    proof (cases "err = None \<and> 0 < n")
      case True
      then have "write_frame_bytes w1 (drop n data) = (r, w')"
        using less(2) False one by (subst (asm) write_frame_bytes.simps) simp
      with less(1) [of "drop n data" w1 r w'] True \<open>data \<noteq> []\<close>
      obtain k where "k \<le> length (drop n data)" "wr_bytes w' = wr_bytes w1 @ take k (drop n data)"
        "is_ok r \<longrightarrow> k = length (drop n data)" by auto
      with w1 show ?thesis
        by (intro exI [of _ "n + k"]) (auto simp: take_add)
    next
      case False
      with \<open>data \<noteq> []\<close> one less(2) have "w' = w1" "\<not> is_ok r"
        by (auto simp: write_frame_bytes.simps [of w data] Let_def split: option.splits if_splits)
      with w1 show ?thesis by auto
    qed
  qed
qed

section \<open>The length prefix\<close>

definition max_frame_size :: nat where
  "max_frame_size = 2 ^ 20"

text \<open>\<open>binary.BigEndian.PutUint32\<close> and \<open>Uint32\<close>.\<close>

definition put_uint32 :: "u32 \<Rightarrow> bytes" where
  "put_uint32 v = map (\<lambda>i. char_of (unat (drop_bit i v) mod 256)) [24, 16, 8, 0]"

definition get_uint32 :: "bytes \<Rightarrow> u32" where
  "get_uint32 b =
     (case b of
        [b0, b1, b2, b3] \<Rightarrow>
          of_nat (of_char b0 * 2 ^ 24 + of_char b1 * 2 ^ 16 + of_char b2 * 2 ^ 8 + of_char b3)
      | _ \<Rightarrow> 0)"

lemma length_put_uint32 [simp]: "length (put_uint32 v) = 4"
  by (simp add: put_uint32_def)

lemma put_uint32_not_Nil [simp]: "put_uint32 v \<noteq> []"
  by (simp add: put_uint32_def)

lemma base_256:
  assumes "(n :: nat) < 2 ^ 32"
  shows "n div 2 ^ 24 mod 256 * 2 ^ 24 + n div 2 ^ 16 mod 256 * 2 ^ 16 + n div 2 ^ 8 mod 256 * 2 ^ 8 +
    n mod 256 = n"
proof -
  define a b c where "a = n div 256" and "b = a div 256" and "c = b div 256"
  have "n div 2 ^ 8 = a" "n div 2 ^ 16 = b" "n div 2 ^ 24 = c"
    by (simp_all add: a_def b_def c_def flip: div_mult2_eq)
  moreover have "c < 256"
    using assms by (simp add: a_def b_def c_def less_mult_imp_div_less flip: div_mult2_eq)
  moreover have "n = a * 256 + n mod 256" "a = b * 256 + a mod 256" "b = c * 256 + b mod 256"
    unfolding a_def b_def c_def by (rule div_mult_mod_eq [symmetric])+
  ultimately show ?thesis by simp
qed

lemma get_put_uint32 [simp]: "get_uint32 (put_uint32 v) = v"
proof -
  have bytes: "unat (drop_bit i v) mod 256 = unat v div 2 ^ i mod 256" for i
    by (simp add: unat_drop_bit_eq drop_bit_eq_div [where 'a = nat])
  have "get_uint32 (put_uint32 v) = of_nat (unat v div 2 ^ 24 mod 256 * 2 ^ 24 + unat v div 2 ^ 16 mod 256 * 2 ^ 16 +
      unat v div 2 ^ 8 mod 256 * 2 ^ 8 + unat v div 2 ^ 0 mod 256)"
    unfolding put_uint32_def bytes get_uint32_def by simp
  also have "\<dots> = of_nat (unat v)"
  proof (rule arg_cong [where f = of_nat])
    have "unat v < 2 ^ LENGTH(32)" by (rule unsigned_less)
    then have "unat v < 2 ^ 32" by simp
    from base_256 [OF this]
    show "unat v div 2 ^ 24 mod 256 * 2 ^ 24 + unat v div 2 ^ 16 mod 256 * 2 ^ 16 +
        unat v div 2 ^ 8 mod 256 * 2 ^ 8 + unat v div 2 ^ 0 mod 256 = unat v"
      by (simp only: power_0 div_by_1)
  qed
  finally show ?thesis by simp
qed

lemma put_uint32_inject [simp]: "put_uint32 v = put_uint32 w \<longleftrightarrow> v = w"
  by (metis get_put_uint32)

section \<open>Binary frames\<close>

definition frame_of :: "bytes \<Rightarrow> bytes" where
  "frame_of payload = put_uint32 (of_nat (length payload)) @ payload"

text \<open>A nil writer or reader is \<open>None\<close>.\<close>

definition write_binary_frame :: "writer option \<Rightarrow> bytes \<Rightarrow> unit result \<times> writer option" where
  "write_binary_frame w payload =
     (case w of
        None \<Rightarrow> (Inl (Msg ''binary frame writer must not be nil''), None)
      | Some w \<Rightarrow>
          if payload = [] \<or> max_frame_size < length payload
          then (Inl (Msg ''binary frame size is outside allowed bounds''), Some w)
          else case write_frame_bytes w (put_uint32 (of_nat (length payload))) of
            (Inl e, w1) \<Rightarrow> (Inl (Wrap ''write binary frame header'' e), Some w1)
          | (Inr _, w1) \<Rightarrow>
              (case write_frame_bytes w1 payload of
                 (Inl e, w2) \<Rightarrow> (Inl (Wrap ''write binary frame payload'' e), Some w2)
               | (Inr _, w2) \<Rightarrow> (Inr (), Some w2)))"

definition read_binary_frame :: "reader option \<Rightarrow> int \<Rightarrow> bytes result \<times> reader option" where
  "read_binary_frame r max_size =
     (case r of
        None \<Rightarrow> (Inl (Msg ''binary frame reader must not be nil''), None)
      | Some r \<Rightarrow>
          if max_size \<le> 0 \<or> int max_frame_size < max_size
          then (Inl (Msg ''binary frame maximum is outside allowed bounds''), Some r)
          else case read_full 4 r of
            (_, Some e, r1) \<Rightarrow> (Inl (Wrap ''read binary frame header'' e), Some r1)
          | (header, None, r1) \<Rightarrow>
              let size = get_uint32 header in
              if size = 0 \<or> of_nat max_frame_size < size \<or> of_int max_size < size
              then (Inl (Msg ''binary frame size is outside allowed bounds''), Some r1)
              else (case read_full (unat size) r1 of
                (_, Some e, r2) \<Rightarrow> (Inl (Wrap ''read binary frame payload'' e), Some r2)
              | (payload, None, r2) \<Rightarrow> (Inr payload, Some r2)))"

section \<open>JSON frames\<close>

text \<open>
  What the program uses of \<open>encoding/json\<close> for a record type: \<open>Marshal\<close>; a decoder with
  unknown fields disallowed, which returns the value and what it has not read; and what a second
  decode of the rest meets.
\<close>

datatype json_next = NextEof | NextValue | NextError go_error

record 'a codec =
  cd_marshal :: "'a \<Rightarrow> bytes result"
  cd_decode :: "bytes \<Rightarrow> ('a \<times> bytes) result"
  cd_next :: "bytes \<Rightarrow> json_next"

text \<open>Documented behaviour, at the value \<open>v\<close>: its text decodes to it and nothing follows.\<close>

definition codec_ok :: "'a codec \<Rightarrow> 'a \<Rightarrow> bool" where
  "codec_ok cd v \<longleftrightarrow>
     (\<exists>b. cd_marshal cd v = Inr b \<and> b \<noteq> [] \<and> length b \<le> max_frame_size \<and>
        cd_decode cd b = Inr (v, [])) \<and>
     cd_next cd [] = NextEof"

definition write_json_frame :: "'a codec \<Rightarrow> writer option \<Rightarrow> 'a \<Rightarrow> unit result \<times> writer option" where
  "write_json_frame cd w v =
     (case w of
        None \<Rightarrow> (Inl (Msg ''frame writer must not be nil''), None)
      | Some w \<Rightarrow>
          case cd_marshal cd v of
            Inl e \<Rightarrow> (Inl (Wrap ''encode frame'' e), Some w)
          | Inr payload \<Rightarrow>
              if payload = [] \<or> max_frame_size < length payload
              then (Inl (Msg ''frame size is outside allowed bounds''), Some w)
              else case write_frame_bytes w (put_uint32 (of_nat (length payload))) of
                (Inl e, w1) \<Rightarrow> (Inl (Wrap ''write frame header'' e), Some w1)
              | (Inr _, w1) \<Rightarrow>
                  (case write_frame_bytes w1 payload of
                     (Inl e, w2) \<Rightarrow> (Inl (Wrap ''write frame payload'' e), Some w2)
                   | (Inr _, w2) \<Rightarrow> (Inr (), Some w2)))"

definition read_json_frame :: "'a codec \<Rightarrow> reader option \<Rightarrow> 'a result \<times> reader option" where
  "read_json_frame cd r =
     (case r of
        None \<Rightarrow> (Inl (Msg ''frame reader must not be nil''), None)
      | Some r \<Rightarrow>
          case read_full 4 r of
            (_, Some e, r1) \<Rightarrow> (Inl (Wrap ''read frame header'' e), Some r1)
          | (header, None, r1) \<Rightarrow>
              let size = get_uint32 header in
              if size = 0 \<or> of_nat max_frame_size < size
              then (Inl (Msg ''frame size is outside allowed bounds''), Some r1)
              else (case read_full (unat size) r1 of
                (_, Some e, r2) \<Rightarrow> (Inl (Wrap ''read frame payload'' e), Some r2)
              | (payload, None, r2) \<Rightarrow>
                  (case cd_decode cd payload of
                     Inl e \<Rightarrow> (Inl (Wrap ''decode frame'' e), Some r2)
                   | Inr (v, rest) \<Rightarrow>
                       (case cd_next cd rest of
                          NextEof \<Rightarrow> (Inr v, Some r2)
                        | NextValue \<Rightarrow> (Inl (Msg ''frame contains trailing JSON value''), Some r2)
                        | NextError e \<Rightarrow> (Inl (Wrap ''decode trailing frame data'' e), Some r2)))))"

section \<open>What a frame is\<close>

lemma length_frame_of [simp]: "length (frame_of b) = 4 + length b"
  by (simp add: frame_of_def)

lemma small_unat: "n \<le> max_frame_size \<Longrightarrow> unat (of_nat n :: u32) = n"
  by (simp add: max_frame_size_def unat_of_nat take_bit_nat_eq_self)

lemma small_nonzero: "n \<le> max_frame_size \<Longrightarrow> (of_nat n :: u32) = 0 \<longleftrightarrow> n = 0"
  using small_unat [of n] by (metis of_nat_0 unat_0_iff)

lemma small_less: "n \<le> max_frame_size \<Longrightarrow> m \<le> max_frame_size \<Longrightarrow> (of_nat m :: u32) < of_nat n \<longleftrightarrow> m < n"
  by (simp add: word_less_nat_alt small_unat)

text \<open>An open writer appends the whole frame.\<close>

lemma write_binary_frame_open:
  assumes "open_writer w" and "b \<noteq> []" and "length b \<le> max_frame_size"
  shows "write_binary_frame (Some w) b = (Inr (), Some (w\<lparr>wr_bytes := wr_bytes w @ frame_of b\<rparr>))"
  using assms
  by (simp add: write_binary_frame_def write_frame_bytes_open frame_of_def open_writer_def not_less)

lemma write_json_frame_open:
  assumes "open_writer w" and "cd_marshal cd v = Inr b" and "b \<noteq> []" and "length b \<le> max_frame_size"
  shows "write_json_frame cd (Some w) v = (Inr (), Some (w\<lparr>wr_bytes := wr_bytes w @ frame_of b\<rparr>))"
  using assms
  by (simp add: write_json_frame_def write_frame_bytes_open frame_of_def open_writer_def not_less)

lemma read_full_append:
  "n = length a \<Longrightarrow> read_full n (r\<lparr>rd_bytes := a @ b\<rparr>) = (a, None, r\<lparr>rd_bytes := b\<rparr>)"
  by (simp add: read_full_def)

lemma read_binary_frame_of:
  assumes "b \<noteq> []" and "int (length b) \<le> max_size" and "max_size \<le> int max_frame_size"
  shows "read_binary_frame (Some (r\<lparr>rd_bytes := frame_of b @ rest\<rparr>)) max_size = (Inr b, Some (r\<lparr>rd_bytes := rest\<rparr>))"
proof -
  obtain m where m: "max_size = int m" using zero_le_imp_eq_int [of max_size] assms(2) by auto
  have "read_full 4 (r\<lparr>rd_bytes := frame_of b @ rest\<rparr>) =
      (put_uint32 (of_nat (length b)), None, r\<lparr>rd_bytes := b @ rest\<rparr>)"
    by (simp add: frame_of_def read_full_append)
  moreover have "length b \<le> max_frame_size" "m \<le> max_frame_size" "length b \<le> m" "0 < m"
    using assms by (cases b; auto simp: m)+
  ultimately show ?thesis
    using assms(1)
    by (simp add: read_binary_frame_def m Let_def read_full_append small_unat small_nonzero small_less not_less)
qed

lemma read_json_frame_of:
  assumes "b \<noteq> []" and "length b \<le> max_frame_size" and "cd_decode cd b = Inr (v, [])"
    and "cd_next cd [] = NextEof"
  shows "read_json_frame cd (Some (r\<lparr>rd_bytes := frame_of b @ rest\<rparr>)) = (Inr v, Some (r\<lparr>rd_bytes := rest\<rparr>))"
proof -
  have "read_full 4 (r\<lparr>rd_bytes := frame_of b @ rest\<rparr>) =
      (put_uint32 (of_nat (length b)), None, r\<lparr>rd_bytes := b @ rest\<rparr>)"
    by (simp add: frame_of_def read_full_append)
  then show ?thesis
    using assms
    by (simp add: read_json_frame_def Let_def read_full_append small_unat small_nonzero small_less not_less)
qed

text \<open>What a writer has of a frame after a call that may have failed.\<close>

lemma write_binary_frame_prefix:
  assumes "write_binary_frame (Some w) b = (res, Some w')" and "b \<noteq> []" and "length b \<le> max_frame_size"
  shows "\<exists>k \<le> length (frame_of b). wr_bytes w' = wr_bytes w @ take k (frame_of b) \<and>
    (is_ok res \<longrightarrow> k = length (frame_of b))"
proof -
  let ?h = "put_uint32 (of_nat (length b))"
  obtain r1 w1 where one: "write_frame_bytes w ?h = (r1, w1)" by fastforce
  obtain r2 w2 where two: "write_frame_bytes w1 b = (r2, w2)" by fastforce
  from write_frame_bytes_prefix [OF one] obtain k where
    k: "k \<le> 4" "wr_bytes w1 = wr_bytes w @ take k ?h" "is_ok r1 \<longrightarrow> k = 4" by auto
  from write_frame_bytes_prefix [OF two] obtain j where
    j: "j \<le> length b" "wr_bytes w2 = wr_bytes w1 @ take j b" "is_ok r2 \<longrightarrow> j = length b" by auto
  show ?thesis
  proof (cases r1)
    case (Inl e)
    with assms one have "w' = w1" "\<not> is_ok res" by (auto simp: write_binary_frame_def)
    with k show ?thesis by (intro exI [of _ k]) (simp add: frame_of_def)
  next
    case (Inr u)
    with assms one two have "w' = w2" "is_ok res = is_ok r2"
      by (auto simp: write_binary_frame_def split: sum.splits)
    with j k Inr show ?thesis by (intro exI [of _ "4 + j"]) (simp add: frame_of_def)
  qed
qed

lemma write_json_frame_ok:
  assumes "write_json_frame cd (Some w) v = (Inr (), Some w')"
  shows "\<exists>b. cd_marshal cd v = Inr b \<and> wr_bytes w' = wr_bytes w @ frame_of b"
proof -
  from assms obtain b w1 where b: "cd_marshal cd v = Inr b"
    and one: "write_frame_bytes w (put_uint32 (of_nat (length b))) = (Inr (), w1)"
    and two: "write_frame_bytes w1 b = (Inr (), w')"
    by (auto simp: write_json_frame_def split: sum.splits if_splits prod.splits)
  from write_frame_bytes_prefix [OF one] write_frame_bytes_prefix [OF two] b show ?thesis
    by (auto simp: frame_of_def)
qed

lemma write_binary_frame_ok:
  assumes "write_binary_frame (Some w) b = (Inr (), Some w')"
  shows "wr_bytes w' = wr_bytes w @ frame_of b"
proof -
  from assms have "b \<noteq> []" "length b \<le> max_frame_size"
    by (auto simp: write_binary_frame_def split: if_splits)
  with write_binary_frame_prefix [OF assms] show ?thesis by auto
qed

text \<open>Bytes that are not a whole frame are not read as one.\<close>

lemma read_binary_frame_torn:
  assumes "k < length (frame_of b)" and "length b \<le> max_frame_size"
  shows "\<exists>e. fst (read_binary_frame (Some \<lparr>rd_bytes = take k (frame_of b), rd_end = x\<rparr>) m) = Inl e"
proof (cases "k < 4")
  case True
  then show ?thesis using assms(1) by (auto simp: read_binary_frame_def read_full_def)
next
  case False
  then have k: "take k (frame_of b) = put_uint32 (of_nat (length b)) @ take (k - 4) b" "k - 4 < length b"
    using assms(1) by (auto simp: frame_of_def)
  show ?thesis
    using k(2) assms(2) unfolding k(1)
    by (simp add: read_binary_frame_def read_full_def Let_def small_unat)
qed

lemma base_256_digits:
  assumes "(a :: nat) < 256" and "b < 256" and "c < 256" and "d < 256"
  defines "n \<equiv> a * 2 ^ 24 + b * 2 ^ 16 + c * 2 ^ 8 + d"
  shows "n < 2 ^ 32" "n div 2 ^ 24 mod 256 = a" "n div 2 ^ 16 mod 256 = b" "n div 2 ^ 8 mod 256 = c"
    "n mod 256 = d"
proof -
  define x y where "x = a * 256 + b" and "y = x * 256 + c"
  have n: "n = y * 256 + d" by (simp add: n_def x_def y_def)
  have y: "n div 2 ^ 8 = y" and x: "y div 256 = x" and a: "x div 256 = a"
    using assms(2-4) by (simp_all add: n x_def y_def)
  from x a have xa: "n div 2 ^ 16 = x" "n div 2 ^ 24 = a"
    unfolding y [symmetric] by (simp_all flip: div_mult2_eq)
  show "n div 2 ^ 24 mod 256 = a" using xa(2) assms(1) by simp
  show "n div 2 ^ 16 mod 256 = b" unfolding xa x_def using assms(2) by simp
  show "n div 2 ^ 8 mod 256 = c" unfolding y y_def using assms(3) by simp
  show "n mod 256 = d" unfolding n using assms(4) by simp
  show "n < 2 ^ 32" using assms(1-4) by (simp add: n_def)
qed

text \<open>The header a frame is read with is the one it would be written with.\<close>

lemma put_get_uint32:
  assumes "length h = 4"
  shows "put_uint32 (get_uint32 h) = h"
proof -
  from assms obtain b0 b1 b2 b3 where h: "h = [b0, b1, b2, b3]"
    by (auto simp: numeral_eq_Suc length_Suc_conv)
  define n :: nat where
    "n = of_char b0 * 2 ^ 24 + of_char b1 * 2 ^ 16 + of_char b2 * 2 ^ 8 + of_char b3"
  note digits = base_256_digits [of "of_char b0" "of_char b1" "of_char b2" "of_char b3", folded n_def]
  have n: "unat (of_nat n :: u32) = n"
    using digits by (simp add: unat_of_nat take_bit_nat_eq_self)
  have "put_uint32 (of_nat n) = map (\<lambda>i. char_of (n div 2 ^ i mod 256)) [24, 16, 8, 0]"
    unfolding put_uint32_def by (simp add: unat_drop_bit_eq drop_bit_eq_div [where 'a = nat] n)
  also have "\<dots> = h" by (simp only: list.map power_0 div_by_1 digits(2-) char_of_char h nat_of_char_less_256)
  finally show ?thesis by (simp add: get_uint32_def h n_def)
qed

lemma read_binary_frame_keeps: "\<exists>r'. snd (read_binary_frame (Some r) m) = Some r'"
  by (auto simp: read_binary_frame_def Let_def split: prod.splits option.splits)

section \<open>The interface of a frame format\<close>

text \<open>
  What the protocols above rely on: an open writer appends the frame of a value, and a
  reader that meets the frame returns the value and stops right behind it. A sequence of
  frames is then read back as it was written.
\<close>

fun write_all :: "(writer option \<Rightarrow> 'a \<Rightarrow> unit result \<times> writer option) \<Rightarrow> writer option \<Rightarrow> 'a list \<Rightarrow>
    unit result \<times> writer option" where
  "write_all wr w [] = (Inr (), w)"
| "write_all wr w (v # vs) =
     (case wr w v of (Inl e, w1) \<Rightarrow> (Inl e, w1) | (Inr _, w1) \<Rightarrow> write_all wr w1 vs)"

fun read_all :: "(reader option \<Rightarrow> 'a result \<times> reader option) \<Rightarrow> reader option \<Rightarrow> nat \<Rightarrow>
    'a list result \<times> reader option" where
  "read_all rd r 0 = (Inr [], r)"
| "read_all rd r (Suc n) =
     (case rd r of
        (Inl e, r1) \<Rightarrow> (Inl e, r1)
      | (Inr v, r1) \<Rightarrow> (case read_all rd r1 n of
            (Inl e, r2) \<Rightarrow> (Inl e, r2) | (Inr vs, r2) \<Rightarrow> (Inr (v # vs), r2)))"

locale frame_format =
  fixes enc :: "'a \<Rightarrow> bytes"
    and wr :: "writer option \<Rightarrow> 'a \<Rightarrow> unit result \<times> writer option"
    and rd :: "reader option \<Rightarrow> 'a result \<times> reader option"
    and ok :: "'a \<Rightarrow> bool"
  assumes write_open: "open_writer w \<Longrightarrow> ok v \<Longrightarrow> wr (Some w) v = (Inr (), Some (w\<lparr>wr_bytes := wr_bytes w @ enc v\<rparr>))"
    and read_enc: "ok v \<Longrightarrow> rd (Some (r\<lparr>rd_bytes := enc v @ rest\<rparr>)) = (Inr v, Some (r\<lparr>rd_bytes := rest\<rparr>))"
begin

lemma write_all_open:
  "open_writer w \<Longrightarrow> \<forall>v \<in> set vs. ok v \<Longrightarrow>
     write_all wr (Some w) vs = (Inr (), Some (w\<lparr>wr_bytes := wr_bytes w @ concat (map enc vs)\<rparr>))"
proof (induction vs arbitrary: w)
  case (Cons v vs)
  from Cons.IH [of "w\<lparr>wr_bytes := wr_bytes w @ enc v\<rparr>"] Cons.prems show ?case
    by (simp add: write_open open_writer_def)
qed simp

lemma read_all_enc:
  "\<forall>v \<in> set vs. ok v \<Longrightarrow>
     read_all rd (Some (r\<lparr>rd_bytes := concat (map enc vs) @ rest\<rparr>)) (length vs) =
       (Inr vs, Some (r\<lparr>rd_bytes := rest\<rparr>))"
  by (induction vs) (simp_all add: read_enc)

lemma stream_roundtrip:
  assumes "open_writer w" and "\<forall>v \<in> set vs. ok v"
  shows "\<exists>w' sent. write_all wr (Some w) vs = (Inr (), Some w') \<and> wr_bytes w' = wr_bytes w @ sent \<and>
    (\<forall>r rest. read_all rd (Some (r\<lparr>rd_bytes := sent @ rest\<rparr>)) (length vs) = (Inr vs, Some (r\<lparr>rd_bytes := rest\<rparr>)))"
  using write_all_open [OF assms] read_all_enc [OF assms(2)] by auto

end

text \<open>An executable instance for the witnesses: one value and its text.\<close>

definition sample_codec :: "'a \<Rightarrow> bytes \<Rightarrow> 'a codec" where
  "sample_codec v t =
     \<lparr>cd_marshal = (\<lambda>_. Inr t), cd_decode = (\<lambda>b. if b = t then Inr (v, []) else Inl ErrDecode),
      cd_next = (\<lambda>b. if b = [] then NextEof else NextError ErrDecode)\<rparr>"

lemma sample_codec_ok: "t \<noteq> [] \<Longrightarrow> length t \<le> max_frame_size \<Longrightarrow> codec_ok (sample_codec v t) v"
  by (simp add: codec_ok_def sample_codec_def)

definition json_text :: "'a codec \<Rightarrow> 'a \<Rightarrow> bytes" where
  "json_text cd v = (case cd_marshal cd v of Inr b \<Rightarrow> b | Inl _ \<Rightarrow> [])"

interpretation binary: frame_format frame_of write_binary_frame "\<lambda>r. read_binary_frame r (int m)"
  "\<lambda>b. b \<noteq> [] \<and> length b \<le> m \<and> m \<le> max_frame_size" for m
  by unfold_locales (simp_all add: write_binary_frame_open read_binary_frame_of)

interpretation control: frame_format "\<lambda>v. frame_of (json_text cd v)" "write_json_frame cd" "read_json_frame cd"
  "codec_ok cd" for cd
  by unfold_locales
    (auto simp: codec_ok_def json_text_def write_json_frame_open read_json_frame_of)

section \<open>Properties\<close>

text \<open>
  C30. Whatever a writer does, the peer is never given another payload than the one sent: a
  frame whose write succeeded is read back whole, and of a write that failed part way the
  reader sees the payload or an error.
\<close>

theorem frame_delivered_whole:
  assumes "b \<noteq> []" and "length b \<le> max_frame_size"
    and "write_binary_frame (Some w) b = (res, Some w')" and "wr_bytes w' = wr_bytes w @ sent"
  shows "(is_ok res \<longrightarrow>
      fst (read_binary_frame (Some \<lparr>rd_bytes = sent, rd_end = x\<rparr>) (int max_frame_size)) = Inr b) \<and>
    fst (read_binary_frame (Some \<lparr>rd_bytes = sent, rd_end = x\<rparr>) (int max_frame_size)) \<in> insert (Inr b) (range Inl)"
proof -
  from write_binary_frame_prefix [OF assms(3,1,2)] obtain k
    where k: "k \<le> length (frame_of b)" "sent = take k (frame_of b)" "is_ok res \<longrightarrow> k = length (frame_of b)"
    using assms(4) by auto
  show ?thesis
  proof (cases "k = length (frame_of b)")
    case True
    with k have "sent = frame_of b" by simp
    moreover have "read_binary_frame (Some \<lparr>rd_bytes = frame_of b, rd_end = x\<rparr>) (int max_frame_size) =
        (Inr b, Some \<lparr>rd_bytes = [], rd_end = x\<rparr>)"
      using read_binary_frame_of [where b = b and max_size = "int max_frame_size" and r = "\<lparr>rd_bytes = [], rd_end = x\<rparr>"
          and rest = "[]"] assms by simp
    ultimately show ?thesis by simp
  next
    case False
    with k have "k < length (frame_of b)" "\<not> is_ok res" by auto
    with read_binary_frame_torn [OF this(1) assms(2), of x "int max_frame_size"] k(2) show ?thesis by auto
  qed
qed

theorem frame_delivered_whole_witness:
  "fst (read_binary_frame (Some \<lparr>rd_bytes = frame_of ''hi'', rd_end = Eof\<rparr>) (int max_frame_size)) = Inr ''hi''"
proof -
  have "write_binary_frame (Some \<lparr>wr_bytes = [], wr_plan = [(3, None), (1, None), (1, None)]\<rparr>) ''hi'' =
      (Inr (), Some \<lparr>wr_bytes = frame_of ''hi'', wr_plan = []\<rparr>)"
    by (simp add: max_frame_size_def write_binary_frame_def write_frame_bytes.simps write_once_def frame_of_def)
  from frame_delivered_whole [OF _ _ this, of "frame_of ''hi''" Eof] show ?thesis
    by (simp add: max_frame_size_def)
qed

text \<open>
  C31. A frame that is read is within the bound of the caller and of the protocol, is the one
  its writer would have written, and is all that has left the stream; a header that declares
  more is refused before any of the payload is read.
\<close>

theorem read_binary_frame_bounded:
  assumes "read_binary_frame (Some r) m = (res, Some r')"
  shows "(\<forall>b. res = Inr b \<longrightarrow>
      1 \<le> length b \<and> int (length b) \<le> m \<and> m \<le> 2 ^ 20 \<and> rd_bytes r = frame_of b @ rd_bytes r') \<and>
    (4 \<le> length (rd_bytes r) \<and> uint (get_uint32 (take 4 (rd_bytes r))) \<notin> {1..m} \<longrightarrow>
      \<not> is_ok res \<and> rd_bytes r' \<in> {rd_bytes r, drop 4 (rd_bytes r)})"
proof (cases "0 < m \<and> m \<le> int max_frame_size \<and> 4 \<le> length (rd_bytes r)")
  case False
  then consider "m \<le> 0 \<or> int max_frame_size < m" | "0 < m" "m \<le> int max_frame_size" "length (rd_bytes r) < 4"
    by linarith
  then show ?thesis
    using assms by cases (auto simp: read_binary_frame_def read_full_def)
next
  case True
  define h where "h = take 4 (rd_bytes r)"
  define n where "n = unat (get_uint32 h)"
  have m: "(of_int m :: u32) = of_nat (nat m)" "nat m \<le> max_frame_size" using True by auto
  have size: "get_uint32 h = 0 \<longleftrightarrow> n = 0" "of_nat max_frame_size < get_uint32 h \<longleftrightarrow> max_frame_size < n"
    "of_int m < get_uint32 h \<longleftrightarrow> nat m < n"
    using m small_unat [of "nat m"] small_unat [of max_frame_size]
    by (simp_all add: n_def unat_eq_zero word_less_nat_alt)
  have run: "read_binary_frame (Some r) m =
     (if n = 0 \<or> nat m < n then (Inl (Msg ''binary frame size is outside allowed bounds''), Some (r\<lparr>rd_bytes := drop 4 (rd_bytes r)\<rparr>))
      else case read_full n (r\<lparr>rd_bytes := drop 4 (rd_bytes r)\<rparr>) of
         (_, Some e, r2) \<Rightarrow> (Inl (Wrap ''read binary frame payload'' e), Some r2)
       | (payload, None, r2) \<Rightarrow> (Inr payload, Some r2))"
    using True m(2) by (simp add: read_binary_frame_def read_full_def [of 4] Let_def size flip: h_def n_def)
  have h: "h = put_uint32 (of_nat n)" "rd_bytes r = h @ drop 4 (rd_bytes r)"
    using put_get_uint32 [of h] True by (simp_all add: h_def n_def)
  show ?thesis
  proof (cases "n = 0 \<or> nat m < n")
    case True
    with assms run show ?thesis by auto
  next
    case False
    then have "uint (get_uint32 h) \<in> {1..m}" using True by (simp add: uint_nat flip: n_def) linarith
    moreover have "rd_bytes r = frame_of b @ rd_bytes r' \<and> length b = n" if "res = Inr b" for b
      using that assms run False h
      by (auto simp: read_full_def frame_of_def simp del: drop_drop split: if_splits)
    ultimately show ?thesis using False True by (auto simp: max_frame_size_def h_def)
  qed
qed

theorem read_binary_frame_bounded_witness:
  "fst (read_binary_frame (Some \<lparr>rd_bytes = put_uint32 9 @ replicate 9 CHR ''x'', rd_end = Eof\<rparr>) 8) \<notin> range Inr"
proof -
  let ?r = "\<lparr>rd_bytes = put_uint32 9 @ replicate 9 CHR ''x'', rd_end = Eof\<rparr>"
  obtain res r' where run: "read_binary_frame (Some ?r) 8 = (res, Some r')"
    using read_binary_frame_keeps [of ?r 8] by (metis prod.collapse)
  from read_binary_frame_bounded [OF run] show ?thesis by (auto simp: run)
qed

end
