(* ===== verification/Datasets.thy ===== *)
theory Datasets
  imports Runtime
begin

text \<open>
  Package \<open>internal/datasets\<close>: the capability registry and its negotiation
  (\<open>registry.go\<close>), record envelopes and their validation (\<open>envelope.go\<close>), and the
  conflict resolver (\<open>conflict.go\<close>), with the order it follows and the convergence of
  replicas that merge the same records.
\<close>

section \<open>Capabilities\<close>

record capability =
  cap_dataset :: bytes
  cap_application :: bytes
  cap_schema :: int
  cap_read :: bool
  cap_write :: bool
  cap_delete :: bool

definition first_party_registry :: "capability list" where
  "first_party_registry =
    [\<lparr>cap_dataset = ''browser.tabs'', cap_application = ''browser'', cap_schema = 1,
      cap_read = True, cap_write = True, cap_delete = True\<rparr>,
     \<lparr>cap_dataset = ''browser.history'', cap_application = ''browser'', cap_schema = 1,
      cap_read = True, cap_write = True, cap_delete = True\<rparr>,
     \<lparr>cap_dataset = ''browser.preferences'', cap_application = ''browser'', cap_schema = 1,
      cap_read = True, cap_write = True, cap_delete = False\<rparr>,
     \<lparr>cap_dataset = ''search.preferences'', cap_application = ''search'', cap_schema = 1,
      cap_read = True, cap_write = True, cap_delete = False\<rparr>,
     \<lparr>cap_dataset = ''search.history'', cap_application = ''search'', cap_schema = 1,
      cap_read = True, cap_write = True, cap_delete = True\<rparr>,
     \<lparr>cap_dataset = ''search.sources'', cap_application = ''search'', cap_schema = 1,
      cap_read = True, cap_write = True, cap_delete = False\<rparr>,
     \<lparr>cap_dataset = ''bookmarks.items'', cap_application = ''bookmarks'', cap_schema = 1,
      cap_read = True, cap_write = True, cap_delete = True\<rparr>,
     \<lparr>cap_dataset = ''bookmarks.collections'', cap_application = ''bookmarks'', cap_schema = 1,
      cap_read = True, cap_write = True, cap_delete = True\<rparr>,
     \<lparr>cap_dataset = ''bookmarks.assignments'', cap_application = ''bookmarks'', cap_schema = 1,
      cap_read = True, cap_write = True, cap_delete = True\<rparr>]"

text \<open>
  \<open>sort.Slice\<close> leaves the order of equal keys open; dataset names are distinct wherever
  the program sorts capabilities of its own registry, and \<open>sort_key\<close> is one such order.
\<close>

definition first_party :: "capability list" where
  "first_party = sort_key cap_dataset first_party_registry"

definition for_application :: "bytes \<Rightarrow> capability list" where
  "for_application application =
     (let app = trim_space (to_lower application) in
      if app = [] then []
      else filter (\<lambda>c. cap_application c = app) first_party)"

definition remote_by_dataset :: "capability list \<Rightarrow> (bytes, capability) gomap" where
  "remote_by_dataset remote = map_from (map (\<lambda>c. (cap_dataset c, c)) remote)"

definition negotiate_one :: "(bytes, capability) gomap \<Rightarrow> capability \<Rightarrow> capability option" where
  "negotiate_one remote left =
     (case map_of remote (cap_dataset left) of
        None \<Rightarrow> None
      | Some right \<Rightarrow>
          if cap_schema left < 1 \<or> cap_schema right < 1 then None
          else
            let version = (if cap_schema right < cap_schema left
                           then cap_schema right else cap_schema left);
                c = \<lparr>cap_dataset = cap_dataset left, cap_application = cap_application left,
                     cap_schema = version,
                     cap_read = (cap_read left \<and> cap_read right),
                     cap_write = (cap_write left \<and> cap_write right),
                     cap_delete = (cap_delete left \<and> cap_delete right)\<rparr>
            in if cap_read c \<or> cap_write c \<or> cap_delete c then Some c else None)"

definition negotiate :: "capability list \<Rightarrow> capability list \<Rightarrow> capability list" where
  "negotiate local remote =
     sort_key cap_dataset (List.map_filter (negotiate_one (remote_by_dataset remote)) local)"

lemma remote_by_dataset_distinct:
  assumes "distinct (map cap_dataset remote)"
  shows "map_of (remote_by_dataset remote) d = Some c \<longleftrightarrow> c \<in> set remote \<and> cap_dataset c = d"
proof -
  let ?ps = "map (\<lambda>c. (cap_dataset c, c)) remote"
  have "distinct (map fst (rev ?ps))"
    using assms by (simp add: comp_def flip: rev_map)
  then have "map_of (rev ?ps) d = Some c \<longleftrightarrow> (d, c) \<in> set ?ps"
    by (simp only: map_of_eq_Some_iff set_rev)
  then show ?thesis by (auto simp: remote_by_dataset_def map_of_from)
qed

lemma remote_by_dataset_SomeD:
  "map_of (remote_by_dataset remote) d = Some c \<Longrightarrow> c \<in> set remote \<and> cap_dataset c = d"
  by (auto simp: remote_by_dataset_def map_of_from dest: map_of_SomeD)

lemma set_map_filter: "set (List.map_filter f xs) = {y. \<exists>x \<in> set xs. f x = Some y}"
  by (induction xs) (auto simp: List.map_filter_simps split: option.splits)

lemma negotiate_one_Some:
  "negotiate_one m left = Some c \<longleftrightarrow>
     (\<exists>right. map_of m (cap_dataset left) = Some right \<and> 1 \<le> cap_schema left \<and> 1 \<le> cap_schema right \<and>
        c = \<lparr>cap_dataset = cap_dataset left, cap_application = cap_application left,
             cap_schema = min (cap_schema left) (cap_schema right),
             cap_read = (cap_read left \<and> cap_read right),
             cap_write = (cap_write left \<and> cap_write right),
             cap_delete = (cap_delete left \<and> cap_delete right)\<rparr> \<and>
        (cap_read c \<or> cap_write c \<or> cap_delete c))"
  by (auto simp: negotiate_one_def Let_def min_def split: option.splits if_splits)

lemma in_negotiate:
  "c \<in> set (negotiate local remote) \<longleftrightarrow>
     (\<exists>left \<in> set local. negotiate_one (remote_by_dataset remote) left = Some c)"
  by (simp add: negotiate_def set_map_filter)

text \<open>The two ends of a negotiation compute the same result, up to the application label.\<close>

definition cap_agreement :: "capability \<Rightarrow> bytes \<times> int \<times> bool \<times> bool \<times> bool" where
  "cap_agreement c = (cap_dataset c, cap_schema c, cap_read c, cap_write c, cap_delete c)"

lemma negotiate_agree_subset:
  assumes "distinct (map cap_dataset local)" and "distinct (map cap_dataset remote)"
  shows "cap_agreement ` set (negotiate local remote) \<subseteq> cap_agreement ` set (negotiate remote local)"
proof
  fix a assume "a \<in> cap_agreement ` set (negotiate local remote)"
  then obtain c left where a: "a = cap_agreement c" and left: "left \<in> set local"
    and c: "negotiate_one (remote_by_dataset remote) left = Some c"
    by (auto simp: in_negotiate)
  from c obtain right where right: "right \<in> set remote" "cap_dataset right = cap_dataset left"
    and d: "map_of (remote_by_dataset remote) (cap_dataset left) = Some right"
    by (auto simp: negotiate_one_Some dest: remote_by_dataset_SomeD)
  from left right have "map_of (remote_by_dataset local) (cap_dataset right) = Some left"
    using assms(1) by (simp add: remote_by_dataset_distinct)
  with c d right obtain c' where "negotiate_one (remote_by_dataset local) right = Some c'"
    and "cap_agreement c' = cap_agreement c"
    by (auto simp: negotiate_one_Some cap_agreement_def min.commute conj_commute)
  with right a show "a \<in> cap_agreement ` set (negotiate remote local)"
    by (metis image_eqI in_negotiate)
qed

section \<open>Record envelopes\<close>

record record_envelope =
  env_dataset :: bytes
  env_schema :: int
  env_id :: bytes
  env_revision :: u64
  env_updated :: time
  env_origin :: bytes
  env_deleted :: bool
  env_payload :: payload

definition max_record_id_bytes :: nat where
  "max_record_id_bytes = 512"

abbreviation ErrUnknownDataset :: go_error where
  "ErrUnknownDataset \<equiv> Sentinel ''unknown sync dataset''"
abbreviation ErrSchemaNotNegotiated :: go_error where
  "ErrSchemaNotNegotiated \<equiv> Sentinel ''record schema is not negotiated''"
abbreviation ErrInvalidRecord :: go_error where
  "ErrInvalidRecord \<equiv> Sentinel ''invalid sync record''"

definition payload_length :: "payload \<Rightarrow> nat" where
  "payload_length p = (case p of None \<Rightarrow> 0 | Some ms \<Rightarrow> length ms)"

definition validate_record :: "record_envelope \<Rightarrow> capability \<Rightarrow> unit result" where
  "validate_record record capability =
     (if is_blank (env_dataset record) \<or> env_dataset record \<noteq> cap_dataset capability
      then Inl ErrUnknownDataset
      else if env_schema record < 1 \<or> env_schema record \<noteq> cap_schema capability
      then Inl ErrSchemaNotNegotiated
      else if is_blank (env_id record) \<or> max_record_id_bytes < length (env_id record) \<or>
        env_revision record = 0 \<or> time_is_zero (env_updated record) \<or> is_blank (env_origin record)
      then Inl ErrInvalidRecord
      else if env_deleted record then
        (if \<not> cap_delete capability \<or> payload_length (env_payload record) \<noteq> 0
         then Inl ErrInvalidRecord else Inr ())
      else if \<not> cap_write capability \<or> env_payload record = None
      then Inl ErrInvalidRecord
      else Inr ())"

definition new_tombstone ::
  "capability \<Rightarrow> bytes \<Rightarrow> bytes \<Rightarrow> u64 \<Rightarrow> time \<Rightarrow> record_envelope result" where
  "new_tombstone capability record_id origin_device revision updated_at =
     (let record = \<lparr>env_dataset = cap_dataset capability, env_schema = cap_schema capability,
            env_id = record_id, env_revision = revision, env_updated = updated_at,
            env_origin = origin_device, env_deleted = True, env_payload = None\<rparr>
      in and_then (validate_record record capability) (\<lambda>_. Inr record))"

lemma validate_record_dataset:
  "validate_record e c = Inr () \<Longrightarrow> env_dataset e = cap_dataset c"
  by (auto simp: validate_record_def split: if_splits)

lemma validate_record_bounds:
  assumes "validate_record e c = Inr ()"
  shows "env_id e \<noteq> []" and "length (env_id e) \<le> 512" and "0 < env_revision e"
    and "env_updated e \<noteq> 0" and "env_origin e \<noteq> []"
  using assms
  by (auto simp: validate_record_def max_record_id_bytes_def time_is_zero_def word_gt_0
      split: if_splits)

section \<open>Conflict resolution\<close>

datatype resolution = ResolutionLocal | ResolutionRemote | ResolutionConverged

definition resolve_conflict :: "record_envelope \<Rightarrow> record_envelope \<Rightarrow> resolution" where
  "resolve_conflict local remote =
     (if env_revision local \<noteq> env_revision remote then
        (if env_revision local < env_revision remote then ResolutionRemote else ResolutionLocal)
      else if env_updated local \<noteq> env_updated remote then
        (if env_updated local < env_updated remote then ResolutionRemote else ResolutionLocal)
      else if env_deleted local \<noteq> env_deleted remote then
        (if env_deleted remote then ResolutionRemote else ResolutionLocal)
      else
        let left = trim_space (env_origin local); right = trim_space (env_origin remote) in
        if left \<noteq> right then (if left < right then ResolutionRemote else ResolutionLocal)
        else ResolutionConverged)"

text \<open>What the resolver compares: a lexicographic key.\<close>

type_synonym conflict_key = "u64 \<times> time \<times> bool \<times> bytes"

definition conflict_key :: "record_envelope \<Rightarrow> conflict_key" where
  "conflict_key e = (env_revision e, env_updated e, env_deleted e, trim_space (env_origin e))"

lemma resolve_conflict_key:
  "resolve_conflict l r =
     (if conflict_key l < conflict_key r then ResolutionRemote
      else if conflict_key l = conflict_key r then ResolutionConverged
      else ResolutionLocal)"
  by (auto simp: resolve_conflict_def conflict_key_def Let_def less_prod_def less_eq_prod_def)

text \<open>
  A store keeps the remote record only when the resolver says so. The interface states what the
  stores need of the resolver: its verdicts are those of a total preorder given by a key. A
  replica that has merged a collection of records then holds one with the greatest key,
  whatever the order of arrival.
\<close>

locale conflict_resolver =
  fixes resolve :: "'r \<Rightarrow> 'r \<Rightarrow> resolution"
    and key :: "'r \<Rightarrow> 'k::linorder"
  assumes remote_iff: "resolve l r = ResolutionRemote \<longleftrightarrow> key l < key r"
    and converged_iff: "resolve l r = ResolutionConverged \<longleftrightarrow> key l = key r"
begin

definition merge :: "'r \<Rightarrow> 'r \<Rightarrow> 'r" where
  "merge current r = (if resolve current r = ResolutionRemote then r else current)"

lemma local_iff: "resolve l r = ResolutionLocal \<longleftrightarrow> key r < key l"
  by (metis converged_iff neqE order.asym remote_iff resolution.distinct(1,3) resolution.exhaust)

lemma key_merge: "key (merge c r) = max (key c) (key r)"
  by (auto simp: merge_def remote_iff max_def)

lemma merge_mem: "fold (\<lambda>r c. merge c r) rs c \<in> insert c (set rs)"
proof (induction rs arbitrary: c)
  case (Cons r rs)
  have "merge c r \<in> {c, r}" by (simp add: merge_def)
  with Cons [of "merge c r"] show ?case by auto
qed simp

lemma key_fold_merge: "key (fold (\<lambda>r c. merge c r) rs c) = Max (key ` insert c (set rs))"
proof (induction rs arbitrary: c)
  case (Cons r rs)
  have "Max (insert (max (key c) (key r)) (key ` set rs)) =
      Max (insert (key c) (insert (key r) (key ` set rs)))"
    by (cases "set rs = {}") (simp_all add: max.assoc)
  with Cons [of "merge c r"] show ?case by (simp add: key_merge)
qed simp

lemma fold_merge_order:
  assumes "insert c (set rs) = insert c' (set rs')"
  shows "key (fold (\<lambda>r c. merge c r) rs c) = key (fold (\<lambda>r c. merge c r) rs' c')"
  using assms by (simp only: key_fold_merge)

lemma fold_merge_unique:
  assumes same: "insert c (set rs) = insert c' (set rs')"
    and inj: "inj_on key (insert c (set rs))"
  shows "fold (\<lambda>r c. merge c r) rs c = fold (\<lambda>r c. merge c r) rs' c'"
proof (rule inj_onD [OF inj])
  show "key (fold (\<lambda>r c. merge c r) rs c) = key (fold (\<lambda>r c. merge c r) rs' c')"
    using same by (rule fold_merge_order)
  show "fold (\<lambda>r c. merge c r) rs c \<in> insert c (set rs)" by (rule merge_mem)
  show "fold (\<lambda>r c. merge c r) rs' c' \<in> insert c (set rs)"
    using merge_mem [of rs' c'] same by simp
qed

end

interpretation cr: conflict_resolver resolve_conflict conflict_key
  by unfold_locales (auto simp: resolve_conflict_key)

text \<open>
  The branch of the stores' \<open>AcceptAndPersist\<close> that decides which record stays, and a
  replica that sees records one after another.
\<close>

definition keep_winner :: "record_envelope \<Rightarrow> record_envelope \<Rightarrow> record_envelope" where
  "keep_winner current record =
     (case resolve_conflict current record of
        ResolutionLocal \<Rightarrow> current
      | ResolutionConverged \<Rightarrow> current
      | ResolutionRemote \<Rightarrow> record)"

fun keep_winners :: "record_envelope \<Rightarrow> record_envelope list \<Rightarrow> record_envelope" where
  "keep_winners current [] = current"
| "keep_winners current (r # rs) = keep_winners (keep_winner current r) rs"

lemma keep_winner_merge: "keep_winner c r = cr.merge c r"
  by (simp add: keep_winner_def cr.merge_def split: resolution.splits)

lemma keep_winners_fold: "keep_winners c rs = fold (\<lambda>r c. cr.merge c r) rs c"
  by (induction rs arbitrary: c) (simp_all add: keep_winner_merge)

section \<open>Properties\<close>

text \<open>A record the properties are exercised on.\<close>

definition divergent_record :: "bytes \<Rightarrow> record_envelope" where
  "divergent_record v = \<lparr>env_dataset = ''search.history'', env_schema = 1, env_id = ''h1'',
     env_revision = 1, env_updated = 1, env_origin = ''device-a'', env_deleted = False,
     env_payload = Some [(''query'', JString v)]\<rparr>"

text \<open>
  The verdicts of the resolver are those of one total preorder: exchanging the two
  records exchanges local and remote, the relation "remote wins" is transitive, and
  "converged" is an equivalence that the verdicts respect.
\<close>

theorem resolve_conflict_preorder:
  "((resolve_conflict l r = ResolutionRemote) = (resolve_conflict r l = ResolutionLocal)) \<and>
   (resolve_conflict l r = ResolutionRemote \<and> resolve_conflict r s \<noteq> ResolutionLocal \<longrightarrow>
      resolve_conflict l s = ResolutionRemote) \<and>
   (resolve_conflict l r = ResolutionConverged \<longrightarrow>
      resolve_conflict l s = resolve_conflict r s \<and> resolve_conflict r l = ResolutionConverged)"
  by (auto simp: resolve_conflict_key split: if_splits)

theorem resolve_conflict_preorder_witness:
  "resolve_conflict (divergent_record ''a'') (divergent_record ''a''\<lparr>env_revision := 3\<rparr>) = ResolutionRemote"
proof -
  let ?r = "divergent_record ''a''\<lparr>env_revision := 2\<rparr>"
  have "resolve_conflict (divergent_record ''a'') ?r = ResolutionRemote"
    "resolve_conflict ?r (divergent_record ''a''\<lparr>env_revision := 3\<rparr>) \<noteq> ResolutionLocal"
    by (simp_all add: resolve_conflict_def divergent_record_def)
  then show ?thesis
    using resolve_conflict_preorder [of "divergent_record ''a''" ?r
        "divergent_record ''a''\<lparr>env_revision := 3\<rparr>"] by blast
qed

text \<open>
  Two replicas that have seen the same records, in any order and with any repetition, keep
  records with the same conflict key, the greatest of all; if no two different records
  share a key they keep the same record.
\<close>

theorem replicas_converge:
  assumes "insert c (set rs) = insert c' (set rs')"
  shows "conflict_key (keep_winners c rs) = conflict_key (keep_winners c' rs')
    \<and> (\<forall>r \<in> insert c (set rs). conflict_key r \<le> conflict_key (keep_winners c rs))
    \<and> (inj_on conflict_key (insert c (set rs)) \<longrightarrow> keep_winners c rs = keep_winners c' rs')"
  using assms cr.fold_merge_order [OF assms] cr.fold_merge_unique [OF assms]
  by (simp add: keep_winners_fold cr.key_fold_merge)

theorem replicas_converge_witness:
  "keep_winners (divergent_record ''a'') [divergent_record ''b''\<lparr>env_revision := 2\<rparr>] =
   keep_winners (divergent_record ''b''\<lparr>env_revision := 2\<rparr>) [divergent_record ''a'']"
proof -
  let ?a = "divergent_record ''a''" and ?b = "divergent_record ''b''\<lparr>env_revision := 2\<rparr>"
  have same: "insert ?a (set [?b]) = insert ?b (set [?a])" by auto
  have "inj_on conflict_key (insert ?a (set [?b]))"
    by (simp add: inj_on_def conflict_key_def divergent_record_def)
  with replicas_converge [OF same] show ?thesis by blast
qed

text \<open>
  A tombstone that \<open>NewTombstone\<close> makes passes validation, carries no payload, and beats
  every live record that is not newer, with the deletion winning a tie of revision and time.
\<close>

theorem tombstone_wins:
  assumes made: "new_tombstone c rid dev rv t = Inr e"
    and live: "\<not> env_deleted live" "env_revision live \<le> rv" "env_updated live \<le> t"
  shows "validate_record e c = Inr () \<and> env_payload e = None \<and> env_id e = rid \<and>
    keep_winner live e = e \<and> keep_winner e live = e"
proof -
  from made have e: "validate_record e c = Inr ()" "env_deleted e" "env_payload e = None"
    "env_id e = rid" "env_revision e = rv" "env_updated e = t"
    by (auto simp: new_tombstone_def Let_def result_iff)
  with live have "conflict_key live < conflict_key e"
    by (auto simp: conflict_key_def less_prod_def less_eq_prod_def)
  with e show ?thesis by (auto simp: keep_winner_def resolve_conflict_key)
qed

theorem tombstone_wins_witness:
  "\<exists>c \<in> set first_party. \<exists>e. new_tombstone c ''h1'' ''device-b'' 1 1 = Inr e \<and>
     keep_winner (divergent_record ''a'') e = e"
proof -
  let ?c = "\<lparr>cap_dataset = ''search.history'', cap_application = ''search'', cap_schema = 1,
      cap_read = True, cap_write = True, cap_delete = True\<rparr>"
  have c: "?c \<in> set first_party" by (simp add: first_party_def first_party_registry_def)
  obtain e where e: "new_tombstone ?c ''h1'' ''device-b'' 1 1 = Inr e"
    by (simp add: new_tombstone_def Let_def validate_record_def is_blank_def trim_space_printable
        printable_def max_record_id_bytes_def time_is_zero_def payload_length_def)
  from tombstone_wins [OF e, of "divergent_record ''a''"] c e show ?thesis
    by (intro bexI [of _ ?c] exI [of _ e]) (simp_all add: divergent_record_def)
qed

text \<open>
  The comparison ignores schema version and payload: there are two valid records with the
  same identifier and different payloads that the resolver calls converged, so each of two
  replicas that first saw one of them keeps its own.
\<close>

theorem converged_payloads_may_differ:
  "\<exists>c \<in> set first_party. \<exists>l r.
     validate_record l c = Inr () \<and> validate_record r c = Inr () \<and> env_id l = env_id r \<and>
     resolve_conflict l r = ResolutionConverged \<and> env_payload l \<noteq> env_payload r \<and>
     keep_winner l r \<noteq> keep_winner r l"
proof (intro bexI exI conjI)
  let ?c = "\<lparr>cap_dataset = ''search.history'', cap_application = ''search'', cap_schema = 1,
      cap_read = True, cap_write = True, cap_delete = True\<rparr>"
  let ?l = "divergent_record ''a''" and ?r = "divergent_record ''b''"
  show "?c \<in> set first_party" by (simp add: first_party_def first_party_registry_def)
  show "validate_record ?l ?c = Inr ()" "validate_record ?r ?c = Inr ()"
    by (simp_all add: validate_record_def divergent_record_def is_blank_def trim_space_printable
        printable_def max_record_id_bytes_def time_is_zero_def)
  show "resolve_conflict ?l ?r = ResolutionConverged"
    by (simp add: resolve_conflict_def divergent_record_def)
  then show "keep_winner ?l ?r \<noteq> keep_winner ?r ?l"
    by (simp add: keep_winner_def resolve_conflict_def divergent_record_def)
qed (simp_all add: divergent_record_def)

lemma negotiate_datasets_distinct:
  assumes "distinct (map cap_dataset local)"
  shows "distinct (map cap_dataset (negotiate local remote))"
proof -
  define f where "f = negotiate_one (remote_by_dataset remote)"
  have f: "cap_dataset y = cap_dataset x" if "f x = Some y" for x y
    using that by (auto simp: f_def negotiate_one_Some)
  have "distinct (map cap_dataset (List.map_filter f cs)) \<and>
      set (map cap_dataset (List.map_filter f cs)) \<subseteq> set (map cap_dataset cs)"
    if "distinct (map cap_dataset cs)" for cs
    using that f by (induction cs) (auto simp: List.map_filter_simps split: option.splits)
  from this [OF assms] show ?thesis by (simp add: negotiate_def distinct_map flip: f_def)
qed

text \<open>
  Both ends of a negotiation between registries without repeated datasets compute the
  same list of datasets, schema versions and permissions; every entry is supported by both
  ends with at least its schema version and grants no permission either end withholds.
\<close>

theorem negotiate_symmetric:
  assumes "distinct (map cap_dataset local)" and "distinct (map cap_dataset remote)"
  shows "map cap_agreement (negotiate local remote) = map cap_agreement (negotiate remote local)
    \<and> (\<forall>c \<in> set (negotiate local remote). \<exists>left \<in> set local. \<exists>right \<in> set remote.
          cap_dataset left = cap_dataset c \<and> cap_dataset right = cap_dataset c \<and>
          1 \<le> cap_schema c \<and> cap_schema c \<le> cap_schema left \<and> cap_schema c \<le> cap_schema right \<and>
          (cap_read c \<longrightarrow> cap_read left \<and> cap_read right) \<and>
          (cap_write c \<longrightarrow> cap_write left \<and> cap_write right) \<and>
          (cap_delete c \<longrightarrow> cap_delete left \<and> cap_delete right))"
proof
  have key: "map fst (map cap_agreement cs) = map cap_dataset cs" for cs
    by (simp add: cap_agreement_def)
  have sorted: "sorted (map cap_dataset (negotiate l r))" for l r
    by (simp add: negotiate_def)
  have wf: "map_wf (map cap_agreement (negotiate local remote))"
    "map_wf (map cap_agreement (negotiate remote local))"
    using assms by (simp_all only: map_wf_def key strict_sorted_iff sorted
        negotiate_datasets_distinct simp_thms)
  have "set (map cap_agreement (negotiate local remote)) =
      set (map cap_agreement (negotiate remote local))"
    using negotiate_agree_subset [OF assms] negotiate_agree_subset [OF assms(2,1)] by auto
  with wf show "map cap_agreement (negotiate local remote) =
      map cap_agreement (negotiate remote local)"
    by (rule map_wf_set_unique)
  show "\<forall>c \<in> set (negotiate local remote). \<exists>left \<in> set local. \<exists>right \<in> set remote.
          cap_dataset left = cap_dataset c \<and> cap_dataset right = cap_dataset c \<and>
          1 \<le> cap_schema c \<and> cap_schema c \<le> cap_schema left \<and> cap_schema c \<le> cap_schema right \<and>
          (cap_read c \<longrightarrow> cap_read left \<and> cap_read right) \<and>
          (cap_write c \<longrightarrow> cap_write left \<and> cap_write right) \<and>
          (cap_delete c \<longrightarrow> cap_delete left \<and> cap_delete right)"
    by (fastforce simp: in_negotiate negotiate_one_Some dest: remote_by_dataset_SomeD)
qed

theorem negotiate_symmetric_witness:
  "map cap_agreement (negotiate first_party_registry
       [\<lparr>cap_dataset = ''search.history'', cap_application = ''other'', cap_schema = 3,
         cap_read = True, cap_write = False, cap_delete = True\<rparr>]) =
   map cap_agreement (negotiate
       [\<lparr>cap_dataset = ''search.history'', cap_application = ''other'', cap_schema = 3,
         cap_read = True, cap_write = False, cap_delete = True\<rparr>] first_party_registry)"
proof -
  have "distinct (map cap_dataset first_party_registry)" by (simp add: first_party_registry_def)
  from negotiate_symmetric [OF this, of "[\<lparr>cap_dataset = ''search.history'',
      cap_application = ''other'', cap_schema = 3, cap_read = True, cap_write = False,
      cap_delete = True\<rparr>]"] show ?thesis by simp
qed

end
