(* ===== verification/Identity.thy ===== *)
theory Identity
  imports Datasets
begin

text \<open>
  Package \<open>internal/identity\<close>, the parts that hold no file: key fingerprints
  (\<open>identity.go\<close>), pairing proofs (\<open>pairing.go\<close>), record proofs (\<open>record_proof.go\<close>) and the
  one-time pairing challenges (\<open>challenge.go\<close>) with their traces.
\<close>

section \<open>Devices and keys\<close>

definition fingerprint :: "runtime \<Rightarrow> bytes \<Rightarrow> bytes" where
  "fingerprint rt public_key = ''SHA256:'' @ hex_encode (rt_sha256 rt public_key)"

lemma fingerprint_nonempty [simp]: "fingerprint rt k \<noteq> []"
  by (simp add: fingerprint_def)

lemma fingerprint_inject:
  "no_collision rt k k' \<Longrightarrow> fingerprint rt k = fingerprint rt k' \<longleftrightarrow> k = k'"
  by (auto simp: fingerprint_def no_collision_def)

text \<open>
  \<open>validDeviceID\<close> ranges over runes by byte index; a byte outside ASCII starts a rune that
  fails both tests, so the bytes can be tested one by one.
\<close>

definition device_id_char :: "nat \<Rightarrow> char \<Rightarrow> bool" where
  "device_id_char i c =
     (let n = of_char c :: nat in
      if i = 8 \<or> i = 13 \<or> i = 18 \<or> i = 23 then c = CHR ''-''
      else 48 \<le> n \<and> n \<le> 57 \<or> 97 \<le> n \<and> n \<le> 102)"

fun device_id_chars :: "nat \<Rightarrow> bytes \<Rightarrow> bool" where
  "device_id_chars i [] = True"
| "device_id_chars i (c # s) = (device_id_char i c \<and> device_id_chars (Suc i) s)"

definition valid_device_id :: "bytes \<Rightarrow> bool" where
  "valid_device_id v \<longleftrightarrow> length v = 36 \<and> device_id_chars 0 v"

lemma device_id_chars_printable: "device_id_chars i v \<Longrightarrow> c \<in> set v \<Longrightarrow> printable c"
  by (induction i v rule: device_id_chars.induct)
    (auto simp: device_id_char_def printable_def Let_def split: if_splits)

lemma valid_device_id_length: "valid_device_id v \<Longrightarrow> length v = 36"
  by (simp add: valid_device_id_def)

lemma valid_device_id_nonempty: "valid_device_id v \<Longrightarrow> v \<noteq> []"
  by (auto simp: valid_device_id_def)

lemma valid_device_id_no_line_feed: "valid_device_id v \<Longrightarrow> line_feed \<notin> set v"
  using device_id_chars_printable [of 0 v line_feed] by (auto simp: valid_device_id_def printable_def)

lemma valid_device_id_trim:
  assumes "valid_device_id v"
  shows "trim_space v = v"
proof (rule trim_space_printable)
  show ne: "v \<noteq> []" using assms by (rule valid_device_id_nonempty)
  show "printable (hd v)" "printable (last v)"
    using assms ne by (auto simp: valid_device_id_def intro: device_id_chars_printable)
qed

section \<open>Pairing proofs\<close>

abbreviation ErrInvalidPairingProof :: go_error where
  "ErrInvalidPairingProof \<equiv> Sentinel ''invalid pairing proof''"

record pairing_proof =
  pp_device :: bytes
  pp_nonce :: bytes
  pp_public :: bytes
  pp_signature :: bytes

definition pairing_message :: "bytes \<Rightarrow> bytes \<Rightarrow> bytes" where
  "pairing_message device_id nonce = join_lines [''GC-SYNC-PAIRING/1'', device_id, nonce]"

definition new_pairing_proof ::
  "runtime \<Rightarrow> bytes \<Rightarrow> bytes \<Rightarrow> bytes \<Rightarrow> bytes \<Rightarrow> pairing_proof result" where
  "new_pairing_proof rt device_id nonce public_key private_key =
     (if \<not> valid_device_id device_id \<or> nonce = [] \<or> 256 < length nonce
      then Inl ErrInvalidPairingProof
      else if length public_key \<noteq> public_key_size \<or> length private_key \<noteq> private_key_size
      then Inl ErrInvalidPairingProof
      else Inr \<lparr>pp_device = device_id, pp_nonce = nonce, pp_public = b64_encode public_key,
                pp_signature = b64_encode (rt_sign rt private_key (pairing_message device_id nonce))\<rparr>)"

definition verify_pairing_proof :: "runtime \<Rightarrow> pairing_proof \<Rightarrow> bytes result" where
  "verify_pairing_proof rt p =
     (if \<not> valid_device_id (pp_device p) \<or> pp_nonce p = [] \<or> 256 < length (pp_nonce p)
      then Inl ErrInvalidPairingProof
      else case b64_decode (pp_public p) of
        None \<Rightarrow> Inl ErrInvalidPairingProof
      | Some public_key \<Rightarrow>
          if length public_key \<noteq> public_key_size then Inl ErrInvalidPairingProof
          else case b64_decode (pp_signature p) of
            None \<Rightarrow> Inl ErrInvalidPairingProof
          | Some signature \<Rightarrow>
              if length signature \<noteq> signature_size then Inl ErrInvalidPairingProof
              else if \<not> rt_verify rt public_key (pairing_message (pp_device p) (pp_nonce p)) signature
              then Inl ErrInvalidPairingProof
              else Inr (fingerprint rt public_key))"

lemma verify_pairing_proof_Inr:
  "verify_pairing_proof rt p = Inr fp \<longleftrightarrow>
     valid_device_id (pp_device p) \<and> pp_nonce p \<noteq> [] \<and> length (pp_nonce p) \<le> 256 \<and>
     (\<exists>k s. b64_decode (pp_public p) = Some k \<and> length k = public_key_size \<and>
        b64_decode (pp_signature p) = Some s \<and> length s = signature_size \<and>
        rt_verify rt k (pairing_message (pp_device p) (pp_nonce p)) s \<and> fp = fingerprint rt k)"
  by (auto simp: verify_pairing_proof_def not_less split: option.splits if_splits)

lemma pairing_message_inject:
  "valid_device_id d \<Longrightarrow> valid_device_id d' \<Longrightarrow>
     pairing_message d n = pairing_message d' n' \<longleftrightarrow> d = d' \<and> n = n'"
  by (simp add: pairing_message_def line_front valid_device_id_no_line_feed)

section \<open>Record proofs\<close>

abbreviation ErrInvalidRecordProof :: go_error where
  "ErrInvalidRecordProof \<equiv> Sentinel ''invalid replication record proof''"

record record_proof =
  rp_device :: bytes
  rp_public :: bytes
  rp_signature :: bytes

text \<open>
  \<open>json.Marshal\<close> of a payload made of decoded JSON values does not fail, so the error branch
  of \<open>recordProofMessage\<close> has no counterpart.
\<close>

definition record_proof_message :: "runtime \<Rightarrow> record_envelope \<Rightarrow> bytes" where
  "record_proof_message rt e =
     join_lines [''GC-SYNC-RECORD/1'', env_dataset e, show_int (env_schema e), env_id e,
       show_nat (unat (env_revision e)), rt_time rt (env_updated e), env_origin e,
       show_bool (env_deleted e), hex_encode (rt_sha256 rt (rt_payload rt (env_payload e)))]"

definition new_record_proof ::
  "runtime \<Rightarrow> record_envelope \<Rightarrow> bytes \<Rightarrow> bytes \<Rightarrow> record_proof result" where
  "new_record_proof rt record public_key private_key =
     (if env_origin record = [] \<or> length public_key \<noteq> public_key_size \<or>
        length private_key \<noteq> private_key_size
      then Inl ErrInvalidRecordProof
      else Inr \<lparr>rp_device = env_origin record, rp_public = b64_encode public_key,
                rp_signature = b64_encode (rt_sign rt private_key (record_proof_message rt record))\<rparr>)"

definition verify_record_proof :: "runtime \<Rightarrow> record_proof \<Rightarrow> record_envelope \<Rightarrow> bytes result" where
  "verify_record_proof rt p record =
     (if rp_device p = [] \<or> rp_device p \<noteq> env_origin record then Inl ErrInvalidRecordProof
      else case b64_decode (rp_public p) of
        None \<Rightarrow> Inl ErrInvalidRecordProof
      | Some public_key \<Rightarrow>
          if length public_key \<noteq> public_key_size then Inl ErrInvalidRecordProof
          else case b64_decode (rp_signature p) of
            None \<Rightarrow> Inl ErrInvalidRecordProof
          | Some signature \<Rightarrow>
              if length signature \<noteq> signature_size then Inl ErrInvalidRecordProof
              else if \<not> rt_verify rt public_key (record_proof_message rt record) signature
              then Inl ErrInvalidRecordProof
              else Inr (fingerprint rt public_key))"

lemma verify_record_proof_Inr:
  "verify_record_proof rt p e = Inr fp \<longleftrightarrow>
     rp_device p \<noteq> [] \<and> rp_device p = env_origin e \<and>
     (\<exists>k s. b64_decode (rp_public p) = Some k \<and> length k = public_key_size \<and>
        b64_decode (rp_signature p) = Some s \<and> length s = signature_size \<and>
        rt_verify rt k (record_proof_message rt e) s \<and> fp = fingerprint rt k)"
  by (auto simp: verify_record_proof_def split: option.splits if_splits)

lemma show_bool_inject [simp]: "show_bool a = show_bool b \<longleftrightarrow> a = b"
  by (simp add: show_bool_def)

lemma show_nat_no_line_feed [simp]: "line_feed \<notin> set (show_nat n)"
  using show_nat_digits [of line_feed n] by auto

lemma hex_no_line_feed [simp]: "line_feed \<notin> set (hex_encode s)"
  using hex_encode_chars [of s] by (auto simp: hex_alphabet_def)

lemma show_bool_no_line_feed [simp]: "line_feed \<notin> set (show_bool b)"
  by (simp add: show_bool_def)

section \<open>Pairing challenges\<close>

abbreviation ErrPairingChallengeUnknown :: go_error where
  "ErrPairingChallengeUnknown \<equiv> Sentinel ''pairing challenge is unknown''"
abbreviation ErrPairingChallengeExpired :: go_error where
  "ErrPairingChallengeExpired \<equiv> Sentinel ''pairing challenge is expired''"

record verified_pairing =
  vp_device :: bytes
  vp_public :: bytes
  vp_fingerprint :: bytes

record challenge_store =
  cs_challenges :: "(bytes, time) gomap"
  cs_ttl :: duration

definition new_challenge_store :: "duration \<Rightarrow> challenge_store" where
  "new_challenge_store ttl = \<lparr>cs_challenges = [], cs_ttl = ttl\<rparr>"

text \<open>
  A nil receiver is \<open>None\<close>. The 32 random bytes are an argument, \<open>None\<close> when the system's
  random source fails; so is the instant the store's clock shows.
\<close>

definition issue_challenge ::
  "challenge_store option \<Rightarrow> time \<Rightarrow> bytes option \<Rightarrow> bytes result \<times> challenge_store option" where
  "issue_challenge store now raw =
     (case store of
        None \<Rightarrow> (Inl (Msg ''pairing challenge store unavailable''), None)
      | Some s \<Rightarrow>
          if cs_ttl s \<le> 0 then (Inl (Msg ''pairing challenge store unavailable''), Some s)
          else case raw of
            None \<Rightarrow> (Inl (Wrap ''generate pairing challenge'' ErrRead), Some s)
          | Some bs \<Rightarrow>
              let nonce = b64_encode bs in
              (Inr nonce, Some (s\<lparr>cs_challenges := map_put nonce (now + cs_ttl s) (cs_challenges s)\<rparr>)))"

definition verify_and_consume_pairing ::
  "runtime \<Rightarrow> challenge_store option \<Rightarrow> time \<Rightarrow> pairing_proof \<Rightarrow>
     verified_pairing result \<times> challenge_store option" where
  "verify_and_consume_pairing rt store now proof =
     (case store of
        None \<Rightarrow> (Inl ErrPairingChallengeUnknown, None)
      | Some s \<Rightarrow>
          case verify_pairing_proof rt proof of
            Inl e \<Rightarrow> (Inl e, Some s)
          | Inr fp \<Rightarrow>
              case map_of (cs_challenges s) (pp_nonce proof) of
                None \<Rightarrow> (Inl ErrPairingChallengeUnknown, Some s)
              | Some expires_at \<Rightarrow>
                  let s' = s\<lparr>cs_challenges := map_del (pp_nonce proof) (cs_challenges s)\<rparr> in
                  if \<not> now < expires_at then (Inl ErrPairingChallengeExpired, Some s')
                  else (Inr \<lparr>vp_device = pp_device proof, vp_public = pp_public proof,
                             vp_fingerprint = fp\<rparr>, Some s'))"

definition verify_and_consume ::
  "runtime \<Rightarrow> challenge_store option \<Rightarrow> time \<Rightarrow> pairing_proof \<Rightarrow>
     bytes result \<times> challenge_store option" where
  "verify_and_consume rt store now proof =
     (case verify_and_consume_pairing rt store now proof of
        (Inl e, s) \<Rightarrow> (Inl e, s)
      | (Inr v, s) \<Rightarrow> (Inr (vp_fingerprint v), s))"

text \<open>
  A trace of a challenge store: every call that reaches it, in the order in which its lock is
  taken, and what the caller saw. \<open>Issued\<close> and \<open>Paired\<close> record the successes.
\<close>

datatype challenge_event = Issued bytes time | Paired bytes time verified_pairing

inductive challenge_trace :: "runtime \<Rightarrow> duration \<Rightarrow> challenge_event list \<Rightarrow> challenge_store \<Rightarrow> bool"
  for rt ttl where
  start: "challenge_trace rt ttl [] (new_challenge_store ttl)"
| issued: "challenge_trace rt ttl es s \<Longrightarrow> issue_challenge (Some s) now raw = (Inr n, Some s') \<Longrightarrow>
    challenge_trace rt ttl (es @ [Issued n now]) s'"
| issue_failed: "challenge_trace rt ttl es s \<Longrightarrow> issue_challenge (Some s) now raw = (Inl e, Some s') \<Longrightarrow>
    challenge_trace rt ttl es s'"
| paired: "challenge_trace rt ttl es s \<Longrightarrow>
    verify_and_consume_pairing rt (Some s) now p = (Inr v, Some s') \<Longrightarrow>
    challenge_trace rt ttl (es @ [Paired (pp_nonce p) now v]) s'"
| pair_failed: "challenge_trace rt ttl es s \<Longrightarrow>
    verify_and_consume_pairing rt (Some s) now p = (Inl e, Some s') \<Longrightarrow>
    challenge_trace rt ttl es s'"

fun times_issued :: "bytes \<Rightarrow> challenge_event list \<Rightarrow> nat" where
  "times_issued n [] = 0"
| "times_issued n (Issued m t # es) = (if m = n then 1 else 0) + times_issued n es"
| "times_issued n (Paired m t v # es) = times_issued n es"

fun times_paired :: "bytes \<Rightarrow> challenge_event list \<Rightarrow> nat" where
  "times_paired n [] = 0"
| "times_paired n (Paired m t v # es) = (if m = n then 1 else 0) + times_paired n es"
| "times_paired n (Issued m t # es) = times_paired n es"

lemma times_append [simp]:
  "times_issued n (es @ fs) = times_issued n es + times_issued n fs"
  "times_paired n (es @ fs) = times_paired n es + times_paired n fs"
  by (induction es rule: times_issued.induct; simp)+

lemma issue_challenge_Inr:
  "issue_challenge (Some s) now raw = (Inr n, s') \<longleftrightarrow>
     0 < cs_ttl s \<and> (\<exists>bs. raw = Some bs \<and> n = b64_encode bs) \<and>
     s' = Some (s\<lparr>cs_challenges := map_put n (now + cs_ttl s) (cs_challenges s)\<rparr>)"
  by (auto simp: issue_challenge_def Let_def split: option.splits if_splits)

lemma issue_challenge_Inl: "issue_challenge (Some s) now raw = (Inl e, s') \<Longrightarrow> s' = Some s"
  by (auto simp: issue_challenge_def Let_def split: option.splits if_splits)

lemma consume_Inr:
  "verify_and_consume_pairing rt (Some s) now p = (Inr v, s') \<longleftrightarrow>
     (\<exists>fp t. verify_pairing_proof rt p = Inr fp \<and> map_of (cs_challenges s) (pp_nonce p) = Some t \<and>
        now < t \<and> v = \<lparr>vp_device = pp_device p, vp_public = pp_public p, vp_fingerprint = fp\<rparr> \<and>
        s' = Some (s\<lparr>cs_challenges := map_del (pp_nonce p) (cs_challenges s)\<rparr>))"
  by (auto simp: verify_and_consume_pairing_def Let_def split: option.splits sum.splits if_splits)

lemma consume_Inl:
  "verify_and_consume_pairing rt (Some s) now p = (Inl e, s') \<Longrightarrow>
     s' = Some s \<or> s' = Some (s\<lparr>cs_challenges := map_del (pp_nonce p) (cs_challenges s)\<rparr>)"
  by (auto simp: verify_and_consume_pairing_def Let_def split: option.splits sum.splits if_splits)

text \<open>
  The invariant of traces: pending challenges and pairings of a nonce together never
  exceed its issues, and what is pending expires one lifetime after an issue.
\<close>

definition challenge_inv :: "runtime \<Rightarrow> duration \<Rightarrow> challenge_event list \<Rightarrow> challenge_store \<Rightarrow> bool" where
  "challenge_inv rt ttl es s \<longleftrightarrow>
     cs_ttl s = ttl \<and>
     (\<forall>n. times_paired n es \<le> times_issued n es) \<and>
     (\<forall>n t. map_of (cs_challenges s) n = Some t \<longrightarrow>
        times_paired n es < times_issued n es \<and> (\<exists>t0. Issued n t0 \<in> set es \<and> t = t0 + ttl)) \<and>
     (\<forall>n t v. Paired n t v \<in> set es \<longrightarrow>
        (\<exists>t0. Issued n t0 \<in> set es \<and> t < t0 + ttl) \<and> valid_device_id (vp_device v) \<and>
        (\<exists>k. b64_decode (vp_public v) = Some k \<and> vp_fingerprint v = fingerprint rt k))"

lemma challenge_inv_del:
  "challenge_inv rt ttl es s \<Longrightarrow>
     challenge_inv rt ttl es (s\<lparr>cs_challenges := map_del n (cs_challenges s)\<rparr>)"
  by (auto simp: challenge_inv_def gomap_simps)

lemma challenge_inv_issue:
  assumes "challenge_inv rt ttl es s"
  shows "challenge_inv rt ttl (es @ [Issued n now])
    (s\<lparr>cs_challenges := map_put n (now + ttl) (cs_challenges s)\<rparr>)"
  using assms unfolding challenge_inv_def
  by (auto simp: gomap_simps less_Suc_eq_le intro: le_SucI less_SucI) blast+

lemma challenge_inv_pair:
  assumes inv: "challenge_inv rt ttl es s"
    and verified: "verify_pairing_proof rt p = Inr fp"
    and pending: "map_of (cs_challenges s) (pp_nonce p) = Some t" and fresh: "now < t"
  shows "challenge_inv rt ttl
    (es @ [Paired (pp_nonce p) now
       \<lparr>vp_device = pp_device p, vp_public = pp_public p, vp_fingerprint = fp\<rparr>])
    (s\<lparr>cs_challenges := map_del (pp_nonce p) (cs_challenges s)\<rparr>)"
proof -
  have "times_paired (pp_nonce p) es < times_issued (pp_nonce p) es"
    and "\<exists>t0. Issued (pp_nonce p) t0 \<in> set es \<and> now < t0 + ttl"
    using inv pending fresh unfolding challenge_inv_def by blast+
  with inv verified show ?thesis
    unfolding challenge_inv_def verify_pairing_proof_Inr
    by (auto simp: gomap_simps)
qed

lemma challenge_trace_inv: "challenge_trace rt ttl es s \<Longrightarrow> challenge_inv rt ttl es s"
proof (induction rule: challenge_trace.induct)
  case start
  show ?case by (simp add: challenge_inv_def new_challenge_store_def)
next
  case (issued es s now raw n s')
  then have "cs_ttl s = ttl" by (simp add: challenge_inv_def)
  with issued challenge_inv_issue [OF issued.IH, of n now] show ?case
    by (simp add: issue_challenge_Inr)
next
  case (paired es s now p v s')
  then show ?case by (auto simp: consume_Inr intro: challenge_inv_pair)
qed (auto dest: issue_challenge_Inl consume_Inl intro: challenge_inv_del)

section \<open>Properties\<close>

text \<open>Sample values for the witnesses.\<close>

definition sample_device :: bytes where
  "sample_device = ''00000000-0000-4000-8000-00000000000a''"

definition sample_private :: bytes where
  "sample_private = replicate 64 (CHR ''k'')"

definition sample_public :: bytes where
  "sample_public = public_of sample_private"

definition sample_nonce :: bytes where
  "sample_nonce = b64_encode (replicate 32 (CHR ''n''))"

lemma sample_device_valid [simp]: "valid_device_id sample_device"
  by (simp add: valid_device_id_def sample_device_def device_id_char_def)

lemma sample_key_sizes [simp]:
  "length sample_public = public_key_size" "length sample_private = private_key_size"
  by (simp_all add: sample_public_def sample_private_def public_of_def key_sizes)

lemma sample_keypair: "keypair_ok sample_runtime sample_public sample_private"
  by (simp add: sample_public_def sample_runtime_ok)

lemma sample_nonce_bounds: "sample_nonce \<noteq> []" "length sample_nonce \<le> 256"
  using length_b64_encode [of "replicate 32 (CHR ''n'')"] by (simp_all add: sample_nonce_def)

text \<open>
  A proof made with a matching key pair verifies, and verification returns the
  fingerprint of the key that made it.
\<close>

theorem pairing_proof_roundtrip:
  assumes "keypair_ok rt pub priv" and "new_pairing_proof rt d n pub priv = Inr p"
  shows "verify_pairing_proof rt p = Inr (fingerprint rt pub) \<and> pp_device p = d \<and> pp_nonce p = n"
  using assms
  by (auto simp: new_pairing_proof_def verify_pairing_proof_Inr keypair_ok_def key_sizes
      split: if_splits)

theorem pairing_proof_roundtrip_witness:
  "\<exists>p. new_pairing_proof sample_runtime sample_device sample_nonce sample_public sample_private = Inr p
     \<and> verify_pairing_proof sample_runtime p = Inr (fingerprint sample_runtime sample_public)"
proof -
  obtain p where p: "new_pairing_proof sample_runtime sample_device sample_nonce sample_public
      sample_private = Inr p"
    using sample_nonce_bounds by (simp add: new_pairing_proof_def not_less)
  from pairing_proof_roundtrip [OF sample_keypair p] p show ?thesis by blast
qed

text \<open>
  The signed record message determines every field of the record that it covers: two
  records with the same message agree on dataset, schema version, identifier, revision,
  instant, origin, deletion flag and payload digest, as long as their datasets and origins
  hold no line feed. The identifier is free: a line feed in it cannot move a field boundary.
\<close>

theorem record_message_binds:
  assumes time: "time_text_ok rt"
    and plain: "line_feed \<notin> set (env_dataset e)" "line_feed \<notin> set (env_dataset e')"
      "line_feed \<notin> set (env_origin e)" "line_feed \<notin> set (env_origin e')"
    and same: "record_proof_message rt e = record_proof_message rt e'"
  shows "env_dataset e = env_dataset e' \<and> env_schema e = env_schema e' \<and> env_id e = env_id e' \<and>
    env_revision e = env_revision e' \<and> env_updated e = env_updated e' \<and>
    env_origin e = env_origin e' \<and> env_deleted e = env_deleted e' \<and>
    rt_sha256 rt (rt_payload rt (env_payload e)) = rt_sha256 rt (rt_payload rt (env_payload e'))"
proof -
  let ?front = "\<lambda>e. [''GC-SYNC-RECORD/1'', env_dataset e, show_int (env_schema e)]"
  let ?tail = "\<lambda>e. [show_nat (unat (env_revision e)), rt_time rt (env_updated e), env_origin e,
    show_bool (env_deleted e), hex_encode (rt_sha256 rt (rt_payload rt (env_payload e)))]"
  have "join_lines (?front e @ [env_id e] @ ?tail e) = join_lines (?front e' @ [env_id e'] @ ?tail e')"
    using same by (simp add: record_proof_message_def)
  moreover have "\<forall>l \<in> set (?front e) \<union> set (?front e') \<union> set (?tail e) \<union> set (?tail e').
      line_feed \<notin> set l"
    using plain time by (auto simp: time_text_ok_def show_int_no_newline)
  ultimately have "?front e = ?front e' \<and> env_id e = env_id e' \<and> ?tail e = ?tail e'"
    by (intro join_lines_inject) simp_all
  then show ?thesis using time
    by (auto simp: time_text_ok_def word_unat_eq_iff [where 'a = 64] dest: injD)
qed

definition sample_record :: record_envelope where
  "sample_record = \<lparr>env_dataset = ''search.history'', env_schema = 1, env_id = ''h1'',
     env_revision = 3, env_updated = 10, env_origin = sample_device, env_deleted = False,
     env_payload = Some [(''query'', JString ''isabelle'')]\<rparr>"

theorem record_message_binds_witness:
  "record_proof_message sample_runtime sample_record \<noteq>
     record_proof_message sample_runtime (sample_record\<lparr>env_revision := 4\<rparr>)"
proof
  assume same: "record_proof_message sample_runtime sample_record =
     record_proof_message sample_runtime (sample_record\<lparr>env_revision := 4\<rparr>)"
  have plain: "line_feed \<notin> set (env_dataset sample_record)" "line_feed \<notin> set (env_origin sample_record)"
    by (simp_all add: sample_record_def valid_device_id_no_line_feed)
  have "env_revision sample_record = env_revision (sample_record\<lparr>env_revision := 4\<rparr>)"
    using record_message_binds [OF sample_runtime_ok(2) _ _ _ _ same] plain by simp
  then show False by (simp add: sample_record_def)
qed

text \<open>
  A record proof made with a matching key pair verifies against the record it was made
  for and names its origin; a proof that verifies for some record is bound to that
  record's origin device.
\<close>

theorem record_proof_roundtrip:
  assumes "keypair_ok rt pub priv" and "new_record_proof rt e pub priv = Inr p"
  shows "verify_record_proof rt p e = Inr (fingerprint rt pub) \<and>
    (\<forall>e' fp. verify_record_proof rt p e' = Inr fp \<longrightarrow> env_origin e' = env_origin e \<and>
       fp = fingerprint rt pub)"
  using assms
  by (auto simp: new_record_proof_def verify_record_proof_Inr keypair_ok_def key_sizes
      split: if_splits)

theorem record_proof_roundtrip_witness:
  "\<exists>p. new_record_proof sample_runtime sample_record sample_public sample_private = Inr p
     \<and> verify_record_proof sample_runtime p sample_record = Inr (fingerprint sample_runtime sample_public)"
proof -
  obtain p where p: "new_record_proof sample_runtime sample_record sample_public sample_private = Inr p"
    using valid_device_id_nonempty [OF sample_device_valid]
    by (simp add: new_record_proof_def sample_record_def)
  from record_proof_roundtrip [OF sample_keypair p] p show ?thesis by blast
qed

text \<open>
  C19. Over any history of a challenge store, a nonce is paired at most as often as it was
  issued; every pairing happened within the lifetime of an issue of its nonce, names a
  well-formed device and carries the fingerprint of the key it proved.
\<close>

theorem challenge_single_use:
  assumes "challenge_trace rt ttl es s"
  shows "times_paired n es \<le> times_issued n es \<and>
    (\<forall>t v. Paired n t v \<in> set es \<longrightarrow>
       (\<exists>t0. Issued n t0 \<in> set es \<and> t < t0 + ttl) \<and> valid_device_id (vp_device v) \<and>
       (\<exists>k. b64_decode (vp_public v) = Some k \<and> vp_fingerprint v = fingerprint rt k))"
  using challenge_trace_inv [OF assms] unfolding challenge_inv_def by blast

text \<open>A history with one issue and one pairing.\<close>

definition sample_pairing :: pairing_proof where
  "sample_pairing = \<lparr>pp_device = sample_device, pp_nonce = sample_nonce,
     pp_public = b64_encode sample_public,
     pp_signature = b64_encode (rt_sign sample_runtime sample_private
       (pairing_message sample_device sample_nonce))\<rparr>"

lemma sample_pairing_verifies:
  "verify_pairing_proof sample_runtime sample_pairing = Inr (fingerprint sample_runtime sample_public)"
  using sample_keypair sample_nonce_bounds
  by (auto simp: sample_pairing_def verify_pairing_proof_Inr keypair_ok_def key_sizes
      sample_key_sizes [unfolded key_sizes])

theorem challenge_single_use_witness:
  "\<exists>es s. challenge_trace sample_runtime 60 es s \<and> times_paired sample_nonce es = 1 \<and>
     1 \<le> times_issued sample_nonce es"
proof -
  let ?s = "(new_challenge_store 60)\<lparr>cs_challenges := [(sample_nonce, 65)]\<rparr>"
  let ?v = "\<lparr>vp_device = sample_device, vp_public = b64_encode sample_public,
    vp_fingerprint = fingerprint sample_runtime sample_public\<rparr>"
  have one: "challenge_trace sample_runtime 60 ([] @ [Issued sample_nonce 5]) ?s"
    by (rule challenge_trace.issued [OF challenge_trace.start,
          where raw = "Some (replicate 32 (CHR ''n''))"])
      (simp only: issue_challenge_Inr, simp add: new_challenge_store_def sample_nonce_def)
  have "challenge_trace sample_runtime 60 (([] @ [Issued sample_nonce 5]) @
      [Paired (pp_nonce sample_pairing) 20 ?v]) (?s\<lparr>cs_challenges := map_del sample_nonce (cs_challenges ?s)\<rparr>)"
    by (rule challenge_trace.paired [OF one])
      (simp only: consume_Inr, simp add: sample_pairing_verifies, simp add: sample_pairing_def)
  then have trace: "challenge_trace sample_runtime 60
      [Issued sample_nonce 5, Paired sample_nonce 20 ?v]
      (?s\<lparr>cs_challenges := map_del sample_nonce (cs_challenges ?s)\<rparr>)"
    by (simp add: sample_pairing_def)
  from challenge_single_use [OF trace, of sample_nonce] trace show ?thesis
    by (intro exI conjI) (rule trace, simp_all)
qed

end
