(* ===== verification/Peers.thy ===== *)
theory Peers
  imports Frames Identity
begin

text \<open>
  The capability handshake (\<open>transport/protocol.go\<close>) and the connection of a peer
  (\<open>transport/peer.go\<close>): its life cycle, the write-once binding of the key fingerprint, and
  sending and receiving the handshake. What the network makes of a dialed address
  is an argument.
\<close>

section \<open>Handshakes\<close>

definition peer_protocol :: bytes where
  "peer_protocol = ''GC-SYNC/1''"

definition max_handshake_features :: nat where
  "max_handshake_features = 32"

record handshake =
  hs_protocol :: bytes
  hs_device :: bytes
  hs_features :: "bytes list"

text \<open>
  The loops range over runes; every byte of a rune that is not ASCII fails the tests below as
  the rune does, so the bytes can be tested one by one.
\<close>

definition feature_char :: "char \<Rightarrow> bool" where
  "feature_char c \<longleftrightarrow>
     (let n = of_char c :: nat in
      97 \<le> n \<and> n \<le> 122 \<or> 48 \<le> n \<and> n \<le> 57 \<or> c = CHR ''-'' \<or> c = CHR ''_'' \<or> c = CHR ''.'')"

definition valid_feature :: "bytes \<Rightarrow> bool" where
  "valid_feature value \<longleftrightarrow>
     \<not> (value = [] \<or> 64 < length value \<or> trim_space value \<noteq> value) \<and> list_all feature_char value"

definition peer_id_char :: "nat \<Rightarrow> char \<Rightarrow> bool" where
  "peer_id_char i c =
     (let n = of_char c :: nat in
      if i \<in> {8, 13, 18, 23} then c = CHR ''-''
      else 48 \<le> n \<and> n \<le> 57 \<or> 97 \<le> n \<and> n \<le> 102)"

definition valid_peer_id :: "bytes \<Rightarrow> bool" where
  "valid_peer_id value \<longleftrightarrow> length value = 36 \<and> list_all (\<lambda>(i, c). peer_id_char i c) (enumerate 0 value)"

fun check_features :: "bytes set \<Rightarrow> bytes list \<Rightarrow> unit result" where
  "check_features seen [] = Inr ()"
| "check_features seen (f # fs) =
     (if \<not> valid_feature f then Inl (Msg ''invalid handshake feature'')
      else if f \<in> seen then Inl (Msg ''duplicate handshake feature'')
      else check_features (insert f seen) fs)"

definition validate_handshake :: "handshake \<Rightarrow> unit result" where
  "validate_handshake h =
     (if hs_protocol h \<noteq> peer_protocol then Inl (Msg ''unsupported sync protocol'')
      else if \<not> valid_peer_id (hs_device h) then Inl (Msg ''device ID must be a canonical lowercase UUID'')
      else if max_handshake_features < length (hs_features h) then Inl (Msg ''too many handshake features'')
      else check_features {} (hs_features h))"

section \<open>Connections\<close>

text \<open>
  A \<open>net.Conn\<close>: what will be read from it, what is written to it, and what its \<open>Close\<close>
  returns. Reads and writes on a closed connection fail.
\<close>

abbreviation ErrClosed :: go_error where
  "ErrClosed \<equiv> Sentinel ''use of closed network connection''"

record conn =
  cn_in :: reader
  cn_out :: writer
  cn_close :: "unit result"

text \<open>
  After closing, the next write fails; every caller gives up at its first error, so one
  failing entry in the plan of the writer is enough.
\<close>

definition hang_up :: "conn \<Rightarrow> conn" where
  "hang_up c = c\<lparr>cn_in := \<lparr>rd_bytes = [], rd_end = Broken ErrClosed\<rparr>,
     cn_out := (cn_out c)\<lparr>wr_plan := [(0, Some ErrClosed)]\<rparr>\<rparr>"

definition conn_write_json :: "'a codec \<Rightarrow> conn \<Rightarrow> 'a \<Rightarrow> unit result \<times> conn" where
  "conn_write_json cd c v =
     (case write_json_frame cd (Some (cn_out c)) v of
        (res, Some w) \<Rightarrow> (res, c\<lparr>cn_out := w\<rparr>) | (res, None) \<Rightarrow> (res, c))"

definition conn_read_json :: "'a codec \<Rightarrow> conn \<Rightarrow> 'a result \<times> conn" where
  "conn_read_json cd c =
     (case read_json_frame cd (Some (cn_in c)) of
        (res, Some r) \<Rightarrow> (res, c\<lparr>cn_in := r\<rparr>) | (res, None) \<Rightarrow> (res, c))"

definition conn_write_binary :: "conn \<Rightarrow> bytes \<Rightarrow> unit result \<times> conn" where
  "conn_write_binary c b =
     (case write_binary_frame (Some (cn_out c)) b of
        (res, Some w) \<Rightarrow> (res, c\<lparr>cn_out := w\<rparr>) | (res, None) \<Rightarrow> (res, c))"

definition conn_read_binary :: "conn \<Rightarrow> int \<Rightarrow> bytes result \<times> conn" where
  "conn_read_binary c max_size =
     (case read_binary_frame (Some (cn_in c)) max_size of
        (res, Some r) \<Rightarrow> (res, c\<lparr>cn_in := r\<rparr>) | (res, None) \<Rightarrow> (res, c))"

section \<open>Peers\<close>

text \<open>A \<open>*PeerConn\<close> that is nil is \<open>None\<close>, and so is a nil connection inside one.\<close>

record peer =
  pc_conn :: "conn option"
  pc_local :: bytes
  pc_device :: bytes
  pc_fingerprint :: bytes
  pc_closed :: bool

text \<open>Dialing an address: the argument \<open>dialed\<close> is what the network makes of it.\<close>

definition dial_peer :: "bytes \<Rightarrow> duration \<Rightarrow> conn result \<Rightarrow> peer result" where
  "dial_peer address timeout dialed =
     (if address = [] \<or> timeout \<le> 0 then Inl (Msg ''peer address and timeout are required'')
      else and_then (wrap_error ''dial peer'' dialed) (\<lambda>c.
        Inr \<lparr>pc_conn = Some c, pc_local = [], pc_device = [], pc_fingerprint = [], pc_closed = False\<rparr>))"

definition accept_peer :: "conn option \<Rightarrow> peer result" where
  "accept_peer c =
     (case c of
        None \<Rightarrow> Inl (Msg ''peer connection must not be nil'')
      | Some c \<Rightarrow> Inr \<lparr>pc_conn = Some c, pc_local = [], pc_device = [], pc_fingerprint = [], pc_closed = False\<rparr>)"

text \<open>Neither assigns any trust.\<close>

lemma raw_peer_untrusted:
  "dial_peer address timeout dialed = Inr p \<Longrightarrow> pc_device p = [] \<and> pc_fingerprint p = [] \<and> \<not> pc_closed p"
  "accept_peer c = Inr p \<Longrightarrow> pc_device p = [] \<and> pc_fingerprint p = [] \<and> \<not> pc_closed p"
  by (auto simp: dial_peer_def accept_peer_def and_then_def split: if_splits sum.splits option.splits)

definition authenticated_device_id :: "peer option \<Rightarrow> bytes" where
  "authenticated_device_id p = (case p of None \<Rightarrow> [] | Some p \<Rightarrow> pc_device p)"

definition authenticated_key_fingerprint :: "peer option \<Rightarrow> bytes" where
  "authenticated_key_fingerprint p = (case p of None \<Rightarrow> [] | Some p \<Rightarrow> pc_fingerprint p)"

definition is_closed :: "peer option \<Rightarrow> bool" where
  "is_closed p = (case p of None \<Rightarrow> True | Some p \<Rightarrow> pc_closed p)"

definition no_conn :: "peer option \<Rightarrow> bool" where
  "no_conn p = (case p of None \<Rightarrow> True | Some p \<Rightarrow> pc_conn p = None)"

definition bind_fingerprint :: "peer option \<Rightarrow> bytes \<Rightarrow> unit result \<times> peer option" where
  "bind_fingerprint p key =
     (case p of
        None \<Rightarrow> (Inl (Msg ''authenticated peer connection is unavailable''), p)
      | Some q \<Rightarrow>
          if pc_conn q = None \<or> is_closed p \<or> pc_device q = []
          then (Inl (Msg ''authenticated peer connection is unavailable''), p)
          else
            let key = trim_space key in
            if key = [] then (Inl (Msg ''authenticated key fingerprint is required''), p)
            else if pc_fingerprint q \<noteq> []
            then (if pc_fingerprint q = key then (Inr (), p)
                  else (Inl (Msg ''authenticated key fingerprint is already bound''), p))
            else (Inr (), Some (q\<lparr>pc_fingerprint := key\<rparr>)))"

definition close_peer :: "peer option \<Rightarrow> unit result \<times> peer option" where
  "close_peer p =
     (case p of
        None \<Rightarrow> (Inr (), p)
      | Some q \<Rightarrow>
          (case pc_conn q of
             None \<Rightarrow> (Inr (), p)
           | Some c \<Rightarrow>
               if pc_closed q then (Inr (), p)
               else (cn_close c, Some (q\<lparr>pc_closed := True, pc_conn := Some (hang_up c)\<rparr>))))"

definition send_handshake :: "handshake codec \<Rightarrow> peer option \<Rightarrow> handshake \<Rightarrow> unit result \<times> peer option" where
  "send_handshake cd p h =
     (case p of
        None \<Rightarrow> (Inl (Msg ''peer connection is unavailable''), p)
      | Some q \<Rightarrow>
          (case pc_conn q of
             None \<Rightarrow> (Inl (Msg ''peer connection is unavailable''), p)
           | Some c \<Rightarrow>
               if is_closed p then (Inl (Msg ''peer connection is unavailable''), p)
               else case validate_handshake h of
                 Inl e \<Rightarrow> (Inl (Wrap ''validate local handshake'' e), p)
               | Inr _ \<Rightarrow>
                   if pc_local q \<noteq> [] \<and> hs_device h \<noteq> pc_local q
                   then (Inl (Msg ''local handshake device ID does not match authenticated TLS identity''), p)
                   else (case conn_write_json cd c h of
                      (res, c) \<Rightarrow> (wrap_error ''send peer handshake'' res, Some (q\<lparr>pc_conn := Some c\<rparr>)))))"

definition receive_handshake :: "handshake codec \<Rightarrow> peer option \<Rightarrow> handshake result \<times> peer option" where
  "receive_handshake cd p =
     (case p of
        None \<Rightarrow> (Inl (Msg ''peer connection is unavailable''), p)
      | Some q \<Rightarrow>
          (case pc_conn q of
             None \<Rightarrow> (Inl (Msg ''peer connection is unavailable''), p)
           | Some c \<Rightarrow>
               if is_closed p then (Inl (Msg ''peer connection is unavailable''), p)
               else case conn_read_json cd c of
                 (Inl e, c) \<Rightarrow> (Inl (Wrap ''receive peer handshake'' e), Some (q\<lparr>pc_conn := Some c\<rparr>))
               | (Inr h, c) \<Rightarrow>
                   (case validate_handshake h of
                      Inl e \<Rightarrow> (Inl (Wrap ''validate peer handshake'' e), Some (q\<lparr>pc_conn := Some c\<rparr>))
                    | Inr _ \<Rightarrow>
                        if pc_device q \<noteq> [] \<and> hs_device h \<noteq> pc_device q
                        then (Inl (Msg ''peer handshake device ID does not match authenticated TLS identity''),
                              Some (q\<lparr>pc_conn := Some c\<rparr>))
                        else (Inr h, Some (q\<lparr>pc_conn := Some c\<rparr>)))))"

section \<open>Facts\<close>

text \<open>The transport and the identity package test device identifiers alike.\<close>

lemma peer_id_char_eq: "peer_id_char = device_id_char"
  by (simp add: fun_eq_iff peer_id_char_def device_id_char_def Let_def)

lemma peer_id_chars: "list_all (\<lambda>(i, c). peer_id_char i c) (enumerate n v) = device_id_chars n v"
  by (induction v arbitrary: n) (auto simp: peer_id_char_eq)

lemma valid_peer_id_eq: "valid_peer_id v = valid_device_id v"
  by (simp add: valid_peer_id_def valid_device_id_def peer_id_chars)

lemma check_features_Inr:
  "check_features seen fs = Inr () \<longleftrightarrow> list_all valid_feature fs \<and> distinct fs \<and> set fs \<inter> seen = {}"
  by (induction fs arbitrary: seen) auto

lemma validate_handshake_Inr:
  "validate_handshake h = Inr () \<longleftrightarrow>
     hs_protocol h = peer_protocol \<and> valid_device_id (hs_device h) \<and>
     length (hs_features h) \<le> max_handshake_features \<and> list_all valid_feature (hs_features h) \<and>
     distinct (hs_features h)"
  by (auto simp: validate_handshake_def check_features_Inr valid_peer_id_eq result_iff)

text \<open>The frame format on a connection.\<close>

lemma conn_write_json_open:
  "open_writer (cn_out c) \<Longrightarrow> codec_ok cd v \<Longrightarrow>
     conn_write_json cd c v =
       (Inr (), c\<lparr>cn_out := (cn_out c)\<lparr>wr_bytes := wr_bytes (cn_out c) @ frame_of (json_text cd v)\<rparr>\<rparr>)"
  by (simp add: conn_write_json_def control.write_open)

lemma conn_read_json_frame:
  "codec_ok cd v \<Longrightarrow> cn_in c = r\<lparr>rd_bytes := frame_of (json_text cd v) @ rest\<rparr> \<Longrightarrow>
     conn_read_json cd c = (Inr v, c\<lparr>cn_in := r\<lparr>rd_bytes := rest\<rparr>\<rparr>)"
  by (simp add: conn_read_json_def control.read_enc)

lemma conn_write_binary_open:
  "open_writer (cn_out c) \<Longrightarrow> b \<noteq> [] \<Longrightarrow> length b \<le> max_frame_size \<Longrightarrow>
     conn_write_binary c b = (Inr (), c\<lparr>cn_out := (cn_out c)\<lparr>wr_bytes := wr_bytes (cn_out c) @ frame_of b\<rparr>\<rparr>)"
  by (simp add: conn_write_binary_def write_binary_frame_open)

lemma conn_read_binary_frame:
  "b \<noteq> [] \<Longrightarrow> int (length b) \<le> m \<Longrightarrow> m \<le> int max_frame_size \<Longrightarrow> cn_in c = r\<lparr>rd_bytes := frame_of b @ rest\<rparr> \<Longrightarrow>
     conn_read_binary c m = (Inr b, c\<lparr>cn_in := r\<lparr>rd_bytes := rest\<rparr>\<rparr>)"
  by (simp add: conn_read_binary_def read_binary_frame_of)

text \<open>What any outcome keeps, and what a success has written.\<close>

lemma write_json_frame_keeps: "\<exists>res w'. write_json_frame cd (Some w) v = (res, Some w')"
  by (auto simp: write_json_frame_def split: sum.splits prod.splits)

lemma read_json_frame_keeps: "\<exists>res r'. read_json_frame cd (Some r) = (res, Some r')"
  by (auto simp: read_json_frame_def Let_def split: sum.splits prod.splits option.splits json_next.splits)

lemma write_binary_frame_keeps: "\<exists>res w'. write_binary_frame (Some w) b = (res, Some w')"
  by (auto simp: write_binary_frame_def split: sum.splits prod.splits)

lemma conn_read_json_keeps: "conn_read_json cd c = (res, c') \<Longrightarrow> cn_out c' = cn_out c"
  by (auto simp: conn_read_json_def split: prod.splits option.splits)

lemma conn_read_binary_keeps: "conn_read_binary c m = (res, c') \<Longrightarrow> cn_out c' = cn_out c"
  by (auto simp: conn_read_binary_def split: prod.splits option.splits)

lemma conn_write_json_keeps: "conn_write_json cd c v = (res, c') \<Longrightarrow> cn_in c' = cn_in c"
  by (auto simp: conn_write_json_def split: prod.splits option.splits)

lemma conn_write_binary_keeps: "conn_write_binary c b = (res, c') \<Longrightarrow> cn_in c' = cn_in c"
  by (auto simp: conn_write_binary_def split: prod.splits option.splits)

lemma conn_write_json_ok:
  assumes "conn_write_json cd c v = (Inr (), c')"
  shows "cn_in c' = cn_in c \<and> wr_bytes (cn_out c') = wr_bytes (cn_out c) @ frame_of (json_text cd v)"
proof -
  obtain res w where run: "write_json_frame cd (Some (cn_out c)) v = (res, Some w)"
    using write_json_frame_keeps [of cd "cn_out c" v] by auto
  with assms have ok: "write_json_frame cd (Some (cn_out c)) v = (Inr (), Some w)" and c': "c' = c\<lparr>cn_out := w\<rparr>"
    by (auto simp: conn_write_json_def)
  from write_json_frame_ok [OF ok] show ?thesis by (auto simp: c' json_text_def)
qed

lemma conn_write_binary_ok:
  assumes "conn_write_binary c b = (Inr (), c')"
  shows "cn_in c' = cn_in c \<and> wr_bytes (cn_out c') = wr_bytes (cn_out c) @ frame_of b"
proof -
  obtain res w where run: "write_binary_frame (Some (cn_out c)) b = (res, Some w)"
    using write_binary_frame_keeps [of "cn_out c" b] by auto
  with assms have ok: "write_binary_frame (Some (cn_out c)) b = (Inr (), Some w)" and c': "c' = c\<lparr>cn_out := w\<rparr>"
    by (auto simp: conn_write_binary_def)
  from write_binary_frame_ok [OF ok] show ?thesis by (simp add: c')
qed

lemma hang_up_written [simp]: "wr_bytes (cn_out (hang_up c)) = wr_bytes (cn_out c)"
  by (simp add: hang_up_def)

lemma is_closed_Some [simp]: "is_closed (Some p) = pc_closed p"
  by (simp add: is_closed_def)

lemma close_peer_closes: "pc_conn p \<noteq> None \<Longrightarrow> is_closed (snd (close_peer (Some p)))"
  by (auto simp: close_peer_def)

section \<open>What a call keeps\<close>

text \<open>What every call keeps of a connection.\<close>

definition peer_written :: "peer \<Rightarrow> bytes" where
  "peer_written p = (case pc_conn p of None \<Rightarrow> [] | Some c \<Rightarrow> wr_bytes (cn_out c))"

definition peer_kept :: "peer \<Rightarrow> peer \<Rightarrow> bool" where
  "peer_kept p q \<longleftrightarrow>
     pc_device q = pc_device p \<and> pc_local q = pc_local p \<and>
     (pc_fingerprint p \<noteq> [] \<longrightarrow> pc_fingerprint q = pc_fingerprint p) \<and>
     (pc_fingerprint q \<noteq> pc_fingerprint p \<longrightarrow> pc_device p \<noteq> [] \<and> \<not> pc_closed p) \<and>
     (pc_closed p \<longrightarrow> q = p)"

lemma peer_kept_refl [simp]: "peer_kept p p"
  by (simp add: peer_kept_def)

lemma peer_kept_trans: "peer_kept p q \<Longrightarrow> peer_kept q r \<Longrightarrow> peer_kept p r"
  unfolding peer_kept_def by metis

lemma peer_calls_kept:
  "bind_fingerprint (Some p) key = (res, Some q) \<Longrightarrow> peer_kept p q"
  "close_peer (Some p) = (res, Some q) \<Longrightarrow> peer_kept p q"
  "send_handshake cd (Some p) h = (res, Some q) \<Longrightarrow> peer_kept p q"
  "receive_handshake cd (Some p) = (got, Some q) \<Longrightarrow> peer_kept p q"
  by (auto simp: bind_fingerprint_def close_peer_def send_handshake_def receive_handshake_def peer_kept_def Let_def
      split: if_splits option.splits prod.splits sum.splits)

section \<open>Properties\<close>

definition sample_conn :: "bytes \<Rightarrow> conn" where
  "sample_conn input = \<lparr>cn_in = \<lparr>rd_bytes = input, rd_end = Eof\<rparr>, cn_out = \<lparr>wr_bytes = [], wr_plan = []\<rparr>,
     cn_close = Inr ()\<rparr>"

definition sample_link :: "bytes \<Rightarrow> peer" where
  "sample_link input = \<lparr>pc_conn = Some (sample_conn input), pc_local = sample_device, pc_device = sample_device,
     pc_fingerprint = [], pc_closed = False\<rparr>"

lemma sample_link_sel [simp]:
  "pc_conn (sample_link input) = Some (sample_conn input)" "pc_local (sample_link input) = sample_device"
  "pc_device (sample_link input) = sample_device" "pc_closed (sample_link input) = False"
  "cn_in (sample_conn input) = \<lparr>rd_bytes = input, rd_end = Eof\<rparr>" "peer_written (sample_link input) = []"
  "open_writer (cn_out (sample_conn input))"
  by (simp_all add: sample_link_def sample_conn_def peer_written_def open_writer_def)

lemma trim_space_key: "trim_space ''key'' = ''key''"
  by (rule trim_space_printable) (simp_all add: printable_def)

text \<open>
  The handshake a secure peer sends is received as it was sent by the peer at the other
  end; and whatever arrives there, the handshake returned is well-formed and names the
  authenticated device.
\<close>

theorem handshake_roundtrip:
  assumes "send_handshake cd (Some p) h = (Inr (), Some p')" and "pc_conn p = Some c"
    and "open_writer (cn_out c)" and "codec_ok cd h" and "pc_local p \<noteq> []"
    and "pc_conn q = Some d" and "\<not> pc_closed q" and "pc_device q = pc_local p"
  shows "\<exists>sent. peer_written p' = peer_written p @ sent \<and>
    (cn_in d = \<lparr>rd_bytes = sent @ rest, rd_end = x\<rparr> \<longrightarrow>
       receive_handshake cd (Some q) = (Inr h, Some (q\<lparr>pc_conn := Some (d\<lparr>cn_in := \<lparr>rd_bytes = rest, rd_end = x\<rparr>\<rparr>)\<rparr>))) \<and>
    (\<forall>other got q'. receive_handshake cd (Some (q\<lparr>pc_conn := Some other\<rparr>)) = (Inr got, q') \<longrightarrow>
       hs_device got = pc_local p \<and> validate_handshake got = Inr ())"
proof -
  from assms(1-3,5) have valid: "validate_handshake h = Inr ()" and device: "hs_device h = pc_local p"
    and p': "p' = p\<lparr>pc_conn := Some (snd (conn_write_json cd c h))\<rparr>"
    by (auto simp: send_handshake_def wrap_error_def split: if_splits sum.splits prod.splits)
  let ?sent = "frame_of (json_text cd h)"
  have "peer_written p' = peer_written p @ ?sent"
    using assms(2) by (simp add: p' peer_written_def conn_write_json_open [OF assms(3,4)])
  moreover have "receive_handshake cd (Some q) = (Inr h, Some (q\<lparr>pc_conn := Some (d\<lparr>cn_in := \<lparr>rd_bytes = rest, rd_end = x\<rparr>\<rparr>)\<rparr>))"
    if inp: "cn_in d = \<lparr>rd_bytes = ?sent @ rest, rd_end = x\<rparr>"
  proof -
    have "conn_read_json cd d = (Inr h, d\<lparr>cn_in := \<lparr>rd_bytes = rest, rd_end = x\<rparr>\<rparr>)"
      using conn_read_json_frame [OF assms(4), where c = d and rest = rest and r = "\<lparr>rd_bytes = [], rd_end = x\<rparr>"] inp by simp
    then show ?thesis
      using assms(6-8) valid device by (simp add: receive_handshake_def)
  qed
  moreover have "hs_device got = pc_local p \<and> validate_handshake got = Inr ()"
    if "receive_handshake cd (Some (q\<lparr>pc_conn := Some other\<rparr>)) = (Inr got, q')" for other got q'
    using that assms(5,8) by (auto simp: receive_handshake_def split: if_splits sum.splits prod.splits)
  ultimately show ?thesis by blast
qed

definition sample_handshake :: handshake where
  "sample_handshake = \<lparr>hs_protocol = ''GC-SYNC/1'', hs_device = sample_device, hs_features = [''payload.v1'', ''sync'']\<rparr>"

lemma sample_handshake_valid: "validate_handshake sample_handshake = Inr ()"
proof -
  have "trim_space ''payload.v1'' = ''payload.v1''" "trim_space ''sync'' = ''sync''"
    by (rule trim_space_printable; simp add: printable_def)+
  then show ?thesis
    by (simp add: validate_handshake_Inr sample_handshake_def peer_protocol_def max_handshake_features_def
        valid_feature_def feature_char_def)
qed

theorem handshake_roundtrip_witness:
  "\<exists>p' sent. send_handshake (sample_codec sample_handshake ''{}'') (Some (sample_link [])) sample_handshake = (Inr (), Some p') \<and>
     peer_written p' = sent \<and>
     fst (receive_handshake (sample_codec sample_handshake ''{}'') (Some (sample_link sent))) = Inr sample_handshake"
proof -
  let ?cd = "sample_codec sample_handshake ''{}''"
  have cd: "codec_ok ?cd sample_handshake" by (rule sample_codec_ok) (simp_all add: max_frame_size_def)
  obtain p' where sent: "send_handshake ?cd (Some (sample_link [])) sample_handshake = (Inr (), Some p')"
    using conn_write_json_open [OF sample_link_sel(7) cd, of "[]"] sample_handshake_valid
    by (simp add: send_handshake_def sample_link_def sample_handshake_def)
  have "sample_device \<noteq> []" by (simp add: sample_device_def)
  then have "fst (receive_handshake ?cd (Some (sample_link (peer_written p')))) = Inr sample_handshake"
    using handshake_roundtrip [OF sent _ sample_link_sel(7) cd, of "[]" "sample_link (peer_written p')"
        "sample_conn (peer_written p')" "[]" Eof]
    by auto
  with sent show ?thesis by blast
qed

end
