(* ===== verification/Secure_Peers.thy ===== *)
theory Secure_Peers
  imports Peers
begin

text \<open>
  Admission of a peer over TLS (\<open>transport/secure_peer.go\<close>): the self-signed certificate of a
  device, the TLS configuration, the check of the peer's certificate against the pinned
  identity, and the confirmation that follows the handshake. The TLS handshake is a
  parameter: on a configuration and a connection it gives the state it negotiated and the
  protected connection, or an error; Go calls \<open>VerifyConnection\<close> on that state and fails the
  handshake if it fails.
\<close>

section \<open>Identities and constants\<close>

abbreviation ErrSecurePeerAuthentication :: go_error where
  "ErrSecurePeerAuthentication \<equiv> Sentinel ''secure peer authentication failed''"

definition secure_peer_alpn :: bytes where
  "secure_peer_alpn = ''goreecloud-sync/1''"

definition secure_peer_ready_protocol :: bytes where
  "secure_peer_ready_protocol = ''GC-SYNC-TLS-READY/1''"

text \<open>A day and five minutes, in nanoseconds.\<close>

definition certificate_lifetime :: duration where
  "certificate_lifetime = 24 * 60 * 60 * 10 ^ 9"

definition clock_skew :: duration where
  "clock_skew = 5 * 60 * 10 ^ 9"

record secure_peer_identity =
  si_device :: bytes
  si_private :: bytes

record trusted_peer_identity =
  ti_device :: bytes
  ti_public :: bytes

record secure_peer_ready =
  ry_protocol :: bytes
  ry_device :: bytes
  ry_accepted :: bytes

section \<open>Certificates\<close>

text \<open>
  What the program uses of an X.509 certificate. Only Ed25519 keys and signatures are told
  apart from all others. Instants are kept in a certificate to the second.
\<close>

datatype ext_usage = ClientAuth | ServerAuth | OtherUsage nat
datatype public_key = Ed25519Key bytes | OtherKey
datatype signature_algorithm = PureEd25519 | OtherAlgorithm

record template =
  ct_serial :: int
  ct_common_name :: bytes
  ct_not_before :: time
  ct_not_after :: time
  ct_digital_signature :: bool
  ct_ext_usage :: "ext_usage list"
  ct_is_ca :: bool

record certificate = template +
  ct_public :: public_key
  ct_algorithm :: signature_algorithm
  ct_tbs :: bytes
  ct_signature :: bytes

definition to_second :: "time \<Rightarrow> time" where
  "to_second t = t div 10 ^ 9 * 10 ^ 9"

text \<open>
  \<open>x509.CreateCertificate\<close> with an Ed25519 key, and \<open>ParseCertificate\<close> of its result; \<open>der\<close> is
  the encoding of the signed part.
\<close>

definition create_certificate :: "runtime \<Rightarrow> (template \<Rightarrow> bytes \<Rightarrow> bytes) \<Rightarrow> template \<Rightarrow> bytes \<Rightarrow> bytes \<Rightarrow> certificate" where
  "create_certificate rt der t public_key private_key =
     (let tbs = der t public_key in
      \<lparr>ct_serial = ct_serial t, ct_common_name = ct_common_name t, ct_not_before = to_second (ct_not_before t),
       ct_not_after = to_second (ct_not_after t), ct_digital_signature = ct_digital_signature t,
       ct_ext_usage = ct_ext_usage t, ct_is_ca = ct_is_ca t, ct_public = Ed25519Key public_key,
       ct_algorithm = PureEd25519, ct_tbs = tbs, ct_signature = rt_sign rt private_key tbs\<rparr>)"

text \<open>\<open>Certificate.CheckSignature\<close> with the certificate's own algorithm, signed part and signature.\<close>

definition check_signature :: "runtime \<Rightarrow> certificate \<Rightarrow> unit result" where
  "check_signature rt c =
     (case (ct_algorithm c, ct_public c) of
        (PureEd25519, Ed25519Key k) \<Rightarrow>
          if rt_verify rt k (ct_tbs c) (ct_signature c) then Inr ()
          else Inl (Msg ''x509: Ed25519 verification failure'')
      | _ \<Rightarrow> Inl (Msg ''x509: cannot verify signature''))"

definition secure_peer_common_name :: "bytes \<Rightarrow> bytes" where
  "secure_peer_common_name device = ''goreecloud-sync-device:'' @ device"

fun has_ext_usage :: "ext_usage list \<Rightarrow> ext_usage \<Rightarrow> bool" where
  "has_ext_usage [] required = False"
| "has_ext_usage (u # us) required = (u = required \<or> has_ext_usage us required)"

text \<open>\<open>rand.Int\<close> below \<open>2 ^ 128\<close> is the argument \<open>random\<close>.\<close>

definition new_secure_peer_certificate ::
  "runtime \<Rightarrow> (template \<Rightarrow> bytes \<Rightarrow> bytes) \<Rightarrow> secure_peer_identity \<Rightarrow> int result \<Rightarrow> time \<Rightarrow> certificate result" where
  "new_secure_peer_certificate rt der local random now =
     and_then (wrap_error ''generate secure peer certificate serial'' random) (\<lambda>serial.
       let serial = (if serial = 0 then 1 else serial);
           t = \<lparr>ct_serial = serial, ct_common_name = secure_peer_common_name (si_device local),
                ct_not_before = now - clock_skew, ct_not_after = now + certificate_lifetime,
                ct_digital_signature = True, ct_ext_usage = [ClientAuth, ServerAuth], ct_is_ca = False\<rparr> in
       Inr (create_certificate rt der t (public_of (si_private local)) (si_private local)))"

section \<open>The check of the peer\<close>

datatype tls_version = TLS12 | TLS13

record connection_state =
  cs_version :: tls_version
  cs_protocol :: bytes
  cs_certificates :: "certificate list"

definition verify_secure_peer ::
  "runtime \<Rightarrow> bytes \<Rightarrow> bytes \<Rightarrow> bool \<Rightarrow> time \<Rightarrow> connection_state \<Rightarrow> unit result" where
  "verify_secure_peer rt expected_device expected_key client now state =
     (let required = (if client then ServerAuth else ClientAuth) in
      if cs_version state \<noteq> TLS13
      then Inl (Wrap ''TLS 1.3 was not negotiated'' ErrSecurePeerAuthentication)
      else if cs_protocol state \<noteq> secure_peer_alpn
      then Inl (Wrap ''GoreeCloud Sync ALPN was not negotiated'' ErrSecurePeerAuthentication)
      else case cs_certificates state of
        [c] \<Rightarrow>
          if ct_common_name c \<noteq> secure_peer_common_name expected_device
          then Inl (Wrap ''peer device identity mismatch'' ErrSecurePeerAuthentication)
          else if ct_is_ca c \<or> \<not> ct_digital_signature c \<or> \<not> has_ext_usage (ct_ext_usage c) required
          then Inl (Wrap ''invalid peer certificate usage'' ErrSecurePeerAuthentication)
          else if now < ct_not_before c \<or> ct_not_after c < now
          then Inl (Wrap ''peer certificate is outside its validity interval'' ErrSecurePeerAuthentication)
          else if ct_public c \<noteq> Ed25519Key expected_key
          then Inl (Wrap ''peer public key mismatch'' ErrSecurePeerAuthentication)
          else (case check_signature rt c of
              Inl _ \<Rightarrow> Inl (Wrap ''invalid self-signed peer certificate'' ErrSecurePeerAuthentication)
            | Inr _ \<Rightarrow> Inr ())
      | _ \<Rightarrow> Inl (Wrap ''expected one peer certificate'' ErrSecurePeerAuthentication))"

section \<open>The TLS configuration\<close>

datatype client_auth = NoClientCert | RequireAnyClientCert

record tls_config =
  tl_min :: tls_version
  tl_max :: tls_version
  tl_certificates :: "certificate list"
  tl_protocols :: "bytes list"
  tl_tickets_disabled :: bool
  tl_verify_device :: bytes
  tl_verify_key :: bytes
  tl_verify_client :: bool
  tl_insecure_skip_verify :: bool
  tl_client_auth :: client_auth

definition secure_peer_tls_config ::
  "runtime \<Rightarrow> (template \<Rightarrow> bytes \<Rightarrow> bytes) \<Rightarrow> secure_peer_identity \<Rightarrow> trusted_peer_identity \<Rightarrow> bool \<Rightarrow>
     int result \<Rightarrow> time \<Rightarrow> tls_config result" where
  "secure_peer_tls_config rt der local expected client random now =
     (if \<not> valid_peer_id (si_device local) \<or> length (si_private local) \<noteq> private_key_size
      then Inl (Msg ''invalid local secure peer identity'')
      else if \<not> valid_peer_id (ti_device expected) \<or> length (ti_public expected) \<noteq> public_key_size
      then Inl (Msg ''invalid trusted peer identity'')
      else and_then (new_secure_peer_certificate rt der local random now) (\<lambda>c.
        Inr \<lparr>tl_min = TLS13, tl_max = TLS13, tl_certificates = [c], tl_protocols = [secure_peer_alpn],
             tl_tickets_disabled = True, tl_verify_device = ti_device expected,
             tl_verify_key = ti_public expected, tl_verify_client = client,
             tl_insecure_skip_verify = client,
             tl_client_auth = (if client then NoClientCert else RequireAnyClientCert)\<rparr>))"

section \<open>Admission\<close>

text \<open>
  The surroundings of one admission: the handshake of the TLS library, the clock, the random
  serial, whether the context has a deadline, and what setting and clearing it on the
  connection returns.
\<close>

record tls_env =
  te_handshake :: "tls_config \<Rightarrow> conn \<Rightarrow> (connection_state \<times> conn) result"
  te_der :: "template \<Rightarrow> bytes \<Rightarrow> bytes"
  te_now :: time
  te_random :: "int result"
  te_deadline :: bool
  te_set_deadline :: "unit result"
  te_clear_deadline :: "unit result"
  te_ready :: "secure_peer_ready codec"

definition ready_message :: "bytes \<Rightarrow> bytes \<Rightarrow> secure_peer_ready" where
  "ready_message local_device expected_device =
     \<lparr>ry_protocol = secure_peer_ready_protocol, ry_device = local_device, ry_accepted = expected_device\<rparr>"

definition exchange_ready :: "tls_env \<Rightarrow> conn \<Rightarrow> bytes \<Rightarrow> bytes \<Rightarrow> bool \<Rightarrow> unit result \<times> conn" where
  "exchange_ready env c local_device expected_device client =
     (if client then
        (case conn_read_json (te_ready env) c of
           (Inl e, c1) \<Rightarrow> (Inl (Wrap ''receive peer acceptance confirmation'' ErrSecurePeerAuthentication), c1)
         | (Inr ready, c1) \<Rightarrow>
             (if ry_protocol ready \<noteq> secure_peer_ready_protocol \<or> ry_device ready \<noteq> expected_device \<or>
                 ry_accepted ready \<noteq> local_device
              then Inl (Wrap ''invalid peer acceptance confirmation'' ErrSecurePeerAuthentication) else Inr (), c1))
      else
        (case conn_write_json (te_ready env) c (ready_message local_device expected_device) of
           (Inl e, c1) \<Rightarrow> (Inl (Wrap ''send peer acceptance confirmation'' ErrSecurePeerAuthentication), c1)
         | (Inr _, c1) \<Rightarrow> (Inr (), c1)))"

definition confirm_secure_peer :: "tls_env \<Rightarrow> conn \<Rightarrow> bytes \<Rightarrow> bytes \<Rightarrow> bool \<Rightarrow> unit result \<times> conn" where
  "confirm_secure_peer env c local_device expected_device client =
     (if \<not> te_deadline env
      then (Inl (Wrap ''secure peer confirmation deadline is unavailable'' ErrSecurePeerAuthentication), c)
      else case te_set_deadline env of
        Inl e \<Rightarrow> (Inl (Wrap ''set secure peer confirmation deadline'' ErrSecurePeerAuthentication), c)
      | Inr _ \<Rightarrow>
          (case exchange_ready env c local_device expected_device client of
             (confirmation, c1) \<Rightarrow>
               (if \<not> is_ok (te_clear_deadline env) \<and> is_ok confirmation
                then Inl (Wrap ''clear secure peer confirmation deadline'' ErrSecurePeerAuthentication)
                else confirmation, c1)))"

text \<open>A failure closes the underlying connection, the second result.\<close>

definition upgrade_secure_peer ::
  "runtime \<Rightarrow> tls_env \<Rightarrow> conn \<Rightarrow> tls_config \<Rightarrow> bytes \<Rightarrow> bytes \<Rightarrow> bool \<Rightarrow> peer result \<times> conn" where
  "upgrade_secure_peer rt env c config local_device expected_device client =
     (case te_handshake env config c of
        Inl e \<Rightarrow> (Inl ErrSecurePeerAuthentication, hang_up c)
      | Inr (state, protected) \<Rightarrow>
          (case verify_secure_peer rt (tl_verify_device config) (tl_verify_key config) (tl_verify_client config)
              (te_now env) state of
             Inl e \<Rightarrow> (Inl ErrSecurePeerAuthentication, hang_up c)
           | Inr _ \<Rightarrow>
               (case confirm_secure_peer env protected local_device expected_device client of
                  (Inl e, c1) \<Rightarrow> (Inl e, hang_up c1)
                | (Inr _, c1) \<Rightarrow>
                    (Inr \<lparr>pc_conn = Some c1, pc_local = local_device, pc_device = expected_device,
                       pc_fingerprint = [], pc_closed = False\<rparr>, c1))))"

text \<open>The arguments of the two entry points that only say whether they are nil or zero are flags.\<close>

definition dial_secure_peer ::
  "runtime \<Rightarrow> tls_env \<Rightarrow> bool \<Rightarrow> bytes \<Rightarrow> duration \<Rightarrow> conn result \<Rightarrow> secure_peer_identity \<Rightarrow>
     trusted_peer_identity \<Rightarrow> peer result" where
  "dial_secure_peer rt env has_context address timeout dialed local expected =
     (if \<not> has_context \<or> address = [] \<or> timeout \<le> 0
      then Inl (Msg ''secure peer context, address, and timeout are required'')
      else and_then (secure_peer_tls_config rt (te_der env) local expected True (te_random env) (te_now env)) (\<lambda>config.
        and_then (wrap_error ''dial secure peer'' dialed) (\<lambda>c.
          fst (upgrade_secure_peer rt env c config (si_device local) (ti_device expected) True))))"

definition accept_secure_peer ::
  "runtime \<Rightarrow> tls_env \<Rightarrow> bool \<Rightarrow> conn option \<Rightarrow> duration \<Rightarrow> secure_peer_identity \<Rightarrow>
     trusted_peer_identity \<Rightarrow> peer result \<times> conn option" where
  "accept_secure_peer rt env has_context accepted timeout local expected =
     (case accepted of
        None \<Rightarrow> (Inl (Msg ''secure peer context, connection, and timeout are required''), None)
      | Some c \<Rightarrow>
          if \<not> has_context \<or> timeout \<le> 0
          then (Inl (Msg ''secure peer context, connection, and timeout are required''), Some (hang_up c))
          else (case secure_peer_tls_config rt (te_der env) local expected False (te_random env) (te_now env) of
              Inl e \<Rightarrow> (Inl e, Some (hang_up c))
            | Inr config \<Rightarrow>
                (case upgrade_secure_peer rt env c config (si_device local) (ti_device expected) False of
                   (res, c1) \<Rightarrow> (res, Some c1))))"

section \<open>Facts\<close>

lemma has_ext_usage_iff: "has_ext_usage us u \<longleftrightarrow> u \<in> set us"
  by (induction us) auto

lemma common_name_inject [simp]: "secure_peer_common_name a = secure_peer_common_name b \<longleftrightarrow> a = b"
  by (simp add: secure_peer_common_name_def)

text \<open>What a negotiated state must show for a peer to be admitted.\<close>

definition pinned :: "runtime \<Rightarrow> trusted_peer_identity \<Rightarrow> bool \<Rightarrow> time \<Rightarrow> connection_state \<Rightarrow> bool" where
  "pinned rt expected client now state \<longleftrightarrow>
     cs_version state = TLS13 \<and> cs_protocol state = secure_peer_alpn \<and>
     (\<exists>c. cs_certificates state = [c] \<and> ct_common_name c = secure_peer_common_name (ti_device expected) \<and>
        ct_public c = Ed25519Key (ti_public expected) \<and> \<not> ct_is_ca c \<and> ct_digital_signature c \<and>
        (if client then ServerAuth else ClientAuth) \<in> set (ct_ext_usage c) \<and>
        ct_not_before c \<le> now \<and> now \<le> ct_not_after c \<and>
        rt_verify rt (ti_public expected) (ct_tbs c) (ct_signature c))"

lemma check_signature_Inr:
  "ct_public c = Ed25519Key k \<Longrightarrow>
     check_signature rt c = Inr () \<longleftrightarrow> ct_algorithm c = PureEd25519 \<and> rt_verify rt k (ct_tbs c) (ct_signature c)"
  by (simp add: check_signature_def split: signature_algorithm.split)

lemma verify_certificate_Inr:
  "(case check_signature rt c of
      Inl x \<Rightarrow> Inl (Wrap ''invalid self-signed peer certificate'' ErrSecurePeerAuthentication)
    | Inr u \<Rightarrow> Inr ()) = Inr () \<longleftrightarrow> check_signature rt c = Inr ()"
  by (cases "check_signature rt c") auto

lemma verify_secure_peer_Inr:
  "verify_secure_peer rt d k client now state = Inr () \<longleftrightarrow>
     cs_version state = TLS13 \<and> cs_protocol state = secure_peer_alpn \<and>
     (\<exists>c. cs_certificates state = [c] \<and> ct_common_name c = secure_peer_common_name d \<and>
        ct_digital_signature c \<and> \<not> ct_is_ca c \<and> (if client then ServerAuth else ClientAuth) \<in> set (ct_ext_usage c) \<and>
        ct_not_before c \<le> now \<and> now \<le> ct_not_after c \<and> ct_public c = Ed25519Key k \<and> check_signature rt c = Inr ())"
proof (cases "cs_certificates state")
  case Nil
  then show ?thesis by (simp add: verify_secure_peer_def)
next
  case (Cons c cs)
  show ?thesis
  proof (cases cs)
    case Nil
    with Cons show ?thesis
      by (simp only: verify_secure_peer_def Let_def list.case if_Inl_Inr verify_certificate_Inr has_ext_usage_iff)
        (simp add: not_less)
  next
    case (Cons c2 cs2)
    with \<open>cs_certificates state = c # cs\<close> show ?thesis by (simp add: verify_secure_peer_def)
  qed
qed

lemma verify_secure_peer_pinned:
  "verify_secure_peer rt (ti_device e) (ti_public e) client now state = Inr () \<Longrightarrow> pinned rt e client now state"
  by (auto simp: verify_secure_peer_Inr pinned_def check_signature_Inr)

lemma tls_config_Inr:
  "secure_peer_tls_config rt der local expected client random now = Inr config \<Longrightarrow>
     valid_device_id (si_device local) \<and> valid_device_id (ti_device expected) \<and>
     length (ti_public expected) = public_key_size \<and>
     tl_verify_device config = ti_device expected \<and> tl_verify_key config = ti_public expected \<and>
     tl_verify_client config = client \<and> tl_min config = TLS13"
  by (auto simp: secure_peer_tls_config_def result_iff valid_peer_id_eq)

lemma confirm_secure_peer_Inr:
  "confirm_secure_peer env c l d client = (Inr (), c1) \<Longrightarrow> exchange_ready env c l d client = (Inr (), c1)"
  by (auto simp: confirm_secure_peer_def split: if_splits sum.splits prod.splits)

lemma exchange_ready_client:
  "exchange_ready env c l d True = (Inr (), c1) \<Longrightarrow> conn_read_json (te_ready env) c = (Inr (ready_message d l), c1)"
  by (auto simp: exchange_ready_def ready_message_def split: if_splits sum.splits prod.splits)

lemma exchange_ready_server:
  "exchange_ready env c l d False = (Inr (), c1) \<Longrightarrow>
     wr_bytes (cn_out c1) = wr_bytes (cn_out c) @ frame_of (json_text (te_ready env) (ready_message l d))"
  by (auto simp: exchange_ready_def conn_write_json_ok split: sum.splits prod.splits)

lemma upgrade_Inr:
  assumes "upgrade_secure_peer rt env c config l d client = (Inr p, c')"
  shows "\<exists>state prot. te_handshake env config c = Inr (state, prot) \<and>
    verify_secure_peer rt (tl_verify_device config) (tl_verify_key config) (tl_verify_client config) (te_now env) state = Inr () \<and>
    exchange_ready env prot l d client = (Inr (), c') \<and>
    p = \<lparr>pc_conn = Some c', pc_local = l, pc_device = d, pc_fingerprint = [], pc_closed = False\<rparr>"
  using assms confirm_secure_peer_Inr
  by (auto simp: upgrade_secure_peer_def split: sum.splits prod.splits)

lemma dial_Inr:
  assumes "dial_secure_peer rt env ctx address timeout dialed local expected = Inr p"
  shows "\<exists>config c state prot c'. te_handshake env config c = Inr (state, prot) \<and>
    pinned rt expected True (te_now env) state \<and>
    conn_read_json (te_ready env) prot = (Inr (ready_message (ti_device expected) (si_device local)), c') \<and>
    p = \<lparr>pc_conn = Some c', pc_local = si_device local, pc_device = ti_device expected, pc_fingerprint = [], pc_closed = False\<rparr>"
proof -
  from assms obtain config c c' where
    config: "secure_peer_tls_config rt (te_der env) local expected True (te_random env) (te_now env) = Inr config"
    and up: "upgrade_secure_peer rt env c config (si_device local) (ti_device expected) True = (Inr p, c')"
    by (auto simp: dial_secure_peer_def result_iff split: if_splits) (metis prod.collapse)
  from upgrade_Inr [OF up] tls_config_Inr [OF config] show ?thesis
    using verify_secure_peer_pinned exchange_ready_client by fastforce
qed

lemma accept_Inr:
  assumes "accept_secure_peer rt env ctx accepted timeout local expected = (Inr p, left)"
  shows "\<exists>config c state prot c'. te_handshake env config c = Inr (state, prot) \<and>
    pinned rt expected False (te_now env) state \<and>
    wr_bytes (cn_out c') = wr_bytes (cn_out prot) @
      frame_of (json_text (te_ready env) (ready_message (si_device local) (ti_device expected))) \<and>
    p = \<lparr>pc_conn = Some c', pc_local = si_device local, pc_device = ti_device expected, pc_fingerprint = [], pc_closed = False\<rparr>"
proof -
  from assms obtain config c c' where
    config: "secure_peer_tls_config rt (te_der env) local expected False (te_random env) (te_now env) = Inr config"
    and up: "upgrade_secure_peer rt env c config (si_device local) (ti_device expected) False = (Inr p, c')"
    by (auto simp: accept_secure_peer_def split: option.splits if_splits sum.splits prod.splits)
  from upgrade_Inr [OF up] tls_config_Inr [OF config] show ?thesis
    using verify_secure_peer_pinned exchange_ready_server by fastforce
qed

section \<open>Properties\<close>

text \<open>
  C18. A peer is admitted, by either end, only on a TLS 1.3 connection whose other end showed one
  certificate, for the expected device, valid now, usable in its role, carrying exactly the
  pinned key and signed by it. The connection is bound to that device, without a key
  fingerprint yet; a dialer has then also received the confirmation that names both devices.
\<close>

theorem admission_pinned:
  "(\<forall>p. dial_secure_peer rt env ctx address timeout dialed local expected = Inr p \<longrightarrow>
      pc_device p = ti_device expected \<and> pc_local p = si_device local \<and> pc_fingerprint p = [] \<and> \<not> pc_closed p \<and>
      (\<exists>config c state prot. te_handshake env config c = Inr (state, prot) \<and> pinned rt expected True (te_now env) state \<and>
         fst (conn_read_json (te_ready env) prot) = Inr (ready_message (ti_device expected) (si_device local)))) \<and>
   (\<forall>p left. accept_secure_peer rt env ctx accepted timeout local expected = (Inr p, left) \<longrightarrow>
      pc_device p = ti_device expected \<and> pc_local p = si_device local \<and> pc_fingerprint p = [] \<and> \<not> pc_closed p \<and>
      (\<exists>config c state prot. te_handshake env config c = Inr (state, prot) \<and> pinned rt expected False (te_now env) state \<and>
         peer_written p = wr_bytes (cn_out prot) @
           frame_of (json_text (te_ready env) (ready_message (si_device local) (ti_device expected)))))"
proof (intro conjI allI impI)
  fix p assume "dial_secure_peer rt env ctx address timeout dialed local expected = Inr p"
  from dial_Inr [OF this] obtain config c state prot c' where
    "te_handshake env config c = Inr (state, prot)" "pinned rt expected True (te_now env) state"
    "conn_read_json (te_ready env) prot = (Inr (ready_message (ti_device expected) (si_device local)), c')"
    "p = \<lparr>pc_conn = Some c', pc_local = si_device local, pc_device = ti_device expected, pc_fingerprint = [], pc_closed = False\<rparr>"
    by blast
  then show "pc_device p = ti_device expected" "pc_local p = si_device local" "pc_fingerprint p = []" "\<not> pc_closed p"
    "\<exists>config c state prot. te_handshake env config c = Inr (state, prot) \<and> pinned rt expected True (te_now env) state \<and>
       fst (conn_read_json (te_ready env) prot) = Inr (ready_message (ti_device expected) (si_device local))"
    by (simp_all, metis fst_conv)
next
  fix p left assume "accept_secure_peer rt env ctx accepted timeout local expected = (Inr p, left)"
  from accept_Inr [OF this] obtain config c state prot c' where
    "te_handshake env config c = Inr (state, prot)" "pinned rt expected False (te_now env) state"
    "wr_bytes (cn_out c') = wr_bytes (cn_out prot) @
      frame_of (json_text (te_ready env) (ready_message (si_device local) (ti_device expected)))"
    "p = \<lparr>pc_conn = Some c', pc_local = si_device local, pc_device = ti_device expected, pc_fingerprint = [], pc_closed = False\<rparr>"
    by blast
  then show "pc_device p = ti_device expected" "pc_local p = si_device local" "pc_fingerprint p = []" "\<not> pc_closed p"
    "\<exists>config c state prot. te_handshake env config c = Inr (state, prot) \<and> pinned rt expected False (te_now env) state \<and>
       peer_written p = wr_bytes (cn_out prot) @
         frame_of (json_text (te_ready env) (ready_message (si_device local) (ti_device expected)))"
    by (simp_all add: peer_written_def, metis)
qed

text \<open>
  The certificate a device makes is accepted, in either role, by exactly those that pin its
  identifier and its key, from five minutes before it was made to a day after, both to the
  second.
\<close>

theorem own_certificate_verifies:
  assumes "new_secure_peer_certificate rt der local random made = Inr c"
    and "keypair_ok rt (public_of (si_private local)) (si_private local)"
  shows "verify_secure_peer rt device key client now
      \<lparr>cs_version = TLS13, cs_protocol = secure_peer_alpn, cs_certificates = [c]\<rparr> = Inr () \<longleftrightarrow>
    device = si_device local \<and> key = public_of (si_private local) \<and>
    to_second (made - clock_skew) \<le> now \<and> now \<le> to_second (made + certificate_lifetime)"
proof -
  have "check_signature rt c = Inr ()"
    using assms by (auto simp: new_secure_peer_certificate_def create_certificate_def check_signature_def
        keypair_ok_def result_iff Let_def)
  with assms(1) show ?thesis
    by (auto simp: verify_secure_peer_Inr new_secure_peer_certificate_def create_certificate_def result_iff Let_def)
qed

section \<open>Witnesses\<close>

definition sample_local :: secure_peer_identity where
  "sample_local = \<lparr>si_device = sample_device, si_private = sample_private\<rparr>"

definition sample_expected :: trusted_peer_identity where
  "sample_expected = \<lparr>ti_device = sample_device, ti_public = sample_public\<rparr>"

definition sample_der :: "template \<Rightarrow> bytes \<Rightarrow> bytes" where
  "sample_der t k = ct_common_name t @ k"

definition sample_now :: time where
  "sample_now = 10 ^ 18"

definition sample_certificate :: certificate where
  "sample_certificate = create_certificate sample_runtime sample_der
     \<lparr>ct_serial = 7, ct_common_name = secure_peer_common_name sample_device, ct_not_before = sample_now - clock_skew,
      ct_not_after = sample_now + certificate_lifetime, ct_digital_signature = True,
      ct_ext_usage = [ClientAuth, ServerAuth], ct_is_ca = False\<rparr> sample_public sample_private"

definition sample_state :: connection_state where
  "sample_state = \<lparr>cs_version = TLS13, cs_protocol = secure_peer_alpn, cs_certificates = [sample_certificate]\<rparr>"

definition sample_tls :: tls_env where
  "sample_tls = \<lparr>te_handshake = (\<lambda>config c. Inr (sample_state, c)), te_der = sample_der, te_now = sample_now,
     te_random = Inr 7, te_deadline = True, te_set_deadline = Inr (), te_clear_deadline = Inr (),
     te_ready = sample_codec (ready_message sample_device sample_device) ''ready''\<rparr>"

lemma sample_certificate_new:
  "new_secure_peer_certificate sample_runtime sample_der sample_local (Inr 7) sample_now = Inr sample_certificate"
  by (simp add: new_secure_peer_certificate_def sample_certificate_def sample_local_def Let_def sample_public_def)

theorem own_certificate_verifies_witness:
  "verify_secure_peer sample_runtime sample_device sample_public True sample_now sample_state = Inr () \<and>
   verify_secure_peer sample_runtime sample_device ''other'' True sample_now sample_state \<noteq> Inr ()"
proof -
  have keys: "keypair_ok sample_runtime (public_of (si_private sample_local)) (si_private sample_local)"
    by (rule sample_runtime_ok)
  have "si_device sample_local = sample_device" "public_of (si_private sample_local) = sample_public"
    by (simp_all add: sample_local_def sample_public_def)
  moreover have "sample_public \<noteq> ''other''" 
    by (rule notI, drule arg_cong [where f = length]) (simp add: key_sizes)
  ultimately show ?thesis
    using own_certificate_verifies [OF sample_certificate_new keys]
    by (simp add: sample_state_def to_second_def sample_now_def clock_skew_def certificate_lifetime_def)
qed

lemma sample_state_verifies:
  "verify_secure_peer sample_runtime sample_device sample_public client sample_now sample_state = Inr ()"
proof -
  have "check_signature sample_runtime sample_certificate = Inr ()"
    by (simp add: sample_certificate_def create_certificate_def check_signature_def sample_runtime_def Let_def
        sample_public_def)
  then show ?thesis
    by (simp add: verify_secure_peer_Inr sample_state_def sample_certificate_def create_certificate_def Let_def
        to_second_def sample_now_def clock_skew_def certificate_lifetime_def)
qed

lemma sample_accept:
  "\<exists>p left. accept_secure_peer sample_runtime sample_tls True (Some (sample_conn [])) 1 sample_local sample_expected = (Inr p, left)"
proof -
  let ?run = "accept_secure_peer sample_runtime sample_tls True (Some (sample_conn [])) 1 sample_local sample_expected"
  have ok: "codec_ok (te_ready sample_tls) (ready_message sample_device sample_device)"
    by (simp add: sample_tls_def sample_codec_ok max_frame_size_def)
  have "exchange_ready sample_tls (sample_conn []) sample_device sample_device False =
      (Inr (), snd (conn_write_json (te_ready sample_tls) (sample_conn []) (ready_message sample_device sample_device)))"
    by (simp add: exchange_ready_def conn_write_json_open [OF sample_link_sel(7) ok])
  then have confirm: "\<exists>c. confirm_secure_peer sample_tls (sample_conn []) sample_device sample_device False = (Inr (), c)"
    by (simp add: confirm_secure_peer_def) (simp add: sample_tls_def)
  obtain config where config: "secure_peer_tls_config sample_runtime (te_der sample_tls) sample_local sample_expected False
      (te_random sample_tls) (te_now sample_tls) = Inr config"
    and pin: "tl_verify_device config = sample_device" "tl_verify_key config = sample_public" "tl_verify_client config = False"
    using sample_certificate_new
    by (simp add: secure_peer_tls_config_def sample_local_def sample_expected_def valid_peer_id_eq sample_tls_def)
  have tls: "te_handshake sample_tls config (sample_conn []) = Inr (sample_state, sample_conn [])"
    "te_now sample_tls = sample_now" by (simp_all add: sample_tls_def)
  have "\<exists>p c. upgrade_secure_peer sample_runtime sample_tls (sample_conn []) config sample_device sample_device False = (Inr p, c)"
    using confirm by (auto simp: upgrade_secure_peer_def tls pin sample_state_verifies)
  then obtain p left where run: "?run = (Inr p, left)"
    using config by (auto simp: accept_secure_peer_def sample_local_def sample_expected_def)
  then show ?thesis by blast
qed

theorem admission_pinned_witness:
  "\<exists>p left. accept_secure_peer sample_runtime sample_tls True (Some (sample_conn [])) 1 sample_local sample_expected = (Inr p, left) \<and>
     pc_device p = sample_device \<and> pinned sample_runtime sample_expected False sample_now sample_state"
proof -
  obtain p left where run: "accept_secure_peer sample_runtime sample_tls True (Some (sample_conn [])) 1 sample_local
      sample_expected = (Inr p, left)" using sample_accept by blast
  have tls: "te_now sample_tls = sample_now" by (simp add: sample_tls_def)
  have "te_handshake sample_tls config c = Inr (state, prot) \<Longrightarrow> state = sample_state" for config c state prot
    by (simp add: sample_tls_def)
  moreover have "ti_device sample_expected = sample_device" by (simp add: sample_expected_def)
  ultimately show ?thesis
    using admission_pinned [of sample_runtime sample_tls True "[]" 1 undefined sample_local sample_expected
        "Some (sample_conn [])"] run tls
    by (intro exI [of _ p] exI [of _ left]) metis
qed

end
