(* ===== verification/Payload_Protocol.thy ===== *)
theory Payload_Protocol
  imports Manifests
begin

text \<open>
  The control records of a payload transfer (\<open>transfer/protocol.go\<close>): offer, decision,
  completion and receipt, how they are made and what makes them valid for an offer.
\<close>

section \<open>Records\<close>

definition payload_protocol_version :: int where
  "payload_protocol_version = 1"

abbreviation payload_kind_file :: bytes where "payload_kind_file \<equiv> ''file''"
abbreviation payload_kind_text :: bytes where "payload_kind_text \<equiv> ''text''"
abbreviation receipt_verified :: bytes where "receipt_verified \<equiv> ''verified''"

record payload_offer =
  po_version :: int
  po_transfer_id :: bytes
  po_kind :: bytes
  po_manifest :: manifest

record payload_decision =
  pd_version :: int
  pd_transfer_id :: bytes
  pd_accepted :: bool

record payload_completion =
  pk_version :: int
  pk_transfer_id :: bytes
  pk_size :: int
  pk_hash :: bytes

record payload_receipt =
  pr_version :: int
  pr_transfer_id :: bytes
  pr_status :: bytes
  pr_size :: int
  pr_hash :: bytes

section \<open>Transfer identifiers\<close>

text \<open>\<open>rand.Read\<close> into 16 bytes is an argument: the bytes, or its error.\<close>

definition new_transfer_id :: "bytes result \<Rightarrow> bytes result" where
  "new_transfer_id random =
     and_then (wrap_error ''generate transfer ID'' random) (\<lambda>raw. Inr (hex_encode raw))"

definition validate_transfer_id :: "bytes \<Rightarrow> unit result" where
  "validate_transfer_id transfer_id =
     (if length transfer_id \<noteq> 32 then Inl (Msg ''transfer ID must contain 32 lowercase hexadecimal characters'')
      else if transfer_id \<noteq> to_lower transfer_id then Inl (Msg ''transfer ID must use lowercase hexadecimal'')
      else case hex_decode transfer_id of
          None \<Rightarrow> Inl (Msg ''transfer ID is not valid hexadecimal'')
        | Some decoded \<Rightarrow> if length decoded \<noteq> 16 then Inl (Msg ''transfer ID is not valid hexadecimal'') else Inr ())"

section \<open>Validation\<close>

definition validate_offer :: "runtime \<Rightarrow> payload_offer \<Rightarrow> unit result" where
  "validate_offer rt offer =
     (if po_version offer \<noteq> payload_protocol_version then Inl (Msg ''unsupported payload protocol version'')
      else and_then (validate_transfer_id (po_transfer_id offer)) (\<lambda>_.
        if po_kind offer \<noteq> payload_kind_file \<and> po_kind offer \<noteq> payload_kind_text
        then Inl (Msg ''unsupported payload kind'')
        else wrap_error ''validate payload manifest'' (validate_manifest rt (po_manifest offer))))"

definition new_payload_offer :: "runtime \<Rightarrow> bytes result \<Rightarrow> bytes \<Rightarrow> manifest \<Rightarrow> payload_offer result" where
  "new_payload_offer rt random kind m =
     and_then (new_transfer_id random) (\<lambda>transfer_id.
       let offer = \<lparr>po_version = payload_protocol_version, po_transfer_id = transfer_id, po_kind = kind,
             po_manifest = m\<rparr> in
       and_then (validate_offer rt offer) (\<lambda>_. Inr offer))"

definition validate_decision :: "payload_decision \<Rightarrow> payload_offer \<Rightarrow> unit result" where
  "validate_decision d offer =
     (if pd_version d \<noteq> payload_protocol_version then Inl (Msg ''unsupported payload decision version'')
      else and_then (validate_transfer_id (pd_transfer_id d)) (\<lambda>_.
        if pd_transfer_id d \<noteq> po_transfer_id offer
        then Inl (Msg ''payload decision transfer ID does not match offer'') else Inr ()))"

definition validate_completion :: "payload_completion \<Rightarrow> payload_offer \<Rightarrow> unit result" where
  "validate_completion c offer =
     (if pk_version c \<noteq> payload_protocol_version then Inl (Msg ''unsupported payload completion version'')
      else and_then (validate_transfer_id (pk_transfer_id c)) (\<lambda>_.
        if pk_transfer_id c \<noteq> po_transfer_id offer
        then Inl (Msg ''payload completion transfer ID does not match offer'')
        else if pk_size c \<noteq> mf_size (po_manifest offer)
        then Inl (Msg ''payload completion size does not match manifest size'')
        else if pk_hash c \<noteq> mf_hash (po_manifest offer)
        then Inl (Msg ''payload completion hash does not match manifest hash'')
        else Inr ()))"

definition validate_receipt :: "payload_receipt \<Rightarrow> payload_offer \<Rightarrow> unit result" where
  "validate_receipt r offer =
     (if pr_version r \<noteq> payload_protocol_version then Inl (Msg ''unsupported payload receipt version'')
      else and_then (validate_transfer_id (pr_transfer_id r)) (\<lambda>_.
        if pr_transfer_id r \<noteq> po_transfer_id offer
        then Inl (Msg ''payload receipt transfer ID does not match offer'')
        else if pr_status r \<noteq> receipt_verified
        then Inl (Msg ''payload receipt status is not verified'')
        else if pr_size r \<noteq> mf_size (po_manifest offer)
        then Inl (Msg ''payload receipt size does not match manifest size'')
        else if pr_hash r \<noteq> mf_hash (po_manifest offer)
        then Inl (Msg ''payload receipt hash does not match manifest hash'')
        else Inr ()))"

section \<open>The records of an offer\<close>

definition completed_payload :: "payload_offer \<Rightarrow> payload_completion" where
  "completed_payload offer =
     \<lparr>pk_version = payload_protocol_version, pk_transfer_id = po_transfer_id offer,
      pk_size = mf_size (po_manifest offer), pk_hash = mf_hash (po_manifest offer)\<rparr>"

definition verified_payload_receipt :: "payload_offer \<Rightarrow> payload_receipt" where
  "verified_payload_receipt offer =
     \<lparr>pr_version = payload_protocol_version, pr_transfer_id = po_transfer_id offer,
      pr_status = receipt_verified, pr_size = mf_size (po_manifest offer),
      pr_hash = mf_hash (po_manifest offer)\<rparr>"

section \<open>Facts\<close>

lemma validate_transfer_id_hex: "length raw = 16 \<Longrightarrow> validate_transfer_id (hex_encode raw) = Inr ()"
  by (simp add: validate_transfer_id_def)

lemma validate_offer_Inr:
  "validate_offer rt offer = Inr () \<longleftrightarrow>
     po_version offer = payload_protocol_version \<and> validate_transfer_id (po_transfer_id offer) = Inr () \<and>
     po_kind offer \<in> {payload_kind_file, payload_kind_text} \<and> validate_manifest rt (po_manifest offer) = Inr ()"
  by (auto simp: validate_offer_def result_iff)

text \<open>For a valid offer there is exactly one valid completion and one valid receipt.\<close>

lemma validate_completion_Inr:
  assumes "validate_offer rt offer = Inr ()"
  shows "validate_completion c offer = Inr () \<longleftrightarrow> c = completed_payload offer"
  using assms by (auto simp: validate_completion_def completed_payload_def validate_offer_Inr result_iff)

lemma validate_receipt_Inr:
  assumes "validate_offer rt offer = Inr ()"
  shows "validate_receipt r offer = Inr () \<longleftrightarrow> r = verified_payload_receipt offer"
  using assms by (auto simp: validate_receipt_def verified_payload_receipt_def validate_offer_Inr result_iff)

lemma validate_decision_Inr:
  assumes "validate_offer rt offer = Inr ()"
  shows "validate_decision d offer = Inr () \<longleftrightarrow>
    (\<exists>a. d = \<lparr>pd_version = payload_protocol_version, pd_transfer_id = po_transfer_id offer, pd_accepted = a\<rparr>)"
  using assms by (cases d) (auto simp: validate_decision_def validate_offer_Inr result_iff)

lemma new_payload_offer_Inr:
  "new_payload_offer rt random kind m = Inr offer \<longleftrightarrow>
     (\<exists>raw. random = Inr raw \<and> po_transfer_id offer = hex_encode raw) \<and>
     po_kind offer = kind \<and> po_manifest offer = m \<and> validate_offer rt offer = Inr ()"
  by (cases offer)
    (auto simp: new_payload_offer_def new_transfer_id_def result_iff Let_def validate_offer_Inr)

lemma new_payload_offer_ok:
  assumes "length raw = 16" and "kind \<in> {payload_kind_file, payload_kind_text}" and "validate_manifest rt m = Inr ()"
  shows "\<exists>offer. new_payload_offer rt (Inr raw) kind m = Inr offer"
proof
  let ?offer = "\<lparr>po_version = payload_protocol_version, po_transfer_id = hex_encode raw, po_kind = kind, po_manifest = m\<rparr>"
  show "new_payload_offer rt (Inr raw) kind m = Inr ?offer"
    using assms by (simp add: new_payload_offer_Inr validate_offer_Inr validate_transfer_id_hex)
qed

lemma validate_transfer_id_Inr:
  "validate_transfer_id t = Inr () \<longleftrightarrow>
     length t = 32 \<and> t = to_lower t \<and> (\<exists>raw. hex_decode t = Some raw \<and> length raw = 16)"
  by (auto simp: validate_transfer_id_def split: option.splits)

text \<open>A sample offer and the payload it offers.\<close>

definition sample_offer :: payload_offer where
  "sample_offer = \<lparr>po_version = 1, po_transfer_id = hex_encode (replicate 16 CHR ''x''), po_kind = ''file'',
     po_manifest = manifest_of sample_runtime ''a.txt'' ''0123456789'' 4\<rparr>"

abbreviation "sample_source \<equiv> \<lparr>rd_bytes = ''0123456789'', rd_end = Eof\<rparr>"

lemma sample_offer_ok: "validate_offer sample_runtime sample_offer = Inr ()"
  by (simp add: validate_offer_Inr sample_offer_def payload_protocol_version_def validate_transfer_id_hex
      manifest_of_valid [OF sample_runtime_ok(1) sample_filename sample_chunk_size])

lemma sample_source_ok:
  "verify_payload sample_runtime (po_manifest sample_offer) (Some sample_source) = Inr ()"
  using manifest_verifies [OF sample_runtime_ok(1) sample_filename sample_chunk_size] by (simp add: sample_offer_def)

section \<open>Properties\<close>

text \<open>
  C34. An offer the program makes is well-formed: its identifier is the lowercase hexadecimal
  text of the 16 random bytes, its kind one of the two known ones, its manifest valid. Of all
  completions and receipts exactly those made from the offer are accepted for it, so a
  receipt for an offer is never one for an offer with another identifier or payload.
\<close>

theorem offer_well_formed:
  assumes "new_payload_offer rt random kind m = Inr offer"
  shows "(\<exists>raw. random = Inr raw \<and> length raw = 16 \<and> po_transfer_id offer = hex_encode raw) \<and>
    po_kind offer \<in> {payload_kind_file, payload_kind_text} \<and>
    po_manifest offer = m \<and> validate_manifest rt m = Inr () \<and> validate_offer rt offer = Inr () \<and>
    (\<forall>c. validate_completion c offer = Inr () \<longleftrightarrow> c = completed_payload offer) \<and>
    (\<forall>r. validate_receipt r offer = Inr () \<longleftrightarrow> r = verified_payload_receipt offer) \<and>
    (\<forall>offer2. validate_receipt (verified_payload_receipt offer) offer2 = Inr () \<longrightarrow>
       po_transfer_id offer2 = po_transfer_id offer \<and> mf_hash (po_manifest offer2) = mf_hash m \<and>
       mf_size (po_manifest offer2) = mf_size m)"
proof -
  from assms obtain raw where new: "random = Inr raw" "po_transfer_id offer = hex_encode raw"
    "po_manifest offer = m" "validate_offer rt offer = Inr ()"
    by (auto simp: new_payload_offer_Inr)
  then have raw: "length raw = 16" and rest: "po_kind offer \<in> {payload_kind_file, payload_kind_text}"
    "validate_manifest rt m = Inr ()"
    by (auto simp: validate_offer_Inr validate_transfer_id_Inr)
  have other: "po_transfer_id offer2 = po_transfer_id offer \<and> mf_hash (po_manifest offer2) = mf_hash m \<and>
      mf_size (po_manifest offer2) = mf_size m"
    if "validate_receipt (verified_payload_receipt offer) offer2 = Inr ()" for offer2
    using that new(3) by (simp add: validate_receipt_def verified_payload_receipt_def result_iff)
  have made: "\<exists>raw. random = Inr raw \<and> length raw = 16 \<and> po_transfer_id offer = hex_encode raw"
    using new(1,2) raw by simp
  show ?thesis
    by (intro conjI allI impI made rest new(3,4) validate_completion_Inr [OF new(4)]
        validate_receipt_Inr [OF new(4)]) (use other in simp_all)
qed

theorem offer_well_formed_witness:
  "\<exists>offer. new_payload_offer sample_runtime (Inr (replicate 16 CHR ''x'')) ''file''
      (manifest_of sample_runtime ''a.txt'' ''0123456789'' 4) = Inr offer \<and>
    validate_receipt (verified_payload_receipt offer) offer = Inr ()"
proof -
  have "validate_manifest sample_runtime (manifest_of sample_runtime ''a.txt'' ''0123456789'' 4) = Inr ()"
    by (rule manifest_of_valid [OF sample_runtime_ok(1) sample_filename sample_chunk_size])
  from new_payload_offer_ok [OF _ _ this, of "replicate 16 CHR ''x''" "''file''"]
  obtain offer where new: "new_payload_offer sample_runtime (Inr (replicate 16 CHR ''x'')) ''file''
      (manifest_of sample_runtime ''a.txt'' ''0123456789'' 4) = Inr offer" by auto
  from offer_well_formed [OF this] have "validate_receipt (verified_payload_receipt offer) offer = Inr ()"
    by simp
  with new show ?thesis by blast
qed

end
