(* ===== verification/Payload_Transfer.thy ===== *)
theory Payload_Transfer
  imports Peers Payload_Protocol
begin

text \<open>
  The transfer of one payload over a trusted connection (\<open>transport/payload_transfer.go\<close>): the
  sender offers a manifest, waits for the decision, streams the chunks and waits for the
  receipt; the receiver authorizes the offer, stages the verified chunks and confirms them.
  The calls a program can make on a connection are complete with these, so what holds of its
  whole life stands here. An error made with \<open>%w\<close> from a sentinel and the text of another error is the sentinel.
\<close>

section \<open>Errors and helpers\<close>

abbreviation ErrPayloadTransferPeerNotTrusted :: go_error where
  "ErrPayloadTransferPeerNotTrusted \<equiv> Sentinel ''payload transfer requires an authenticated trusted peer''"
abbreviation ErrPayloadTransferRejected :: go_error where
  "ErrPayloadTransferRejected \<equiv> Sentinel ''payload transfer was rejected by the receiver''"
abbreviation ErrPayloadTransferAuthorizationDenied :: go_error where
  "ErrPayloadTransferAuthorizationDenied \<equiv> Sentinel ''payload transfer authorization was denied''"

text \<open>The codecs of the four control records.\<close>

record transfer_codecs =
  tc_offer :: "payload_offer codec"
  tc_decision :: "payload_decision codec"
  tc_completion :: "payload_completion codec"
  tc_receipt :: "payload_receipt codec"

text \<open>
  The authorization callback of the application: its verdict, and whether it has closed the
  connection, which is all it can do to it.
\<close>

type_synonym payload_authorizer = "payload_offer \<Rightarrow> unit result \<times> bool"

text \<open>On success the connection that passed the checks.\<close>

definition require_trusted :: "peer option \<Rightarrow> (peer \<times> conn) result \<times> peer option" where
  "require_trusted p =
     (case p of
        None \<Rightarrow> (Inl ErrPayloadTransferPeerNotTrusted, p)
      | Some q \<Rightarrow>
          (case pc_conn q of
             None \<Rightarrow> (Inl ErrPayloadTransferPeerNotTrusted, snd (close_peer p))
           | Some c \<Rightarrow>
               if is_closed p \<or> authenticated_device_id p = [] \<or> authenticated_key_fingerprint p = []
               then (Inl ErrPayloadTransferPeerNotTrusted, snd (close_peer p))
               else (Inr (q, c), p)))"

definition on_conn :: "peer \<Rightarrow> conn \<Rightarrow> peer option" where
  "on_conn q c = Some (q\<lparr>pc_conn := Some c\<rparr>)"

definition fail_transfer :: "peer \<Rightarrow> conn \<Rightarrow> peer option" where
  "fail_transfer q c = snd (close_peer (on_conn q c))"

text \<open>The loop has the text of \<open>writeFrameBytes\<close>.\<close>

definition write_payload_bytes :: "writer \<Rightarrow> bytes \<Rightarrow> unit result \<times> writer" where
  "write_payload_bytes w data = write_frame_bytes w data"

definition decision_for :: "payload_offer \<Rightarrow> bool \<Rightarrow> payload_decision" where
  "decision_for offer accepted =
     \<lparr>pd_version = payload_protocol_version, pd_transfer_id = po_transfer_id offer, pd_accepted = accepted\<rparr>"

section \<open>Sending\<close>

text \<open>
  The loop over the chunks; it returns what the running digest has seen and the rest of the
  source. A validated chunk size never exceeds the buffer, which has the size the manifest
  gives its chunks.
\<close>

fun send_chunks :: "runtime \<Rightarrow> chunk list \<Rightarrow> reader \<Rightarrow> conn \<Rightarrow> bytes \<Rightarrow> (bytes \<times> reader) result \<times> conn" where
  "send_chunks rt [] src c hashed = (Inr (hashed, src), c)"
| "send_chunks rt (x # xs) src c hashed =
     (case read_full (nat (ch_size x)) src of
        (data, Some e, src1) \<Rightarrow> (Inl (Wrap ''read source chunk'' e), c)
      | (data, None, src1) \<Rightarrow>
          (case verify_chunk rt x data of
             Inl e \<Rightarrow> (Inl (Wrap ''verify source chunk'' e), c)
           | Inr _ \<Rightarrow>
               (case conn_write_binary c data of
                  (Inl e, c1) \<Rightarrow> (Inl (Wrap ''send payload chunk'' e), c1)
                | (Inr _, c1) \<Rightarrow> send_chunks rt xs src1 c1 (hashed @ data))))"

definition check_source_end :: "reader \<Rightarrow> unit result" where
  "check_source_end src =
     (case read_one src of
        (True, _) \<Rightarrow> Inl (Msg ''source contains undeclared trailing data'')
      | (False, err, _) \<Rightarrow>
          if err \<noteq> None \<and> err \<noteq> Some ErrEOF then Inl (Wrap ''check source payload boundary'' (the err))
          else Inr ())"

definition await_receipt :: "transfer_codecs \<Rightarrow> payload_offer \<Rightarrow> conn \<Rightarrow> payload_receipt result \<times> conn" where
  "await_receipt tc offer c =
     (case conn_read_json (tc_receipt tc) c of
        (Inl e, c1) \<Rightarrow> (Inl (Wrap ''receive payload receipt'' e), c1)
      | (Inr receipt, c1) \<Rightarrow>
          (and_then (wrap_error ''validate payload receipt'' (validate_receipt receipt offer)) (\<lambda>_. Inr receipt), c1))"

text \<open>From the accepted decision on; every error closes the connection.\<close>

definition send_accepted ::
  "runtime \<Rightarrow> transfer_codecs \<Rightarrow> payload_offer \<Rightarrow> reader \<Rightarrow> conn \<Rightarrow> payload_receipt result \<times> conn" where
  "send_accepted rt tc offer src c =
     (case send_chunks rt (mf_chunks (po_manifest offer)) src c [] of
        (Inl e, c1) \<Rightarrow> (Inl e, c1)
      | (Inr (hashed, src1), c1) \<Rightarrow>
      (case check_source_end src1 of
        Inl e \<Rightarrow> (Inl e, c1)
      | Inr _ \<Rightarrow>
      if hex_encode (rt_sha256 rt hashed) \<noteq> mf_hash (po_manifest offer)
      then (Inl (Msg ''whole source payload integrity verification failed''), c1)
      else case conn_write_json (tc_completion tc) c1 (completed_payload offer) of
        (Inl e, c2) \<Rightarrow> (Inl (Wrap ''send payload completion'' e), c2)
      | (Inr _, c2) \<Rightarrow> await_receipt tc offer c2))"

text \<open>From the offer that was sent on.\<close>

definition send_decided ::
  "runtime \<Rightarrow> transfer_codecs \<Rightarrow> payload_offer \<Rightarrow> reader \<Rightarrow> peer \<Rightarrow> conn \<Rightarrow> payload_receipt result \<times> peer option" where
  "send_decided rt tc offer src q c =
     (case conn_read_json (tc_decision tc) c of
        (Inl e, c1) \<Rightarrow> (Inl (Wrap ''receive payload decision'' e), fail_transfer q c1)
      | (Inr decision, c1) \<Rightarrow>
      (case validate_decision decision offer of
        Inl e \<Rightarrow> (Inl (Wrap ''validate payload decision'' e), fail_transfer q c1)
      | Inr _ \<Rightarrow>
      if \<not> pd_accepted decision then (Inl ErrPayloadTransferRejected, on_conn q c1)
      else case send_accepted rt tc offer src c1 of
        (Inl e, c2) \<Rightarrow> (Inl e, fail_transfer q c2)
      | (Inr receipt, c2) \<Rightarrow> (Inr receipt, on_conn q c2)))"

definition send_transfer_payload ::
  "runtime \<Rightarrow> transfer_codecs \<Rightarrow> peer option \<Rightarrow> payload_offer \<Rightarrow> reader option \<Rightarrow>
     payload_receipt result \<times> peer option" where
  "send_transfer_payload rt tc p offer source =
     (case require_trusted p of
        (Inl e, p1) \<Rightarrow> (Inl e, p1)
      | (Inr (q, c), p1) \<Rightarrow>
      (case validate_offer rt offer of
        Inl e \<Rightarrow> (Inl (Wrap ''validate payload offer'' e), p1)
      | Inr _ \<Rightarrow>
      (case source of
        None \<Rightarrow> (Inl (Msg ''payload source must not be nil''), p1)
      | Some src \<Rightarrow>
      (case conn_write_json (tc_offer tc) c offer of
        (Inl e, c1) \<Rightarrow> (Inl (Wrap ''send payload offer'' e), fail_transfer q c1)
      | (Inr _, c1) \<Rightarrow> send_decided rt tc offer src q c1))))"

section \<open>Receiving\<close>

fun receive_chunks :: "runtime \<Rightarrow> chunk list \<Rightarrow> conn \<Rightarrow> writer \<Rightarrow> bytes \<Rightarrow> bytes result \<times> conn \<times> writer" where
  "receive_chunks rt [] c dest hashed = (Inr hashed, c, dest)"
| "receive_chunks rt (x # xs) c dest hashed =
     (case conn_read_binary c (ch_size x) of
        (Inl e, c1) \<Rightarrow> (Inl (Wrap ''receive payload chunk'' e), c1, dest)
      | (Inr data, c1) \<Rightarrow>
          (case verify_chunk rt x data of
             Inl e \<Rightarrow> (Inl (Wrap ''verify received chunk'' e), c1, dest)
           | Inr _ \<Rightarrow>
               (case write_payload_bytes dest data of
                  (Inl e, dest1) \<Rightarrow> (Inl (Wrap ''stage received chunk'' e), c1, dest1)
                | (Inr _, dest1) \<Rightarrow> receive_chunks rt xs c1 dest1 (hashed @ data))))"

text \<open>From the last chunk on.\<close>

definition confirm_payload ::
  "runtime \<Rightarrow> transfer_codecs \<Rightarrow> payload_offer \<Rightarrow> bytes \<Rightarrow> conn \<Rightarrow> payload_receipt result \<times> conn" where
  "confirm_payload rt tc offer hashed c =
     (case conn_read_json (tc_completion tc) c of
        (Inl e, c1) \<Rightarrow> (Inl (Wrap ''receive payload completion'' e), c1)
      | (Inr completion, c1) \<Rightarrow>
      (case validate_completion completion offer of
        Inl e \<Rightarrow> (Inl (Wrap ''validate payload completion'' e), c1)
      | Inr _ \<Rightarrow>
      if hex_encode (rt_sha256 rt hashed) \<noteq> mf_hash (po_manifest offer)
      then (Inl (Msg ''whole received payload integrity verification failed''), c1)
      else case conn_write_json (tc_receipt tc) c1 (verified_payload_receipt offer) of
        (Inl e, c2) \<Rightarrow> (Inl (Wrap ''send payload receipt'' e), c2)
      | (Inr _, c2) \<Rightarrow> (Inr (verified_payload_receipt offer), c2)))"

text \<open>From the decision that was sent on.\<close>

definition receive_payload ::
  "runtime \<Rightarrow> transfer_codecs \<Rightarrow> payload_offer \<Rightarrow> conn \<Rightarrow> writer \<Rightarrow> payload_receipt result \<times> conn \<times> writer" where
  "receive_payload rt tc offer c dest =
     (case receive_chunks rt (mf_chunks (po_manifest offer)) c dest [] of
        (Inl e, c1, dest1) \<Rightarrow> (Inl e, c1, dest1)
      | (Inr hashed, c1, dest1) \<Rightarrow>
          (case confirm_payload rt tc offer hashed c1 of (res, c2) \<Rightarrow> (res, c2, dest1)))"

text \<open>From the approved offer on; every error closes the connection.\<close>

definition receive_approved ::
  "runtime \<Rightarrow> transfer_codecs \<Rightarrow> payload_offer \<Rightarrow> conn \<Rightarrow> writer \<Rightarrow> payload_receipt result \<times> conn \<times> writer" where
  "receive_approved rt tc offer c dest =
     (case conn_write_json (tc_decision tc) c (decision_for offer True) of
        (Inl e, c1) \<Rightarrow> (Inl (Wrap ''send payload acceptance'' e), c1, dest)
      | (Inr _, c1) \<Rightarrow> receive_payload rt tc offer c1 dest)"

definition finish_receive ::
  "payload_offer \<Rightarrow> peer \<Rightarrow> payload_receipt result \<times> conn \<times> writer \<Rightarrow>
     payload_offer option \<times> payload_receipt result \<times> peer option \<times> writer option" where
  "finish_receive offer q out =
     (case out of
        (Inl e, c, dest) \<Rightarrow> (Some offer, Inl e, fail_transfer q c, Some dest)
      | (Inr receipt, c, dest) \<Rightarrow> (Some offer, Inr receipt, on_conn q c, Some dest))"

text \<open>
  The three results are the offer (\<open>None\<close> for the zero value returned before one was
  validated), the receipt or the error, the connection, and the staging destination.
\<close>

definition receive_transfer_payload ::
  "runtime \<Rightarrow> transfer_codecs \<Rightarrow> peer option \<Rightarrow> payload_authorizer option \<Rightarrow> writer option \<Rightarrow>
     payload_offer option \<times> payload_receipt result \<times> peer option \<times> writer option" where
  "receive_transfer_payload rt tc p authorize destination =
     (case require_trusted p of
        (Inl e, p1) \<Rightarrow> (None, Inl e, p1, destination)
      | (Inr (q, c), p1) \<Rightarrow>
      (case authorize of
        None \<Rightarrow> (None, Inl (Msg ''payload authorizer must not be nil''), p1, destination)
      | Some authorize \<Rightarrow>
      (case destination of
        None \<Rightarrow> (None, Inl (Msg ''payload staging destination must not be nil''), p1, destination)
      | Some dest \<Rightarrow>
      (case conn_read_json (tc_offer tc) c of
        (Inl e, c1) \<Rightarrow> (None, Inl (Wrap ''receive payload offer'' e), fail_transfer q c1, destination)
      | (Inr offer, c1) \<Rightarrow>
      (case validate_offer rt offer of
        Inl e \<Rightarrow> (None, Inl (Wrap ''validate payload offer'' e), fail_transfer q c1, destination)
      | Inr _ \<Rightarrow>
      (case authorize offer of
        (Inl e, True) \<Rightarrow> (Some offer, Inl e, fail_transfer q c1, destination)
      | (Inl e, False) \<Rightarrow>
          (case conn_write_json (tc_decision tc) c1 (decision_for offer False) of
             (Inl e2, c2) \<Rightarrow> (Some offer, Inl (Wrap ''send payload rejection'' e2), fail_transfer q c2, destination)
           | (Inr _, c2) \<Rightarrow>
               (Some offer, Inl ErrPayloadTransferAuthorizationDenied, on_conn q c2, destination))
      | (Inr _, closed) \<Rightarrow>
          finish_receive offer q (receive_approved rt tc offer (if closed then hang_up c1 else c1) dest)))))))"

section \<open>Facts\<close>

lemma require_trusted_Inr:
  "require_trusted p = (Inr (q, c), p1) \<longleftrightarrow>
     p = Some q \<and> p1 = p \<and> pc_conn q = Some c \<and> \<not> pc_closed q \<and> pc_device q \<noteq> [] \<and> pc_fingerprint q \<noteq> []"
  by (auto simp: require_trusted_def authenticated_device_id_def authenticated_key_fingerprint_def
      split: option.splits if_splits)

lemma fail_transfer_closed [simp]: "is_closed (fail_transfer q c)"
  by (simp add: fail_transfer_def on_conn_def close_peer_def)

text \<open>What a peer has written and staged.\<close>

definition written :: "peer option \<Rightarrow> bytes" where
  "written p = (case p of None \<Rightarrow> [] | Some q \<Rightarrow> peer_written q)"

lemma written_simps [simp]:
  "written (Some q) = peer_written q"
  "written (on_conn q c) = wr_bytes (cn_out c)"
  by (simp_all add: written_def on_conn_def peer_written_def)

lemma written_fail_transfer:
  "\<not> pc_closed q \<Longrightarrow> written (fail_transfer q c) = wr_bytes (cn_out c)"
  by (simp add: written_def fail_transfer_def on_conn_def close_peer_def peer_written_def)

lemma written_close_peer [simp]: "written (snd (close_peer p)) = written p"
  by (auto simp: close_peer_def written_def peer_written_def split: option.splits)

lemma require_trusted_Inl:
  "require_trusted p = (Inl e, p1) \<Longrightarrow> e = ErrPayloadTransferPeerNotTrusted \<and> written p1 = written p"
  by (auto simp: require_trusted_def split: option.splits if_splits)

lemma chunk_fits_frame:
  "verify_chunk rt x b = Inr () \<Longrightarrow>
     b \<noteq> [] \<and> length b \<le> max_frame_size \<and> ch_size x = int (length b) \<and> nat (ch_size x) = length b"
  by (auto simp: verify_chunk_Inr default_chunk_size_def max_frame_size_def)

lemma check_source_end_Inr:
  "check_source_end src = Inr () \<longleftrightarrow> rd_bytes src = [] \<and> rd_end src \<in> {Eof, Broken ErrEOF}"
  by (auto simp: check_source_end_def read_one_def split: list.splits stream_end.splits if_splits)

text \<open>A sender that gets through its chunks has read what \<open>VerifyPayload\<close> reads.\<close>

lemma send_chunks_ok:
  "send_chunks rt xs src c hashed = (Inr (h, src'), c') \<Longrightarrow>
     verify_chunks rt xs src hashed = Inr (h, src') \<and> cn_in c' = cn_in c \<and>
     (\<exists>bs. rd_bytes src = concat bs @ rd_bytes src' \<and> h = hashed @ concat bs \<and>
        wr_bytes (cn_out c') = wr_bytes (cn_out c) @ concat (map frame_of bs))"
proof (induction xs arbitrary: src c hashed)
  case (Cons x xs)
  let ?n = "nat (ch_size x)"
  from Cons.prems obtain c1 where len: "?n \<le> length (rd_bytes src)"
    and ok: "verify_chunk rt x (take ?n (rd_bytes src)) = Inr ()"
    and wr: "conn_write_binary c (take ?n (rd_bytes src)) = (Inr (), c1)"
    and more: "send_chunks rt xs (src\<lparr>rd_bytes := drop ?n (rd_bytes src)\<rparr>) c1 (hashed @ take ?n (rd_bytes src)) =
      (Inr (h, src'), c')"
    by (auto simp: read_full_def split: if_splits sum.splits prod.splits)
  from Cons.IH [OF more] obtain bs where IH:
    "verify_chunks rt xs (src\<lparr>rd_bytes := drop ?n (rd_bytes src)\<rparr>) (hashed @ take ?n (rd_bytes src)) = Inr (h, src')"
    "cn_in c' = cn_in c1" "drop ?n (rd_bytes src) = concat bs @ rd_bytes src'"
    "h = (hashed @ take ?n (rd_bytes src)) @ concat bs"
    "wr_bytes (cn_out c') = wr_bytes (cn_out c1) @ concat (map frame_of bs)" by auto
  have "verify_chunks rt (x # xs) src hashed = Inr (h, src')"
    using len ok IH(1) by (simp add: read_full_def)
  moreover have "rd_bytes src = concat (take ?n (rd_bytes src) # bs) @ rd_bytes src'"
    using IH(3) by (simp flip: IH(3))
  ultimately show ?case
    using conn_write_binary_ok [OF wr] IH(2,4,5)
    by (intro conjI exI [of _ "take ?n (rd_bytes src) # bs"]) simp_all
qed (auto intro: exI [of _ "[]"])

text \<open>An undisturbed sender and receiver, chunk by chunk.\<close>

abbreviation chunks_ok :: "runtime \<Rightarrow> chunk list \<Rightarrow> bytes list \<Rightarrow> bool" where
  "chunks_ok rt xs bs \<equiv> list_all2 (\<lambda>x b. verify_chunk rt x b = Inr ()) xs bs"

lemma send_chunks_run:
  assumes "chunks_ok rt xs bs" and "open_writer (cn_out c)" and "src = r\<lparr>rd_bytes := concat bs @ rest\<rparr>"
  shows "send_chunks rt xs src c hashed = (Inr (hashed @ concat bs, r\<lparr>rd_bytes := rest\<rparr>),
    c\<lparr>cn_out := (cn_out c)\<lparr>wr_bytes := wr_bytes (cn_out c) @ concat (map frame_of bs)\<rparr>\<rparr>)"
  using assms
proof (induction xs bs arbitrary: c src hashed rule: list_all2_induct)
  case (Cons x xs b bs)
  note b = chunk_fits_frame [OF Cons.hyps(1)]
  let ?c = "c\<lparr>cn_out := (cn_out c)\<lparr>wr_bytes := wr_bytes (cn_out c) @ frame_of b\<rparr>\<rparr>"
  have "conn_write_binary c b = (Inr (), ?c)"
    using conn_write_binary_open [OF Cons.prems(1)] b by simp
  moreover have "read_full (nat (ch_size x)) src = (b, None, r\<lparr>rd_bytes := concat bs @ rest\<rparr>)"
    using b Cons.prems(2) by (simp add: read_full_append)
  moreover have "open_writer (cn_out ?c)" using Cons.prems(1) by (simp add: open_writer_def)
  note Cons.IH [OF this refl, of "hashed @ b"]
  ultimately show ?case using Cons.hyps(1) by simp
qed simp

lemma receive_chunks_run:
  assumes "chunks_ok rt xs bs" and "cn_in c = r\<lparr>rd_bytes := concat (map frame_of bs) @ rest\<rparr>" and "open_writer w"
  shows "receive_chunks rt xs c w hashed = (Inr (hashed @ concat bs), c\<lparr>cn_in := r\<lparr>rd_bytes := rest\<rparr>\<rparr>,
    w\<lparr>wr_bytes := wr_bytes w @ concat bs\<rparr>)"
  using assms
proof (induction xs bs arbitrary: c w hashed rule: list_all2_induct)
  case (Cons x xs b bs)
  note b = chunk_fits_frame [OF Cons.hyps(1)]
  let ?c = "c\<lparr>cn_in := r\<lparr>rd_bytes := concat (map frame_of bs) @ rest\<rparr>\<rparr>"
  let ?w = "w\<lparr>wr_bytes := wr_bytes w @ b\<rparr>"
  have "conn_read_binary c (ch_size x) = (Inr b, ?c)"
    using b Cons.prems(1) by (intro conn_read_binary_frame) auto
  moreover have "write_payload_bytes w b = (Inr (), ?w)"
    using Cons.prems(2) by (simp add: write_payload_bytes_def write_frame_bytes_open)
  moreover have "open_writer ?w" using Cons.prems(2) by (simp add: open_writer_def)
  with Cons.IH [of ?c ?w "hashed @ b"] have "receive_chunks rt xs ?c ?w (hashed @ b) =
      (Inr (hashed @ b @ concat bs), c\<lparr>cn_in := r\<lparr>rd_bytes := rest\<rparr>\<rparr>, w\<lparr>wr_bytes := wr_bytes w @ b @ concat bs\<rparr>)"
    by simp
  ultimately show ?case using Cons.hyps(1) by simp
qed simp

lemma verify_chunks_run:
  "chunks_ok rt xs bs \<Longrightarrow>
     verify_chunks rt xs (r\<lparr>rd_bytes := concat bs @ rest\<rparr>) hashed = Inr (hashed @ concat bs, r\<lparr>rd_bytes := rest\<rparr>)"
proof (induction xs bs arbitrary: hashed rule: list_all2_induct)
  case (Cons x xs b bs)
  then show ?case
    using chunk_fits_frame [OF Cons.hyps(1)] by (simp add: read_full_append)
qed simp

lemma verify_payload_run:
  assumes "validate_manifest rt m = Inr ()" and "chunks_ok rt (mf_chunks m) bs" and "hash_of rt (concat bs) = mf_hash m"
  shows "verify_payload rt m (Some \<lparr>rd_bytes = concat bs, rd_end = Eof\<rparr>) = Inr ()"
proof -
  have "verify_chunks rt (mf_chunks m) \<lparr>rd_bytes = concat bs, rd_end = Eof\<rparr> [] =
      Inr (concat bs, \<lparr>rd_bytes = [], rd_end = Eof\<rparr>)"
    using verify_chunks_run [OF assms(2), where r = "\<lparr>rd_bytes = [], rd_end = Eof\<rparr>" and rest = "[]" and hashed = "[]"]
    by simp
  with assms(1,3) show ?thesis by (simp add: verify_payload_def read_one_def hash_of_def)
qed

lemma receive_chunks_ok:
  "receive_chunks rt xs c dest hashed = (Inr h, c', dest') \<Longrightarrow>
     \<exists>bs. chunks_ok rt xs bs \<and> h = hashed @ concat bs \<and> wr_bytes dest' = wr_bytes dest @ concat bs"
proof (induction xs arbitrary: c dest hashed)
  case (Cons x xs)
  from Cons.prems obtain b c1 dest1 where ok: "verify_chunk rt x b = Inr ()"
    and wr: "write_frame_bytes dest b = (Inr (), dest1)"
    and more: "receive_chunks rt xs c1 dest1 (hashed @ b) = (Inr h, c', dest')"
    by (auto simp: write_payload_bytes_def split: sum.splits prod.splits)
  from write_frame_bytes_prefix [OF wr] have "wr_bytes dest1 = wr_bytes dest @ b" by auto
  moreover from Cons.IH [OF more] obtain bs where "chunks_ok rt xs bs" "h = (hashed @ b) @ concat bs"
    "wr_bytes dest' = wr_bytes dest1 @ concat bs" by auto
  ultimately show ?case using ok by (intro exI [of _ "b # bs"]) simp
qed simp

lemma receive_approved_ok:
  assumes "receive_approved rt tc offer c dest = (Inr receipt, c', dest')" and "validate_offer rt offer = Inr ()"
  shows "receipt = verified_payload_receipt offer \<and>
    (\<exists>s. wr_bytes dest' = wr_bytes dest @ s \<and>
       verify_payload rt (po_manifest offer) (Some \<lparr>rd_bytes = s, rd_end = Eof\<rparr>) = Inr ())"
proof -
  from assms(1) obtain c1 h c2 where run: "receive_chunks rt (mf_chunks (po_manifest offer)) c1 dest [] = (Inr h, c2, dest')"
    and h: "hex_encode (rt_sha256 rt h) = mf_hash (po_manifest offer)" and receipt: "receipt = verified_payload_receipt offer"
    by (auto simp: receive_approved_def receive_payload_def confirm_payload_def split: sum.splits prod.splits if_splits)
  from receive_chunks_ok [OF run] obtain bs where "chunks_ok rt (mf_chunks (po_manifest offer)) bs" "h = concat bs"
    "wr_bytes dest' = wr_bytes dest @ concat bs" by auto
  with verify_payload_run h receipt assms(2) show ?thesis by (auto simp: validate_offer_Inr hash_of_def)
qed

lemma send_accepted_ok:
  assumes "send_accepted rt tc offer src c = (Inr receipt, c')" and "validate_offer rt offer = Inr ()"
  shows "receipt = verified_payload_receipt offer \<and> verify_payload rt (po_manifest offer) (Some src) = Inr () \<and>
    (\<exists>bs. rd_bytes src = concat bs \<and> wr_bytes (cn_out c') = wr_bytes (cn_out c) @ concat (map frame_of bs) @
       frame_of (json_text (tc_completion tc) (completed_payload offer)))"
proof -
  let ?m = "po_manifest offer"
  from assms(1) obtain h src1 c1 c2 where run: "send_chunks rt (mf_chunks ?m) src c [] = (Inr (h, src1), c1)"
    and stop: "check_source_end src1 = Inr ()" and h: "hex_encode (rt_sha256 rt h) = mf_hash ?m"
    and fin: "conn_write_json (tc_completion tc) c1 (completed_payload offer) = (Inr (), c2)"
    and read: "conn_read_json (tc_receipt tc) c2 = (Inr receipt, c')" "validate_receipt receipt offer = Inr ()"
    by (auto simp: send_accepted_def await_receipt_def result_iff split: sum.splits prod.splits if_splits)
  from send_chunks_ok [OF run] obtain bs where bs: "verify_chunks rt (mf_chunks ?m) src [] = Inr (h, src1)"
    "rd_bytes src = concat bs @ rd_bytes src1" "wr_bytes (cn_out c1) = wr_bytes (cn_out c) @ concat (map frame_of bs)"
    by auto
  moreover have "verify_payload rt ?m (Some src) = Inr ()"
    using bs(1) stop h assms(2)
    by (auto simp: verify_payload_def validate_offer_Inr check_source_end_Inr read_one_def)
  moreover have "receipt = verified_payload_receipt offer"
    using read(2) validate_receipt_Inr [OF assms(2)] by simp
  ultimately show ?thesis
    using stop conn_write_json_ok [OF fin] conn_read_json_keeps [OF read(1)]
    by (auto simp: check_source_end_Inr)
qed

text \<open>The error a receiver's refusal gives comes from nowhere else.\<close>

lemma send_chunks_error: "send_chunks rt xs src c h = (Inl e, c') \<Longrightarrow> e \<notin> range Sentinel"
  by (induction rt xs src c h rule: send_chunks.induct) (auto split: sum.splits prod.splits option.splits)

lemma wrapped_not_sentinel: "and_then (wrap_error s r) (\<lambda>_. Inr v) \<noteq> Inl (Sentinel x)"
  by (cases r) auto

lemma send_accepted_error:
  assumes "send_accepted rt tc offer src c = (Inl e, c')"
  shows "e \<notin> range Sentinel"
proof -
  have "check_source_end src = Inl x \<Longrightarrow> x \<notin> range Sentinel" for src x
    by (auto simp: check_source_end_def split: prod.splits bool.splits if_splits)
  with assms show ?thesis unfolding send_accepted_def await_receipt_def
    by (auto dest: send_chunks_error simp: wrapped_not_sentinel split: sum.splits prod.splits if_splits)
qed

lemma send_transfer_ok:
  assumes "send_transfer_payload rt tc (Some q) offer (Some src) = (Inr receipt, p')"
  shows "receipt = verified_payload_receipt offer \<and> verify_payload rt (po_manifest offer) (Some src) = Inr () \<and>
    (\<exists>c. p' = on_conn q c)"
proof -
  obtain c where trusted: "require_trusted (Some q) = (Inr (q, c), Some q)" and valid: "validate_offer rt offer = Inr ()"
    using assms by (auto simp: send_transfer_payload_def require_trusted_Inr split: sum.splits prod.splits)
  with assms obtain c1 where "send_decided rt tc offer src q c1 = (Inr receipt, p')"
    by (auto simp: send_transfer_payload_def split: sum.splits prod.splits)
  then obtain c2 c3 where "send_accepted rt tc offer src c2 = (Inr receipt, c3)" "p' = on_conn q c3"
    by (auto simp: send_decided_def split: sum.splits prod.splits if_splits)
  with send_accepted_ok [OF _ valid] show ?thesis by blast
qed

lemma receive_transfer_ok:
  assumes "receive_transfer_payload rt tc (Some q) (Some authorize) (Some dest) = (got, Inr receipt, p', left)"
  shows "\<exists>offer dest' s c. got = Some offer \<and> left = Some dest' \<and> p' = on_conn q c \<and>
    fst (authorize offer) = Inr () \<and> receipt = verified_payload_receipt offer \<and> wr_bytes dest' = wr_bytes dest @ s \<and>
    verify_payload rt (po_manifest offer) (Some \<lparr>rd_bytes = s, rd_end = Eof\<rparr>) = Inr ()"
proof -
  from assms obtain c where trusted: "require_trusted (Some q) = (Inr (q, c), Some q)"
    by (auto simp: receive_transfer_payload_def require_trusted_Inr split: sum.splits prod.splits)
  with assms obtain offer c1 where run: "conn_read_json (tc_offer tc) c = (Inr offer, c1)"
    and valid: "validate_offer rt offer = Inr ()"
    by (auto simp: receive_transfer_payload_def split: sum.splits prod.splits)
  obtain verdict closed where verdict: "authorize offer = (verdict, closed)" by fastforce
  with assms trusted run valid have "verdict = Inr ()"
    by (cases verdict) (auto simp: receive_transfer_payload_def split: sum.splits prod.splits bool.splits)
  with assms trusted run valid verdict
  have "finish_receive offer q (receive_approved rt tc offer (if closed then hang_up c1 else c1) dest) = (got, Inr receipt, p', left)"
    by (simp add: receive_transfer_payload_def)
  then obtain c2 dest' where "receive_approved rt tc offer (if closed then hang_up c1 else c1) dest = (Inr receipt, c2, dest')"
    "got = Some offer" "left = Some dest'" "p' = on_conn q c2"
    by (auto simp: finish_receive_def split: sum.splits prod.splits)
  with receive_approved_ok [OF _ valid] verdict \<open>verdict = Inr ()\<close> show ?thesis by fastforce
qed

section \<open>The life of a connection\<close>

text \<open>
  The calls a program can make on a connection, in any order: the exported methods of
  \<open>PeerConn\<close> that change it, those of \<open>transport/peer.go\<close> and the two transfers, with any
  arguments, the callbacks and streams among them. The methods that only read it are no steps.
\<close>

inductive peer_step :: "runtime \<Rightarrow> handshake codec \<Rightarrow> transfer_codecs \<Rightarrow> peer \<Rightarrow> peer \<Rightarrow> bool"
  for rt cd tc where
  bind: "bind_fingerprint (Some p) key = (res, Some q) \<Longrightarrow> peer_step rt cd tc p q"
| close: "close_peer (Some p) = (res, Some q) \<Longrightarrow> peer_step rt cd tc p q"
| send: "send_handshake cd (Some p) h = (res, Some q) \<Longrightarrow> peer_step rt cd tc p q"
| receive: "receive_handshake cd (Some p) = (got, Some q) \<Longrightarrow> peer_step rt cd tc p q"
| send_payload: "send_transfer_payload rt tc (Some p) offer source = (receipt, Some q) \<Longrightarrow>
    peer_step rt cd tc p q"
| receive_payload: "receive_transfer_payload rt tc (Some p) authorize destination =
    (offered, receipt, Some q, destination') \<Longrightarrow> peer_step rt cd tc p q"

lemma peer_kept_on_conn: "\<not> pc_closed p \<Longrightarrow> on_conn p c = Some q \<Longrightarrow> peer_kept p q"
  by (auto simp: on_conn_def peer_kept_def)

lemma peer_kept_fail: "\<not> pc_closed p \<Longrightarrow> fail_transfer p c = Some q \<Longrightarrow> peer_kept p q"
  by (auto simp: fail_transfer_def on_conn_def close_peer_def peer_kept_def)

lemma require_trusted_kept: "require_trusted (Some p) = (Inl e, Some q) \<Longrightarrow> peer_kept p q"
  by (auto simp: require_trusted_def close_peer_def peer_kept_def split: option.splits if_splits)

lemmas transfer_kept = peer_kept_on_conn peer_kept_fail require_trusted_kept

lemma send_payload_kept:
  assumes "send_transfer_payload rt tc (Some p) offer source = (receipt, Some q)"
  shows "peer_kept p q"
  using assms unfolding send_transfer_payload_def send_decided_def
  by (auto simp: require_trusted_Inr intro: transfer_kept
      split: sum.splits prod.splits option.splits if_splits)

lemma finish_receive_kept:
  "\<not> pc_closed p \<Longrightarrow> finish_receive offer p out = (offered, receipt, Some q, dest) \<Longrightarrow> peer_kept p q"
  by (auto simp: finish_receive_def intro: transfer_kept split: prod.splits sum.splits)

lemma receive_payload_kept:
  assumes "receive_transfer_payload rt tc (Some p) authorize destination = (offered, receipt, Some q, dest)"
  shows "peer_kept p q"
  using assms unfolding receive_transfer_payload_def
  by (auto simp: require_trusted_Inr intro: transfer_kept finish_receive_kept
      split: sum.splits prod.splits option.splits if_splits bool.splits)

lemma peer_step_kept: "peer_step rt cd tc p q \<Longrightarrow> peer_kept p q"
  by (induction rule: peer_step.induct) (rule peer_calls_kept send_payload_kept receive_payload_kept; assumption)+

lemma peer_run_kept: "(peer_step rt cd tc)\<^sup>*\<^sup>* p q \<Longrightarrow> peer_kept p q"
  by (induction rule: rtranclp_induct) (auto intro: peer_kept_trans peer_step_kept)

section \<open>The dialogue of a transfer\<close>

text \<open>
  What the two ends write when nothing is tampered with. A peer that has read all its input
  waits for more; what it has written by then is what it writes on an input that breaks off
  there. The dialogue alternates: the sender goes as far as what the receiver has written so
  far lets it, then the receiver as far as that lets it.
\<close>

definition with_input :: "peer \<Rightarrow> bytes \<Rightarrow> stream_end \<Rightarrow> peer" where
  "with_input p b x = p\<lparr>pc_conn := map_option (\<lambda>c. c\<lparr>cn_in := \<lparr>rd_bytes = b, rd_end = x\<rparr>\<rparr>) (pc_conn p)\<rparr>"

fun dialogue :: "(bytes \<Rightarrow> bytes) \<Rightarrow> (bytes \<Rightarrow> bytes) \<Rightarrow> nat \<Rightarrow> bytes \<times> bytes" where
  "dialogue snd_out rcv_out 0 = ([], [])"
| "dialogue snd_out rcv_out (Suc n) =
     (let s = snd_out (snd (dialogue snd_out rcv_out n)) in (s, rcv_out s))"

definition codecs_ok :: "transfer_codecs \<Rightarrow> payload_offer \<Rightarrow> bool" where
  "codecs_ok tc offer \<longleftrightarrow>
     codec_ok (tc_offer tc) offer \<and> codec_ok (tc_decision tc) (decision_for offer True) \<and>
     codec_ok (tc_completion tc) (completed_payload offer) \<and>
     codec_ok (tc_receipt tc) (verified_payload_receipt offer)"

definition trusted_peer :: "peer \<Rightarrow> bool" where
  "trusted_peer p \<longleftrightarrow>
     (\<exists>c. pc_conn p = Some c \<and> open_writer (cn_out c) \<and> wr_bytes (cn_out c) = []) \<and>
     \<not> pc_closed p \<and> pc_device p \<noteq> [] \<and> pc_fingerprint p \<noteq> []"

abbreviation offer_frame where "offer_frame tc offer \<equiv> frame_of (json_text (tc_offer tc) offer)"
abbreviation decision_frame where "decision_frame tc offer \<equiv> frame_of (json_text (tc_decision tc) (decision_for offer True))"
abbreviation completion_frame where
  "completion_frame tc offer \<equiv> frame_of (json_text (tc_completion tc) (completed_payload offer))"
abbreviation receipt_frame where
  "receipt_frame tc offer \<equiv> frame_of (json_text (tc_receipt tc) (verified_payload_receipt offer))"

definition request :: "transfer_codecs \<Rightarrow> payload_offer \<Rightarrow> bytes list \<Rightarrow> bytes" where
  "request tc offer bs = offer_frame tc offer @ concat (map frame_of bs) @ completion_frame tc offer"

definition reply :: "transfer_codecs \<Rightarrow> payload_offer \<Rightarrow> bytes" where
  "reply tc offer = decision_frame tc offer @ receipt_frame tc offer"

lemma trusted_peer_input:
  assumes "trusted_peer p"
  obtains c where "require_trusted (Some (with_input p b x)) = (Inr (with_input p b x, c), Some (with_input p b x))"
    "open_writer (cn_out c)" "wr_bytes (cn_out c) = []" "cn_in c = \<lparr>rd_bytes = b, rd_end = x\<rparr>"
    "\<not> pc_closed (with_input p b x)"
  using assms by (auto simp: trusted_peer_def with_input_def require_trusted_Inr)

lemma conn_read_json_end: "rd_bytes (cn_in c) = [] \<Longrightarrow> \<exists>e c'. conn_read_json cd c = (Inl e, c') \<and> cn_out c' = cn_out c"
  by (simp add: conn_read_json_def read_json_frame_def read_full_def)

lemma conn_read_binary_end: "rd_bytes (cn_in c) = [] \<Longrightarrow> \<exists>e c'. conn_read_binary c m = (Inl e, c') \<and> cn_out c' = cn_out c"
  by (simp add: conn_read_binary_def read_binary_frame_def read_full_def)

lemma validate_decision_for: "validate_offer rt offer = Inr () \<Longrightarrow> validate_decision (decision_for offer a) offer = Inr ()"
  by (auto simp: validate_decision_Inr decision_for_def)

lemma pd_accepted_decision_for [simp]: "pd_accepted (decision_for offer a) = a"
  by (simp add: decision_for_def)

lemma check_source_end_eof: "check_source_end \<lparr>rd_bytes = [], rd_end = Eof\<rparr> = Inr ()"
  by (simp add: check_source_end_Inr)

lemma conn_write_json_step:
  assumes "open_writer (cn_out c)" and "codec_ok cd v"
  obtains c' where "conn_write_json cd c v = (Inr (), c')" "open_writer (cn_out c')" "cn_in c' = cn_in c"
    "wr_bytes (cn_out c') = wr_bytes (cn_out c) @ frame_of (json_text cd v)"
  using conn_write_json_open [OF assms] assms(1) by (simp add: open_writer_def)

lemma conn_read_json_step:
  assumes "codec_ok cd v" and "cn_in c = \<lparr>rd_bytes = frame_of (json_text cd v) @ rest, rd_end = x\<rparr>"
  obtains c' where "conn_read_json cd c = (Inr v, c')" "cn_out c' = cn_out c"
    "cn_in c' = \<lparr>rd_bytes = rest, rd_end = x\<rparr>"
  using conn_read_json_frame [OF assms(1), where c = c and rest = rest and r = "\<lparr>rd_bytes = [], rd_end = x\<rparr>"]
    assms(2) by simp

text \<open>An offer of a payload that is cut as its manifest says.\<close>

definition offerable :: "runtime \<Rightarrow> transfer_codecs \<Rightarrow> payload_offer \<Rightarrow> bytes list \<Rightarrow> bool" where
  "offerable rt tc offer bs \<longleftrightarrow>
     codecs_ok tc offer \<and> validate_offer rt offer = Inr () \<and> chunks_ok rt (mf_chunks (po_manifest offer)) bs \<and>
     hash_of rt (concat bs) = mf_hash (po_manifest offer)"

lemma offerable_codecs:
  assumes "offerable rt tc offer bs"
  shows "codec_ok (tc_offer tc) offer" "codec_ok (tc_decision tc) (decision_for offer True)"
    "codec_ok (tc_completion tc) (completed_payload offer)" "codec_ok (tc_receipt tc) (verified_payload_receipt offer)"
    "validate_offer rt offer = Inr ()"
  using assms by (simp_all add: offerable_def codecs_ok_def)

text \<open>The sender, up to where it waits for the decision, and up to where it waits for the receipt.\<close>

definition sender_run where
  "sender_run rt tc p offer bs b x =
     send_transfer_payload rt tc (Some (with_input p b x)) offer (Some \<lparr>rd_bytes = concat bs, rd_end = Eof\<rparr>)"

lemma sender_offers:
  assumes "offerable rt tc offer bs" and "trusted_peer p"
  obtains c1 where "open_writer (cn_out c1)" "wr_bytes (cn_out c1) = offer_frame tc offer"
    "cn_in c1 = \<lparr>rd_bytes = b, rd_end = x\<rparr>" "\<not> pc_closed (with_input p b x)"
    "sender_run rt tc p offer bs b x =
       send_decided rt tc offer \<lparr>rd_bytes = concat bs, rd_end = Eof\<rparr> (with_input p b x) c1"
proof -
  from trusted_peer_input [OF assms(2)] obtain c where c:
    "require_trusted (Some (with_input p b x)) = (Inr (with_input p b x, c), Some (with_input p b x))"
    "open_writer (cn_out c)" "wr_bytes (cn_out c) = []" "cn_in c = \<lparr>rd_bytes = b, rd_end = x\<rparr>"
    "\<not> pc_closed (with_input p b x)" .
  from conn_write_json_step [OF c(2) offerable_codecs(1) [OF assms(1)]] obtain c1 where c1:
    "conn_write_json (tc_offer tc) c offer = (Inr (), c1)" "open_writer (cn_out c1)" "cn_in c1 = cn_in c"
    "wr_bytes (cn_out c1) = wr_bytes (cn_out c) @ offer_frame tc offer" .
  have "sender_run rt tc p offer bs b x =
      send_decided rt tc offer \<lparr>rd_bytes = concat bs, rd_end = Eof\<rparr> (with_input p b x) c1"
    using c(1) c1(1) offerable_codecs(5) [OF assms(1)] by (simp add: sender_run_def send_transfer_payload_def)
  with that [of c1] c c1 show ?thesis by simp
qed

lemma sender_streams:
  assumes "offerable rt tc offer bs" and "open_writer (cn_out c)"
  obtains c1 where "cn_in c1 = cn_in c"
    "wr_bytes (cn_out c1) = wr_bytes (cn_out c) @ concat (map frame_of bs) @ completion_frame tc offer"
    "send_accepted rt tc offer \<lparr>rd_bytes = concat bs, rd_end = Eof\<rparr> c = await_receipt tc offer c1"
proof -
  let ?c0 = "c\<lparr>cn_out := (cn_out c)\<lparr>wr_bytes := wr_bytes (cn_out c) @ concat (map frame_of bs)\<rparr>\<rparr>"
  have chunks: "send_chunks rt (mf_chunks (po_manifest offer)) \<lparr>rd_bytes = concat bs, rd_end = Eof\<rparr> c [] =
      (Inr (concat bs, \<lparr>rd_bytes = [], rd_end = Eof\<rparr>), ?c0)"
    using send_chunks_run [where r = "\<lparr>rd_bytes = [], rd_end = Eof\<rparr>" and rest = "[]" and hashed = "[]"] assms
    by (simp add: offerable_def)
  have "open_writer (cn_out ?c0)" using assms(2) by (simp add: open_writer_def)
  from conn_write_json_step [OF this offerable_codecs(3) [OF assms(1)]] obtain c1
    where c1: "conn_write_json (tc_completion tc) ?c0 (completed_payload offer) = (Inr (), c1)" "cn_in c1 = cn_in ?c0"
      "wr_bytes (cn_out c1) = wr_bytes (cn_out ?c0) @ completion_frame tc offer" .
  have "send_accepted rt tc offer \<lparr>rd_bytes = concat bs, rd_end = Eof\<rparr> c = await_receipt tc offer c1"
    using assms(1) chunks c1(1) by (simp add: send_accepted_def check_source_end_eof offerable_def hash_of_def)
  with that [of c1] c1 show ?thesis by simp
qed

lemma sender_accepted:
  assumes "offerable rt tc offer bs" and "trusted_peer p" and "b = decision_frame tc offer @ later"
  obtains c1 where "wr_bytes (cn_out c1) = request tc offer bs" "cn_in c1 = \<lparr>rd_bytes = later, rd_end = x\<rparr>"
    "\<not> pc_closed (with_input p b x)"
    "sender_run rt tc p offer bs b x =
      (case await_receipt tc offer c1 of
         (Inl e, c2) \<Rightarrow> (Inl e, fail_transfer (with_input p b x) c2)
       | (Inr receipt, c2) \<Rightarrow> (Inr receipt, on_conn (with_input p b x) c2))"
proof -
  note codecs = offerable_codecs [OF assms(1)]
  from sender_offers [OF assms(1,2), of b x] obtain c1 where c1: "open_writer (cn_out c1)"
    "wr_bytes (cn_out c1) = offer_frame tc offer" "cn_in c1 = \<lparr>rd_bytes = b, rd_end = x\<rparr>" "\<not> pc_closed (with_input p b x)"
    "sender_run rt tc p offer bs b x =
       send_decided rt tc offer \<lparr>rd_bytes = concat bs, rd_end = Eof\<rparr> (with_input p b x) c1" .
  from conn_read_json_step [OF codecs(2) c1(3) [unfolded assms(3)]] obtain c2 where c2:
    "conn_read_json (tc_decision tc) c1 = (Inr (decision_for offer True), c2)" "cn_out c2 = cn_out c1"
    "cn_in c2 = \<lparr>rd_bytes = later, rd_end = x\<rparr>" .
  have "open_writer (cn_out c2)" using c1(1) c2(2) by simp
  from sender_streams [OF assms(1) this] obtain c3 where c3: "cn_in c3 = cn_in c2"
    "wr_bytes (cn_out c3) = wr_bytes (cn_out c2) @ concat (map frame_of bs) @ completion_frame tc offer"
    "send_accepted rt tc offer \<lparr>rd_bytes = concat bs, rd_end = Eof\<rparr> c2 = await_receipt tc offer c3" .
  have "sender_run rt tc p offer bs b x =
      (case await_receipt tc offer c3 of
         (Inl e, c2) \<Rightarrow> (Inl e, fail_transfer (with_input p b x) c2)
       | (Inr receipt, c2) \<Rightarrow> (Inr receipt, on_conn (with_input p b x) c2))"
    using c1(5) c2(1) c3(3) validate_decision_for [OF codecs(5), of True] by (simp add: send_decided_def)
  with that [of c3] c1 c2 c3 show ?thesis by (simp add: request_def)
qed

lemma sender_stages:
  assumes "offerable rt tc offer bs" and "trusted_peer p"
  shows sender_offer: "written (snd (sender_run rt tc p offer bs [] x)) = offer_frame tc offer"
    and sender_payload: "written (snd (sender_run rt tc p offer bs (decision_frame tc offer) x)) = request tc offer bs"
    and sender_receipt: "fst (sender_run rt tc p offer bs (reply tc offer) x) = Inr (verified_payload_receipt offer)"
      "written (snd (sender_run rt tc p offer bs (reply tc offer) x)) = request tc offer bs"
proof -
  note codecs = offerable_codecs [OF assms(1)]
  from sender_offers [OF assms, of "[]" x] obtain c1 where c1: "wr_bytes (cn_out c1) = offer_frame tc offer"
    "cn_in c1 = \<lparr>rd_bytes = [], rd_end = x\<rparr>" "\<not> pc_closed (with_input p [] x)"
    "sender_run rt tc p offer bs [] x =
       send_decided rt tc offer \<lparr>rd_bytes = concat bs, rd_end = Eof\<rparr> (with_input p [] x) c1" .
  with conn_read_json_end [of c1 "tc_decision tc"]
  show "written (snd (sender_run rt tc p offer bs [] x)) = offer_frame tc offer"
    by (auto simp: send_decided_def written_fail_transfer)
next
  from sender_accepted [OF assms, of "decision_frame tc offer" "[]" x] obtain c1 where
    c1: "wr_bytes (cn_out c1) = request tc offer bs" "cn_in c1 = \<lparr>rd_bytes = [], rd_end = x\<rparr>"
      "\<not> pc_closed (with_input p (decision_frame tc offer) x)"
    and run: "sender_run rt tc p offer bs (decision_frame tc offer) x =
      (case await_receipt tc offer c1 of
         (Inl e, c2) \<Rightarrow> (Inl e, fail_transfer (with_input p (decision_frame tc offer) x) c2)
       | (Inr receipt, c2) \<Rightarrow> (Inr receipt, on_conn (with_input p (decision_frame tc offer) x) c2))" by auto
  with conn_read_json_end [of c1 "tc_receipt tc"]
  show "written (snd (sender_run rt tc p offer bs (decision_frame tc offer) x)) = request tc offer bs"
    by (auto simp: await_receipt_def written_fail_transfer)
next
  note codecs = offerable_codecs [OF assms(1)]
  from sender_accepted [OF assms, of "reply tc offer" "receipt_frame tc offer" x] obtain c1 where
    c1: "wr_bytes (cn_out c1) = request tc offer bs" "cn_in c1 = \<lparr>rd_bytes = receipt_frame tc offer @ [], rd_end = x\<rparr>"
    and run: "sender_run rt tc p offer bs (reply tc offer) x =
      (case await_receipt tc offer c1 of
         (Inl e, c2) \<Rightarrow> (Inl e, fail_transfer (with_input p (reply tc offer) x) c2)
       | (Inr receipt, c2) \<Rightarrow> (Inr receipt, on_conn (with_input p (reply tc offer) x) c2))" by (auto simp: reply_def)
  from conn_read_json_step [OF codecs(4) c1(2)] obtain c2 where
    "conn_read_json (tc_receipt tc) c1 = (Inr (verified_payload_receipt offer), c2)" "cn_out c2 = cn_out c1" .
  with run c1 validate_receipt_Inr [OF codecs(5), of "verified_payload_receipt offer"]
  show "fst (sender_run rt tc p offer bs (reply tc offer) x) = Inr (verified_payload_receipt offer)"
    and "written (snd (sender_run rt tc p offer bs (reply tc offer) x)) = request tc offer bs"
    by (simp_all add: await_receipt_def)
qed

text \<open>The receiver, up to where it waits for the first chunk, and to the end.\<close>

definition receiver_run where
  "receiver_run rt tc q authorize dest b x =
     receive_transfer_payload rt tc (Some (with_input q b x)) (Some authorize) (Some dest)"

abbreviation replied where "replied out \<equiv> written (fst (snd (snd out)))"

lemma receiver_decides:
  assumes "offerable rt tc offer bs" and "trusted_peer q" and "authorize offer = (Inr (), False)"
    and "b = offer_frame tc offer @ later"
  obtains c1 where "wr_bytes (cn_out c1) = decision_frame tc offer" "open_writer (cn_out c1)"
    "cn_in c1 = \<lparr>rd_bytes = later, rd_end = x\<rparr>" "\<not> pc_closed (with_input q b x)"
    "receiver_run rt tc q authorize dest b x =
       finish_receive offer (with_input q b x) (receive_payload rt tc offer c1 dest)"
proof -
  note codecs = offerable_codecs [OF assms(1)]
  from trusted_peer_input [OF assms(2)] obtain c where c:
    "require_trusted (Some (with_input q b x)) = (Inr (with_input q b x, c), Some (with_input q b x))"
    "open_writer (cn_out c)" "wr_bytes (cn_out c) = []" "cn_in c = \<lparr>rd_bytes = b, rd_end = x\<rparr>"
    "\<not> pc_closed (with_input q b x)" .
  from conn_read_json_step [OF codecs(1) c(4) [unfolded assms(4)]] obtain c1 where c1:
    "conn_read_json (tc_offer tc) c = (Inr offer, c1)" "cn_out c1 = cn_out c" "cn_in c1 = \<lparr>rd_bytes = later, rd_end = x\<rparr>" .
  have "open_writer (cn_out c1)" using c c1 by simp
  from conn_write_json_step [OF this codecs(2)] obtain c2 where c2:
    "conn_write_json (tc_decision tc) c1 (decision_for offer True) = (Inr (), c2)" "open_writer (cn_out c2)"
    "cn_in c2 = cn_in c1" "wr_bytes (cn_out c2) = wr_bytes (cn_out c1) @ decision_frame tc offer" .
  have "receiver_run rt tc q authorize dest b x =
      finish_receive offer (with_input q b x) (receive_payload rt tc offer c2 dest)"
    using c(1) c1(1) c2(1) codecs(5) assms(3)
    by (simp add: receiver_run_def receive_transfer_payload_def receive_approved_def)
  with that [of c2] c c1 c2 show ?thesis by simp
qed

lemma receive_chunks_end:
  assumes "rd_bytes (cn_in c) = []" and "receive_chunks rt xs c dest h = (res, c', dest')"
  shows "cn_out c' = cn_out c \<and> (is_ok res \<longrightarrow> c' = c)"
proof (cases xs)
  case Nil
  with assms(2) show ?thesis by simp
next
  case (Cons y ys)
  obtain e c1 where "conn_read_binary c (ch_size y) = (Inl e, c1)" "cn_out c1 = cn_out c"
    using conn_read_binary_end [OF assms(1)] by blast
  with Cons assms(2) show ?thesis by auto
qed

lemma confirm_payload_end:
  assumes "rd_bytes (cn_in c) = []"
  shows "\<exists>e c'. confirm_payload rt tc offer h c = (Inl e, c') \<and> cn_out c' = cn_out c"
  using conn_read_json_end [OF assms, of "tc_completion tc"] by (auto simp: confirm_payload_def)

lemma receiver_decision:
  assumes "offerable rt tc offer bs" and "trusted_peer q" and "authorize offer = (Inr (), False)"
  shows "replied (receiver_run rt tc q authorize dest (offer_frame tc offer) x) = decision_frame tc offer"
proof (rule receiver_decides [where authorize = authorize and offer = offer, OF assms, of "offer_frame tc offer" "[]" x dest])
  fix c1 assume c1: "wr_bytes (cn_out c1) = decision_frame tc offer" "cn_in c1 = \<lparr>rd_bytes = [], rd_end = x\<rparr>"
      "\<not> pc_closed (with_input q (offer_frame tc offer) x)"
    and run: "receiver_run rt tc q authorize dest (offer_frame tc offer) x =
       finish_receive offer (with_input q (offer_frame tc offer) x) (receive_payload rt tc offer c1 dest)"
  obtain r c2 dest1 where chunks: "receive_chunks rt (mf_chunks (po_manifest offer)) c1 dest [] = (r, c2, dest1)"
    using prod_cases3 by blast
  have empty: "rd_bytes (cn_in c1) = []" using c1 by simp
  note stop = receive_chunks_end [OF empty chunks]
  have "\<exists>e c3. receive_payload rt tc offer c1 dest = (Inl e, c3, dest1) \<and> cn_out c3 = cn_out c1"
  proof (cases r)
    case (Inl e)
    with chunks stop show ?thesis by (simp add: receive_payload_def)
  next
    case (Inr h)
    then have "c2 = c1" using stop by simp
    with confirm_payload_end [OF empty, of rt tc offer h] Inr chunks show ?thesis
      by (auto simp: receive_payload_def)
  qed
  with run c1 show ?thesis by (auto simp: finish_receive_def written_fail_transfer)
qed simp_all

lemma receiver_receipt:
  assumes "offerable rt tc offer bs" and "trusted_peer q" and "authorize offer = (Inr (), False)"
    and "open_writer dest"
  shows "\<exists>q'. receiver_run rt tc q authorize dest (request tc offer bs) x =
      (Some offer, Inr (verified_payload_receipt offer), q', Some (dest\<lparr>wr_bytes := wr_bytes dest @ concat bs\<rparr>)) \<and>
    written q' = reply tc offer"
proof (rule receiver_decides [where authorize = authorize and offer = offer, OF assms(1-3), of "request tc offer bs"
      "concat (map frame_of bs) @ completion_frame tc offer" x dest])
  note codecs = offerable_codecs [OF assms(1)]
  fix c1 assume c1: "wr_bytes (cn_out c1) = decision_frame tc offer" "open_writer (cn_out c1)"
      "cn_in c1 = \<lparr>rd_bytes = concat (map frame_of bs) @ completion_frame tc offer, rd_end = x\<rparr>"
    and run: "receiver_run rt tc q authorize dest (request tc offer bs) x =
       finish_receive offer (with_input q (request tc offer bs) x) (receive_payload rt tc offer c1 dest)"
  let ?c2 = "c1\<lparr>cn_in := \<lparr>rd_bytes = completion_frame tc offer @ [], rd_end = x\<rparr>\<rparr>"
  have chunks: "receive_chunks rt (mf_chunks (po_manifest offer)) c1 dest [] =
      (Inr (concat bs), ?c2, dest\<lparr>wr_bytes := wr_bytes dest @ concat bs\<rparr>)"
    using receive_chunks_run [where c = c1 and r = "\<lparr>rd_bytes = [], rd_end = x\<rparr>" and w = dest and hashed = "[]"
        and rest = "completion_frame tc offer"] assms(1,4) c1(3)
    by (simp add: offerable_def)
  have inp: "cn_in ?c2 = \<lparr>rd_bytes = completion_frame tc offer @ [], rd_end = x\<rparr>" by simp
  from conn_read_json_step [OF codecs(3) inp] obtain c3 where
    c3: "conn_read_json (tc_completion tc) ?c2 = (Inr (completed_payload offer), c3)" "cn_out c3 = cn_out c1" by auto
  have "open_writer (cn_out c3)" using c1 c3 by simp
  from conn_write_json_step [OF this codecs(4)] obtain c4 where
    c4: "conn_write_json (tc_receipt tc) c3 (verified_payload_receipt offer) = (Inr (), c4)"
      "wr_bytes (cn_out c4) = wr_bytes (cn_out c3) @ receipt_frame tc offer" .
  have "confirm_payload rt tc offer (concat bs) ?c2 = (Inr (verified_payload_receipt offer), c4)"
    using c3(1) c4(1) assms(1) validate_completion_Inr [OF codecs(5), of "completed_payload offer"]
    by (simp add: confirm_payload_def offerable_def hash_of_def)
  with run chunks c1 c3 c4 show ?thesis by (simp add: reply_def receive_payload_def finish_receive_def)
qed (simp_all add: request_def)

section \<open>Properties\<close>

lemma send_not_begun:
  assumes run: "send_transfer_payload rt tc p offer source = (res, p')"
    and no: "\<nexists>q c p1. require_trusted p = (Inr (q, c), p1) \<and> validate_offer rt offer = Inr () \<and> source \<noteq> None"
  shows "\<exists>e. res = Inl e \<and> e \<noteq> ErrPayloadTransferRejected \<and> written p' = written p"
proof -
  obtain t p1 where t: "require_trusted p = (t, p1)" by fastforce
  show ?thesis
  proof (cases t)
    case (Inl e)
    with t run require_trusted_Inl [of p e p1] show ?thesis by (auto simp: send_transfer_payload_def)
  next
    case (Inr qc)
    with t have "p1 = p" by (cases qc) (simp add: require_trusted_Inr)
    with t run no Inr show ?thesis
      by (cases qc; cases "validate_offer rt offer"; cases source) (auto simp: send_transfer_payload_def)
  qed
qed

text \<open>
  C24. A sender reports a receipt only for a payload that verifies against the manifest it
  offered, after writing exactly the offer, one frame per chunk and the completion. A sender
  the receiver turned down has written the offer and no byte of the payload; after any other
  error the connection is closed, or nothing was written.
\<close>

theorem sent_payload_verified:
  assumes "send_transfer_payload rt tc p offer source = (res, p')"
  shows "(\<forall>receipt. res = Inr receipt \<longrightarrow> receipt = verified_payload_receipt offer \<and>
      (\<exists>src bs. source = Some src \<and> verify_payload rt (po_manifest offer) (Some src) = Inr () \<and> rd_bytes src = concat bs \<and>
         written p' = written p @ frame_of (json_text (tc_offer tc) offer) @ concat (map frame_of bs) @
           frame_of (json_text (tc_completion tc) (completed_payload offer)))) \<and>
    (res = Inl ErrPayloadTransferRejected \<longrightarrow> written p' = written p @ frame_of (json_text (tc_offer tc) offer)) \<and>
    (\<not> is_ok res \<and> res \<noteq> Inl ErrPayloadTransferRejected \<longrightarrow> is_closed p' \<or> written p' = written p)"
proof (cases "\<exists>q c p1. require_trusted p = (Inr (q, c), p1) \<and> validate_offer rt offer = Inr () \<and> source \<noteq> None")
  case False
  from send_not_begun [OF assms False] show ?thesis by auto
next
  case True
  then obtain q c src where q: "p = Some q" "pc_conn q = Some c" "\<not> pc_closed q" and valid: "validate_offer rt offer = Inr ()"
    and src: "source = Some src" and trusted: "require_trusted p = (Inr (q, c), p)"
    by (auto simp: require_trusted_Inr)
  show ?thesis
  proof (cases "\<exists>c1 d c2. conn_write_json (tc_offer tc) c offer = (Inr (), c1) \<and>
      conn_read_json (tc_decision tc) c1 = (Inr d, c2) \<and> validate_decision d offer = Inr ()")
    case False
    with assms trusted valid src show ?thesis
      by (auto simp: send_transfer_payload_def send_decided_def split: sum.splits prod.splits)
  next
    case True
    then obtain c1 d c2 where run: "conn_write_json (tc_offer tc) c offer = (Inr (), c1)"
      "conn_read_json (tc_decision tc) c1 = (Inr d, c2)" "validate_decision d offer = Inr ()" by blast
    have before: "wr_bytes (cn_out c2) = written p @ frame_of (json_text (tc_offer tc) offer)"
      using conn_write_json_ok [OF run(1)] conn_read_json_keeps [OF run(2)] q by (simp add: peer_written_def)
    obtain r c3 where rest: "send_accepted rt tc offer src c2 = (r, c3)" by fastforce
    have result: "(res, p') = (if \<not> pd_accepted d then (Inl ErrPayloadTransferRejected, on_conn q c2)
        else case r of Inl e \<Rightarrow> (Inl e, fail_transfer q c3) | Inr receipt \<Rightarrow> (Inr receipt, on_conn q c3))"
      using assms trusted valid src run rest
      by (cases r) (auto simp: send_transfer_payload_def send_decided_def split: if_splits)
    show ?thesis
    proof (cases r)
      case (Inl e)
      with send_accepted_error rest have "e \<notin> range Sentinel" by blast
      with Inl result before show ?thesis by (auto split: if_splits)
    next
      case (Inr receipt)
      from send_accepted_ok [OF rest [unfolded Inr] valid] Inr result before src show ?thesis
        by (auto split: if_splits)
    qed
  qed
qed

text \<open>
  C17. A receiver reports a receipt only for an offer its authorizer approved, and then the
  staging destination holds, after what was there, a payload that verifies against the
  offered manifest. Nothing is staged for an offer that was denied or never came; after every
  error but a denial the connection is closed.
\<close>

theorem received_payload_verified:
  assumes "receive_transfer_payload rt tc (Some p) (Some authorize) (Some dest) = (got, res, p', Some dest')"
    and "pc_conn p \<noteq> None"
  shows "(\<forall>receipt. res = Inr receipt \<longrightarrow> (\<exists>offer s. got = Some offer \<and> fst (authorize offer) = Inr () \<and>
      receipt = verified_payload_receipt offer \<and> wr_bytes dest' = wr_bytes dest @ s \<and>
      verify_payload rt (po_manifest offer) (Some \<lparr>rd_bytes = s, rd_end = Eof\<rparr>) = Inr ())) \<and>
    (got = None \<or> (\<exists>offer. got = Some offer \<and> fst (authorize offer) \<noteq> Inr ()) \<longrightarrow> dest' = dest \<and> \<not> is_ok res) \<and>
    (\<not> is_ok res \<and> res \<noteq> Inl ErrPayloadTransferAuthorizationDenied \<longrightarrow> is_closed p')"
proof (cases "\<exists>q c p1. require_trusted (Some p) = (Inr (q, c), p1)")
  case False
  with assms close_peer_closes [of p] show ?thesis
    by (auto simp: receive_transfer_payload_def require_trusted_def split: sum.splits prod.splits option.splits if_splits)
next
  case True
  then obtain c where trusted: "require_trusted (Some p) = (Inr (p, c), Some p)"
    by (auto simp: require_trusted_Inr)
  show ?thesis
  proof (cases "\<exists>offer c1. conn_read_json (tc_offer tc) c = (Inr offer, c1) \<and> validate_offer rt offer = Inr ()")
    case False
    with assms(1) trusted show ?thesis
      by (auto simp: receive_transfer_payload_def split: sum.splits prod.splits)
  next
    case True
    then obtain offer c1 where run: "conn_read_json (tc_offer tc) c = (Inr offer, c1)"
      and valid: "validate_offer rt offer = Inr ()" by blast
    obtain verdict closed where verdict: "authorize offer = (verdict, closed)" by fastforce
    show ?thesis
    proof (cases verdict)
      case (Inl e)
      with assms(1) trusted run valid verdict show ?thesis
        by (auto simp: receive_transfer_payload_def split: sum.splits prod.splits bool.splits)
    next
      case (Inr u)
      obtain r c2 dest2 where rest:
        "receive_approved rt tc offer (if closed then hang_up c1 else c1) dest = (r, c2, dest2)"
        by (metis prod.collapse)
      have "(got, res, p', dest') = (Some offer, r, (if is_ok r then on_conn p c2 else fail_transfer p c2), dest2)"
        using assms(1) trusted run valid verdict Inr rest
        by (cases r) (auto simp: receive_transfer_payload_def finish_receive_def)
      with receive_approved_ok [OF _ valid] rest verdict Inr show ?thesis
        by (auto simp: is_ok_iff split: if_splits)
    qed
  qed
qed

text \<open>
  C25. Two trusted peers always bring an approved transfer to its end: each end gets as far as
  it needs on what the other has written by then, so after two rounds of the dialogue, and
  after any more, the receiver has staged the payload and both hold the receipt of the offer.
\<close>

theorem transfer_completes:
  assumes "codecs_ok tc offer" and "validate_offer rt offer = Inr ()"
    and "verify_payload rt (po_manifest offer) (Some \<lparr>rd_bytes = payload, rd_end = Eof\<rparr>) = Inr ()"
    and "trusted_peer p" and "trusted_peer q" and "authorize offer = (Inr (), False)" and "open_writer dest"
  shows "\<exists>to_receiver to_sender q'.
    (\<forall>n \<ge> 2. dialogue
      (\<lambda>b. written (snd (send_transfer_payload rt tc (Some (with_input p b x)) offer (Some \<lparr>rd_bytes = payload, rd_end = Eof\<rparr>))))
      (\<lambda>b. written (fst (snd (snd (receive_transfer_payload rt tc (Some (with_input q b y)) (Some authorize) (Some dest))))))
      n = (to_receiver, to_sender)) \<and>
    fst (send_transfer_payload rt tc (Some (with_input p to_sender x)) offer (Some \<lparr>rd_bytes = payload, rd_end = Eof\<rparr>)) =
      Inr (verified_payload_receipt offer) \<and>
    receive_transfer_payload rt tc (Some (with_input q to_receiver y)) (Some authorize) (Some dest) =
      (Some offer, Inr (verified_payload_receipt offer), q', Some (dest\<lparr>wr_bytes := wr_bytes dest @ payload\<rparr>))"
proof -
  from verify_payload_Inr [OF assms(3)] obtain bs where bs: "payload = concat bs"
    "chunks_ok rt (mf_chunks (po_manifest offer)) bs" "hash_of rt payload = mf_hash (po_manifest offer)" by auto
  then have ok: "offerable rt tc offer bs" using assms(1,2) by (simp add: offerable_def)
  note snd_run = sender_stages [OF ok assms(4), of x, unfolded sender_run_def]
  note dec_run = receiver_decision [where authorize = authorize, OF ok assms(5,6), of dest y, unfolded receiver_run_def]
  from receiver_receipt [where authorize = authorize, OF ok assms(5,6,7), of y] obtain q' where
    rec_run: "receive_transfer_payload rt tc (Some (with_input q (request tc offer bs) y)) (Some authorize) (Some dest) =
      (Some offer, Inr (verified_payload_receipt offer), q', Some (dest\<lparr>wr_bytes := wr_bytes dest @ concat bs\<rparr>))"
    and "written q' = reply tc offer" unfolding receiver_run_def by blast
  define S where "S = (\<lambda>b. written (snd (send_transfer_payload rt tc (Some (with_input p b x)) offer (Some \<lparr>rd_bytes = concat bs, rd_end = Eof\<rparr>))))"
  define R where "R = (\<lambda>b. written (fst (snd (snd (receive_transfer_payload rt tc (Some (with_input q b y)) (Some authorize) (Some dest))))))"
  have S: "S [] = offer_frame tc offer" "S (decision_frame tc offer) = request tc offer bs"
    "S (reply tc offer) = request tc offer bs"
    using snd_run by (simp_all add: S_def)
  have R: "R (offer_frame tc offer) = decision_frame tc offer" "R (request tc offer bs) = reply tc offer"
    using dec_run rec_run \<open>written q' = reply tc offer\<close> by (simp_all add: R_def)
  have two: "dialogue S R (2 + n) = (request tc offer bs, reply tc offer)" for n
    by (induction n) (simp_all add: numeral_2_eq_2 S R Let_def)
  have rounds: "\<forall>n \<ge> 2. dialogue S R n = (request tc offer bs, reply tc offer)"
  proof (intro allI impI)
    fix n :: nat assume "2 \<le> n"
    then obtain k where "n = 2 + k" using le_Suc_ex by blast
    then show "dialogue S R n = (request tc offer bs, reply tc offer)" using two by simp
  qed
  show ?thesis
    unfolding bs(1)
    by (rule exI [of _ "request tc offer bs"], rule exI [of _ "reply tc offer"], rule exI [of _ q'], rule conjI,
        rule rounds [unfolded S_def R_def], rule conjI, rule snd_run(3), rule rec_run)
qed

text \<open>
  C33. Over the life of a connection, whatever calls are made on it in whatever order, payload
  transfers included, the device it was admitted for never changes, a bound key fingerprint is
  never replaced, a connection without an authenticated device never gets one, and after it is
  closed nothing about it changes any more: no further call writes to it.
\<close>

theorem peer_identity_fixed:
  assumes "(peer_step rt cd tc)\<^sup>*\<^sup>* p q"
  shows "pc_device q = pc_device p \<and>
    (pc_fingerprint p \<noteq> [] \<longrightarrow> pc_fingerprint q = pc_fingerprint p) \<and>
    (pc_device p = [] \<longrightarrow> pc_fingerprint q = pc_fingerprint p) \<and>
    (pc_closed p \<longrightarrow> q = p)"
  using peer_run_kept [OF assms] by (auto simp: peer_kept_def)

section \<open>Witnesses\<close>

definition sample_codecs :: transfer_codecs where
  "sample_codecs = \<lparr>tc_offer = sample_codec sample_offer ''o'',
     tc_decision = sample_codec (decision_for sample_offer True) ''d'',
     tc_completion = sample_codec (completed_payload sample_offer) ''c'',
     tc_receipt = sample_codec (verified_payload_receipt sample_offer) ''r''\<rparr>"

definition sample_trusted :: peer where
  "sample_trusted = (sample_link [])\<lparr>pc_fingerprint := ''key''\<rparr>"

definition sample_staging :: writer where
  "sample_staging = \<lparr>wr_bytes = [], wr_plan = []\<rparr>"

abbreviation "sample_approve \<equiv> (\<lambda>offer :: payload_offer. (Inr (), False) :: unit result \<times> bool)"

lemma sample_codecs_ok: "codecs_ok sample_codecs sample_offer"
  by (simp add: codecs_ok_def sample_codecs_def sample_codec_ok max_frame_size_def)

lemma sample_trusted_ok: "trusted_peer sample_trusted"
  by (simp add: trusted_peer_def sample_trusted_def sample_link_def sample_conn_def open_writer_def sample_device_def)

theorem transfer_completes_witness:
  "\<exists>to_receiver q'. receive_transfer_payload sample_runtime sample_codecs (Some (with_input sample_trusted to_receiver Eof))
      (Some sample_approve) (Some sample_staging) =
    (Some sample_offer, Inr (verified_payload_receipt sample_offer), q', Some \<lparr>wr_bytes = ''0123456789'', wr_plan = []\<rparr>)"
proof -
  have "open_writer sample_staging" by (simp add: sample_staging_def open_writer_def)
  from transfer_completes [where authorize = sample_approve, OF sample_codecs_ok sample_offer_ok sample_source_ok
      sample_trusted_ok sample_trusted_ok refl this, of Eof Eof]
  show ?thesis by (auto simp: sample_staging_def)
qed

text \<open>The two ends of the sample transfer, for the witnesses of the other two properties.\<close>

lemma sample_dialogue:
  assumes "trusted_peer p"
  obtains b c p' q' dest' where
    "send_transfer_payload sample_runtime sample_codecs (Some (with_input p b Eof)) sample_offer
       (Some sample_source) = (Inr (verified_payload_receipt sample_offer), p')"
    "receive_transfer_payload sample_runtime sample_codecs (Some (with_input p c Eof))
       (Some sample_approve) (Some sample_staging) =
       (Some sample_offer, Inr (verified_payload_receipt sample_offer), q', Some dest')"
proof -
  from verify_payload_Inr [OF sample_source_ok] obtain bs where bs: "''0123456789'' = concat bs"
    "chunks_ok sample_runtime (mf_chunks (po_manifest sample_offer)) bs"
    "hash_of sample_runtime ''0123456789'' = mf_hash (po_manifest sample_offer)" by auto
  then have ok: "offerable sample_runtime sample_codecs sample_offer bs"
    by (simp add: offerable_def sample_codecs_ok sample_offer_ok)
  have dest: "open_writer sample_staging" by (simp add: sample_staging_def open_writer_def)
  show ?thesis
    using sender_receipt(1) [OF ok assms, of Eof, unfolded sender_run_def, folded bs(1)]
      receiver_receipt [where authorize = sample_approve, OF ok assms refl dest, of Eof, unfolded receiver_run_def]
      that by (metis prod.collapse)
qed

theorem sent_payload_verified_witness:
  "\<exists>b p'. send_transfer_payload sample_runtime sample_codecs (Some (with_input sample_trusted b Eof)) sample_offer
      (Some sample_source) = (Inr (verified_payload_receipt sample_offer), p') \<and>
    verify_payload sample_runtime (po_manifest sample_offer) (Some sample_source) = Inr ()"
proof (rule sample_dialogue [OF sample_trusted_ok])
  fix b p'
  assume run: "send_transfer_payload sample_runtime sample_codecs (Some (with_input sample_trusted b Eof)) sample_offer
      (Some sample_source) = (Inr (verified_payload_receipt sample_offer), p')"
  from sent_payload_verified [OF run] run show ?thesis by auto
qed

theorem received_payload_verified_witness:
  "\<exists>c q' dest'. receive_transfer_payload sample_runtime sample_codecs (Some (with_input sample_trusted c Eof))
      (Some sample_approve) (Some sample_staging) =
      (Some sample_offer, Inr (verified_payload_receipt sample_offer), q', Some dest') \<and>
    verify_payload sample_runtime (po_manifest sample_offer) (Some \<lparr>rd_bytes = wr_bytes dest', rd_end = Eof\<rparr>) = Inr ()"
proof (rule sample_dialogue [OF sample_trusted_ok])
  fix c q' dest'
  assume run: "receive_transfer_payload sample_runtime sample_codecs (Some (with_input sample_trusted c Eof))
      (Some sample_approve) (Some sample_staging) =
      (Some sample_offer, Inr (verified_payload_receipt sample_offer), q', Some dest')"
  have "pc_conn (with_input sample_trusted c Eof) \<noteq> None"
    by (simp add: with_input_def sample_trusted_def)
  from received_payload_verified [OF run this] run show ?thesis by (auto simp: sample_staging_def)
qed

theorem peer_identity_fixed_witness:
  "\<exists>q. bind_fingerprint (Some (sample_link [])) ''key'' = (Inr (), Some q) \<and> pc_fingerprint q = ''key'' \<and>
     (\<forall>rt cd tc r. (peer_step rt cd tc)\<^sup>*\<^sup>* q r \<longrightarrow> pc_fingerprint r = ''key'')"
proof -
  let ?q = "(sample_link [])\<lparr>pc_fingerprint := ''key''\<rparr>"
  have "bind_fingerprint (Some (sample_link [])) ''key'' = (Inr (), Some ?q)"
    by (simp add: bind_fingerprint_def sample_link_def trim_space_key sample_device_def)
  moreover have "\<forall>rt cd tc r. (peer_step rt cd tc)\<^sup>*\<^sup>* ?q r \<longrightarrow> pc_fingerprint r = ''key''"
    using peer_identity_fixed [of _ _ _ ?q] by simp
  ultimately show ?thesis by auto
qed

end
