(* ===== verification/Trusted_Devices.thy ===== *)
theory Trusted_Devices
  imports Identity
begin

unbundle bit_operations_syntax

text \<open>
  \<open>internal/identity/trusted_device_store.go\<close>: the durable, account-scoped registry of
  authorized devices. One file holds the whole registry; every operation loads and validates
  it first, and \<open>Authorize\<close> and \<open>Revoke\<close> replace it. A nil receiver is \<open>None\<close>; the last
  argument of a writing operation says whether the environment lets the write succeed.
\<close>

section \<open>The registry file\<close>

abbreviation ErrTrustedDeviceNotFound :: go_error where
  "ErrTrustedDeviceNotFound \<equiv> Sentinel ''trusted device not found''"
abbreviation ErrTrustedDeviceKeyMismatch :: go_error where
  "ErrTrustedDeviceKeyMismatch \<equiv> Sentinel ''trusted device key mismatch''"
abbreviation ErrInvalidTrustedDeviceStore :: go_error where
  "ErrInvalidTrustedDeviceStore \<equiv> Sentinel ''invalid trusted device store''"

record trusted_device =
  td_account :: bytes
  td_device :: bytes
  td_public :: bytes
  td_fingerprint :: bytes
  td_authorized_at :: time
  td_revoked_at :: "time option"

record trusted_device_file =
  tf_version :: int
  tf_devices :: "trusted_device list"

type_synonym trusted_device_store = "trusted_device_file disk option"

definition trusted_device_public_key :: "runtime \<Rightarrow> trusted_device \<Rightarrow> bytes result" where
  "trusted_device_public_key rt device =
     (if td_account device = [] \<or> \<not> valid_device_id (td_device device) \<or>
        time_is_zero (td_authorized_at device)
      then Inl ErrInvalidTrustedDeviceStore
      else case b64_decode (td_public device) of
        None \<Rightarrow> Inl ErrInvalidTrustedDeviceStore
      | Some public_key \<Rightarrow>
          if length public_key \<noteq> public_key_size then Inl ErrInvalidTrustedDeviceStore
          else if fingerprint rt public_key \<noteq> td_fingerprint device
          then Inl ErrInvalidTrustedDeviceStore
          else Inr public_key)"

definition validate_trusted_device :: "runtime \<Rightarrow> trusted_device \<Rightarrow> unit result" where
  "validate_trusted_device rt device =
     and_then (trusted_device_public_key rt device) (\<lambda>_. Inr ())"

fun validate_trusted_devices :: "runtime \<Rightarrow> trusted_device list \<Rightarrow> unit result" where
  "validate_trusted_devices rt [] = Inr ()"
| "validate_trusted_devices rt (d # ds) =
     and_then (validate_trusted_device rt d) (\<lambda>_. validate_trusted_devices rt ds)"

text \<open>The mode bits \<open>0o077\<close> are 63.\<close>

definition load_trusted :: "runtime \<Rightarrow> trusted_device_file disk \<Rightarrow> trusted_device_file result" where
  "load_trusted rt d =
     (case disk_file d of
        Absent \<Rightarrow> Inr \<lparr>tf_version = 1, tf_devices = []\<rparr>
      | Unreadable \<Rightarrow> Inl (Wrap ''read trusted device store'' ErrRead)
      | c \<Rightarrow>
          if disk_mode d AND 63 \<noteq> 0
          then Inl (Wrap ''permissions must not grant group or other access''
                     ErrInvalidTrustedDeviceStore)
          else case c of
            Holds state \<Rightarrow>
              if tf_version state \<noteq> 1
              then Inl (Wrap ''unsupported version'' ErrInvalidTrustedDeviceStore)
              else and_then (validate_trusted_devices rt (tf_devices state)) (\<lambda>_. Inr state)
          | _ \<Rightarrow> Inl (Wrap ''decode'' ErrInvalidTrustedDeviceStore))"

definition write_trusted ::
  "bool \<Rightarrow> trusted_device_file \<Rightarrow> trusted_device_file disk \<Rightarrow>
     unit result \<times> trusted_device_file disk" where
  "write_trusted ok state d = disk_save ok (state\<lparr>tf_version := 1\<rparr>) d"

text \<open>The position of the first entry of an account and device.\<close>

fun device_index :: "bytes \<Rightarrow> bytes \<Rightarrow> trusted_device list \<Rightarrow> nat option" where
  "device_index a v [] = None"
| "device_index a v (d # ds) =
     (if td_account d \<noteq> a \<or> td_device d \<noteq> v then map_option Suc (device_index a v ds) else Some 0)"

section \<open>Operations\<close>

definition trusted_device_from_pairing :: "bytes \<Rightarrow> verified_pairing \<Rightarrow> time \<Rightarrow> trusted_device" where
  "trusted_device_from_pairing account pairing now =
     \<lparr>td_account = account, td_device = vp_device pairing, td_public = vp_public pairing,
      td_fingerprint = vp_fingerprint pairing, td_authorized_at = now, td_revoked_at = None\<rparr>"

definition authorize_device ::
  "runtime \<Rightarrow> trusted_device_store \<Rightarrow> bytes \<Rightarrow> verified_pairing \<Rightarrow> time \<Rightarrow> bool \<Rightarrow>
     trusted_device result \<times> trusted_device_store" where
  "authorize_device rt store account pairing now ok =
     (case store of
        None \<Rightarrow> (Inl ErrInvalidTrustedDeviceStore, None)
      | Some d \<Rightarrow>
          if account = [] \<or> vp_device pairing = [] \<or> vp_public pairing = [] \<or> vp_fingerprint pairing = []
          then (Inl ErrInvalidTrustedDeviceStore, Some d)
          else case load_trusted rt d of
            Inl e \<Rightarrow> (Inl e, Some d)
          | Inr state \<Rightarrow>
              let device = trusted_device_from_pairing account pairing now in
              case device_index account (vp_device pairing) (tf_devices state) of
                Some i \<Rightarrow>
                  let existing = tf_devices state ! i in
                  if td_revoked_at existing = None then
                    (if td_fingerprint existing \<noteq> vp_fingerprint pairing \<or>
                       td_public existing \<noteq> vp_public pairing
                     then (Inl ErrTrustedDeviceKeyMismatch, Some d)
                     else (Inr existing, Some d))
                  else (case write_trusted ok (state\<lparr>tf_devices := (tf_devices state)[i := device]\<rparr>) d of
                    (Inl e, d') \<Rightarrow> (Inl e, Some d')
                  | (Inr _, d') \<Rightarrow> (Inr device, Some d'))
              | None \<Rightarrow>
                  (case write_trusted ok (state\<lparr>tf_devices := tf_devices state @ [device]\<rparr>) d of
                    (Inl e, d') \<Rightarrow> (Inl e, Some d')
                  | (Inr _, d') \<Rightarrow> (Inr device, Some d')))"

definition is_trusted ::
  "runtime \<Rightarrow> trusted_device_store \<Rightarrow> bytes \<Rightarrow> bytes \<Rightarrow> bytes \<Rightarrow> bool result" where
  "is_trusted rt store account device fp =
     (case store of
        None \<Rightarrow> Inr False
      | Some d \<Rightarrow>
          if account = [] \<or> \<not> valid_device_id device \<or> fp = [] then Inr False
          else and_then (load_trusted rt d) (\<lambda>state.
            case device_index account device (tf_devices state) of
              None \<Rightarrow> Inr False
            | Some i \<Rightarrow> let t = tf_devices state ! i in
                Inr (td_revoked_at t = None \<and> td_fingerprint t = fp)))"

definition resolve_device ::
  "runtime \<Rightarrow> trusted_device_store \<Rightarrow> bytes \<Rightarrow> bytes \<Rightarrow> (trusted_device \<times> bytes) result" where
  "resolve_device rt store account device =
     (case store of
        None \<Rightarrow> Inl ErrTrustedDeviceNotFound
      | Some d \<Rightarrow>
          if account = [] \<or> \<not> valid_device_id device then Inl ErrTrustedDeviceNotFound
          else and_then (load_trusted rt d) (\<lambda>state.
            case device_index account device (tf_devices state) of
              None \<Rightarrow> Inl ErrTrustedDeviceNotFound
            | Some i \<Rightarrow> let t = tf_devices state ! i in
                if td_revoked_at t \<noteq> None then Inl ErrTrustedDeviceNotFound
                else and_then (trusted_device_public_key rt t) (\<lambda>k. Inr (t, k))))"

definition revoke_device ::
  "runtime \<Rightarrow> trusted_device_store \<Rightarrow> bytes \<Rightarrow> bytes \<Rightarrow> time \<Rightarrow> bool \<Rightarrow>
     trusted_device result \<times> trusted_device_store" where
  "revoke_device rt store account device now ok =
     (case store of
        None \<Rightarrow> (Inl ErrTrustedDeviceNotFound, None)
      | Some d \<Rightarrow>
          if account = [] \<or> \<not> valid_device_id device then (Inl ErrTrustedDeviceNotFound, Some d)
          else case load_trusted rt d of
            Inl e \<Rightarrow> (Inl e, Some d)
          | Inr state \<Rightarrow>
              case device_index account device (tf_devices state) of
                None \<Rightarrow> (Inl ErrTrustedDeviceNotFound, Some d)
              | Some i \<Rightarrow>
                  let t = tf_devices state ! i in
                  if td_revoked_at t \<noteq> None then (Inr t, Some d)
                  else
                    let t' = t\<lparr>td_revoked_at := Some now\<rparr> in
                    (case write_trusted ok (state\<lparr>tf_devices := (tf_devices state)[i := t']\<rparr>) d of
                      (Inl e, d') \<Rightarrow> (Inl e, Some d')
                    | (Inr _, d') \<Rightarrow> (Inr t', Some d')))"

definition list_devices :: "runtime \<Rightarrow> trusted_device_store \<Rightarrow> bytes \<Rightarrow> trusted_device list result" where
  "list_devices rt store account =
     (case store of
        None \<Rightarrow> Inr []
      | Some d \<Rightarrow>
          if account = [] then Inr []
          else and_then (load_trusted rt d) (\<lambda>state.
            Inr (filter (\<lambda>t. td_account t = account) (tf_devices state))))"

section \<open>Lookups\<close>

definition device_at :: "bytes \<Rightarrow> bytes \<Rightarrow> trusted_device list \<Rightarrow> trusted_device option" where
  "device_at a v ds = map_option (nth ds) (device_index a v ds)"

lemma device_index_Some:
  "device_index a v ds = Some i \<Longrightarrow>
     i < length ds \<and> td_account (ds ! i) = a \<and> td_device (ds ! i) = v"
  by (induction ds arbitrary: i) (auto split: if_splits)

lemma device_at_Nil [simp]: "device_at a v [] = None"
  by (simp add: device_at_def)

lemma device_at_Cons [simp]:
  "device_at a v (d # ds) =
     (if td_account d = a \<and> td_device d = v then Some d else device_at a v ds)"
  by (auto simp: device_at_def option.map_comp comp_def)

lemma device_at_append:
  "device_at a v (ds @ es) = (case device_at a v ds of None \<Rightarrow> device_at a v es | Some t \<Rightarrow> Some t)"
  by (induction ds) auto

lemma device_at_update:
  assumes "device_index a v ds = Some i" and "td_account t = a" and "td_device t = v"
  shows "device_at b w (ds[i := t]) = (if b = a \<and> w = v then Some t else device_at b w ds)"
  using assms
proof (induction ds arbitrary: i)
  case (Cons d ds)
  then show ?case by (cases i) (auto split: if_splits)
qed simp

lemma device_at_mem: "device_at a v ds = Some t \<Longrightarrow> t \<in> set ds \<and> td_account t = a \<and> td_device t = v"
  by (induction ds) (auto split: if_splits)

lemma device_index_at:
  "device_index a v ds = None \<longleftrightarrow> device_at a v ds = None"
  "device_index a v ds = Some i \<Longrightarrow> device_at a v ds = Some (ds ! i)"
  by (simp_all add: device_at_def)

lemma validate_trusted_devices_Inr [result_iff]:
  "validate_trusted_devices rt ds = Inr u \<longleftrightarrow> (\<forall>t \<in> set ds. is_ok (trusted_device_public_key rt t))"
  by (induction ds) (auto simp: validate_trusted_device_def is_ok_iff result_iff)

lemma load_trusted_Holds [simp]:
  "load_trusted rt \<lparr>disk_file = Holds st, disk_mode = 384\<rparr> =
     (if tf_version st \<noteq> 1 then Inl (Wrap ''unsupported version'' ErrInvalidTrustedDeviceStore)
      else and_then (validate_trusted_devices rt (tf_devices st)) (\<lambda>_. Inr st))"
  by (simp add: load_trusted_def)

lemma load_trusted_valid:
  assumes "load_trusted rt d = Inr st"
  shows "tf_version st = 1" and "\<forall>t \<in> set (tf_devices st). is_ok (trusted_device_public_key rt t)"
  using assms
  by (auto simp: load_trusted_def result_iff split: content.splits if_splits)

text \<open>A public key check does not look at the revocation field.\<close>

lemma public_key_revoked [simp]:
  "trusted_device_public_key rt (t\<lparr>td_revoked_at := r\<rparr>) = trusted_device_public_key rt t"
  by (auto simp: trusted_device_public_key_def split: option.splits)

lemma trusted_device_public_key_Inr:
  "trusted_device_public_key rt t = Inr k \<longleftrightarrow>
     td_account t \<noteq> [] \<and> valid_device_id (td_device t) \<and> td_authorized_at t \<noteq> 0 \<and>
     b64_decode (td_public t) = Some k \<and> length k = public_key_size \<and>
     td_fingerprint t = fingerprint rt k"
  by (auto simp: trusted_device_public_key_def time_is_zero_def split: option.splits if_splits)

text \<open>A pairing that \<open>VerifyAndConsumePairing\<close> has produced.\<close>

definition pairing_genuine :: "runtime \<Rightarrow> verified_pairing \<Rightarrow> bool" where
  "pairing_genuine rt p \<longleftrightarrow> valid_device_id (vp_device p) \<and>
     (\<exists>k. b64_decode (vp_public p) = Some k \<and> length k = public_key_size \<and>
          vp_fingerprint p = fingerprint rt k)"

lemma consumed_pairing_genuine:
  "verify_and_consume_pairing rt (Some s) now p = (Inr v, s') \<Longrightarrow> pairing_genuine rt v"
  by (auto simp: consume_Inr pairing_genuine_def verify_pairing_proof_Inr)

lemma pairing_genuine_key:
  "pairing_genuine rt p \<Longrightarrow> a \<noteq> [] \<Longrightarrow> now \<noteq> 0 \<Longrightarrow>
     is_ok (trusted_device_public_key rt (trusted_device_from_pairing a p now))"
  by (auto simp: is_ok_iff trusted_device_public_key_Inr pairing_genuine_def
      trusted_device_from_pairing_def)

section \<open>Effects of the operations\<close>

text \<open>
  The abstract view of a registry: for each account and device the fingerprint trusted now.
\<close>

definition trusted_key :: "trusted_device list \<Rightarrow> bytes \<Rightarrow> bytes \<Rightarrow> bytes option" where
  "trusted_key ds a v =
     (case device_at a v ds of
        None \<Rightarrow> None
      | Some t \<Rightarrow> if td_revoked_at t = None then Some (td_fingerprint t) else None)"

definition registry_ok :: "runtime \<Rightarrow> trusted_device_store \<Rightarrow> trusted_device list \<Rightarrow> bool" where
  "registry_ok rt s ds \<longleftrightarrow>
     (\<exists>d. s = Some d \<and> load_trusted rt d = Inr \<lparr>tf_version = 1, tf_devices = ds\<rparr>) \<and>
     distinct (map (\<lambda>t. (td_account t, td_device t)) ds)"

lemma registry_ok_Some: "registry_ok rt s ds \<Longrightarrow> \<exists>d. s = Some d"
  by (auto simp: registry_ok_def)

lemma registry_ok_valid: "registry_ok rt s ds \<Longrightarrow> t \<in> set ds \<Longrightarrow> is_ok (trusted_device_public_key rt t)"
  by (auto simp: registry_ok_def dest: load_trusted_valid(2))

lemma is_trusted_key:
  assumes "registry_ok rt s ds"
  shows "is_trusted rt s a v fp =
    Inr (a \<noteq> [] \<and> valid_device_id v \<and> fp \<noteq> [] \<and> trusted_key ds a v = Some fp)"
  using assms
  by (auto simp: registry_ok_def is_trusted_def trusted_key_def device_at_def split: option.splits)

lemma device_at_keys:
  "device_at a v ds = None \<longleftrightarrow> (a, v) \<notin> (\<lambda>t. (td_account t, td_device t)) ` set ds"
  by (induction ds) auto

lemma saved_registry_ok:
  assumes "\<forall>t \<in> set ds. is_ok (trusted_device_public_key rt t)"
    and "distinct (map (\<lambda>t. (td_account t, td_device t)) ds)"
  shows "registry_ok rt (Some \<lparr>disk_file = Holds \<lparr>tf_version = 1, tf_devices = ds\<rparr>, disk_mode = 384\<rparr>) ds"
  using assms by (simp add: registry_ok_def result_iff)

text \<open>
  Replacing the entry of an account and device, or adding one, keeps the registry well formed
  and changes the abstract view at that place only.
\<close>

lemma distinct_keys_update:
  assumes "device_index a v ds = Some i" and "td_account t = a" and "td_device t = v"
  shows "map (\<lambda>t. (td_account t, td_device t)) (ds[i := t]) = map (\<lambda>t. (td_account t, td_device t)) ds"
  using device_index_Some [OF assms(1)] assms(2,3)
  by (intro nth_equalityI) (auto simp: nth_list_update)

lemma registry_put:
  assumes reg: "registry_ok rt s ds" and key: "is_ok (trusted_device_public_key rt t)"
    and at: "td_account t = a" "td_device t = v"
    and ds': "ds' = (case device_index a v ds of Some i \<Rightarrow> ds[i := t] | None \<Rightarrow> ds @ [t])"
  shows "registry_ok rt (Some \<lparr>disk_file = Holds \<lparr>tf_version = 1, tf_devices = ds'\<rparr>, disk_mode = 384\<rparr>) ds'"
    and "trusted_key ds' b w =
      (if b = a \<and> w = v then (if td_revoked_at t = None then Some (td_fingerprint t) else None)
       else trusted_key ds b w)"
proof -
  have "\<forall>u \<in> set ds. is_ok (trusted_device_public_key rt u)"
    using registry_ok_valid [OF reg] by blast
  then have "\<forall>u \<in> set ds'. is_ok (trusted_device_public_key rt u)"
    using key set_update_subset_insert [of ds _ t] by (fastforce simp: ds' split: option.splits)
  moreover have "distinct (map (\<lambda>t. (td_account t, td_device t)) ds')"
    using reg at device_at_keys [of a v ds] distinct_keys_update [of a v ds _ t]
    by (auto simp: ds' registry_ok_def device_at_def split: option.splits)
  ultimately show "registry_ok rt
      (Some \<lparr>disk_file = Holds \<lparr>tf_version = 1, tf_devices = ds'\<rparr>, disk_mode = 384\<rparr>) ds'"
    by (rule saved_registry_ok)
  show "trusted_key ds' b w =
      (if b = a \<and> w = v then (if td_revoked_at t = None then Some (td_fingerprint t) else None)
       else trusted_key ds b w)"
    using at device_index_at(1) [of a v ds]
    by (auto simp: ds' trusted_key_def device_at_append device_at_update [of a v]
        split: option.splits)
qed

lemma authorize_effect:
  assumes reg: "registry_ok rt s ds" and gen: "pairing_genuine rt p" and now: "now \<noteq> 0"
    and run: "authorize_device rt s a p now ok = (Inr t, s')"
  shows "\<exists>ds'. registry_ok rt s' ds' \<and> a \<noteq> [] \<and>
    (\<forall>b w. trusted_key ds' b w =
       (if b = a \<and> w = vp_device p then Some (vp_fingerprint p) else trusted_key ds b w))"
proof -
  let ?t = "trusted_device_from_pairing a p now"
  let ?ds = "case device_index a (vp_device p) ds of Some i \<Rightarrow> ds[i := ?t] | None \<Rightarrow> ds @ [?t]"
  obtain d where s: "s = Some d" and d: "load_trusted rt d = Inr \<lparr>tf_version = 1, tf_devices = ds\<rparr>"
    using reg by (auto simp: registry_ok_def)
  from run s d have a: "a \<noteq> []" by (auto simp: authorize_device_def split: if_splits)
  have t: "td_account ?t = a" "td_device ?t = vp_device p" "td_revoked_at ?t = None"
    "td_fingerprint ?t = vp_fingerprint p"
    by (simp_all add: trusted_device_from_pairing_def)
  consider (kept) "s' = s" "trusted_key ds a (vp_device p) = Some (vp_fingerprint p)"
    | (written) "s' = Some \<lparr>disk_file = Holds \<lparr>tf_version = 1, tf_devices = ?ds\<rparr>, disk_mode = 384\<rparr>"
    using run s d
    by (auto simp: authorize_device_def Let_def write_trusted_def disk_save_def trusted_key_def
        device_at_def split: option.splits if_splits)
  then show ?thesis
  proof cases
    case kept
    with reg a show ?thesis by (intro exI [of _ ds]) auto
  next
    case written
    have "is_ok (trusted_device_public_key rt ?t)" using gen a now by (rule pairing_genuine_key)
    from registry_put [OF reg this t(1,2) refl] written a t(3,4) show ?thesis by fastforce
  qed
qed

lemma revoke_effect:
  assumes reg: "registry_ok rt s ds"
    and run: "revoke_device rt s a v now ok = (Inr t, s')"
  shows "\<exists>ds'. registry_ok rt s' ds' \<and>
    (\<forall>b w. trusted_key ds' b w = (if b = a \<and> w = v then None else trusted_key ds b w))"
proof -
  obtain d where s: "s = Some d" and d: "load_trusted rt d = Inr \<lparr>tf_version = 1, tf_devices = ds\<rparr>"
    using reg by (auto simp: registry_ok_def)
  from run s d obtain i where i: "device_index a v ds = Some i"
    by (auto simp: revoke_device_def Let_def split: if_splits option.splits)
  let ?t = "(ds ! i)\<lparr>td_revoked_at := Some now\<rparr>"
  consider (kept) "s' = s" "trusted_key ds a v = None"
    | (written) "s' = Some \<lparr>disk_file = Holds \<lparr>tf_version = 1, tf_devices = ds[i := ?t]\<rparr>, disk_mode = 384\<rparr>"
    using run s d i
    by (auto simp: revoke_device_def Let_def write_trusted_def disk_save_def trusted_key_def
        device_at_def split: option.splits if_splits)
  then show ?thesis
  proof cases
    case kept
    with reg show ?thesis by (intro exI [of _ ds]) auto
  next
    case written
    have at: "td_account ?t = a" "td_device ?t = v" "td_revoked_at ?t = Some now"
      using device_index_Some [OF i] by simp_all
    have "is_ok (trusted_device_public_key rt ?t)"
      using registry_ok_valid [OF reg, of "ds ! i"] device_index_Some [OF i] by simp
    from registry_put [OF reg this at(1,2) refl] written at(3) i show ?thesis by fastforce
  qed
qed

text \<open>A failed operation leaves the file alone.\<close>

lemma authorize_failed: "authorize_device rt s a p now ok = (Inl e, s') \<Longrightarrow> s' = s"
  by (auto simp: authorize_device_def Let_def write_trusted_def disk_save_def
      split: option.splits sum.splits if_splits)

lemma revoke_failed: "revoke_device rt s a v now ok = (Inl e, s') \<Longrightarrow> s' = s"
  by (auto simp: revoke_device_def Let_def write_trusted_def disk_save_def
      split: option.splits sum.splits if_splits)

section \<open>Histories of a registry\<close>

text \<open>
  A history, newest event first: the successful authorizations of genuine pairings (at a nonzero
  instant) and the successful revocations, starting from a path without a file. Operations that
  fail leave the file alone and add nothing.
\<close>

datatype trust_event = Authorized bytes verified_pairing | Revoked bytes bytes

inductive trust_trace :: "runtime \<Rightarrow> trust_event list \<Rightarrow> trusted_device_store \<Rightarrow> bool" for rt where
  created: "disk_file d = Absent \<Longrightarrow> trust_trace rt [] (Some d)"
| authorized: "trust_trace rt es s \<Longrightarrow> pairing_genuine rt p \<Longrightarrow> now \<noteq> 0 \<Longrightarrow>
    authorize_device rt s a p now ok = (Inr t, s') \<Longrightarrow> trust_trace rt (Authorized a p # es) s'"
| authorize_refused: "trust_trace rt es s \<Longrightarrow>
    authorize_device rt s a p now ok = (Inl e, s') \<Longrightarrow> trust_trace rt es s'"
| revoked: "trust_trace rt es s \<Longrightarrow> revoke_device rt s a v now ok = (Inr t, s') \<Longrightarrow>
    trust_trace rt (Revoked a v # es) s'"
| revoke_refused: "trust_trace rt es s \<Longrightarrow>
    revoke_device rt s a v now ok = (Inl e, s') \<Longrightarrow> trust_trace rt es s'"

fun history_key :: "bytes \<Rightarrow> bytes \<Rightarrow> trust_event list \<Rightarrow> bytes option" where
  "history_key a v [] = None"
| "history_key a v (Authorized b p # es) =
     (if b = a \<and> vp_device p = v then Some (vp_fingerprint p) else history_key a v es)"
| "history_key a v (Revoked b w # es) =
     (if b = a \<and> w = v then None else history_key a v es)"

lemma trust_trace_view:
  "trust_trace rt es s \<Longrightarrow>
     \<exists>ds. registry_ok rt s ds \<and> (\<forall>a v. trusted_key ds a v = history_key a v es)"
proof (induction rule: trust_trace.induct)
  case (created d)
  then show ?case
    by (intro exI [of _ "[]"]) (simp add: registry_ok_def load_trusted_def trusted_key_def)
next
  case (authorized es s p now a ok t s')
  then obtain ds where reg: "registry_ok rt s ds"
    and view: "\<forall>a v. trusted_key ds a v = history_key a v es" by blast
  from authorize_effect [OF reg authorized.hyps(2-4)] view show ?case by fastforce
next
  case (revoked es s a v now ok t s')
  then obtain ds where reg: "registry_ok rt s ds"
    and view: "\<forall>a v. trusted_key ds a v = history_key a v es" by blast
  from revoke_effect [OF reg revoked.hyps(2)] view show ?case by fastforce
qed (auto dest: authorize_failed revoke_failed)

section \<open>The interface of a trust registry\<close>

text \<open>
  The Go interface \<open>TrustedDeviceChecker\<close> together with revocation, as its users rely on
  it: a positive answer names the fingerprint the registry grants, and a successful revocation
  withdraws exactly one grant.
\<close>

locale trust_registry =
  fixes check :: "'s \<Rightarrow> bytes \<Rightarrow> bytes \<Rightarrow> bytes \<Rightarrow> bool result"
    and revoke :: "'s \<Rightarrow> bytes \<Rightarrow> bytes \<Rightarrow> time \<Rightarrow> bool \<Rightarrow> 't result \<times> 's"
    and grant :: "'s \<Rightarrow> bytes \<Rightarrow> bytes \<Rightarrow> bytes option"
    and valid :: "'s \<Rightarrow> bool"
  assumes check_grant: "valid s \<Longrightarrow> check s a v fp = Inr True \<Longrightarrow> grant s a v = Some fp"
    and revoke_grant: "valid s \<Longrightarrow> revoke s a v now ok = (Inr t, s') \<Longrightarrow>
      valid s' \<and> grant s' b w = (if b = a \<and> w = v then None else grant s b w)"
begin

lemma revoked_not_trusted:
  assumes "valid s" and "revoke s a v now ok = (Inr t, s')"
  shows "check s' a v fp \<noteq> Inr True"
  using revoke_grant [OF assms, of a v] check_grant [of s' a v fp] by auto

lemma check_functional:
  "valid s \<Longrightarrow> check s a v fp = Inr True \<Longrightarrow> check s a v fp' = Inr True \<Longrightarrow> fp = fp'"
  using check_grant [of s a v fp] check_grant [of s a v fp'] by simp

end

definition registry_grant :: "runtime \<Rightarrow> trusted_device_store \<Rightarrow> bytes \<Rightarrow> bytes \<Rightarrow> bytes option" where
  "registry_grant rt s a v =
     (case s of
        None \<Rightarrow> None
      | Some d \<Rightarrow> (case load_trusted rt d of Inl _ \<Rightarrow> None | Inr st \<Rightarrow> trusted_key (tf_devices st) a v))"

lemma registry_grant_ok: "registry_ok rt s ds \<Longrightarrow> registry_grant rt s a v = trusted_key ds a v"
  by (auto simp: registry_grant_def registry_ok_def)

interpretation reg: trust_registry "is_trusted rt" "revoke_device rt" "registry_grant rt"
  "\<lambda>s. \<exists>ds. registry_ok rt s ds" for rt
proof
  fix s a v fp
  assume "\<exists>ds. registry_ok rt s ds" "is_trusted rt s a v fp = Inr True"
  then show "registry_grant rt s a v = Some fp"
    by (auto simp: is_trusted_key registry_grant_ok)
next
  fix s a v now ok t s' b w
  assume "\<exists>ds. registry_ok rt s ds" and run: "revoke_device rt s a v now ok = (Inr t, s')"
  then obtain ds where ds: "registry_ok rt s ds" by blast
  from revoke_effect [OF ds run] ds
  show "(\<exists>ds. registry_ok rt s' ds) \<and>
      registry_grant rt s' b w = (if b = a \<and> w = v then None else registry_grant rt s b w)"
    by (auto simp: registry_grant_ok)
qed

section \<open>Properties\<close>

text \<open>
  C3. The file store implements its history: after any sequence of authorizations and
  revocations, \<open>IsTrusted\<close> answers without error, and answers yes exactly for the
  fingerprint of the last authorization of that account and device not followed by a
  revocation. Other accounts and devices never interfere.
\<close>

theorem registry_implements_history:
  assumes "trust_trace rt es s"
  shows "is_trusted rt s a v fp =
    Inr (a \<noteq> [] \<and> valid_device_id v \<and> fp \<noteq> [] \<and> history_key a v es = Some fp)"
proof -
  obtain ds where "registry_ok rt s ds" "\<forall>a v. trusted_key ds a v = history_key a v es"
    using trust_trace_view [OF assms] by blast
  then show ?thesis by (simp add: is_trusted_key)
qed

definition sample_verified :: verified_pairing where
  "sample_verified = \<lparr>vp_device = sample_device, vp_public = b64_encode sample_public,
     vp_fingerprint = fingerprint sample_runtime sample_public\<rparr>"

lemma sample_verified_genuine: "pairing_genuine sample_runtime sample_verified"
  by (simp add: pairing_genuine_def sample_verified_def)

lemma sample_public_nonempty [simp]: "sample_public \<noteq> []"
  by (metis length_greater_0_conv sample_key_sizes(1) public_key_size_def zero_less_numeral)

lemma sample_trust_trace:
  "\<exists>s. trust_trace sample_runtime [Authorized ''acct'' sample_verified] s"
proof -
  let ?d = "\<lparr>disk_file = Absent, disk_mode = 0\<rparr>"
  obtain t s' where "authorize_device sample_runtime (Some ?d) ''acct'' sample_verified 7 True = (Inr t, s')"
    using valid_device_id_nonempty [OF sample_device_valid]
    by (simp add: authorize_device_def load_trusted_def sample_verified_def write_trusted_def Let_def)
  then have "trust_trace sample_runtime [Authorized ''acct'' sample_verified] s'"
    using sample_verified_genuine by (intro trust_trace.authorized [OF trust_trace.created]) simp_all
  then show ?thesis ..
qed

theorem registry_implements_history_witness:
  "\<exists>s. is_trusted sample_runtime s ''acct'' sample_device (fingerprint sample_runtime sample_public) = Inr True"
proof -
  obtain s where s: "trust_trace sample_runtime [Authorized ''acct'' sample_verified] s"
    using sample_trust_trace by blast
  from registry_implements_history [OF s] show ?thesis
    by (intro exI [of _ s]) (simp add: sample_verified_def)
qed

text \<open>
  \<open>Resolve\<close> hands out a key exactly when \<open>IsTrusted\<close> accepts that key's fingerprint:
  transport identity and trust checkpoints follow the same registry, and the key handed
  out is the validated 32-byte key of that fingerprint.
\<close>

theorem resolve_matches_trust:
  assumes "trust_trace rt es s"
  shows "is_trusted rt s a v fp = Inr True \<longleftrightarrow>
    (\<exists>t k. resolve_device rt s a v = Inr (t, k) \<and> length k = 32 \<and> fp = fingerprint rt k)"
proof -
  obtain ds where reg: "registry_ok rt s ds" using trust_trace_view [OF assms] by blast
  then obtain d where s: "s = Some d" and d: "load_trusted rt d = Inr \<lparr>tf_version = 1, tf_devices = ds\<rparr>"
    by (auto simp: registry_ok_def)
  have res: "resolve_device rt s a v = Inr (t, k) \<longleftrightarrow> a \<noteq> [] \<and> valid_device_id v \<and>
      device_at a v ds = Some t \<and> td_revoked_at t = None \<and> trusted_device_public_key rt t = Inr k" for t k
    by (auto simp: resolve_device_def s d device_at_def Let_def result_iff split: option.splits)
  have key: "\<exists>k. trusted_device_public_key rt t = Inr k \<and> length k = 32 \<and> td_fingerprint t = fingerprint rt k"
    if "device_at a v ds = Some t" for t
    using registry_ok_valid [OF reg conjunct1 [OF device_at_mem [OF that]]]
    by (auto simp: is_ok_iff trusted_device_public_key_Inr key_sizes)
  show ?thesis
  proof
    assume "is_trusted rt s a v fp = Inr True"
    then have "a \<noteq> []" "valid_device_id v" "trusted_key ds a v = Some fp"
      by (simp_all add: is_trusted_key [OF reg])
    then obtain t where "device_at a v ds = Some t" "td_revoked_at t = None" "td_fingerprint t = fp"
      by (auto simp: trusted_key_def split: option.splits if_splits)
    with key \<open>a \<noteq> []\<close> \<open>valid_device_id v\<close>
    show "\<exists>t k. resolve_device rt s a v = Inr (t, k) \<and> length k = 32 \<and> fp = fingerprint rt k"
      by (metis res)
  next
    assume "\<exists>t k. resolve_device rt s a v = Inr (t, k) \<and> length k = 32 \<and> fp = fingerprint rt k"
    then show "is_trusted rt s a v fp = Inr True"
      by (auto simp: res is_trusted_key [OF reg] trusted_key_def trusted_device_public_key_Inr)
  qed
qed

theorem resolve_matches_trust_witness:
  "\<exists>s t k. resolve_device sample_runtime s ''acct'' sample_device = Inr (t, k) \<and> length k = 32"
proof -
  obtain s where s: "trust_trace sample_runtime [Authorized ''acct'' sample_verified] s"
    using sample_trust_trace by blast
  obtain ds where reg: "registry_ok sample_runtime s ds"
    and view: "\<forall>a v. trusted_key ds a v = history_key a v [Authorized ''acct'' sample_verified]"
    using trust_trace_view [OF s] by blast
  have "is_trusted sample_runtime s ''acct'' sample_device (fingerprint sample_runtime sample_public) = Inr True"
    by (simp add: is_trusted_key [OF reg] view sample_verified_def)
  with resolve_matches_trust [OF s] show ?thesis by blast
qed

text \<open>
  An active authorization is never replaced: while the last event of an account and device
  is an authorization, a pairing with another key is refused with a key mismatch and the store
  stays as it was, whether or not a write would succeed.
\<close>

theorem active_key_protected:
  assumes "trust_trace rt es s" and "history_key a (vp_device p) es = Some fp"
    and "vp_fingerprint p \<noteq> fp" and "vp_fingerprint p \<noteq> []" and "vp_public p \<noteq> []"
    and "a \<noteq> []" and "vp_device p \<noteq> []"
  shows "authorize_device rt s a p now ok = (Inl ErrTrustedDeviceKeyMismatch, s)"
proof -
  obtain ds where reg: "registry_ok rt s ds" and view: "\<forall>a v. trusted_key ds a v = history_key a v es"
    using trust_trace_view [OF assms(1)] by blast
  then obtain d where s: "s = Some d" and d: "load_trusted rt d = Inr \<lparr>tf_version = 1, tf_devices = ds\<rparr>"
    by (auto simp: registry_ok_def)
  have "trusted_key ds a (vp_device p) = Some fp" using view assms(2) by simp
  then obtain i where "device_index a (vp_device p) ds = Some i" "td_revoked_at (ds ! i) = None"
    "td_fingerprint (ds ! i) = fp"
    by (auto simp: trusted_key_def device_at_def split: option.splits if_splits)
  with assms(3-7) show ?thesis by (simp add: authorize_device_def s d Let_def)
qed

lemma fingerprint_not_other: "''other'' \<noteq> fingerprint rt k" "fingerprint rt k \<noteq> ''other''"
proof -
  have "hd (fingerprint rt k) = CHR ''S''" by (simp add: fingerprint_def)
  moreover have "hd ''other'' \<noteq> CHR ''S''" by simp
  ultimately show "''other'' \<noteq> fingerprint rt k" "fingerprint rt k \<noteq> ''other''" by metis+
qed

theorem active_key_protected_witness:
  "\<exists>s. authorize_device sample_runtime s ''acct'' (sample_verified\<lparr>vp_fingerprint := ''other''\<rparr>) 9 True =
     (Inl ErrTrustedDeviceKeyMismatch, s)"
proof -
  obtain s where s: "trust_trace sample_runtime [Authorized ''acct'' sample_verified] s"
    using sample_trust_trace by blast
  have "authorize_device sample_runtime s ''acct'' (sample_verified\<lparr>vp_fingerprint := ''other''\<rparr>) 9 True =
     (Inl ErrTrustedDeviceKeyMismatch, s)"
    using fingerprint_not_other
    by (intro active_key_protected [OF s]) (simp_all add: sample_verified_def valid_device_id_nonempty)
  then show ?thesis ..
qed

text \<open>
  \<open>Authorize\<close> does not check its clock: called with the zero instant it reports success and
  writes an entry that the next load rejects, and from then on every operation on the store
  fails, for every account.
\<close>

theorem zero_instant_breaks_registry:
  assumes "registry_ok rt (Some d) ds" and "a \<noteq> []" and "device_at a (vp_device p) ds = None"
    and "vp_device p \<noteq> []" and "vp_public p \<noteq> []" and "vp_fingerprint p \<noteq> []"
  shows "\<exists>t s'. authorize_device rt (Some d) a p 0 True = (Inr t, s') \<and>
    (\<forall>b w fp. b \<noteq> [] \<longrightarrow> valid_device_id w \<longrightarrow> fp \<noteq> [] \<longrightarrow>
       is_trusted rt s' b w fp = Inl ErrInvalidTrustedDeviceStore \<and>
       resolve_device rt s' b w = Inl ErrInvalidTrustedDeviceStore \<and>
       fst (revoke_device rt s' b w now ok) = Inl ErrInvalidTrustedDeviceStore)"
proof -
  let ?t = "trusted_device_from_pairing a p 0"
  let ?d = "\<lparr>disk_file = Holds \<lparr>tf_version = 1, tf_devices = ds @ [?t]\<rparr>, disk_mode = 384\<rparr>"
  have d: "load_trusted rt d = Inr \<lparr>tf_version = 1, tf_devices = ds\<rparr>"
    and valid: "\<forall>u \<in> set ds. is_ok (trusted_device_public_key rt u)"
    using assms(1) registry_ok_valid [OF assms(1)] by (auto simp: registry_ok_def)
  have bad: "trusted_device_public_key rt ?t = Inl ErrInvalidTrustedDeviceStore"
    by (simp add: trusted_device_public_key_def trusted_device_from_pairing_def time_is_zero_def)
  have "validate_trusted_devices rt (ds @ [?t]) = Inl ErrInvalidTrustedDeviceStore"
    using valid by (induction ds) (auto simp: validate_trusted_device_def bad is_ok_iff)
  then have broken: "load_trusted rt ?d = Inl ErrInvalidTrustedDeviceStore" by simp
  have "authorize_device rt (Some d) a p 0 True = (Inr ?t, Some ?d)"
    using assms(2-6) device_index_at(1) [of a "vp_device p" ds]
    by (simp add: authorize_device_def d Let_def write_trusted_def)
  then show ?thesis
    by (intro exI conjI) (assumption, simp add: is_trusted_def resolve_device_def revoke_device_def broken
        del: load_trusted_Holds)
qed

theorem zero_instant_breaks_registry_witness:
  "\<exists>t s'. authorize_device sample_runtime (Some \<lparr>disk_file = Absent, disk_mode = 0\<rparr>) ''acct''
       sample_verified 0 True = (Inr t, s') \<and>
     is_trusted sample_runtime s' ''acct'' sample_device ''x'' = Inl ErrInvalidTrustedDeviceStore"
proof -
  have reg: "registry_ok sample_runtime (Some \<lparr>disk_file = Absent, disk_mode = 0\<rparr>) []"
    by (simp add: registry_ok_def load_trusted_def)
  have ne: "vp_device sample_verified \<noteq> []" "vp_public sample_verified \<noteq> []"
    "vp_fingerprint sample_verified \<noteq> []"
    by (simp_all add: sample_verified_def valid_device_id_nonempty)
  obtain t s' where run: "authorize_device sample_runtime (Some \<lparr>disk_file = Absent, disk_mode = 0\<rparr>)
      ''acct'' sample_verified 0 True = (Inr t, s')"
    and broken: "\<forall>b w fp. b \<noteq> [] \<longrightarrow> valid_device_id w \<longrightarrow> fp \<noteq> [] \<longrightarrow>
       is_trusted sample_runtime s' b w fp = Inl ErrInvalidTrustedDeviceStore"
    using zero_instant_breaks_registry [OF reg _ _ ne, where a = "''acct''" and now = 1 and ok = True]
    by auto
  from broken [rule_format, of "''acct''" sample_device "''x''"] run show ?thesis
    by (intro exI conjI) simp_all
qed

end
