(* ===== verification/Device_Keys.thy ===== *)
theory Device_Keys
  imports Identity
begin

unbundle bit_operations_syntax

text \<open>
  The device key file (\<open>internal/identity/device_key_store.go\<close>): a private key sealed by the
  platform's secret facility, with save, load and rotation. The facility (\<open>KeyProtector\<close>)
  stays a parameter; what the store needs of it is that opening undoes sealing.
\<close>

section \<open>The store\<close>

abbreviation ErrKeyProtectorRequired :: go_error where
  "ErrKeyProtectorRequired \<equiv> Sentinel ''device key protector is required''"
abbreviation ErrInvalidDeviceKey :: go_error where
  "ErrInvalidDeviceKey \<equiv> Sentinel ''invalid device key material''"

record key_protector =
  kp_seal :: "bytes \<Rightarrow> bytes \<Rightarrow> bytes result"
  kp_open :: "bytes \<Rightarrow> bytes \<Rightarrow> bytes result"

definition protector_ok :: "key_protector \<Rightarrow> bool" where
  "protector_ok kp \<longleftrightarrow>
     (\<forall>label plain sealed. kp_seal kp label plain = Inr sealed \<longrightarrow> kp_open kp label sealed = Inr plain)"

record stored_device_key =
  sk_device :: bytes
  sk_public :: bytes
  sk_protected :: bytes
  sk_created_at :: time
  sk_rotated_at :: time
  sk_fingerprint :: bytes

record device_key_store =
  dk_path :: bytes
  dk_protector :: "key_protector option"
  dk_disk :: "stored_device_key disk"

text \<open>The argument \<open>absolute\<close> is what the file system makes of the path.\<close>

definition new_device_key_store ::
  "bytes \<Rightarrow> key_protector option \<Rightarrow> bytes result \<Rightarrow> stored_device_key disk \<Rightarrow> device_key_store result" where
  "new_device_key_store path protector absolute d =
     (if protector = None then Inl ErrKeyProtectorRequired
      else if path = [] then Inl ErrInvalidDeviceKey
      else and_then (wrap_error ''resolve device key store path'' absolute) (\<lambda>p.
        Inr \<lparr>dk_path = p, dk_protector = protector, dk_disk = d\<rparr>))"

definition key_label :: "bytes \<Rightarrow> bytes" where
  "key_label device_id = ''goreecloud-sync-device-key:'' @ device_id"

definition valid_device_key_material :: "bytes \<Rightarrow> bytes \<Rightarrow> bytes \<Rightarrow> bool" where
  "valid_device_key_material device_id public_key private_key =
     (if \<not> valid_device_id device_id \<or> length public_key \<noteq> public_key_size \<or>
         length private_key \<noteq> private_key_size
      then False
      else public_of private_key = public_key)"

definition validate_stored_device_key :: "runtime \<Rightarrow> stored_device_key \<Rightarrow> bytes result" where
  "validate_stored_device_key rt stored =
     (if \<not> valid_device_id (sk_device stored) \<or> time_is_zero (sk_created_at stored) \<or>
         sk_fingerprint stored = [] \<or> sk_protected stored = []
      then Inl ErrInvalidDeviceKey
      else if \<not> time_is_zero (sk_rotated_at stored) \<and> sk_rotated_at stored < sk_created_at stored
      then Inl ErrInvalidDeviceKey
      else case b64_decode (sk_public stored) of
        None \<Rightarrow> Inl ErrInvalidDeviceKey
      | Some public_key \<Rightarrow>
          if length public_key \<noteq> public_key_size then Inl ErrInvalidDeviceKey
          else if fingerprint rt public_key \<noteq> sk_fingerprint stored then Inl ErrInvalidDeviceKey
          else Inr public_key)"

definition write_device_key ::
  "runtime \<Rightarrow> bool \<Rightarrow> stored_device_key \<Rightarrow> device_key_store option \<Rightarrow>
     unit result \<times> device_key_store option" where
  "write_device_key rt ok stored store =
     (case store of
        None \<Rightarrow> (Inl ErrInvalidDeviceKey, None)
      | Some s \<Rightarrow>
          if dk_path s = [] then (Inl ErrInvalidDeviceKey, Some s)
          else case validate_stored_device_key rt stored of
            Inl e \<Rightarrow> (Inl e, Some s)
          | Inr _ \<Rightarrow>
              (case disk_save ok stored (dk_disk s) of (r, d) \<Rightarrow> (r, Some (s\<lparr>dk_disk := d\<rparr>))))"

section \<open>Operations\<close>

definition save_device_key ::
  "runtime \<Rightarrow> device_key_store option \<Rightarrow> bytes \<Rightarrow> bytes \<Rightarrow> bytes \<Rightarrow> time \<Rightarrow> bool \<Rightarrow>
     stored_device_key result \<times> device_key_store option" where
  "save_device_key rt store device_id public_key private_key now ok =
     (case store of
        None \<Rightarrow> (Inl ErrInvalidDeviceKey, None)
      | Some s \<Rightarrow>
          case dk_protector s of
            None \<Rightarrow> (Inl ErrInvalidDeviceKey, Some s)
          | Some protector \<Rightarrow>
              if time_is_zero now \<or> \<not> valid_device_key_material device_id public_key private_key
              then (Inl ErrInvalidDeviceKey, Some s)
              else case kp_seal protector (key_label device_id) private_key of
                Inl e \<Rightarrow> (Inl e, Some s)
              | Inr sealed \<Rightarrow>
                  if sealed = [] then (Inl ErrInvalidDeviceKey, Some s)
                  else
                    let stored = \<lparr>sk_device = device_id, sk_public = b64_encode public_key,
                          sk_protected = b64_encode sealed, sk_created_at = now, sk_rotated_at = 0,
                          sk_fingerprint = fingerprint rt public_key\<rparr>
                    in case write_device_key rt ok stored (Some s) of
                      (Inl e, s') \<Rightarrow> (Inl e, s')
                    | (Inr _, s') \<Rightarrow> (Inr stored, s'))"

definition load_device_key ::
  "runtime \<Rightarrow> device_key_store option \<Rightarrow> (stored_device_key \<times> bytes) result" where
  "load_device_key rt store =
     (case store of
        None \<Rightarrow> Inl ErrInvalidDeviceKey
      | Some s \<Rightarrow>
          case dk_protector s of
            None \<Rightarrow> Inl ErrInvalidDeviceKey
          | Some protector \<Rightarrow>
              if dk_path s = [] then Inl ErrInvalidDeviceKey
              else case disk_file (dk_disk s) of
                Absent \<Rightarrow> Inl ErrNotExist
              | Unreadable \<Rightarrow> Inl ErrRead
              | c \<Rightarrow>
                  if disk_mode (dk_disk s) AND 63 \<noteq> 0
                  then Inl (Wrap ''permissions must not grant group or other access'' ErrInvalidDeviceKey)
                  else case c of
                    Holds stored \<Rightarrow>
                      and_then (validate_stored_device_key rt stored) (\<lambda>public_key.
                        case b64_decode (sk_protected stored) of
                          None \<Rightarrow> Inl ErrInvalidDeviceKey
                        | Some sealed \<Rightarrow>
                            if sealed = [] then Inl ErrInvalidDeviceKey
                            else and_then (kp_open protector (key_label (sk_device stored)) sealed) (\<lambda>plain.
                              if length plain \<noteq> private_key_size then Inl ErrInvalidDeviceKey
                              else if public_of plain \<noteq> public_key then Inl ErrInvalidDeviceKey
                              else Inr (stored, plain)))
                  | _ \<Rightarrow> Inl (Wrap ''decode stored device key'' ErrInvalidDeviceKey))"

text \<open>Two writes: the new key as if freshly saved, then again with the rotation instant.\<close>

definition rotate_device_key ::
  "runtime \<Rightarrow> device_key_store option \<Rightarrow> bytes \<Rightarrow> bytes \<Rightarrow> time \<Rightarrow> bool \<Rightarrow> bool \<Rightarrow>
     stored_device_key result \<times> device_key_store option" where
  "rotate_device_key rt store public_key private_key now ok1 ok2 =
     (if time_is_zero now then (Inl ErrInvalidDeviceKey, store)
      else case load_device_key rt store of
        Inl e \<Rightarrow> (Inl e, store)
      | Inr (current, _) \<Rightarrow>
          if now < sk_created_at current \<or>
             \<not> valid_device_key_material (sk_device current) public_key private_key
          then (Inl ErrInvalidDeviceKey, store)
          else case save_device_key rt store (sk_device current) public_key private_key
                      (sk_created_at current) ok1 of
            (Inl e, store') \<Rightarrow> (Inl e, store')
          | (Inr stored0, store') \<Rightarrow>
              let stored = stored0\<lparr>sk_rotated_at := now\<rparr> in
              case write_device_key rt ok2 stored store' of
                (Inl e, store'') \<Rightarrow> (Inl e, store'')
              | (Inr _, store'') \<Rightarrow> (Inr stored, store''))"

section \<open>What the operations establish\<close>

lemma valid_material_iff:
  "valid_device_key_material v k p \<longleftrightarrow>
     valid_device_id v \<and> length k = public_key_size \<and> length p = private_key_size \<and> public_of p = k"
  by (auto simp: valid_device_key_material_def)

lemma validate_stored_Inr [result_iff]:
  "validate_stored_device_key rt s = Inr k \<longleftrightarrow>
     valid_device_id (sk_device s) \<and> sk_created_at s \<noteq> 0 \<and> sk_fingerprint s \<noteq> [] \<and> sk_protected s \<noteq> [] \<and>
     (sk_rotated_at s = 0 \<or> sk_created_at s \<le> sk_rotated_at s) \<and>
     b64_decode (sk_public s) = Some k \<and> length k = public_key_size \<and>
     fingerprint rt k = sk_fingerprint s"
  by (auto simp: validate_stored_device_key_def time_is_zero_def split: option.splits)

text \<open>The interface: the file after a write, and what it loads as.\<close>

definition holds_key :: "runtime \<Rightarrow> device_key_store option \<Rightarrow> stored_device_key \<Rightarrow> bytes \<Rightarrow> bool" where
  "holds_key rt store stored private_key \<longleftrightarrow>
     (\<exists>s kp. store = Some s \<and> dk_protector s = Some kp \<and> dk_path s \<noteq> [] \<and>
        dk_disk s = \<lparr>disk_file = Holds stored, disk_mode = 384\<rparr> \<and>
        valid_device_key_material (sk_device stored) (public_of private_key) private_key \<and>
        validate_stored_device_key rt stored = Inr (public_of private_key) \<and>
        (\<exists>sealed. kp_seal kp (key_label (sk_device stored)) private_key = Inr sealed \<and> sealed \<noteq> [] \<and>
           sk_protected stored = b64_encode sealed))"

definition good_protector :: "device_key_store option \<Rightarrow> bool" where
  "good_protector store \<longleftrightarrow> (\<forall>s kp. store = Some s \<longrightarrow> dk_protector s = Some kp \<longrightarrow> protector_ok kp)"

lemma holds_key_load:
  "holds_key rt store stored p \<Longrightarrow> good_protector store \<Longrightarrow> load_device_key rt store = Inr (stored, p)"
  by (auto simp: holds_key_def good_protector_def protector_ok_def load_device_key_def valid_material_iff
      result_iff)

lemma write_device_key_Inr:
  "write_device_key rt ok stored (Some s) = (Inr u, store') \<longleftrightarrow>
     ok \<and> dk_path s \<noteq> [] \<and> (\<exists>k. validate_stored_device_key rt stored = Inr k) \<and>
     store' = Some (s\<lparr>dk_disk := \<lparr>disk_file = Holds stored, disk_mode = 384\<rparr>\<rparr>)"
  by (auto simp: write_device_key_def disk_save_def split: sum.splits)

lemma write_device_key_failed:
  "write_device_key rt ok stored store = (Inl e, store') \<Longrightarrow> store' = store"
  by (auto simp: write_device_key_def disk_save_def split: option.splits sum.splits if_splits)

lemma save_device_key_failed:
  "save_device_key rt store v k p now ok = (Inl e, store') \<Longrightarrow> store' = store"
  by (auto simp: save_device_key_def Let_def dest: write_device_key_failed
      split: option.splits sum.splits if_splits prod.splits)

lemma save_device_key_holds:
  assumes "save_device_key rt store v k p now ok = (Inr stored, store')"
  shows "holds_key rt store' stored p \<and> public_of p = k \<and> sk_device stored = v \<and>
    sk_created_at stored = now \<and> sk_rotated_at stored = 0 \<and> sk_public stored = b64_encode k \<and>
    sk_fingerprint stored = fingerprint rt k \<and> good_protector store' = good_protector store"
proof -
  from assms obtain s kp sealed where s: "store = Some s" "dk_protector s = Some kp"
    and valid: "now \<noteq> 0" "valid_device_key_material v k p"
    and sealed: "kp_seal kp (key_label v) p = Inr sealed" "sealed \<noteq> []"
    and stored: "stored = \<lparr>sk_device = v, sk_public = b64_encode k, sk_protected = b64_encode sealed,
        sk_created_at = now, sk_rotated_at = 0, sk_fingerprint = fingerprint rt k\<rparr>"
    and wrote: "write_device_key rt ok stored (Some s) = (Inr (), store')"
    by (auto simp: save_device_key_def Let_def time_is_zero_def
        split: option.splits sum.splits if_splits prod.splits)
  have s': "store' = Some (s\<lparr>dk_disk := \<lparr>disk_file = Holds stored, disk_mode = 384\<rparr>\<rparr>)"
    and path: "dk_path s \<noteq> []" and ok: "\<exists>k. validate_stored_device_key rt stored = Inr k"
    using wrote by (simp_all add: write_device_key_Inr)
  have "holds_key rt store' stored p"
    using s valid sealed ok path unfolding holds_key_def s'
    by (intro exI [of _ "s\<lparr>dk_disk := \<lparr>disk_file = Holds stored, disk_mode = 384\<rparr>\<rparr>"] exI [of _ kp])
      (auto simp: stored valid_material_iff result_iff)
  with valid(2) show ?thesis
    by (simp add: stored valid_material_iff good_protector_def s' s)
qed

lemma load_device_key_Inr:
  assumes "load_device_key rt store = Inr (stored, p)"
  shows "\<exists>s. store = Some s \<and> disk_file (dk_disk s) = Holds stored \<and> disk_mode (dk_disk s) AND 63 = 0 \<and>
    valid_device_key_material (sk_device stored) (public_of p) p \<and>
    validate_stored_device_key rt stored = Inr (public_of p)"
  using assms
  by (auto simp: load_device_key_def valid_material_iff result_iff
      split: option.splits if_splits content.splits)

lemma rotate_refused:
  assumes rotate: "rotate_device_key rt store k p now ok1 ok2 = (res, store')"
    and no: "\<nexists>old q stored0 store1. load_device_key rt store = Inr (old, q) \<and> now \<noteq> 0 \<and>
      sk_created_at old \<le> now \<and>
      save_device_key rt store (sk_device old) k p (sk_created_at old) ok1 = (Inr stored0, store1)"
  shows "\<exists>e. res = Inl e \<and> store' = store"
proof (cases "load_device_key rt store")
  case (Inl e)
  with rotate show ?thesis by (auto simp: rotate_device_key_def split: if_splits)
next
  case (Inr x)
  obtain old q where x: "x = (old, q)" by (cases x)
  obtain r store1 where save: "save_device_key rt store (sk_device old) k p (sk_created_at old) ok1 =
      (r, store1)" by fastforce
  show ?thesis
  proof (cases "now = 0 \<or> now < sk_created_at old")
    case True
    with rotate Inr x show ?thesis by (auto simp: rotate_device_key_def time_is_zero_def split: if_splits)
  next
    case False
    with no Inr x save obtain e where "r = Inl e" by (cases r) auto
    with rotate Inr x save save_device_key_failed [of rt store] show ?thesis
      by (auto simp: rotate_device_key_def split: if_splits)
  qed
qed

section \<open>Properties\<close>

text \<open>
  A key that was saved loads again as it was saved, private key included, from a file only
  its owner may access, whenever opening undoes sealing; a save that fails leaves the file as
  it was.
\<close>

theorem device_key_roundtrip:
  assumes "save_device_key rt store v k p now ok = (res, store')"
  shows "(\<forall>e. res = Inl e \<longrightarrow> store' = store) \<and>
    (\<forall>stored. res = Inr stored \<longrightarrow> good_protector store \<longrightarrow>
       load_device_key rt store' = Inr (stored, p) \<and>
       sk_device stored = v \<and> sk_created_at stored = now \<and> sk_fingerprint stored = fingerprint rt k \<and>
       (\<exists>s. store' = Some s \<and> disk_mode (dk_disk s) AND 63 = 0))"
proof (intro conjI allI impI)
  fix stored assume "res = Inr stored" and good: "good_protector store"
  with assms have saved: "save_device_key rt store v k p now ok = (Inr stored, store')" by simp
  note holds = save_device_key_holds [OF saved]
  then show load: "load_device_key rt store' = Inr (stored, p)" using good holds_key_load by blast
  then show "\<exists>s. store' = Some s \<and> disk_mode (dk_disk s) AND 63 = 0"
    using load_device_key_Inr by blast
  from holds show "sk_device stored = v" "sk_created_at stored = now"
    "sk_fingerprint stored = fingerprint rt k" by blast+
qed (use assms save_device_key_failed in blast)

definition sample_protector :: key_protector where
  "sample_protector = \<lparr>kp_seal = (\<lambda>label plain. Inr (''sealed:'' @ plain)),
     kp_open = (\<lambda>label sealed. if take 7 sealed = ''sealed:'' then Inr (drop 7 sealed) else Inl ErrRead)\<rparr>"

definition sample_key_store :: device_key_store where
  "sample_key_store = \<lparr>dk_path = ''/keys/device'', dk_protector = Some sample_protector,
     dk_disk = \<lparr>disk_file = Absent, disk_mode = 0\<rparr>\<rparr>"

lemma sample_protector_good: "good_protector (Some sample_key_store)"
  by (simp add: good_protector_def sample_key_store_def protector_ok_def sample_protector_def)

lemma sample_material: "valid_device_key_material sample_device sample_public sample_private"
  by (simp add: valid_material_iff sample_public_def [symmetric])

lemma sample_save:
  "\<exists>stored store'. save_device_key sample_runtime (Some sample_key_store) sample_device sample_public
     sample_private 5 True = (Inr stored, store')"
  using sample_material sample_key_sizes(1)
  by (simp add: save_device_key_def sample_key_store_def time_is_zero_def sample_protector_def Let_def
      write_device_key_def validate_stored_device_key_def)

theorem device_key_roundtrip_witness:
  "\<exists>stored store'. save_device_key sample_runtime (Some sample_key_store) sample_device sample_public
     sample_private 5 True = (Inr stored, store') \<and>
     load_device_key sample_runtime store' = Inr (stored, sample_private)"
proof -
  obtain stored store' where run: "save_device_key sample_runtime (Some sample_key_store) sample_device
      sample_public sample_private 5 True = (Inr stored, store')" using sample_save by blast
  have "load_device_key sample_runtime store' = Inr (stored, sample_private)"
    using device_key_roundtrip [OF run] sample_protector_good by simp
  with run show ?thesis by (intro exI conjI)
qed

text \<open>
  A rotation keeps the device and the creation instant and records when it happened; the
  rotated key loads. When it reports an error the file is unchanged, or else the first of its
  two writes has already replaced the old key by the new one, without a rotation instant.
\<close>

theorem rotation_outcomes:
  assumes rotate: "rotate_device_key rt store k p now ok1 ok2 = (res, store')"
    and good: "good_protector store"
  shows "(\<forall>stored. res = Inr stored \<longrightarrow>
       load_device_key rt store' = Inr (stored, p) \<and> sk_rotated_at stored = now \<and>
       (\<exists>old q. load_device_key rt store = Inr (old, q) \<and> sk_device stored = sk_device old \<and>
          sk_created_at stored = sk_created_at old \<and> sk_created_at old \<le> now)) \<and>
    (\<forall>e. res = Inl e \<longrightarrow> store' = store \<or>
       ok1 \<and> \<not> ok2 \<and> (\<exists>stored. load_device_key rt store' = Inr (stored, p) \<and> sk_rotated_at stored = 0))"
proof (cases "\<exists>old q stored0 store1. load_device_key rt store = Inr (old, q) \<and> now \<noteq> 0 \<and>
    sk_created_at old \<le> now \<and>
    save_device_key rt store (sk_device old) k p (sk_created_at old) ok1 = (Inr stored0, store1)")
  case False
  from rotate_refused [OF rotate False] show ?thesis by auto
next
  case True
  then obtain old q stored0 store1 where old: "load_device_key rt store = Inr (old, q)" "now \<noteq> 0"
      "sk_created_at old \<le> now"
    and save: "save_device_key rt store (sk_device old) k p (sk_created_at old) ok1 = (Inr stored0, store1)"
    by blast
  let ?stored = "stored0\<lparr>sk_rotated_at := now\<rparr>"
  note holds0 = save_device_key_holds [OF save]
  then have good1: "good_protector store1" and load1: "load_device_key rt store1 = Inr (stored0, p)"
    using good holds_key_load by blast+
  obtain s kp where s: "store1 = Some s" "dk_protector s = Some kp" "dk_path s \<noteq> []"
    and kp: "\<exists>sealed. kp_seal kp (key_label (sk_device stored0)) p = Inr sealed \<and> sealed \<noteq> [] \<and>
        sk_protected stored0 = b64_encode sealed"
    and valid0: "valid_device_key_material (sk_device stored0) (public_of p) p"
      "validate_stored_device_key rt stored0 = Inr (public_of p)"
    using holds0 by (auto simp: holds_key_def)
  have valid: "validate_stored_device_key rt ?stored = Inr (public_of p)"
    using valid0(2) holds0 old(3) by (simp add: result_iff)
  have material: "valid_device_key_material (sk_device old) k p"
    using valid0(1) holds0 by simp
  have ok1: ok1
    using save by (cases ok1) (auto simp: save_device_key_def Let_def write_device_key_def
        split: option.splits sum.splits if_splits)
  have step: "(res, store') = (case write_device_key rt ok2 ?stored store1 of
      (Inl e, s') \<Rightarrow> (Inl e, s') | (Inr _, s') \<Rightarrow> (Inr ?stored, s'))"
    using rotate old material by (simp add: rotate_device_key_def time_is_zero_def save Let_def not_less [symmetric])
  show ?thesis
  proof (cases ok2)
    case False
    with step valid s have "res = Inl ErrWrite" "store' = store1"
      by (simp_all add: write_device_key_def)
    with load1 holds0 ok1 False show ?thesis by auto
  next
    case True
    with step valid s have res: "res = Inr ?stored"
      and s': "store' = Some (s\<lparr>dk_disk := \<lparr>disk_file = Holds ?stored, disk_mode = 384\<rparr>\<rparr>)"
      by (simp_all add: write_device_key_def)
    have "holds_key rt store' ?stored p"
      unfolding holds_key_def s'
      by (intro exI [of _ "s\<lparr>dk_disk := \<lparr>disk_file = Holds ?stored, disk_mode = 384\<rparr>\<rparr>"] exI [of _ kp])
        (use s kp valid0 valid in simp)
    moreover have "good_protector store'" using good1 s by (simp add: good_protector_def s')
    ultimately have "load_device_key rt store' = Inr (?stored, p)" by (rule holds_key_load)
    with res old holds0 show ?thesis by simp
  qed
qed

definition other_private :: bytes where
  "other_private = replicate 64 (CHR ''z'')"

lemma other_material:
  "valid_device_key_material sample_device (public_of other_private) other_private"
  by (simp add: valid_material_iff other_private_def public_of_def key_sizes)

theorem rotation_outcomes_witness:
  "\<exists>store stored store'. rotate_device_key sample_runtime store (public_of other_private) other_private 9
       True True = (Inr stored, store') \<and>
     load_device_key sample_runtime store' = Inr (stored, other_private) \<and> sk_rotated_at stored = 9"
proof -
  obtain stored0 store0 where run: "save_device_key sample_runtime (Some sample_key_store) sample_device
      sample_public sample_private 5 True = (Inr stored0, store0)" using sample_save by blast
  note holds = save_device_key_holds [OF run]
  then have good: "good_protector store0" using sample_protector_good by blast
  then have load: "load_device_key sample_runtime store0 = Inr (stored0, sample_private)"
    using holds holds_key_load by blast
  obtain s where s: "store0 = Some s" "dk_path s \<noteq> []" "dk_protector s = Some sample_protector"
    using run by (auto simp: save_device_key_def sample_key_store_def Let_def write_device_key_def
        split: sum.splits if_splits prod.splits)
  have "length (public_of other_private) = public_key_size"
    by (simp add: other_private_def public_of_def key_sizes)
  then have "\<exists>stored store'. rotate_device_key sample_runtime store0 (public_of other_private) other_private 9
       True True = (Inr stored, store')"
    using load holds s other_material
    by (simp add: rotate_device_key_def time_is_zero_def save_device_key_def Let_def write_device_key_def
        validate_stored_device_key_def sample_protector_def)
  then obtain stored store' where rot: "rotate_device_key sample_runtime store0 (public_of other_private)
      other_private 9 True True = (Inr stored, store')" by blast
  have "load_device_key sample_runtime store' = Inr (stored, other_private)" "sk_rotated_at stored = 9"
    using rotation_outcomes [OF rot good] by simp_all
  with rot show ?thesis by (intro exI conjI)
qed

end
