(* ===== verification/Peer_Factory.thy ===== *)
theory Peer_Factory
  imports Secure_Peers Payload_Transfer Trusted_Devices Device_Keys
begin

text \<open>
  The composition of durable trust with secure connections (\<open>app/secure_peer_factory.go\<close>,
  \<open>app/payload_transfer.go\<close>): admission of a peer whose identity the registry resolves,
  revalidation of an admitted peer, guarded operations, and payload transfers that check
  current trust at every step. The registry can change between any two checks, so every
  definition that checks more than once takes the registries the checks meet.
\<close>

section \<open>The factory\<close>

abbreviation ErrSecurePeerFactoryUnavailable :: go_error where
  "ErrSecurePeerFactoryUnavailable \<equiv> Sentinel ''secure peer factory is unavailable''"
abbreviation ErrSecurePeerTrustNotCurrent :: go_error where
  "ErrSecurePeerTrustNotCurrent \<equiv> Sentinel ''secure peer trust is no longer current''"
abbreviation ErrSecurePeerOperationRequired :: go_error where
  "ErrSecurePeerOperationRequired \<equiv> Sentinel ''secure peer operation is required''"
abbreviation ErrSecurePeerOperationSequence :: go_error where
  "ErrSecurePeerOperationSequence \<equiv> Sentinel ''secure peer operation sequence is invalid''"

definition max_operation_sequence :: nat where
  "max_operation_sequence = 64"

record factory =
  fa_account :: bytes
  fa_keys :: "device_key_store option"
  fa_trusted :: trusted_device_store

definition resolve_identities ::
  "runtime \<Rightarrow> factory \<Rightarrow> bytes \<Rightarrow> (secure_peer_identity \<times> trusted_peer_identity) result" where
  "resolve_identities rt f remote_id =
     (if fa_account f = [] \<or> fa_keys f = None \<or> fa_trusted f = None then Inl ErrSecurePeerFactoryUnavailable
      else and_then (wrap_error ''resolve trusted remote device'' (resolve_device rt (fa_trusted f) (fa_account f) remote_id))
        (\<lambda>(remote, remote_key).
          and_then (wrap_error ''load local secure peer identity'' (load_device_key rt (fa_keys f)))
            (\<lambda>(local, local_key).
              Inr (\<lparr>si_device = sk_device local, si_private = local_key\<rparr>,
                   \<lparr>ti_device = td_device remote, ti_public = remote_key\<rparr>))))"

text \<open>A peer whose fingerprint cannot be bound is closed and not returned.\<close>

definition bind_admitted :: "runtime \<Rightarrow> trusted_peer_identity \<Rightarrow> peer \<Rightarrow> peer result \<times> peer option" where
  "bind_admitted rt remote p =
     (case bind_fingerprint (Some p) (fingerprint rt (ti_public remote)) of
        (Inl e, q) \<Rightarrow> (Inl (Wrap ''bind secure peer trust identity'' e), snd (close_peer q))
      | (Inr _, Some q) \<Rightarrow> (Inr q, Some q)
      | (Inr _, None) \<Rightarrow> (Inr p, None))"

definition factory_dial ::
  "runtime \<Rightarrow> tls_env \<Rightarrow> factory \<Rightarrow> bool \<Rightarrow> bytes \<Rightarrow> duration \<Rightarrow> conn result \<Rightarrow> bytes \<Rightarrow> peer result" where
  "factory_dial rt env f has_context address timeout dialed remote_id =
     and_then (resolve_identities rt f remote_id) (\<lambda>(local, remote).
       and_then (dial_secure_peer rt env has_context address timeout dialed local remote) (\<lambda>p.
         fst (bind_admitted rt remote p)))"

definition factory_accept ::
  "runtime \<Rightarrow> tls_env \<Rightarrow> factory \<Rightarrow> bool \<Rightarrow> conn option \<Rightarrow> duration \<Rightarrow> bytes \<Rightarrow> peer result \<times> conn option" where
  "factory_accept rt env f has_context accepted timeout remote_id =
     (case resolve_identities rt f remote_id of
        Inl e \<Rightarrow> (Inl e, map_option hang_up accepted)
      | Inr (local, remote) \<Rightarrow>
          (case accept_secure_peer rt env has_context accepted timeout local remote of
             (Inl e, c) \<Rightarrow> (Inl e, c)
           | (Inr p, c) \<Rightarrow>
               (case bind_admitted rt remote p of
                  (res, q) \<Rightarrow> (res, case q of None \<Rightarrow> c | Some q \<Rightarrow> pc_conn q))))"

section \<open>Revalidation and guarded operations\<close>

definition revalidate_peer :: "runtime \<Rightarrow> factory \<Rightarrow> peer option \<Rightarrow> unit result \<times> peer option" where
  "revalidate_peer rt f p =
     (if fa_account f = [] \<or> fa_trusted f = None
      then (Inl ErrSecurePeerFactoryUnavailable, snd (close_peer p))
      else if p = None then (Inl ErrSecurePeerTrustNotCurrent, p)
      else
        let device = authenticated_device_id p; key = authenticated_key_fingerprint p in
        if device = [] \<or> key = [] then (Inl ErrSecurePeerTrustNotCurrent, snd (close_peer p))
        else case is_trusted rt (fa_trusted f) (fa_account f) device key of
          Inl e \<Rightarrow> (Inl (Wrap ''revalidate secure peer trust'' e), snd (close_peer p))
        | Inr trusted \<Rightarrow>
            if \<not> trusted then (Inl ErrSecurePeerTrustNotCurrent, snd (close_peer p)) else (Inr (), p))"

text \<open>
  An operation acts on the connection; while it runs the registry may change, so it returns
  the registry that is there when it ends.
\<close>

type_synonym operation = "trusted_device_store \<Rightarrow> peer option \<Rightarrow> unit result \<times> trusted_device_store \<times> peer option"

definition run_with_current_trust ::
  "runtime \<Rightarrow> factory \<Rightarrow> peer option \<Rightarrow> operation option \<Rightarrow> unit result \<times> factory \<times> peer option" where
  "run_with_current_trust rt f p operation =
     (case operation of
        None \<Rightarrow> (Inl ErrSecurePeerOperationRequired, f, p)
      | Some op \<Rightarrow>
          (case revalidate_peer rt f p of
             (Inl e, p1) \<Rightarrow> (Inl e, f, p1)
           | (Inr _, p1) \<Rightarrow>
               (case op (fa_trusted f) p1 of (res, s, p2) \<Rightarrow> (res, f\<lparr>fa_trusted := s\<rparr>, p2))))"

fun run_operations ::
  "runtime \<Rightarrow> factory \<Rightarrow> peer option \<Rightarrow> operation option list \<Rightarrow> unit result \<times> factory \<times> peer option" where
  "run_operations rt f p [] = (Inr (), f, p)"
| "run_operations rt f p (operation # operations) =
     (case run_with_current_trust rt f p operation of
        (Inl e, f1, p1) \<Rightarrow> (Inl e, f1, p1)
      | (Inr _, f1, p1) \<Rightarrow> run_operations rt f1 p1 operations)"

definition run_operation_sequence ::
  "runtime \<Rightarrow> factory \<Rightarrow> peer option \<Rightarrow> operation option list \<Rightarrow> unit result \<times> factory \<times> peer option" where
  "run_operation_sequence rt f p operations =
     (if operations = [] \<or> max_operation_sequence < length operations
      then (Inl ErrSecurePeerOperationSequence, f, p)
      else if None \<in> set operations then (Inl ErrSecurePeerOperationRequired, f, p)
      else run_operations rt f p operations)"

section \<open>Guarded transfers\<close>

text \<open>
  The source wrapped by \<open>currentTrustReader\<close>, as a stream: the plan gives, for each coming
  read, how many bytes it takes and the registry its check meets; past the plan trust stays
  as it was. At the first check that fails the stream breaks off with its error. (The failing
  check also closes the connection, which the transfer does itself on that error.)
\<close>

fun current_trust_reader ::
  "runtime \<Rightarrow> factory \<Rightarrow> peer option \<Rightarrow> (nat \<times> trusted_device_store) list \<Rightarrow> reader \<Rightarrow> reader" where
  "current_trust_reader rt f p [] r = r"
| "current_trust_reader rt f p ((n, s) # plan) r =
     (case revalidate_peer rt (f\<lparr>fa_trusted := s\<rparr>) p of
        (Inl e, _) \<Rightarrow> \<lparr>rd_bytes = [], rd_end = Broken e\<rparr>
      | (Inr _, _) \<Rightarrow>
          let more = current_trust_reader rt f p plan (r\<lparr>rd_bytes := drop n (rd_bytes r)\<rparr>) in
          \<lparr>rd_bytes = take n (rd_bytes r) @ rd_bytes more, rd_end = rd_end more\<rparr>)"

text \<open>
  The destination wrapped by \<open>currentTrustWriter\<close>: each coming write meets its registry; where
  trust is current it goes through to the destination, otherwise it fails with nothing
  written.
\<close>

fun current_trust_plan ::
  "runtime \<Rightarrow> factory \<Rightarrow> peer option \<Rightarrow> trusted_device_store list \<Rightarrow> (nat \<times> go_error option) list \<Rightarrow>
     (nat \<times> go_error option) list" where
  "current_trust_plan rt f p [] inner = inner"
| "current_trust_plan rt f p (s # stores) inner =
     (case revalidate_peer rt (f\<lparr>fa_trusted := s\<rparr>) p of
        (Inl e, _) \<Rightarrow> (0, Some e) # current_trust_plan rt f p stores inner
      | (Inr _, _) \<Rightarrow>
          (case inner of
             [] \<Rightarrow> (max_frame_size, None) # current_trust_plan rt f p stores []
           | step # inner \<Rightarrow> step # current_trust_plan rt f p stores inner))"

definition current_trust_writer ::
  "runtime \<Rightarrow> factory \<Rightarrow> peer option \<Rightarrow> trusted_device_store list \<Rightarrow> writer \<Rightarrow> writer" where
  "current_trust_writer rt f p stores w = w\<lparr>wr_plan := current_trust_plan rt f p stores (wr_plan w)\<rparr>"

text \<open>The registries met by the reads or writes, by the authorization, and at the end.\<close>

definition factory_send ::
  "runtime \<Rightarrow> transfer_codecs \<Rightarrow> factory \<Rightarrow> peer option \<Rightarrow> payload_offer \<Rightarrow> reader option \<Rightarrow>
     (nat \<times> trusted_device_store) list \<Rightarrow> trusted_device_store \<Rightarrow> payload_receipt result \<times> peer option" where
  "factory_send rt tc f p offer source reads last_store =
     (case source of
        None \<Rightarrow> (Inl (Msg ''payload source must not be nil''), p)
      | Some src \<Rightarrow>
      (case revalidate_peer rt f p of
        (Inl e, p1) \<Rightarrow> (Inl e, p1)
      | (Inr _, p1) \<Rightarrow>
      (case send_transfer_payload rt tc p1 offer (Some (current_trust_reader rt f p1 reads src)) of
        (Inl e, p2) \<Rightarrow> (Inl e, p2)
      | (Inr receipt, p2) \<Rightarrow>
      (case revalidate_peer rt (f\<lparr>fa_trusted := last_store\<rparr>) p2 of
        (Inl e, p3) \<Rightarrow> (Inl e, p3)
      | (Inr _, p3) \<Rightarrow> (Inr receipt, p3)))))"

definition guarded_authorize ::
  "runtime \<Rightarrow> factory \<Rightarrow> peer option \<Rightarrow> trusted_device_store \<Rightarrow> payload_authorizer \<Rightarrow> payload_authorizer" where
  "guarded_authorize rt f p s authorize offer =
     (case revalidate_peer rt (f\<lparr>fa_trusted := s\<rparr>) p of
        (Inl e, _) \<Rightarrow> (Inl e, True)
      | (Inr _, _) \<Rightarrow> authorize offer)"

definition factory_receive ::
  "runtime \<Rightarrow> transfer_codecs \<Rightarrow> factory \<Rightarrow> peer option \<Rightarrow> payload_authorizer option \<Rightarrow> writer option \<Rightarrow>
     trusted_device_store \<Rightarrow> trusted_device_store list \<Rightarrow> trusted_device_store \<Rightarrow>
     payload_offer option \<times> payload_receipt result \<times> peer option \<times> writer option" where
  "factory_receive rt tc f p authorize destination at_offer writes last_store =
     (case authorize of
        None \<Rightarrow> (None, Inl (Msg ''payload authorizer must not be nil''), p, destination)
      | Some authorize \<Rightarrow>
      (case destination of
        None \<Rightarrow> (None, Inl (Msg ''payload staging destination must not be nil''), p, destination)
      | Some dest \<Rightarrow>
      (case revalidate_peer rt f p of
        (Inl e, p1) \<Rightarrow> (None, Inl e, p1, destination)
      | (Inr _, p1) \<Rightarrow>
      (case receive_transfer_payload rt tc p1 (Some (guarded_authorize rt f p1 at_offer authorize))
          (Some (current_trust_writer rt f p1 writes dest)) of
        (offer, Inl e, p2, dest2) \<Rightarrow> (offer, Inl e, p2, dest2)
      | (offer, Inr receipt, p2, dest2) \<Rightarrow>
      (case revalidate_peer rt (f\<lparr>fa_trusted := last_store\<rparr>) p2 of
        (Inl e, p3) \<Rightarrow> (offer, Inl e, p3, dest2)
      | (Inr _, p3) \<Rightarrow> (offer, Inr receipt, p3, dest2))))))"

section \<open>Facts\<close>

definition current :: "runtime \<Rightarrow> factory \<Rightarrow> trusted_device_store \<Rightarrow> peer \<Rightarrow> bool" where
  "current rt f s q \<longleftrightarrow> is_trusted rt s (fa_account f) (pc_device q) (pc_fingerprint q) = Inr True"

lemma is_trusted_True:
  "is_trusted rt s a v fp = Inr True \<Longrightarrow> a \<noteq> [] \<and> valid_device_id v \<and> fp \<noteq> [] \<and> s \<noteq> None"
  by (auto simp: is_trusted_def split: option.splits if_splits)

lemma revalidate_Inr:
  "revalidate_peer rt f p = (Inr (), p') \<longleftrightarrow> p' = p \<and> (\<exists>q. p = Some q \<and> current rt f (fa_trusted f) q)"
proof (cases p)
  case None
  then show ?thesis by (simp add: revalidate_peer_def)
next
  case (Some q)
  then show ?thesis
    using is_trusted_True [of rt "fa_trusted f" "fa_account f" "pc_device q" "pc_fingerprint q"]
    by (auto simp: revalidate_peer_def current_def authenticated_device_id_def authenticated_key_fingerprint_def Let_def
        valid_device_id_def split: sum.splits)
qed

lemma revalidate_Inl: "revalidate_peer rt f p = (Inl e, p') \<Longrightarrow> p' = snd (close_peer p)"
  by (auto simp: revalidate_peer_def Let_def close_peer_def split: if_splits sum.splits)

lemma revalidate_cases:
  obtains (current) q where "p = Some q" "current rt f (fa_trusted f) q" "revalidate_peer rt f p = (Inr (), p)"
  | (lapsed) e where "revalidate_peer rt f p = (Inl e, snd (close_peer p))"
      "\<And>q. p = Some q \<Longrightarrow> \<not> current rt f (fa_trusted f) q"
proof (cases "fst (revalidate_peer rt f p)")
  case (Inl e)
  then have run: "revalidate_peer rt f p = (Inl e, snd (close_peer p))"
    using revalidate_Inl by (metis prod.collapse)
  moreover have "\<not> current rt f (fa_trusted f) q" if "p = Some q" for q
    using run that revalidate_Inr [of rt f p p] by auto
  ultimately show ?thesis by (rule lapsed)
next
  case (Inr u)
  then obtain p' where "revalidate_peer rt f p = (Inr (), p')" by (metis (full_types) old.unit.exhaust prod.collapse)
  with current revalidate_Inr show ?thesis by metis
qed

lemma run_operations_append:
  "run_operations rt f p (xs @ ys) =
     (case run_operations rt f p xs of
        (Inl e, f1, p1) \<Rightarrow> (Inl e, f1, p1) | (Inr _, f1, p1) \<Rightarrow> run_operations rt f1 p1 ys)"
  by (induction rt f p xs rule: run_operations.induct) (auto split: sum.splits prod.splits)

lemma run_with_current_trust_account:
  "run_with_current_trust rt f p op = (res, f1, p1) \<Longrightarrow> fa_account f1 = fa_account f"
  by (auto simp: run_with_current_trust_def split: sum.splits prod.splits option.splits)

lemma run_operations_account: "run_operations rt f p xs = (res, f1, p1) \<Longrightarrow> fa_account f1 = fa_account f"
proof (induction xs arbitrary: f p)
  case (Cons x xs)
  then show ?case
    using run_with_current_trust_account by (fastforce split: sum.splits prod.splits)
qed simp

text \<open>An operation is never run when trust is not current, and the connection is closed.\<close>

lemma run_stops:
  assumes "\<not> current rt f (fa_trusted f) q" and "None \<notin> set ops" and "ops \<noteq> []"
  shows "\<exists>e. run_operations rt f (Some q) ops = (Inl e, f, snd (close_peer (Some q)))"
proof -
  obtain op rest where ops: "ops = Some op # rest" using assms(2,3) by (cases ops; cases "hd ops") auto
  show ?thesis
    using assms(1)
    by (rule_tac revalidate_cases [of "Some q" rt f]) (auto simp: ops run_with_current_trust_def)
qed

text \<open>A resolved device is trusted with the fingerprint of its key.\<close>

lemma resolve_device_trusted:
  assumes "trust_trace rt es s" and "resolve_device rt s a v = Inr (t, k)"
  shows "is_trusted rt s a v (fingerprint rt k) = Inr True \<and> td_device t = v"
proof -
  have "length k = 32 \<and> td_device t = v"
    using assms(2) device_index_Some
    by (auto simp: resolve_device_def trusted_device_public_key_Inr key_sizes Let_def result_iff split: option.splits if_splits)
  with resolve_matches_trust [OF assms(1)] assms(2) show ?thesis by blast
qed

lemma resolve_identities_Inr:
  "resolve_identities rt f v = Inr (local, remote) \<Longrightarrow>
     \<exists>t. resolve_device rt (fa_trusted f) (fa_account f) v = Inr (t, ti_public remote) \<and> ti_device remote = td_device t"
  by (auto simp: resolve_identities_def result_iff split: if_splits)

lemma trim_fingerprint [simp]: "trim_space (fingerprint rt k) = fingerprint rt k"
proof (rule trim_space_printable)
  show "fingerprint rt k \<noteq> []" by (simp add: fingerprint_def)
  show "printable (hd (fingerprint rt k))" by (simp add: fingerprint_def printable_def)
  have "\<forall>c \<in> set hex_alphabet. printable c" by (simp add: hex_alphabet_def printable_def)
  moreover have "last (fingerprint rt k) \<in> insert (CHR '':'') (set (hex_encode (rt_sha256 rt k)))"
    by (simp add: fingerprint_def last_append)
  ultimately show "printable (last (fingerprint rt k))"
    using hex_encode_chars [of "rt_sha256 rt k"] by (auto simp: printable_def)
qed

lemma bind_admitted_fresh:
  assumes "pc_fingerprint p = []" and "pc_device p \<noteq> []" and "pc_conn p \<noteq> None" and "\<not> pc_closed p"
  shows "bind_admitted rt remote p =
    (Inr (p\<lparr>pc_fingerprint := fingerprint rt (ti_public remote)\<rparr>),
     Some (p\<lparr>pc_fingerprint := fingerprint rt (ti_public remote)\<rparr>))"
  using assms by (auto simp: bind_admitted_def bind_fingerprint_def Let_def)

text \<open>Either entry point: a fresh connection for the resolved device, bound to the resolved key.\<close>

definition admitted :: "runtime \<Rightarrow> factory \<Rightarrow> bytes \<Rightarrow> peer \<Rightarrow> bool" where
  "admitted rt f v p \<longleftrightarrow>
     (\<exists>t k c l. resolve_device rt (fa_trusted f) (fa_account f) v = Inr (t, k) \<and>
        fst (bind_admitted rt \<lparr>ti_device = td_device t, ti_public = k\<rparr>
          \<lparr>pc_conn = Some c, pc_local = l, pc_device = td_device t, pc_fingerprint = [], pc_closed = False\<rparr>) = Inr p)"

lemma admittedI:
  assumes "resolve_identities rt f v = Inr (local, remote)"
    and "p0 = \<lparr>pc_conn = Some c, pc_local = l, pc_device = ti_device remote, pc_fingerprint = [], pc_closed = False\<rparr>"
    and "fst (bind_admitted rt remote p0) = Inr p"
  shows "admitted rt f v p"
  using resolve_identities_Inr [OF assms(1)] assms(2,3) unfolding admitted_def by (cases remote) fastforce

lemma factory_dial_admitted:
  assumes "factory_dial rt env f ctx address timeout dialed v = Inr p"
  shows "admitted rt f v p"
proof -
  from assms obtain local remote p0 where id: "resolve_identities rt f v = Inr (local, remote)"
    and dial: "dial_secure_peer rt env ctx address timeout dialed local remote = Inr p0"
    and bind: "fst (bind_admitted rt remote p0) = Inr p"
    by (auto simp: factory_dial_def result_iff)
  from dial_Inr [OF dial] obtain c where
    "p0 = \<lparr>pc_conn = Some c, pc_local = si_device local, pc_device = ti_device remote, pc_fingerprint = [], pc_closed = False\<rparr>"
    by blast
  with id bind show ?thesis by (blast intro: admittedI)
qed

lemma factory_accept_admitted:
  assumes "factory_accept rt env f ctx accepted timeout v = (Inr p, left)"
  shows "admitted rt f v p"
proof -
  from assms obtain local remote p0 c where id: "resolve_identities rt f v = Inr (local, remote)"
    and accept: "accept_secure_peer rt env ctx accepted timeout local remote = (Inr p0, c)"
    and bind: "fst (bind_admitted rt remote p0) = Inr p"
    by (auto simp: factory_accept_def split: sum.splits prod.splits)
  from accept_Inr [OF accept] obtain c where
    "p0 = \<lparr>pc_conn = Some c, pc_local = si_device local, pc_device = ti_device remote, pc_fingerprint = [], pc_closed = False\<rparr>"
    by blast
  with id bind show ?thesis by (blast intro: admittedI)
qed

text \<open>A source wrapped by the trust check breaks off unless every check finds trust current.\<close>

lemma revalidate_error: "revalidate_peer rt f p = (Inl e, p') \<Longrightarrow> e \<noteq> ErrEOF"
  by (auto simp: revalidate_peer_def Let_def split: if_splits sum.splits)

lemma current_trust_reader_ok:
  "rd_end (current_trust_reader rt f (Some q) plan r) \<in> {Eof, Broken ErrEOF} \<Longrightarrow>
     current_trust_reader rt f (Some q) plan r = r \<and> (\<forall>(n, s) \<in> set plan. current rt f s q)"
proof (induction plan arbitrary: r)
  case (Cons step plan)
  obtain n s where step: "step = (n, s)" by fastforce
  have account: "current rt (f\<lparr>fa_trusted := s\<rparr>) s' q = current rt f s' q" for s' by (simp add: current_def)
  show ?case
  proof (cases rule: revalidate_cases [of "Some q" rt "f\<lparr>fa_trusted := s\<rparr>"])
    case (current q')
    let ?r = "r\<lparr>rd_bytes := drop n (rd_bytes r)\<rparr>"
    have "rd_end (current_trust_reader rt f (Some q) plan ?r) \<in> {Eof, Broken ErrEOF}"
      using Cons.prems current(3) step by (simp add: Let_def)
    from Cons.IH [OF this] current step account show ?thesis by (auto simp: Let_def)
  next
    case (lapsed e)
    with Cons.prems revalidate_error [OF lapsed(1)] step show ?thesis by simp
  qed
qed simp

lemma current_other_store [simp]: "current rt (f\<lparr>fa_trusted := s'\<rparr>) s q = current rt f s q"
  by (simp add: current_def)

lemma current_on_conn [simp]: "current rt f s (q\<lparr>pc_conn := c\<rparr>) = current rt f s q"
  by (simp add: current_def)

lemma revalidate_on_conn:
  "revalidate_peer rt (f\<lparr>fa_trusted := s\<rparr>) (on_conn q c) = (Inr (), p') \<Longrightarrow> current rt f s q"
  by (auto simp: revalidate_Inr on_conn_def)

lemma factory_send_ok:
  assumes "factory_send rt tc f p offer source reads last_store = (Inr receipt, p')"
  shows "\<exists>q src. p = Some q \<and> source = Some src \<and> current rt f (fa_trusted f) q \<and> current rt f last_store q \<and>
    (\<forall>(n, s) \<in> set reads. current rt f s q) \<and> receipt = verified_payload_receipt offer \<and>
    verify_payload rt (po_manifest offer) (Some src) = Inr ()"
proof -
  from assms obtain q src p1 where q: "p = Some q" "source = Some src" "current rt f (fa_trusted f) q"
    and send: "send_transfer_payload rt tc (Some q) offer (Some (current_trust_reader rt f (Some q) reads src)) = (Inr receipt, p1)"
    and stop: "revalidate_peer rt (f\<lparr>fa_trusted := last_store\<rparr>) p1 = (Inr (), p')"
    by (auto simp: factory_send_def revalidate_Inr split: option.splits sum.splits prod.splits)
  from send_transfer_ok [OF send] obtain c where receipt: "receipt = verified_payload_receipt offer" "p1 = on_conn q c"
    and verify: "verify_payload rt (po_manifest offer) (Some (current_trust_reader rt f (Some q) reads src)) = Inr ()" by blast
  from verify_payload_Inr [OF verify] have "current_trust_reader rt f (Some q) reads src = src"
    "\<forall>(n, s) \<in> set reads. current rt f s q" using current_trust_reader_ok by blast+
  with q receipt verify revalidate_on_conn [OF stop [unfolded receipt]] show ?thesis by auto
qed

lemma factory_receive_ok:
  assumes "factory_receive rt tc f p (Some authorize) (Some dest) at_offer writes last_store = (got, Inr receipt, p', left)"
  shows "\<exists>q offer dest' s. p = Some q \<and> got = Some offer \<and> left = Some dest' \<and> current rt f (fa_trusted f) q \<and>
    current rt f at_offer q \<and> current rt f last_store q \<and> fst (authorize offer) = Inr () \<and>
    receipt = verified_payload_receipt offer \<and> wr_bytes dest' = wr_bytes dest @ s \<and>
    verify_payload rt (po_manifest offer) (Some \<lparr>rd_bytes = s, rd_end = Eof\<rparr>) = Inr ()"
proof -
  from assms obtain q p1 where q: "p = Some q" "current rt f (fa_trusted f) q"
    and receive: "receive_transfer_payload rt tc (Some q) (Some (guarded_authorize rt f (Some q) at_offer authorize))
      (Some (current_trust_writer rt f (Some q) writes dest)) = (got, Inr receipt, p1, left)"
    and stop: "revalidate_peer rt (f\<lparr>fa_trusted := last_store\<rparr>) p1 = (Inr (), p')"
    by (auto simp: factory_receive_def revalidate_Inr split: option.splits sum.splits prod.splits)
  from receive_transfer_ok [OF receive] obtain offer dest' s c where
    got: "got = Some offer" "left = Some dest'" "p1 = on_conn q c"
      "fst (guarded_authorize rt f (Some q) at_offer authorize offer) = Inr ()"
      "receipt = verified_payload_receipt offer"
      "wr_bytes dest' = wr_bytes (current_trust_writer rt f (Some q) writes dest) @ s"
      "verify_payload rt (po_manifest offer) (Some \<lparr>rd_bytes = s, rd_end = Eof\<rparr>) = Inr ()" by blast
  have "current rt f at_offer q \<and> fst (authorize offer) = Inr ()"
    by (rule revalidate_cases [of "Some q" rt "f\<lparr>fa_trusted := at_offer\<rparr>"]) (use got(4) in \<open>auto simp: guarded_authorize_def\<close>)
  with q got revalidate_on_conn [OF stop [unfolded got]] show ?thesis
    by (auto simp: current_trust_writer_def)
qed

section \<open>Properties\<close>

text \<open>
  A connection the factory hands out, dialed or accepted, is bound to the device that was asked
  for and to the key the registry's history grants it, and passes revalidation at once: the
  text of the fingerprint that is bound is the one the registry compares.
\<close>

theorem admitted_peer_is_current:
  assumes "trust_trace rt es (fa_trusted f)"
    and "factory_dial rt env f ctx address timeout dialed v = Inr p \<or>
      factory_accept rt env f ctx accepted timeout v = (Inr p, left)"
  shows "pc_device p = v \<and> history_key (fa_account f) v es = Some (pc_fingerprint p) \<and>
    revalidate_peer rt f (Some p) = (Inr (), Some p)"
proof -
  from assms(2) have "admitted rt f v p"
    using factory_dial_admitted factory_accept_admitted by blast
  then obtain t k c l where t: "resolve_device rt (fa_trusted f) (fa_account f) v = Inr (t, k)"
    and bind: "fst (bind_admitted rt \<lparr>ti_device = td_device t, ti_public = k\<rparr>
          \<lparr>pc_conn = Some c, pc_local = l, pc_device = td_device t, pc_fingerprint = [], pc_closed = False\<rparr>) = Inr p"
    unfolding admitted_def by blast
  note trusted = resolve_device_trusted [OF assms(1) t]
  then have "v \<noteq> []" using is_trusted_True [OF conjunct1 [OF trusted]] by (auto simp: valid_device_id_def)
  with bind trusted have p: "pc_device p = v" "pc_fingerprint p = fingerprint rt k"
    by (auto simp: bind_admitted_fresh)
  obtain ds where ds: "registry_ok rt (fa_trusted f) ds" "\<forall>a v. trusted_key ds a v = history_key a v es"
    using trust_trace_view [OF assms(1)] by blast
  with trusted p show ?thesis
    by (simp add: revalidate_Inr current_def) (simp add: is_trusted_key [OF ds(1)])
qed

text \<open>
  Revalidation follows the registry: it lets a connection through exactly while the last event
  in the history of its account and device authorized the key it is bound to, leaves it alone
  then, and closes it otherwise.
\<close>

theorem revalidation_follows_registry:
  assumes "trust_trace rt es (fa_trusted f)" and "pc_conn q \<noteq> None"
  shows "if fa_account f \<noteq> [] \<and> valid_device_id (pc_device q) \<and> pc_fingerprint q \<noteq> [] \<and>
        history_key (fa_account f) (pc_device q) es = Some (pc_fingerprint q)
      then revalidate_peer rt f (Some q) = (Inr (), Some q)
      else \<exists>e p'. revalidate_peer rt f (Some q) = (Inl e, p') \<and> is_closed p' \<and> written p' = peer_written q"
proof -
  obtain ds where ds: "registry_ok rt (fa_trusted f) ds" "\<forall>a v. trusted_key ds a v = history_key a v es"
    using trust_trace_view [OF assms(1)] by blast
  then have current: "current rt f (fa_trusted f) q \<longleftrightarrow> fa_account f \<noteq> [] \<and> valid_device_id (pc_device q) \<and>
      pc_fingerprint q \<noteq> [] \<and> history_key (fa_account f) (pc_device q) es = Some (pc_fingerprint q)"
    by (auto simp: current_def is_trusted_key [OF ds(1)])
  show ?thesis
  proof (cases rule: revalidate_cases [of "Some q" rt f])
    case (current q')
    then show ?thesis using \<open>current rt f (fa_trusted f) q \<longleftrightarrow> _\<close> by simp
  next
    case (lapsed e)
    with close_peer_closes [OF assms(2)] \<open>current rt f (fa_trusted f) q \<longleftrightarrow> _\<close> show ?thesis by auto
  qed
qed

text \<open>
  C23. Revoking a device between two operations of a sequence stops it there: when, after the
  operations that ran, the registry is what a successful revocation of the connection's
  device left, none of the remaining operations is run; the sequence fails with the registry
  as it is and the connection closed, and nothing more is written.
\<close>

theorem revoked_between_operations:
  assumes "run_operations rt f p done_ops = (Inr (), f1, Some q)" and "pc_conn q \<noteq> None"
    and "trust_trace rt es s" and "revoke_device rt s (fa_account f) (pc_device q) now ok = (Inr t, fa_trusted f1)"
    and "later \<noteq> []" and "None \<notin> set (done_ops @ later)" and "length (done_ops @ later) \<le> 64"
  shows "\<exists>e p'. run_operation_sequence rt f p (done_ops @ later) = (Inl e, f1, p') \<and> is_closed p' \<and>
    written p' = peer_written q"
proof -
  obtain ds where "registry_ok rt s ds" using trust_trace_view [OF assms(3)] by blast
  then have "is_trusted rt (fa_trusted f1) (fa_account f) (pc_device q) (pc_fingerprint q) \<noteq> Inr True"
    using reg.revoked_not_trusted [OF _ assms(4)] by blast
  then have "\<not> current rt f1 (fa_trusted f1) q"
    using run_operations_account [OF assms(1)] by (simp add: current_def)
  from run_stops [OF this _ assms(5)] assms(6)
  obtain e where "run_operations rt f1 (Some q) later = (Inl e, f1, snd (close_peer (Some q)))" by auto
  moreover have "is_closed (snd (close_peer (Some q)))" "written (snd (close_peer (Some q))) = peer_written q"
    using close_peer_closes [OF assms(2)] by simp_all
  ultimately show ?thesis
    using assms(1,5-7)
    by (simp add: run_operation_sequence_def run_operations_append max_operation_sequence_def not_less [symmetric])
qed

text \<open>
  C28. A guarded transfer that succeeds did so under trust: at its start, at every read of the
  source or at the authorization of the offer, and at its end, the registry trusted the
  connection's device with its key; and the payload verifies as in an unguarded transfer.
\<close>

theorem guarded_transfer_trusted:
  "(\<forall>receipt p'. factory_send rt tc f p offer source reads last_store = (Inr receipt, p') \<longrightarrow>
     (\<exists>q src. p = Some q \<and> source = Some src \<and>
        (\<forall>s \<in> {fa_trusted f, last_store} \<union> snd ` set reads.
           is_trusted rt s (fa_account f) (pc_device q) (pc_fingerprint q) = Inr True) \<and>
        receipt = verified_payload_receipt offer \<and> verify_payload rt (po_manifest offer) (Some src) = Inr ())) \<and>
   (\<forall>got receipt p' left.
     factory_receive rt tc f p (Some authorize) (Some dest) at_offer writes last_store = (got, Inr receipt, p', left) \<longrightarrow>
     (\<exists>q offer dest' s. p = Some q \<and> got = Some offer \<and> left = Some dest' \<and>
        (\<forall>s \<in> {fa_trusted f, at_offer, last_store}.
           is_trusted rt s (fa_account f) (pc_device q) (pc_fingerprint q) = Inr True) \<and>
        fst (authorize offer) = Inr () \<and> wr_bytes dest' = wr_bytes dest @ s \<and>
        verify_payload rt (po_manifest offer) (Some \<lparr>rd_bytes = s, rd_end = Eof\<rparr>) = Inr ()))"
proof (intro conjI allI impI)
  fix receipt p' assume "factory_send rt tc f p offer source reads last_store = (Inr receipt, p')"
  from factory_send_ok [OF this] obtain q src where "p = Some q" "source = Some src"
    "current rt f (fa_trusted f) q" "current rt f last_store q" "\<forall>(n, s) \<in> set reads. current rt f s q"
    "receipt = verified_payload_receipt offer" "verify_payload rt (po_manifest offer) (Some src) = Inr ()" by blast
  then show "\<exists>q src. p = Some q \<and> source = Some src \<and>
      (\<forall>s \<in> {fa_trusted f, last_store} \<union> snd ` set reads.
         is_trusted rt s (fa_account f) (pc_device q) (pc_fingerprint q) = Inr True) \<and>
      receipt = verified_payload_receipt offer \<and> verify_payload rt (po_manifest offer) (Some src) = Inr ()"
    by (auto simp: current_def)
next
  fix got receipt p' left
  assume "factory_receive rt tc f p (Some authorize) (Some dest) at_offer writes last_store = (got, Inr receipt, p', left)"
  from factory_receive_ok [OF this] show "\<exists>q offer dest' s. p = Some q \<and> got = Some offer \<and> left = Some dest' \<and>
      (\<forall>s \<in> {fa_trusted f, at_offer, last_store}.
         is_trusted rt s (fa_account f) (pc_device q) (pc_fingerprint q) = Inr True) \<and>
      fst (authorize offer) = Inr () \<and> wr_bytes dest' = wr_bytes dest @ s \<and>
      verify_payload rt (po_manifest offer) (Some \<lparr>rd_bytes = s, rd_end = Eof\<rparr>) = Inr ()"
    unfolding current_def by blast
qed

section \<open>Witnesses\<close>

text \<open>An account with one authorized device, whose key the factory also holds as its own.\<close>

definition sample_bound :: peer where
  "sample_bound = (sample_link [])\<lparr>pc_fingerprint := fingerprint sample_runtime sample_public\<rparr>"

lemma sample_factory:
  obtains f where "trust_trace sample_runtime [Authorized ''acct'' sample_verified] (fa_trusted f)"
    "fa_account f = ''acct''"
    "resolve_identities sample_runtime f sample_device = Inr (sample_local, sample_expected)"
    "current sample_runtime f (fa_trusted f) sample_bound"
proof -
  obtain s where s: "trust_trace sample_runtime [Authorized ''acct'' sample_verified] s"
    using sample_trust_trace by blast
  obtain ds where ds: "registry_ok sample_runtime s ds"
    "\<forall>a v. trusted_key ds a v = history_key a v [Authorized ''acct'' sample_verified]"
    using trust_trace_view [OF s] by blast
  have trusted: "is_trusted sample_runtime s ''acct'' sample_device (fingerprint sample_runtime sample_public) = Inr True"
    by (simp add: is_trusted_key [OF ds(1)] ds(2) sample_verified_def)
  with resolve_matches_trust [OF s] obtain t k where t: "resolve_device sample_runtime s ''acct'' sample_device = Inr (t, k)"
    "length k = 32" "fingerprint sample_runtime sample_public = fingerprint sample_runtime k" by blast
  have "length sample_public = 32" by (simp add: key_sizes)
  with t(2,3) have "k = sample_public"
    by (simp add: fingerprint_def sample_runtime_def pad32_id)
  have "td_device t = sample_device" using resolve_device_trusted [OF s t(1)] by simp
  obtain stored keys where "save_device_key sample_runtime (Some sample_key_store) sample_device sample_public
      sample_private 5 True = (Inr stored, keys)" using sample_save by blast
  from save_device_key_holds [OF this] have keys: "holds_key sample_runtime keys stored sample_private"
    "sk_device stored = sample_device" "good_protector keys" using sample_protector_good by auto
  then have "load_device_key sample_runtime keys = Inr (stored, sample_private)" by (intro holds_key_load)
  moreover have "keys \<noteq> None" "s \<noteq> None"
    using keys(1) is_trusted_True [OF trusted] by (auto simp: holds_key_def)
  ultimately have "resolve_identities sample_runtime \<lparr>fa_account = ''acct'', fa_keys = keys, fa_trusted = s\<rparr> sample_device =
      Inr (sample_local, sample_expected)"
    using t(1) \<open>k = sample_public\<close> \<open>td_device t = sample_device\<close> keys(2)
    by (simp add: resolve_identities_def sample_local_def sample_expected_def)
  with s trusted that [of "\<lparr>fa_account = ''acct'', fa_keys = keys, fa_trusted = s\<rparr>"] show ?thesis
    by (simp add: current_def sample_bound_def)
qed

theorem admitted_peer_is_current_witness:
  "\<exists>f p left. factory_accept sample_runtime sample_tls f True (Some (sample_conn [])) 1 sample_device = (Inr p, left) \<and>
     revalidate_peer sample_runtime f (Some p) = (Inr (), Some p)"
proof (rule sample_factory)
  fix f :: factory assume f: "trust_trace sample_runtime [Authorized ''acct'' sample_verified] (fa_trusted f)"
    "resolve_identities sample_runtime f sample_device = Inr (sample_local, sample_expected)"
  obtain p0 c where accept: "accept_secure_peer sample_runtime sample_tls True (Some (sample_conn [])) 1 sample_local
      sample_expected = (Inr p0, c)" using sample_accept by blast
  from accept_Inr [OF this] have "pc_fingerprint p0 = []" "pc_device p0 \<noteq> []" "pc_conn p0 \<noteq> None" "\<not> pc_closed p0"
    by (auto simp: sample_expected_def sample_device_def)
  from bind_admitted_fresh [OF this] obtain p left where
    run: "factory_accept sample_runtime sample_tls f True (Some (sample_conn [])) 1 sample_device = (Inr p, left)"
    using accept f(2) by (simp add: factory_accept_def)
  from admitted_peer_is_current [OF f(1) disjI2, OF run] run show ?thesis by blast
qed

theorem revalidation_follows_registry_witness:
  "\<exists>f. revalidate_peer sample_runtime f (Some sample_bound) = (Inr (), Some sample_bound)"
proof (rule sample_factory)
  fix f :: factory assume f: "trust_trace sample_runtime [Authorized ''acct'' sample_verified] (fa_trusted f)" "fa_account f = ''acct''"
  have "pc_conn sample_bound \<noteq> None" by (simp add: sample_bound_def)
  from revalidation_follows_registry [OF f(1) this] f(2) show ?thesis
    by (auto simp: sample_bound_def sample_verified_def)
qed

definition revoking :: operation where
  "revoking s p = (case revoke_device sample_runtime s ''acct'' sample_device 9 True of (_, s') \<Rightarrow> (Inr (), s', p))"

lemma sample_revoke:
  assumes "trust_trace sample_runtime [Authorized ''acct'' sample_verified] s"
  shows "\<exists>t s'. revoke_device sample_runtime s ''acct'' sample_device 9 True = (Inr t, s')"
proof -
  obtain ds where ds: "registry_ok sample_runtime s ds"
    "\<forall>a v. trusted_key ds a v = history_key a v [Authorized ''acct'' sample_verified]"
    using trust_trace_view [OF assms] by blast
  have "trusted_key ds ''acct'' sample_device = Some (fingerprint sample_runtime sample_public)"
    using ds(2) by (simp add: sample_verified_def)
  then obtain i where "device_index ''acct'' sample_device ds = Some i"
    by (auto simp: trusted_key_def device_at_def split: option.splits)
  then show ?thesis
    using ds(1) by (auto simp: registry_ok_def revoke_device_def write_trusted_def Let_def)
qed

theorem revoked_between_operations_witness:
  "\<exists>f e f1 p'. run_operation_sequence sample_runtime f (Some sample_bound) [Some revoking, Some revoking] = (Inl e, f1, p') \<and>
     is_closed p'"
proof (rule sample_factory)
  fix f :: factory assume f: "trust_trace sample_runtime [Authorized ''acct'' sample_verified] (fa_trusted f)" "fa_account f = ''acct''"
    "current sample_runtime f (fa_trusted f) sample_bound"
  obtain t s' where revoke: "revoke_device sample_runtime (fa_trusted f) ''acct'' sample_device 9 True = (Inr t, s')"
    using sample_revoke [OF f(1)] by blast
  have first: "run_operations sample_runtime f (Some sample_bound) [Some revoking] =
      (Inr (), f\<lparr>fa_trusted := s'\<rparr>, Some sample_bound)"
    using f(3) revoke
    by (rule_tac revalidate_cases [of "Some sample_bound" sample_runtime f])
      (auto simp: run_with_current_trust_def revoking_def)
  have "pc_device sample_bound = sample_device" "pc_conn sample_bound \<noteq> None" by (simp_all add: sample_bound_def)
  with revoked_between_operations [OF first _ f(1), where now = 9 and ok = True and t = t and later = "[Some revoking]"]
    revoke f(2)
  show ?thesis by (simp, blast)
qed

theorem guarded_transfer_trusted_witness:
  "\<exists>f q p'. factory_send sample_runtime sample_codecs f (Some q) sample_offer (Some sample_source)
      [(4, fa_trusted f), (8, fa_trusted f)] (fa_trusted f) = (Inr (verified_payload_receipt sample_offer), p') \<and>
     is_trusted sample_runtime (fa_trusted f) (fa_account f) (pc_device q) (pc_fingerprint q) = Inr True"
proof (rule sample_factory)
  fix f :: factory assume f: "current sample_runtime f (fa_trusted f) sample_bound"
  have "trusted_peer sample_bound"
    by (simp add: trusted_peer_def sample_bound_def sample_conn_def sample_device_def open_writer_def)
  then show ?thesis
  proof (rule sample_dialogue)
    fix b p'
    let ?q = "with_input sample_bound b Eof"
    assume send: "send_transfer_payload sample_runtime sample_codecs (Some ?q) sample_offer (Some sample_source) =
      (Inr (verified_payload_receipt sample_offer), p')"
    have q: "current sample_runtime f (fa_trusted f) ?q" using f by (simp add: current_def with_input_def)
    then have ok: "revalidate_peer sample_runtime f (Some ?q) = (Inr (), Some ?q)" by (simp add: revalidate_Inr)
    have "\<exists>c. p' = on_conn ?q c" using send_transfer_ok [OF send] by blast
    with q have last: "revalidate_peer sample_runtime f p' = (Inr (), p')" by (auto simp: revalidate_Inr on_conn_def)
    have same: "f\<lparr>fa_trusted := fa_trusted f\<rparr> = f" by simp
    have "current_trust_reader sample_runtime f (Some ?q) [(4, fa_trusted f), (8, fa_trusted f)] sample_source = sample_source"
      by (simp add: same ok)
    with ok last send have run: "factory_send sample_runtime sample_codecs f (Some ?q) sample_offer (Some sample_source)
        [(4, fa_trusted f), (8, fa_trusted f)] (fa_trusted f) = (Inr (verified_payload_receipt sample_offer), p')"
      by (simp add: factory_send_def same)
    with guarded_transfer_trusted show ?thesis by blast
  qed
qed

end
