(* ===== verification/File_Paths.thy ===== *)
theory File_Paths
  imports Go_Text
begin

text \<open>
  The lexical functions of \<open>path/filepath\<close> that the program calls, on Unix: \<open>Clean\<close>, \<open>Join\<close>,
  \<open>Rel\<close>, \<open>Dir\<close> and \<open>IsAbs\<close>, with the facts about leaf names below a root.
\<close>

section \<open>The functions\<close>

text \<open>\<open>strings.Split\<close> at \<open>/\<close>, and \<open>strings.Join\<close> with it.\<close>

fun split_slash :: "bytes \<Rightarrow> bytes list" where
  "split_slash [] = [[]]"
| "split_slash (c # s) =
     (if c = CHR ''/'' then [] # split_slash s
      else case split_slash s of [] \<Rightarrow> [[c]] | w # ws \<Rightarrow> (c # w) # ws)"

fun join_slash :: "bytes list \<Rightarrow> bytes" where
  "join_slash [] = []"
| "join_slash [w] = w"
| "join_slash (w # ws) = w @ CHR ''/'' # join_slash ws"

definition is_abs :: "bytes \<Rightarrow> bool" where
  "is_abs s \<longleftrightarrow> starts_with s ''/''"

text \<open>The elements of \<open>filepath.Clean\<close>: the second argument is the result so far, last first.\<close>

fun clean_elements :: "bool \<Rightarrow> bytes list \<Rightarrow> bytes list \<Rightarrow> bytes list" where
  "clean_elements rooted acc [] = rev acc"
| "clean_elements rooted acc (w # ws) =
     (if w = [] \<or> w = ''.'' then clean_elements rooted acc ws
      else if w = ''..'' then
        (case acc of
           [] \<Rightarrow> clean_elements rooted (if rooted then [] else [w]) ws
         | a # acc' \<Rightarrow> clean_elements rooted (if a = ''..'' then w # acc else acc') ws)
      else clean_elements rooted (w # acc) ws)"

definition elements :: "bytes \<Rightarrow> bytes list" where
  "elements s = clean_elements (is_abs s) [] (split_slash s)"

definition clean_path :: "bytes \<Rightarrow> bytes" where
  "clean_path s =
     (if is_abs s then CHR ''/'' # join_slash (elements s)
      else if elements s = [] then ''.'' else join_slash (elements s))"

text \<open>\<open>filepath.Join\<close> of two elements.\<close>

definition join_path :: "bytes \<Rightarrow> bytes \<Rightarrow> bytes" where
  "join_path a b =
     (if a = [] \<and> b = [] then [] else if a = [] then clean_path b
      else clean_path (a @ CHR ''/'' # b))"

text \<open>\<open>filepath.Rel\<close>, on the elements behind the common ones.\<close>

fun strip_common :: "bytes list \<Rightarrow> bytes list \<Rightarrow> bytes list \<times> bytes list" where
  "strip_common (a # as) (b # bs) = (if a = b then strip_common as bs else (a # as, b # bs))"
| "strip_common as bs = (as, bs)"

definition rel_path :: "bytes \<Rightarrow> bytes \<Rightarrow> bytes result" where
  "rel_path base target =
     (if clean_path target = clean_path base then Inr ''.''
      else if is_abs base \<noteq> is_abs target then Inl (Msg ''Rel: can't make target relative to base'')
      else case strip_common (elements base) (elements target) of
        (as, bs) \<Rightarrow>
          if as \<noteq> [] \<and> hd as = ''..'' then Inl (Msg ''Rel: can't make target relative to base'')
          else Inr (join_slash (map (\<lambda>_. ''..'') as @ bs)))"

text \<open>\<open>filepath.Dir\<close>: what precedes the last separator, cleaned.\<close>

definition dir_of :: "bytes \<Rightarrow> bytes" where
  "dir_of s = clean_path (rev (dropWhile (\<lambda>c. c \<noteq> CHR ''/'') (rev s)))"

section \<open>Facts about paths\<close>

lemma split_slash_not_Nil [simp]: "split_slash s \<noteq> []"
  by (induction s) (auto split: list.splits)

lemma split_slash_append: "split_slash (a @ CHR ''/'' # b) = split_slash a @ split_slash b"
  by (induction a) (auto split: list.splits)

lemma split_slash_plain: "CHR ''/'' \<notin> set s \<Longrightarrow> split_slash s = [s]"
  by (induction s) auto

lemma split_slash_plain_elements: "w \<in> set (split_slash s) \<Longrightarrow> CHR ''/'' \<notin> set w"
  by (induction s arbitrary: w) (auto split: list.splits if_splits)

lemma split_join_slash: "ws \<noteq> [] \<Longrightarrow> \<forall>w \<in> set ws. CHR ''/'' \<notin> set w \<Longrightarrow> split_slash (join_slash ws) = ws"
  by (induction ws rule: join_slash.induct) (auto simp: split_slash_append split_slash_plain)

definition ordinary :: "bytes \<Rightarrow> bool" where
  "ordinary w \<longleftrightarrow> w \<noteq> [] \<and> w \<noteq> ''.'' \<and> w \<noteq> ''..'' \<and> CHR ''/'' \<notin> set w"

lemma clean_elements_append:
  "clean_elements r acc (xs @ ys) = clean_elements r (rev (clean_elements r acc xs)) ys"
  by (induction r acc xs rule: clean_elements.induct) (auto split: list.splits)

lemma clean_elements_ordinary: "\<forall>w \<in> set ws. ordinary w \<Longrightarrow> clean_elements r acc ws = rev acc @ ws"
  by (induction ws arbitrary: acc) (auto simp: ordinary_def)

text \<open>Below the root directory nothing but ordinary names is left.\<close>

lemma rooted_elements_ordinary:
  "\<forall>w \<in> set acc. ordinary w \<Longrightarrow> \<forall>w \<in> set ws. CHR ''/'' \<notin> set w \<Longrightarrow>
     \<forall>w \<in> set (clean_elements True acc ws). ordinary w"
proof (induction ws arbitrary: acc)
  case (Cons w ws)
  consider "w = [] \<or> w = ''.''" | "w = ''..''" | "ordinary w"
    using Cons.prems(2) by (auto simp: ordinary_def)
  then show ?case
  proof cases
    case 1
    with Cons.IH [of acc] Cons.prems show ?thesis by auto
  next
    case 2
    show ?thesis
    proof (cases acc)
      case Nil
      with 2 Cons.IH [of "[]"] Cons.prems show ?thesis by simp
    next
      case (Cons a acc')
      then have "a \<noteq> ''..''" using Cons.prems(1) by (simp add: ordinary_def)
      with 2 Cons Cons.IH [of acc'] Cons.prems show ?thesis by simp
    qed
  next
    case 3
    then have step: "clean_elements True acc (w # ws) = clean_elements True (w # acc) ws" by (simp add: ordinary_def)
    have "\<forall>v \<in> set (w # acc). ordinary v" "\<forall>v \<in> set ws. CHR ''/'' \<notin> set v" using 3 Cons.prems by simp_all
    then show ?thesis unfolding step by (rule Cons.IH)
  qed
qed simp

lemma elements_ordinary: "is_abs s \<Longrightarrow> \<forall>w \<in> set (elements s). ordinary w"
proof -
  assume "is_abs s"
  then have "elements s = clean_elements True [] (split_slash s)" by (simp add: elements_def)
  moreover have "\<forall>w \<in> set (split_slash s). CHR ''/'' \<notin> set w" using split_slash_plain_elements by blast
  then have "\<forall>w \<in> set (clean_elements True [] (split_slash s)). ordinary w"
    by (rule rooted_elements_ordinary [rotated]) simp
  ultimately show ?thesis by (simp only:)
qed

lemma is_abs_Cons [simp]: "is_abs (c # s) \<longleftrightarrow> c = CHR ''/''"
  by (simp add: is_abs_def starts_with_def)

lemma elements_absolute:
  "\<forall>w \<in> set ws. ordinary w \<Longrightarrow> elements (CHR ''/'' # join_slash ws) = ws"
  by (cases "ws = []") (auto simp: elements_def split_join_slash ordinary_def clean_elements_ordinary)

lemma strip_common_append: "strip_common ws (ws @ vs) = ([], vs)"
  by (induction ws) (cases vs; simp)+

lemma join_slash_snoc_longer: "w \<noteq> [] \<Longrightarrow> length (join_slash ws) < length (join_slash (ws @ [w]))"
  by (induction ws rule: join_slash.induct) auto

text \<open>A leaf name resolves, below an absolute root, to the file of that name in the root.\<close>

lemma join_path_leaf:
  assumes "is_abs root" and "ordinary name"
  shows "join_path root name = CHR ''/'' # join_slash (elements root @ [name])"
proof -
  obtain t where root: "root = CHR ''/'' # t" using assms(1) by (cases root) (auto simp: is_abs_def starts_with_def)
  have "elements (root @ CHR ''/'' # name) = elements root @ [name]"
    using assms(2) by (simp add: elements_def root split_slash_append split_slash_plain clean_elements_append ordinary_def)
  then show ?thesis by (simp add: join_path_def clean_path_def root)
qed

lemma dir_of_examples:
  "dir_of ''store.json'' = ''.''" "dir_of ''/var/sync/store.json'' = ''/var/sync''" "dir_of ''/store.json'' = ''/''"
  by code_simp+

end
