(* ===== verification/Publication.thy ===== *)
theory Publication
  imports Payload_Protocol File_Paths
begin

text \<open>
  Publication of a received payload into a local directory (\<open>app/payload_publication.go\<close>): the
  canonical root, on the paths of \<open>File_Paths\<close>, and the publication itself, which re-verifies the staged bytes into a temporary file and links that
  to its final name. The directory is the map from the names in it to their contents; the
  outcomes of the system calls are arguments.
\<close>

section \<open>Publishers\<close>

abbreviation ErrPayloadPublicationAuthorizationDenied :: go_error where
  "ErrPayloadPublicationAuthorizationDenied \<equiv> Sentinel ''payload publication authorization denied''"
abbreviation ErrPayloadDestinationExists :: go_error where
  "ErrPayloadDestinationExists \<equiv> Sentinel ''payload destination already exists''"

record publication_request =
  pq_destination :: bytes
  pq_transfer_id :: bytes
  pq_kind :: bytes
  pq_filename :: bytes
  pq_size :: int
  pq_hash :: bytes

record published =
  pz_destination :: bytes
  pz_transfer_id :: bytes
  pz_filename :: bytes
  pz_size :: int
  pz_hash :: bytes

record publisher =
  pb_destination :: bytes
  pb_root :: bytes
  pb_authorize :: "(publication_request \<Rightarrow> unit result) option"

text \<open>
  What the operating system says of paths: the absolute form, the target of the symbolic
  links, and whether a path is a directory. A destination identifier is checked for control
  characters rune by rune, which is an argument too.
\<close>

record path_env =
  px_abs :: "bytes \<Rightarrow> bytes result"
  px_symlinks :: "bytes \<Rightarrow> bytes result"
  px_is_dir :: "bytes \<Rightarrow> bool result"

definition canonical_root :: "path_env \<Rightarrow> bytes \<Rightarrow> bytes result" where
  "canonical_root px root =
     (if is_blank root then Inl (Msg ''publication root must not be empty'')
      else and_then (wrap_error ''resolve publication root'' (px_abs px root)) (\<lambda>absolute.
        and_then (wrap_error ''resolve publication root symlinks'' (px_symlinks px absolute)) (\<lambda>canonical.
          and_then (wrap_error ''stat publication root'' (px_is_dir px canonical)) (\<lambda>dir.
            if \<not> dir then Inl (Msg ''publication root must be a directory'')
            else Inr (clean_path canonical)))))"

text \<open>
  \<open>unicode.IsControl\<close>: U+0000 to U+001F and U+007F, one byte each in UTF-8, and U+0080 to
  U+009F, the byte 0xC2 followed by one from 0x80 to 0x9F.
\<close>

fun has_control :: "bytes \<Rightarrow> bool" where
  "has_control [] = False"
| "has_control (c # s) =
     ((of_char c :: nat) < 32 \<or> (of_char c :: nat) = 127 \<or>
      (c = CHR 0xC2 \<and> (case s of [] \<Rightarrow> False | d # _ \<Rightarrow> 128 \<le> (of_char d :: nat) \<and> (of_char d :: nat) \<le> 159)) \<or>
      has_control s)"

definition validate_destination_id :: "bytes \<Rightarrow> unit result" where
  "validate_destination_id value =
     (if is_blank value then Inl (Msg ''destination ID must not be empty'')
      else if 256 < length value then Inl (Msg ''destination ID exceeds 256 bytes'')
      else if has_control value then Inl (Msg ''destination ID must not contain control characters'')
      else Inr ())"

definition new_publisher ::
  "path_env \<Rightarrow> bytes \<Rightarrow> bytes \<Rightarrow> (publication_request \<Rightarrow> unit result) option \<Rightarrow> publisher result" where
  "new_publisher px destination root authorize =
     and_then (validate_destination_id destination) (\<lambda>_.
       if authorize = None then Inl (Msg ''payload destination authorizer must not be nil'')
       else and_then (canonical_root px root) (\<lambda>canonical.
         Inr \<lparr>pb_destination = destination, pb_root = canonical, pb_authorize = authorize\<rparr>))"

definition revalidate_root :: "path_env \<Rightarrow> publisher \<Rightarrow> unit result" where
  "revalidate_root px p =
     and_then (canonical_root px (pb_root p)) (\<lambda>canonical.
       if canonical \<noteq> pb_root p
       then Inl (Msg ''authorized publication root changed after initialization'') else Inr ())"

definition target_for_filename :: "publisher \<Rightarrow> bytes \<Rightarrow> bytes result" where
  "target_for_filename p filename =
     (let target = join_path (pb_root p) filename in
      and_then (wrap_error ''resolve publication target'' (rel_path (pb_root p) target)) (\<lambda>relative.
        if relative = ''.'' \<or> is_abs relative \<or> starts_with relative ''../'' \<or> relative \<noteq> filename
        then Inl (Msg ''publication target escaped authorized destination root'')
        else Inr target))"

section \<open>Publication\<close>

text \<open>
  The outcomes of the system calls: the name of the temporary file, changing its mode, the
  writes of the copy (the error a write fails with once that many bytes are copied), what a
  failed copy leaves in the file, syncing, closing, linking (an error other than that the
  target exists), and removing. The root is checked before them, the link needs its target to
  be absent.
\<close>

record publish_env =
  pe_temp :: "bytes result"
  pe_chmod :: "unit result"
  pe_copy :: "(nat \<times> go_error) option"
  pe_partial :: bytes
  pe_sync :: "unit result"
  pe_close :: "unit result"
  pe_link :: "unit result"
  pe_remove :: "unit result"

type_synonym directory = "(bytes, bytes) gomap"

text \<open>\<open>io.TeeReader\<close> over the staged bytes: a read fails where the write to the file fails.\<close>

definition tee :: "(nat \<times> go_error) option \<Rightarrow> reader \<Rightarrow> reader" where
  "tee copy r =
     (case copy of
        None \<Rightarrow> r
      | Some (n, e) \<Rightarrow>
          if n < length (rd_bytes r) then \<lparr>rd_bytes = take n (rd_bytes r), rd_end = Broken e\<rparr> else r)"

definition publication_request_of :: "publisher \<Rightarrow> payload_offer \<Rightarrow> publication_request" where
  "publication_request_of p offer =
     \<lparr>pq_destination = pb_destination p, pq_transfer_id = po_transfer_id offer, pq_kind = po_kind offer,
      pq_filename = mf_filename (po_manifest offer), pq_size = mf_size (po_manifest offer),
      pq_hash = mf_hash (po_manifest offer)\<rparr>"

definition published_of :: "publisher \<Rightarrow> payload_offer \<Rightarrow> published" where
  "published_of p offer =
     \<lparr>pz_destination = pb_destination p, pz_transfer_id = po_transfer_id offer,
      pz_filename = mf_filename (po_manifest offer), pz_size = mf_size (po_manifest offer),
      pz_hash = mf_hash (po_manifest offer)\<rparr>"

text \<open>The deferred removal of the temporary file.\<close>

definition drop_temp :: "publish_env \<Rightarrow> bytes \<Rightarrow> directory \<Rightarrow> directory" where
  "drop_temp env temp dir = (if is_ok (pe_remove env) then map_del temp dir else dir)"

text \<open>
  From the creation of the temporary file on. The results are the publication (\<open>None\<close> for the
  zero value), the error and the directory; the name a file gets in the directory is the
  leaf name that \<open>target_for_filename\<close> checked.
\<close>

definition publish_file ::
  "runtime \<Rightarrow> publish_env \<Rightarrow> publisher \<Rightarrow> payload_offer \<Rightarrow> reader \<Rightarrow> directory \<Rightarrow>
     published option \<times> unit result \<times> directory" where
  "publish_file rt env p offer staged dir =
     (case pe_temp env of
        Inl e \<Rightarrow> (None, Inl (Wrap ''create publication temporary file'' e), dir)
      | Inr temp \<Rightarrow>
      (case pe_chmod env of
        Inl e \<Rightarrow> (None, Inl (Wrap ''secure publication temporary file'' e), drop_temp env temp (map_put temp [] dir))
      | Inr _ \<Rightarrow>
      (case verify_payload rt (po_manifest offer) (Some (tee (pe_copy env) staged)) of
        Inl e \<Rightarrow> (None, Inl (Wrap ''verify staged payload before publication'' e),
                   drop_temp env temp (map_put temp (pe_partial env) dir))
      | Inr _ \<Rightarrow>
      let copied = map_put temp (rd_bytes staged) dir in
      (case pe_sync env of
        Inl e \<Rightarrow> (None, Inl (Wrap ''sync verified publication temporary file'' e), drop_temp env temp copied)
      | Inr _ \<Rightarrow>
      (case pe_close env of
        Inl e \<Rightarrow> (None, Inl (Wrap ''close verified publication temporary file'' e), drop_temp env temp copied)
      | Inr _ \<Rightarrow>
      if map_of copied (mf_filename (po_manifest offer)) \<noteq> None
      then (None, Inl ErrPayloadDestinationExists, drop_temp env temp copied)
      else case pe_link env of
        Inl e \<Rightarrow> (None, Inl (Wrap ''publish verified payload'' e), drop_temp env temp copied)
      | Inr _ \<Rightarrow>
      let linked = map_put (mf_filename (po_manifest offer)) (rd_bytes staged) copied in
      (case pe_remove env of
        Inl e \<Rightarrow> (Some (published_of p offer), Inl (Wrap ''payload published but temporary cleanup failed'' e), linked)
      | Inr _ \<Rightarrow> (Some (published_of p offer), Inr (), map_del temp linked)))))))"

definition publish ::
  "runtime \<Rightarrow> path_env \<Rightarrow> publish_env \<Rightarrow> publisher option \<Rightarrow> payload_offer \<Rightarrow> payload_receipt \<Rightarrow>
     reader option \<Rightarrow> directory \<Rightarrow> published option \<times> unit result \<times> directory" where
  "publish rt px env pub offer receipt source dir =
     (case pub of
        None \<Rightarrow> (None, Inl (Msg ''payload publisher is not initialized''), dir)
      | Some p \<Rightarrow>
      (case pb_authorize p of
        None \<Rightarrow> (None, Inl (Msg ''payload publisher is not initialized''), dir)
      | Some authorize \<Rightarrow>
      if pb_root p = [] then (None, Inl (Msg ''payload publisher is not initialized''), dir)
      else case source of
        None \<Rightarrow> (None, Inl (Msg ''staged payload reader must not be nil''), dir)
      | Some staged \<Rightarrow>
      (case validate_offer rt offer of
        Inl e \<Rightarrow> (None, Inl (Wrap ''validate payload offer'' e), dir)
      | Inr _ \<Rightarrow>
      (case validate_receipt receipt offer of
        Inl e \<Rightarrow> (None, Inl (Wrap ''validate payload receipt'' e), dir)
      | Inr _ \<Rightarrow>
      (case revalidate_root px p of
        Inl e \<Rightarrow> (None, Inl e, dir)
      | Inr _ \<Rightarrow>
      (case authorize (publication_request_of p offer) of
        Inl e \<Rightarrow> (None, Inl ErrPayloadPublicationAuthorizationDenied, dir)
      | Inr _ \<Rightarrow>
      (case target_for_filename p (mf_filename (po_manifest offer)) of
        Inl e \<Rightarrow> (None, Inl e, dir)
      | Inr _ \<Rightarrow> publish_file rt env p offer staged dir)))))))"

section \<open>The target of a leaf name\<close>

lemma target_for_leaf:
  assumes "is_abs (pb_root p)" and "ordinary name"
  shows "target_for_filename p name = Inr (CHR ''/'' # join_slash (elements (pb_root p) @ [name]))"
proof -
  let ?ws = "elements (pb_root p)"
  let ?t = "CHR ''/'' # join_slash (?ws @ [name])"
  have ord: "\<forall>w \<in> set (?ws @ [name]). ordinary w" using elements_ordinary assms by auto
  note els = elements_absolute [OF ord]
  have "clean_path ?t = ?t" by (simp add: clean_path_def els)
  moreover have "clean_path ?t \<noteq> clean_path (pb_root p)"
    using join_slash_snoc_longer [of name ?ws] assms by (auto simp: clean_path_def els ordinary_def)
  moreover have "\<not> is_abs name" "\<not> starts_with name ''../''"
    using assms(2) by (auto simp: ordinary_def is_abs_def starts_with_def dest: in_set_takeD) (metis in_set_takeD list.set_intros(1,2))+
  ultimately show ?thesis
    using assms by (simp add: target_for_filename_def join_path_leaf Let_def rel_path_def els strip_common_append ordinary_def)
qed

lemma validate_filename_ordinary: "validate_filename name = Inr () \<Longrightarrow> ordinary name"
  by (auto simp: validate_filename_def ordinary_def split: if_splits)

section \<open>Facts about publication\<close>

text \<open>A copy that verified has not failed: it would have ended in the error of the write.\<close>

lemma tee_verified:
  assumes "verify_payload rt m (Some (tee copy r)) = Inr ()" and "\<forall>n e. copy = Some (n, e) \<longrightarrow> e \<noteq> ErrEOF"
  shows "tee copy r = r"
  using verify_payload_Inr [OF assms(1)] assms(2) by (auto simp: tee_def split: option.splits prod.splits if_splits)

text \<open>The directory at each exit, for a temporary name that was free.\<close>

lemma drop_temp_put:
  "map_wf dir \<Longrightarrow> map_of dir temp = None \<Longrightarrow>
     drop_temp env temp (map_put temp b dir) = (if is_ok (pe_remove env) then dir else map_put temp b dir)"
  by (simp add: drop_temp_def gm.del_put)

lemma unlink_linked:
  assumes "map_wf dir" and "map_of dir temp = None" and "name \<noteq> temp"
  shows "map_del temp (map_put name b (map_put temp c dir)) = map_put name b dir"
proof -
  have "map_put name b (map_put temp c dir) = map_put temp c (map_put name b dir)"
    using assms by (intro gm.put_commute) auto
  then show ?thesis using assms by (simp add: gm.del_put map_of_put)
qed

definition publication_ok ::
  "runtime \<Rightarrow> publish_env \<Rightarrow> publisher \<Rightarrow> payload_offer \<Rightarrow> reader \<Rightarrow> directory \<Rightarrow>
     published option \<times> unit result \<times> directory \<Rightarrow> bool" where
  "publication_ok rt env p offer staged dir out \<longleftrightarrow>
     (case out of (z, res, dir') \<Rightarrow>
        (\<forall>name b. map_of dir name = Some b \<longrightarrow> map_of dir' name = Some b) \<and>
        (z = None \<longrightarrow> \<not> is_ok res \<and> (is_ok (pe_remove env) \<longrightarrow> dir' = dir)) \<and>
        (\<forall>y. z = Some y \<longrightarrow> y = published_of p offer \<and>
           verify_payload rt (po_manifest offer) (Some staged) = Inr () \<and>
           map_of dir (mf_filename (po_manifest offer)) = None \<and>
           map_of dir' (mf_filename (po_manifest offer)) = Some (rd_bytes staged)) \<and>
        (is_ok res \<longrightarrow> z \<noteq> None \<and> dir' = map_put (mf_filename (po_manifest offer)) (rd_bytes staged) dir))"

lemma publication_ok_error:
  "publication_ok rt env p offer staged dir (None, Inl e, dir)"
  by (simp add: publication_ok_def)

lemma publication_ok_dropped:
  "map_wf dir \<Longrightarrow> map_of dir temp = None \<Longrightarrow>
     publication_ok rt env p offer staged dir (None, Inl e, drop_temp env temp (map_put temp b dir))"
  by (auto simp: publication_ok_def drop_temp_put map_of_put)

lemma publish_file_ok:
  assumes "map_wf dir" and "\<forall>temp. pe_temp env = Inr temp \<longrightarrow> map_of dir temp = None"
    and "\<forall>n e. pe_copy env = Some (n, e) \<longrightarrow> e \<noteq> ErrEOF"
  shows "publication_ok rt env p offer staged dir (publish_file rt env p offer staged dir)"
proof (cases "pe_temp env")
  case (Inl e)
  then show ?thesis by (simp add: publish_file_def publication_ok_error)
next
  case (Inr temp)
  let ?name = "mf_filename (po_manifest offer)"
  let ?copied = "map_put temp (rd_bytes staged) dir"
  have free: "map_of dir temp = None" using assms(2) Inr by blast
  note dropped = publication_ok_dropped [OF assms(1) free]
  show ?thesis
  proof (cases "is_ok (pe_chmod env) \<and> verify_payload rt (po_manifest offer) (Some (tee (pe_copy env) staged)) = Inr () \<and>
      is_ok (pe_sync env) \<and> is_ok (pe_close env) \<and> map_of ?copied ?name = None \<and> is_ok (pe_link env)")
    case False
    then show ?thesis
      using dropped Inr
      by (auto simp: publish_file_def Let_def is_ok_def split: sum.splits)
  next
    case True
    then have verify: "verify_payload rt (po_manifest offer) (Some staged) = Inr ()"
      using tee_verified [OF _ assms(3)] by metis
    have name: "?name \<noteq> temp" "map_of dir ?name = None" using True by (auto simp: map_of_put split: if_splits)
    then show ?thesis
      using True Inr verify unlink_linked [OF assms(1) free name(1)]
      by (auto simp: publish_file_def publication_ok_def is_ok_iff Let_def map_of_put free split: sum.splits)
  qed
qed

text \<open>A publication that is returned, whatever became of the temporary file.\<close>

lemma publish_Some:
  assumes "publish rt px env (Some p) offer receipt (Some staged) dir = (Some y, res, dir')" and "map_wf dir"
    and "\<forall>temp. pe_temp env = Inr temp \<longrightarrow> map_of dir temp = None"
    and "\<forall>n e. pe_copy env = Some (n, e) \<longrightarrow> e \<noteq> ErrEOF"
  shows "validate_offer rt offer = Inr () \<and> receipt = verified_payload_receipt offer \<and>
    verify_payload rt (po_manifest offer) (Some staged) = Inr () \<and>
    map_of dir (mf_filename (po_manifest offer)) = None \<and>
    map_of dir' (mf_filename (po_manifest offer)) = Some (rd_bytes staged)"
proof -
  have "validate_offer rt offer = Inr ()" "validate_receipt receipt offer = Inr ()"
    "publish_file rt env p offer staged dir = (Some y, res, dir')"
    using assms(1) by (auto simp: publish_def split: option.splits sum.splits if_splits)
  with publish_file_ok [OF assms(2-4), of rt p offer staged] show ?thesis
    by (simp add: validate_receipt_Inr publication_ok_def)
qed

section \<open>Properties\<close>

text \<open>
  C20. Publishing never overwrites or removes a file, and what it publishes is what was staged,
  re-verified. A publication happens only for a receipt of a valid offer, with the
  authorizer's consent, under the leaf name of the manifest directly below the root; the
  name was free and now holds exactly the staged bytes. Where it fails before that, and the
  temporary file can be removed, the directory is as it was.
\<close>

theorem publication_safe:
  assumes "publish rt px env (Some p) offer receipt (Some staged) dir = (z, res, dir')" and "map_wf dir"
    and "\<forall>temp. pe_temp env = Inr temp \<longrightarrow> map_of dir temp = None"
    and "\<forall>n e. pe_copy env = Some (n, e) \<longrightarrow> e \<noteq> ErrEOF"
  shows "(\<forall>name b. map_of dir name = Some b \<longrightarrow> map_of dir' name = Some b) \<and>
    (z = None \<longrightarrow> \<not> is_ok res \<and> (is_ok (pe_remove env) \<longrightarrow> dir' = dir)) \<and>
    (\<forall>y. z = Some y \<longrightarrow> y = published_of p offer \<and> receipt = verified_payload_receipt offer \<and>
       (\<exists>authorize. pb_authorize p = Some authorize \<and> authorize (publication_request_of p offer) = Inr ()) \<and>
       (is_abs (pb_root p) \<longrightarrow> target_for_filename p (mf_filename (po_manifest offer)) =
          Inr (CHR ''/'' # join_slash (elements (pb_root p) @ [mf_filename (po_manifest offer)]))) \<and>
       verify_payload rt (po_manifest offer) (Some staged) = Inr () \<and>
       map_of dir (mf_filename (po_manifest offer)) = None \<and>
       map_of dir' (mf_filename (po_manifest offer)) = Some (rd_bytes staged)) \<and>
    (is_ok res \<longrightarrow> z \<noteq> None \<and> dir' = map_put (mf_filename (po_manifest offer)) (rd_bytes staged) dir)"
proof (cases "validate_offer rt offer = Inr () \<and> validate_receipt receipt offer = Inr () \<and>
    (\<exists>authorize. pb_authorize p = Some authorize \<and> authorize (publication_request_of p offer) = Inr ()) \<and>
    publish_file rt env p offer staged dir = (z, res, dir')")
  case True
  then have offer: "validate_offer rt offer = Inr ()" by simp
  then have "ordinary (mf_filename (po_manifest offer))"
    by (auto simp: validate_offer_Inr validate_manifest_def result_iff intro: validate_filename_ordinary split: if_splits)
  with True validate_receipt_Inr [OF offer, of receipt] publish_file_ok [OF assms(2-4), of rt p offer staged] target_for_leaf
  show ?thesis by (auto simp: publication_ok_def)
next
  case False
  with assms(1) have "z = None \<and> \<not> is_ok res \<and> dir' = dir"
    by (auto simp: publish_def is_ok_iff split: option.splits sum.splits if_splits)
  then show ?thesis by simp
qed

definition sample_publisher :: publisher where
  "sample_publisher = \<lparr>pb_destination = ''inbox'', pb_root = ''/srv/in'', pb_authorize = Some (\<lambda>_. Inr ())\<rparr>"

definition sample_paths :: path_env where
  "sample_paths = \<lparr>px_abs = Inr, px_symlinks = Inr, px_is_dir = (\<lambda>_. Inr True)\<rparr>"

definition sample_publish :: publish_env where
  "sample_publish = \<lparr>pe_temp = Inr ''.t'', pe_chmod = Inr (), pe_copy = None, pe_partial = [], pe_sync = Inr (),
     pe_close = Inr (), pe_link = Inr (), pe_remove = Inr ()\<rparr>"

lemma sample_publish_run:
  "publish sample_runtime sample_paths sample_publish (Some sample_publisher) sample_offer
     (verified_payload_receipt sample_offer) (Some sample_source) [(''b'', ''old'')] =
   (Some (published_of sample_publisher sample_offer), Inr (), [(''a.txt'', ''0123456789''), (''b'', ''old'')])"
proof -
  have root: "revalidate_root sample_paths sample_publisher = Inr ()"
    by (simp add: revalidate_root_def canonical_root_def sample_paths_def sample_publisher_def is_blank_def
        trim_space_printable printable_def clean_path_def elements_def)
  have "ordinary ''a.txt''" "is_abs (pb_root sample_publisher)" by (simp_all add: ordinary_def sample_publisher_def)
  from target_for_leaf [OF this(2,1)] obtain t where target: "target_for_filename sample_publisher ''a.txt'' = Inr t" by blast
  have name: "mf_filename (po_manifest sample_offer) = ''a.txt''" by (simp add: sample_offer_def manifest_of_def)
  have receipt: "validate_receipt (verified_payload_receipt sample_offer) sample_offer = Inr ()"
    by (simp add: validate_receipt_Inr [OF sample_offer_ok])
  have "pb_authorize sample_publisher = Some (\<lambda>_. Inr ())" "pb_root sample_publisher \<noteq> []"
    by (simp_all add: sample_publisher_def)
  moreover have "publish_file sample_runtime sample_publish sample_publisher sample_offer sample_source [(''b'', ''old'')] =
      (Some (published_of sample_publisher sample_offer), Inr (), [(''a.txt'', ''0123456789''), (''b'', ''old'')])"
    by (simp add: publish_file_def sample_publish_def tee_def sample_source_ok name Let_def map_del_def)
  ultimately show ?thesis
    by (simp add: publish_def root receipt sample_offer_ok name target)
qed

theorem publication_safe_witness:
  "\<exists>dir'. publish sample_runtime sample_paths sample_publish (Some sample_publisher) sample_offer
     (verified_payload_receipt sample_offer) (Some sample_source) [(''b'', ''old'')] =
     (Some (published_of sample_publisher sample_offer), Inr (), dir') \<and>
   map_of dir' ''b'' = Some ''old'' \<and> map_of dir' (mf_filename (po_manifest sample_offer)) = Some ''0123456789''"
proof -
  have wf: "map_wf [(''b'', ''old'')]" by (simp add: map_wf_def)
  have free: "\<forall>temp. pe_temp sample_publish = Inr temp \<longrightarrow> map_of [(''b'', ''old'')] temp = None"
    "\<forall>n e. pe_copy sample_publish = Some (n, e) \<longrightarrow> e \<noteq> ErrEOF"
    by (simp_all add: sample_publish_def)
  from publication_safe [OF sample_publish_run wf free] sample_publish_run show ?thesis by auto
qed

end
