(* ===== verification/Atomic_Files.thy ===== *)
theory Atomic_Files
  imports File_Paths
begin

text \<open>
  How the stores replace their files. What elsewhere is one step, with one outcome, is here a
  sequence of system calls on a small file system, in the two forms the program has:
  \<open>os.WriteFile\<close> of a sibling and a rename, and a synced temporary file and a rename. An interface states what both guarantee at every moment, and from it follows
  that they implement \<open>disk_save\<close>. A loss of power is a relation on the states passed through.
\<close>

section \<open>A file system\<close>

text \<open>
  Names refer to nodes, numbered as they were made; a node has its content and permissions, and
  is synced once its content has been forced to the disk.
\<close>

record file_node =
  nd_data :: bytes
  nd_mode :: u32
  nd_synced :: bool

record fs =
  fs_names :: "(bytes, nat) gomap"
  fs_nodes :: "file_node list"

definition node_at :: "fs \<Rightarrow> bytes \<Rightarrow> file_node option" where
  "node_at fs p = map_option (\<lambda>i. fs_nodes fs ! i) (map_of (fs_names fs) p)"

definition fs_wf :: "fs \<Rightarrow> bool" where
  "fs_wf fs \<longleftrightarrow> map_wf (fs_names fs) \<and>
     (\<forall>p i. map_of (fs_names fs) p = Some i \<longrightarrow> i < length (fs_nodes fs)) \<and>
     (\<forall>p q i. map_of (fs_names fs) p = Some i \<longrightarrow> map_of (fs_names fs) q = Some i \<longrightarrow> p = q)"

definition fs_create :: "bytes \<Rightarrow> u32 \<Rightarrow> fs \<Rightarrow> fs" where
  "fs_create p mode fs =
     \<lparr>fs_names = map_put p (length (fs_nodes fs)) (fs_names fs),
      fs_nodes = fs_nodes fs @ [\<lparr>nd_data = [], nd_mode = mode, nd_synced = False\<rparr>]\<rparr>"

definition fs_update :: "bytes \<Rightarrow> (file_node \<Rightarrow> file_node) \<Rightarrow> fs \<Rightarrow> fs" where
  "fs_update p f fs =
     (case map_of (fs_names fs) p of
        None \<Rightarrow> fs
      | Some i \<Rightarrow> fs\<lparr>fs_nodes := (fs_nodes fs)[i := f (fs_nodes fs ! i)]\<rparr>)"

text \<open>Opening to write, created with the mode if absent and truncated otherwise, keeping its mode.\<close>

definition fs_open :: "bytes \<Rightarrow> u32 \<Rightarrow> fs \<Rightarrow> fs" where
  "fs_open p mode fs =
     (if node_at fs p = None then fs_create p mode fs
      else fs_update p (\<lambda>n. n\<lparr>nd_data := [], nd_synced := False\<rparr>) fs)"

definition fs_append :: "bytes \<Rightarrow> bytes \<Rightarrow> fs \<Rightarrow> fs" where
  "fs_append p data = fs_update p (\<lambda>n. n\<lparr>nd_data := nd_data n @ data, nd_synced := False\<rparr>)"

definition fs_sync :: "bytes \<Rightarrow> fs \<Rightarrow> fs" where
  "fs_sync p = fs_update p (\<lambda>n. n\<lparr>nd_synced := True\<rparr>)"

definition fs_chmod :: "bytes \<Rightarrow> u32 \<Rightarrow> fs \<Rightarrow> fs" where
  "fs_chmod p mode = fs_update p (\<lambda>n. n\<lparr>nd_mode := mode\<rparr>)"

definition fs_rename :: "bytes \<Rightarrow> bytes \<Rightarrow> fs \<Rightarrow> fs" where
  "fs_rename a b fs =
     (case map_of (fs_names fs) a of
        None \<Rightarrow> fs
      | Some i \<Rightarrow> fs\<lparr>fs_names := map_put b i (map_del a (fs_names fs))\<rparr>)"

definition fs_remove :: "bytes \<Rightarrow> fs \<Rightarrow> fs" where
  "fs_remove p fs = fs\<lparr>fs_names := map_del p (fs_names fs)\<rparr>"

section \<open>Sequences of system calls\<close>

text \<open>
  A computation gives its result, the state it leaves, and the states it passed through, in
  order, the last included. A call has the outcome the environment gives it, and its effect
  only where it succeeds; a write that fails has written some bytes.
\<close>

type_synonym 'a io = "fs \<Rightarrow> 'a result \<times> fs \<times> fs list"

definition io_lift :: "'a result \<Rightarrow> 'a io" where
  "io_lift r fs = (r, fs, [])"

definition io_bind :: "'a io \<Rightarrow> ('a \<Rightarrow> 'b io) \<Rightarrow> 'b io" where
  "io_bind m k fs =
     (case m fs of
        (Inl e, s, ts) \<Rightarrow> (Inl e, s, ts)
      | (Inr x, s, ts) \<Rightarrow> (case k x s of (r, s', us) \<Rightarrow> (r, s', ts @ us)))"

definition io_call :: "unit result \<Rightarrow> (fs \<Rightarrow> fs) \<Rightarrow> unit io" where
  "io_call outcome f fs =
     (case outcome of Inl e \<Rightarrow> (Inl e, fs, []) | Inr _ \<Rightarrow> (Inr (), f fs, [f fs]))"

definition io_write :: "(nat \<times> go_error) option \<Rightarrow> bytes \<Rightarrow> bytes \<Rightarrow> unit io" where
  "io_write outcome p data fs =
     (let n = (case outcome of None \<Rightarrow> length data | Some (n, _) \<Rightarrow> min n (length data)) in
      (case outcome of None \<Rightarrow> Inr () | Some (_, e) \<Rightarrow> Inl e,
       fs_append p (take n data) fs,
       map (\<lambda>k. fs_append p (take k data) fs) [0..<Suc n]))"

text \<open>A deferred clean-up that runs where the computation has failed; its own result is ignored.\<close>

definition io_on_error :: "'a io \<Rightarrow> unit io \<Rightarrow> 'a io" where
  "io_on_error m cleanup fs =
     (case m fs of
        (Inl e, s, ts) \<Rightarrow> (case cleanup s of (_, s', us) \<Rightarrow> (Inl e, s', ts @ us))
      | (Inr x, s, ts) \<Rightarrow> (Inr x, s, ts))"

section \<open>The two ways to replace a file\<close>

record save_env =
  sa_make_dir :: "unit result"
  sa_secure_dir :: "unit result"
  sa_temp :: "bytes result"
  sa_open :: "unit result"
  sa_secure_temp :: "unit result"
  sa_write :: "(nat \<times> go_error) option"
  sa_sync :: "unit result"
  sa_close :: "unit result"
  sa_rename :: "unit result"
  sa_remove :: "unit result"

text \<open>\<open>os.WriteFile\<close> with mode \<open>0600\<close>.\<close>

definition write_file :: "save_env \<Rightarrow> bytes \<Rightarrow> bytes \<Rightarrow> unit io" where
  "write_file env p data =
     io_bind (io_call (sa_open env) (fs_open p 384)) (\<lambda>_.
     io_bind (io_write (sa_write env) p data) (\<lambda>_.
       io_lift (sa_close env)))"

text \<open>
  The body of \<open>save\<close> in the record, session, receipt and replay stores. Two of them make the
  directory even where it is the current one, the first argument.
\<close>

definition plain_save :: "bool \<Rightarrow> bytes \<Rightarrow> save_env \<Rightarrow> bytes result \<Rightarrow> unit io" where
  "plain_save always path env encoded =
     io_bind (io_lift (if always \<or> dir_of path \<noteq> ''.'' then sa_make_dir env else Inr ())) (\<lambda>_.
     io_bind (io_lift encoded) (\<lambda>data.
     io_bind (write_file env (path @ ''.tmp'') data) (\<lambda>_.
       io_call (sa_rename env) (fs_rename (path @ ''.tmp'') path))))"

text \<open>
  The body of \<open>writeLocked\<close> and \<open>write\<close> in the trust registry and the key store; they differ in
  the text they wrap around the error of a step. \<open>os.CreateTemp\<close> chooses a name no file has and
  mode \<open>0600\<close>; the deferred clean-up removes the temporary file unless it was renamed.
\<close>

datatype save_step = MakeDir | SecureDir | Encode | MakeTemp | SecureTemp | WriteTemp | SyncTemp | CloseTemp | Publish

definition at_step :: "(save_step \<Rightarrow> go_error \<Rightarrow> go_error) \<Rightarrow> save_step \<Rightarrow> 'a io \<Rightarrow> 'a io" where
  "at_step wrap st m fs = (case m fs of (Inl e, s, ts) \<Rightarrow> (Inl (wrap st e), s, ts) | (Inr x, s, ts) \<Rightarrow> (Inr x, s, ts))"

definition synced_save ::
  "(save_step \<Rightarrow> go_error \<Rightarrow> go_error) \<Rightarrow> bytes \<Rightarrow> save_env \<Rightarrow> bytes result \<Rightarrow> unit io" where
  "synced_save wrap path env encoded =
     io_bind (at_step wrap MakeDir (io_lift (sa_make_dir env))) (\<lambda>_.
     io_bind (at_step wrap SecureDir (io_lift (sa_secure_dir env))) (\<lambda>_.
     io_bind (at_step wrap Encode (io_lift encoded)) (\<lambda>data.
     io_bind (at_step wrap MakeTemp (io_lift (sa_temp env))) (\<lambda>temp.
     io_bind (io_call (Inr ()) (fs_create temp 384)) (\<lambda>_.
     io_on_error
       (io_bind (at_step wrap SecureTemp (io_call (sa_secure_temp env) (fs_chmod temp 384))) (\<lambda>_.
        io_bind (at_step wrap WriteTemp (io_write (sa_write env) temp data)) (\<lambda>_.
        io_bind (at_step wrap SyncTemp (io_call (sa_sync env) (fs_sync temp))) (\<lambda>_.
        io_bind (at_step wrap CloseTemp (io_lift (sa_close env))) (\<lambda>_.
          at_step wrap Publish (io_call (sa_rename env) (fs_rename temp path)))))))
       (io_call (sa_remove env) (fs_remove temp)))))))"

section \<open>Facts about the file system\<close>

lemma node_at_create [simp]:
  "fs_wf fs \<Longrightarrow> node_at (fs_create p m fs) q =
     (if q = p then Some \<lparr>nd_data = [], nd_mode = m, nd_synced = False\<rparr> else node_at fs q)"
  by (cases "map_of (fs_names fs) q") (auto simp: node_at_def fs_create_def fs_wf_def map_of_put nth_append)

lemma fs_wf_bound: "fs_wf fs \<Longrightarrow> map_of (fs_names fs) p = Some i \<Longrightarrow> i < length (fs_nodes fs)"
  by (simp add: fs_wf_def)

lemma fs_wf_inj: "fs_wf fs \<Longrightarrow> map_of (fs_names fs) p = Some i \<Longrightarrow> map_of (fs_names fs) q = Some i \<Longrightarrow> p = q"
  by (simp add: fs_wf_def)

lemma node_at_update [simp]:
  assumes wf: "fs_wf fs"
  shows "node_at (fs_update p f fs) q = (if q = p then map_option f (node_at fs q) else node_at fs q)"
proof (cases "map_of (fs_names fs) p")
  case None
  then show ?thesis by (simp add: fs_update_def node_at_def)
next
  case (Some i)
  show ?thesis
  proof (cases "map_of (fs_names fs) q")
    case None
    then show ?thesis using Some by (auto simp: fs_update_def node_at_def)
  next
    case (Some j)
    note at_p = \<open>map_of (fs_names fs) p = Some i\<close>
    show ?thesis
    proof (cases "q = p")
      case True
      then show ?thesis using at_p fs_wf_bound [OF wf at_p] by (simp add: fs_update_def node_at_def)
    next
      case False
      then have "i \<noteq> j" using fs_wf_inj [OF wf at_p, of q] Some by blast
      then show ?thesis using at_p Some False by (simp add: fs_update_def node_at_def)
    qed
  qed
qed

lemma node_at_open [simp]:
  "fs_wf fs \<Longrightarrow> node_at (fs_open p m fs) q =
     (if q = p then Some \<lparr>nd_data = [], nd_mode = (case node_at fs p of None \<Rightarrow> m | Some n \<Rightarrow> nd_mode n), nd_synced = False\<rparr>
      else node_at fs q)"
  by (auto simp: fs_open_def split: option.splits)

lemma node_at_rename [simp]:
  "fs_wf fs \<Longrightarrow> node_at (fs_rename a b fs) q =
     (if node_at fs a = None then node_at fs q
      else if q = b then node_at fs a else if q = a then None else node_at fs q)"
  by (auto simp: node_at_def fs_rename_def fs_wf_def gomap_simps split: option.splits)

lemma node_at_remove [simp]: "fs_wf fs \<Longrightarrow> node_at (fs_remove p fs) q = (if q = p then None else node_at fs q)"
  by (auto simp: node_at_def fs_remove_def gomap_simps)

lemma fs_wf_create [simp]: "fs_wf fs \<Longrightarrow> fs_wf (fs_create p m fs)"
  by (fastforce simp: fs_wf_def fs_create_def map_of_put map_wf_put split: if_splits)

lemma fs_wf_update [simp]: "fs_wf fs \<Longrightarrow> fs_wf (fs_update p f fs)"
  by (auto simp: fs_wf_def fs_update_def split: option.splits)

lemma fs_wf_open [simp]: "fs_wf fs \<Longrightarrow> fs_wf (fs_open p m fs)"
  by (simp add: fs_open_def)

lemma fs_wf_rename [simp]: "fs_wf fs \<Longrightarrow> fs_wf (fs_rename a b fs)"
  by (auto simp: fs_wf_def fs_rename_def gomap_simps split: option.splits if_splits)

lemma fs_wf_remove [simp]: "fs_wf fs \<Longrightarrow> fs_wf (fs_remove p fs)"
  by (auto simp: fs_wf_def fs_remove_def gomap_simps split: if_splits)

lemma fs_append_simps [simp]:
  assumes "fs_wf fs"
  shows "node_at (fs_append p d fs) q =
      (if q = p then map_option (\<lambda>n. n\<lparr>nd_data := nd_data n @ d, nd_synced := False\<rparr>) (node_at fs q) else node_at fs q)"
    and "fs_wf (fs_append p d fs)"
  using assms by (simp_all add: fs_append_def)

lemma fs_sync_simps [simp]:
  assumes "fs_wf fs"
  shows "node_at (fs_sync p fs) q = (if q = p then map_option (\<lambda>n. n\<lparr>nd_synced := True\<rparr>) (node_at fs q) else node_at fs q)"
    and "fs_wf (fs_sync p fs)"
  using assms by (simp_all add: fs_sync_def)

lemma fs_chmod_simps [simp]:
  assumes "fs_wf fs"
  shows "node_at (fs_chmod p m fs) q = (if q = p then map_option (\<lambda>n. n\<lparr>nd_mode := m\<rparr>) (node_at fs q) else node_at fs q)"
    and "fs_wf (fs_chmod p m fs)"
  using assms by (simp_all add: fs_chmod_def)

section \<open>The synchronized save keeps the store aside\<close>

text \<open>
  Until the rename every state is the old one with a draft beside it, or the old one with the
  draft's name removed; the rename is the last call, and the draft it publishes is complete and
  synced.
\<close>

definition draft :: "fs \<Rightarrow> bytes \<Rightarrow> file_node \<Rightarrow> fs" where
  "draft fs temp n = \<lparr>fs_names = map_put temp (length (fs_nodes fs)) (fs_names fs), fs_nodes = fs_nodes fs @ [n]\<rparr>"

inductive aside :: "fs \<Rightarrow> bytes \<Rightarrow> fs \<Rightarrow> bool" for fs temp where
  aside_same: "aside fs temp fs"
| aside_draft: "aside fs temp (draft fs temp n)"
| aside_removed: "aside fs temp (fs_remove temp (draft fs temp n))"

lemma fs_wf_draft [simp]: "fs_wf fs \<Longrightarrow> fs_wf (draft fs temp n)"
  by (fastforce simp: fs_wf_def draft_def gomap_simps split: if_splits)

lemma node_at_draft [simp]: "fs_wf fs \<Longrightarrow> node_at (draft fs temp n) q = (if q = temp then Some n else node_at fs q)"
  by (cases "map_of (fs_names fs) q") (auto simp: node_at_def draft_def fs_wf_def gomap_simps nth_append)

lemma draft_steps [simp]:
  "fs_create temp m fs = draft fs temp \<lparr>nd_data = [], nd_mode = m, nd_synced = False\<rparr>"
  "fs_append temp d (draft fs temp n) = draft fs temp (n\<lparr>nd_data := nd_data n @ d, nd_synced := False\<rparr>)"
  "fs_sync temp (draft fs temp n) = draft fs temp (n\<lparr>nd_synced := True\<rparr>)"
  "fs_chmod temp m (draft fs temp n) = draft fs temp (n\<lparr>nd_mode := m\<rparr>)"
  by (simp_all add: draft_def fs_create_def fs_append_def fs_sync_def fs_chmod_def fs_update_def gomap_simps)

lemma aside_nodes:
  assumes "aside fs temp t" and "fs_wf fs"
  shows "fs_wf t" and "q \<noteq> temp \<Longrightarrow> node_at t q = node_at fs q"
  using assms by (auto elim!: aside.cases)

lemma aside_index:
  assumes "aside fs temp t"
  shows "q \<noteq> temp \<Longrightarrow> map_of (fs_names t) q = map_of (fs_names fs) q"
    and "i < length (fs_nodes fs) \<Longrightarrow> fs_nodes t ! i = fs_nodes fs ! i"
    and "length (fs_nodes fs) \<le> length (fs_nodes t)"
  using assms by (auto elim!: aside.cases simp: draft_def fs_remove_def gomap_simps nth_append)

definition temp_of :: "save_env \<Rightarrow> bytes" where
  "temp_of env = (case sa_temp env of Inl _ \<Rightarrow> [] | Inr temp \<Rightarrow> temp)"

definition replaced :: "fs \<Rightarrow> bytes \<Rightarrow> bytes \<Rightarrow> bytes \<Rightarrow> fs" where
  "replaced fs temp path data =
     fs_rename temp path (draft fs temp \<lparr>nd_data = data, nd_mode = 384, nd_synced = True\<rparr>)"

lemma io_write_draft:
  "io_write w temp data (draft fs temp n) = (r, s, ts) \<Longrightarrow>
     (\<forall>t \<in> set ts. aside fs temp t) \<and> aside fs temp s \<and>
     (w = None \<longrightarrow> r = Inr () \<and> s = draft fs temp (n\<lparr>nd_data := nd_data n @ data, nd_synced := False\<rparr>)) \<and>
     (w \<noteq> None \<longrightarrow> (\<exists>e. r = Inl e) \<and> (\<exists>n'. s = draft fs temp n'))"
  by (auto simp: io_write_def Let_def aside_draft split: option.splits)

lemma io_bind_error: "m fs = (Inl e, s, ts) \<Longrightarrow> io_bind m k fs = (Inl e, s, ts)"
  by (simp add: io_bind_def)

lemma io_bind_ok: "m fs = (Inr x, s, ts) \<Longrightarrow> io_bind m k fs = (case k x s of (r, s', us) \<Rightarrow> (r, s', ts @ us))"
  by (simp add: io_bind_def)

lemma io_call_simps:
  "io_call (Inl e) f fs = (Inl e, fs, [])"
  "io_call (Inr u) f fs = (Inr (), f fs, [f fs])"
  by (simp_all add: io_call_def)

lemmas io_defs = io_bind_def io_lift_def io_call_def io_on_error_def at_step_def

lemma synced_save_cases:
  assumes "synced_save wrap path env encoded fs = (r, s, ts)"
  shows "(\<exists>e. r = Inl e) \<and> aside fs (temp_of env) s \<and> (\<forall>t \<in> set ts. aside fs (temp_of env) t) \<or>
    (\<exists>data us. encoded = Inr data \<and> r = Inr () \<and> ts = us @ [s] \<and> (\<forall>t \<in> set us. aside fs (temp_of env) t) \<and>
       s = replaced fs (temp_of env) path data)"
proof (cases "sa_make_dir env"; cases "sa_secure_dir env"; cases encoded; cases "sa_temp env")
  fix u v data temp
  assume pre: "sa_make_dir env = Inr u" "sa_secure_dir env = Inr v" "encoded = Inr data" "sa_temp env = Inr temp"
  obtain w b c where wr: "io_write (sa_write env) temp data
      (draft fs temp \<lparr>nd_data = [], nd_mode = 384, nd_synced = False\<rparr>) = (w, b, c)"
    by (cases "io_write (sa_write env) temp data (draft fs temp \<lparr>nd_data = [], nd_mode = 384, nd_synced = False\<rparr>)") auto
  note wf = io_write_draft [OF wr]
  show ?thesis
    using assms pre wr wf
    by (cases "sa_write env"; cases w)
       (auto simp: synced_save_def temp_of_def replaced_def io_defs
         intro: aside.intros split: sum.splits)
qed (use assms in \<open>auto simp: synced_save_def io_defs intro: aside.intros\<close>)

section \<open>The plain save works beside the store\<close>

definition beside :: "fs \<Rightarrow> bytes \<Rightarrow> fs \<Rightarrow> bool" where
  "beside fs temp t \<longleftrightarrow> fs_wf t \<and> (\<forall>q. q \<noteq> temp \<longrightarrow> node_at t q = node_at fs q)"

lemma beside_refl [simp]: "fs_wf fs \<Longrightarrow> beside fs temp fs"
  by (simp add: beside_def)

lemma beside_steps [simp]:
  assumes "beside fs temp t"
  shows "beside fs temp (fs_open temp m t)" and "beside fs temp (fs_append temp d t)"
  using assms by (simp_all add: beside_def)

lemma aside_beside: "aside fs temp t \<Longrightarrow> fs_wf fs \<Longrightarrow> beside fs temp t"
  by (simp add: beside_def aside_nodes)

lemma io_write_beside:
  assumes run: "io_write w temp data fs = (r, s, ts)" and fs: "beside fs0 temp fs"
  shows "beside fs0 temp s" and "t \<in> set ts \<Longrightarrow> beside fs0 temp t"
    and "r = Inr () \<Longrightarrow> s = fs_append temp data fs"
  using run fs by (auto simp: io_write_def Let_def split: option.splits)

definition plain_ready :: "bytes \<Rightarrow> save_env \<Rightarrow> fs \<Rightarrow> bool" where
  "plain_ready path env fs \<longleftrightarrow> fs_wf fs \<and>
     (case node_at fs (path @ ''.tmp'') of None \<Rightarrow> True | Some n \<Rightarrow> nd_mode n = 384)"

lemma write_file_cases:
  assumes run: "write_file env temp data fs = (r, s, ts)" and wf: "fs_wf fs"
  shows "beside fs temp s" and "t \<in> set ts \<Longrightarrow> beside fs temp t"
    and "r = Inr () \<Longrightarrow> node_at s temp = Some \<lparr>nd_data = data,
      nd_mode = (case node_at fs temp of None \<Rightarrow> 384 | Some n \<Rightarrow> nd_mode n), nd_synced = False\<rparr>"
proof -
  let ?o = "fs_open temp 384 fs"
  have opened: "beside fs temp ?o" using wf by simp
  obtain w b c where wr: "io_write (sa_write env) temp data ?o = (w, b, c)"
    by (cases "io_write (sa_write env) temp data ?o") auto
  note facts = io_write_beside [OF wr opened]
  show "beside fs temp s" and "t \<in> set ts \<Longrightarrow> beside fs temp t"
    using run wf wr facts opened
    by (auto simp: write_file_def io_defs split: sum.splits)
  show "node_at s temp = Some \<lparr>nd_data = data,
      nd_mode = (case node_at fs temp of None \<Rightarrow> 384 | Some n \<Rightarrow> nd_mode n), nd_synced = False\<rparr>" if "r = Inr ()"
    using run wf wr facts(3) that
    by (auto simp: write_file_def io_defs split: sum.splits)
qed

lemma plain_save_cases:
  assumes run: "plain_save always path env encoded fs = (r, s, ts)" and wf: "fs_wf fs"
  shows "(\<exists>e. r = Inl e) \<and> beside fs (path @ ''.tmp'') s \<and> (\<forall>t \<in> set ts. beside fs (path @ ''.tmp'') t) \<or>
    (\<exists>data us b. encoded = Inr data \<and> r = Inr () \<and> ts = us @ [s] \<and>
       (\<forall>t \<in> set us. beside fs (path @ ''.tmp'') t) \<and>
       s = fs_rename (path @ ''.tmp'') path b \<and> beside fs (path @ ''.tmp'') b \<and>
       node_at b (path @ ''.tmp'') = Some \<lparr>nd_data = data,
         nd_mode = (case node_at fs (path @ ''.tmp'') of None \<Rightarrow> 384 | Some n \<Rightarrow> nd_mode n), nd_synced = False\<rparr>)"
proof (cases encoded)
  case (Inl e)
  then show ?thesis using run wf by (auto simp: plain_save_def io_defs split: sum.splits if_splits)
next
  case (Inr data)
  obtain w b c where wr: "write_file env (path @ ''.tmp'') data fs = (w, b, c)"
    by (cases "write_file env (path @ ''.tmp'') data fs") auto
  note facts = write_file_cases [OF wr wf]
  have steps: "plain_save always path env encoded fs = (Inl e, fs, []) \<or>
      plain_save always path env encoded fs =
        (case w of Inl e' \<Rightarrow> (Inl e', b, c)
         | Inr _ \<Rightarrow> (case sa_rename env of Inl e' \<Rightarrow> (Inl e', b, c)
            | Inr _ \<Rightarrow> (Inr (), fs_rename (path @ ''.tmp'') path b, c @ [fs_rename (path @ ''.tmp'') path b])))"
    if "sa_make_dir env = Inl e \<or> sa_make_dir env = Inr ()" for e
    using wr Inr that by (auto simp: plain_save_def io_defs split: sum.splits)
  show ?thesis
  proof (cases "\<exists>e. plain_save always path env encoded fs = (Inl e, fs, [])")
    case True
    then show ?thesis using run wf by auto
  next
    case False
    then have final: "(case w of Inl e \<Rightarrow> (Inl e, b, c)
         | Inr _ \<Rightarrow> (case sa_rename env of Inl e \<Rightarrow> (Inl e, b, c)
            | Inr _ \<Rightarrow> (Inr (), fs_rename (path @ ''.tmp'') path b, c @ [fs_rename (path @ ''.tmp'') path b]))) = (r, s, ts)"
      using steps run by (cases "sa_make_dir env") auto
    show ?thesis
    proof (cases "w = Inr () \<and> sa_rename env = Inr ()")
      case True
      then have "r = Inr ()" "s = fs_rename (path @ ''.tmp'') path b" "ts = c @ [s]" using final by auto
      then show ?thesis using facts Inr True by blast
    next
      case False
      then have aborted: "r \<noteq> Inr ()" "s = b" "ts = c"
        using final by (auto split: sum.splits)
      have "\<exists>e. r = Inl e" using aborted(1) by (cases r) auto
      with aborted(2,3) show ?thesis using facts(1,2) by simp
    qed
  qed
qed

section \<open>The interface of a file saver\<close>

text \<open>
  What a store sees of its path, given the decoder of its content, and what an encoder promises:
  some content that reads back as the value.
\<close>

definition view :: "(bytes \<Rightarrow> 'a option) \<Rightarrow> bytes \<Rightarrow> fs \<Rightarrow> 'a disk" where
  "view dec path fs =
     (case node_at fs path of
        None \<Rightarrow> \<lparr>disk_file = Absent, disk_mode = 0\<rparr>
      | Some n \<Rightarrow> \<lparr>disk_file = (if nd_data n = [] then Blank
            else case dec (nd_data n) of None \<Rightarrow> Garbage | Some x \<Rightarrow> Holds x),
          disk_mode = nd_mode n\<rparr>)"

definition encodes :: "(bytes \<Rightarrow> 'a option) \<Rightarrow> bytes result \<Rightarrow> 'a \<Rightarrow> bool" where
  "encodes dec encoded x \<longleftrightarrow> (case encoded of Inl _ \<Rightarrow> True | Inr data \<Rightarrow> data \<noteq> [] \<and> dec data = Some x)"

lemma view_same: "node_at t path = node_at fs path \<Longrightarrow> view dec path t = view dec path fs"
  by (simp add: view_def)

lemma view_holds:
  "node_at t path = Some n \<Longrightarrow> nd_data n = data \<Longrightarrow> nd_mode n = 384 \<Longrightarrow> encodes dec (Inr data) x \<Longrightarrow>
     view dec path t = \<lparr>disk_file = Holds x, disk_mode = 384\<rparr>"
  by (simp add: view_def encodes_def)

locale file_saver =
  fixes save :: "save_env \<Rightarrow> bytes result \<Rightarrow> unit io"
    and path :: bytes
    and temp :: "save_env \<Rightarrow> bytes"
    and ready :: "save_env \<Rightarrow> fs \<Rightarrow> bool"
  assumes others_kept: "ready env fs \<Longrightarrow> save env encoded fs = (r, s, ts) \<Longrightarrow> t \<in> set (s # ts) \<Longrightarrow>
      fs_wf t \<and> (\<forall>q. q \<noteq> path \<longrightarrow> q \<noteq> temp env \<longrightarrow> node_at t q = node_at fs q)"
    and untouched_before_end: "ready env fs \<Longrightarrow> save env encoded fs = (r, s, ts) \<Longrightarrow> t \<in> set ts \<Longrightarrow>
      node_at t path = node_at fs path \<or> r = Inr () \<and> t = s"
    and untouched_on_error: "ready env fs \<Longrightarrow> save env encoded fs = (Inl e, s, ts) \<Longrightarrow> node_at s path = node_at fs path"
    and replaced_on_success: "ready env fs \<Longrightarrow> save env encoded fs = (Inr (), s, ts) \<Longrightarrow>
      \<exists>data n. encoded = Inr data \<and> node_at s path = Some n \<and> nd_data n = data \<and> nd_mode n = 384"
begin

lemma success_view:
  assumes "ready env fs" and "save env encoded fs = (Inr (), s, ts)" and "encodes dec encoded x"
  shows "view dec path s = \<lparr>disk_file = Holds x, disk_mode = 384\<rparr>"
  using replaced_on_success [OF assms(1,2)] assms(3) view_holds by metis

lemma implements_disk_save:
  assumes rd: "ready env fs" and run: "save env encoded fs = (r, s, ts)" and enc: "encodes dec encoded x"
  shows "\<exists>res. disk_save (is_ok r) x (view dec path fs) = (res, view dec path s) \<and> is_ok res = is_ok r"
proof (cases r)
  case (Inl e)
  then show ?thesis using view_same [OF untouched_on_error [OF rd, of encoded e s ts], symmetric] run by simp
next
  case (Inr u)
  then show ?thesis using success_view [OF rd _ enc, of s ts] run by simp
qed

lemma readers_see_old_or_new:
  assumes rd: "ready env fs" and run: "save env encoded fs = (r, s, ts)" and enc: "encodes dec encoded x"
    and t: "t \<in> set (fs # ts @ [s])"
  shows "view dec path t = view dec path fs \<or>
         r = Inr () \<and> t = s \<and> view dec path t = \<lparr>disk_file = Holds x, disk_mode = 384\<rparr>"
proof -
  have final: "view dec path s = view dec path fs \<or>
      r = Inr () \<and> view dec path s = \<lparr>disk_file = Holds x, disk_mode = 384\<rparr>"
    using view_same [OF untouched_on_error [OF rd]] success_view [OF rd _ enc] run
    by (cases r) auto
  consider "t = fs" | "t \<in> set ts" | "t = s" using t by auto
  then show ?thesis
  proof cases
    case 2
    then show ?thesis using untouched_before_end [OF rd run 2] final view_same by metis
  qed (use final in auto)
qed

end

interpretation plain: file_saver "plain_save always path" path "\<lambda>_. path @ ''.tmp''" "plain_ready path"
  for always path
proof unfold_locales
  fix env fs encoded s ts
  assume ready: "plain_ready path env fs"
  then have wf: "fs_wf fs" by (simp add: plain_ready_def)
  have mode: "(case node_at fs (path @ ''.tmp'') of None \<Rightarrow> 384 | Some n \<Rightarrow> nd_mode n) = (384 :: u32)"
    using ready by (auto simp: plain_ready_def split: option.splits)
  {
    fix r t
    assume run: "plain_save always path env encoded fs = (r, s, ts)"
    note cases = plain_save_cases [OF run wf]
    show "fs_wf t \<and> (\<forall>q. q \<noteq> path \<longrightarrow> q \<noteq> path @ ''.tmp'' \<longrightarrow> node_at t q = node_at fs q)" if "t \<in> set (s # ts)"
      using cases that by (auto simp: beside_def)
    show "node_at t path = node_at fs path \<or> r = Inr () \<and> t = s" if "t \<in> set ts"
      using cases that by (auto simp: beside_def)
  }
  show "node_at s path = node_at fs path" if "plain_save always path env encoded fs = (Inl e, s, ts)" for e
    using plain_save_cases [OF that wf] by (auto simp: beside_def)
  show "\<exists>data n. encoded = Inr data \<and> node_at s path = Some n \<and> nd_data n = data \<and> nd_mode n = 384"
    if "plain_save always path env encoded fs = (Inr (), s, ts)"
    using plain_save_cases [OF that wf] mode by (auto simp: beside_def)
qed

definition synced_ready :: "bytes \<Rightarrow> save_env \<Rightarrow> fs \<Rightarrow> bool" where
  "synced_ready path env fs \<longleftrightarrow> fs_wf fs \<and> temp_of env \<noteq> path"

interpretation synced: file_saver "synced_save wrap path" path temp_of "synced_ready path"
  for wrap path
proof unfold_locales
  fix env fs encoded s ts
  assume ready: "synced_ready path env fs"
  then have wf: "fs_wf fs" and temp: "temp_of env \<noteq> path" by (simp_all add: synced_ready_def)
  {
    fix r t
    assume run: "synced_save wrap path env encoded fs = (r, s, ts)"
    note cases = synced_save_cases [OF run]
    show "fs_wf t \<and> (\<forall>q. q \<noteq> path \<longrightarrow> q \<noteq> temp_of env \<longrightarrow> node_at t q = node_at fs q)" if "t \<in> set (s # ts)"
      using cases that wf by (auto simp: replaced_def dest: aside_nodes [OF _ wf])
    show "node_at t path = node_at fs path \<or> r = Inr () \<and> t = s" if "t \<in> set ts"
      using cases that temp aside_nodes(2) [OF _ wf, of "temp_of env" t path] by auto
  }
  show "node_at s path = node_at fs path" if "synced_save wrap path env encoded fs = (Inl e, s, ts)" for e
    using synced_save_cases [OF that] temp aside_nodes(2) [OF _ wf, of "temp_of env" s path] by auto
  show "\<exists>data n. encoded = Inr data \<and> node_at s path = Some n \<and> nd_data n = data \<and> nd_mode n = 384"
    if "synced_save wrap path env encoded fs = (Inr (), s, ts)"
    using synced_save_cases [OF that] wf temp by (auto simp: replaced_def)
qed

section \<open>Loss of power\<close>

text \<open>
  After a loss of power the names are those of one of the states passed through since the last
  start, since no directory is ever synced; the nodes are the last ones, with the content of
  every node that was synced and any content in the others. What is found then is on the disk.
\<close>

definition survives :: "fs list \<Rightarrow> fs \<Rightarrow> bool" where
  "survives hist fs' \<longleftrightarrow> hist \<noteq> [] \<and> (\<exists>t \<in> set hist. fs_names fs' = fs_names t) \<and>
     list_all2 (\<lambda>n' n. nd_mode n' = nd_mode n \<and> nd_synced n' \<and> (nd_synced n \<longrightarrow> nd_data n' = nd_data n))
       (fs_nodes fs') (fs_nodes (last hist))"

definition path_synced :: "bytes \<Rightarrow> fs \<Rightarrow> bool" where
  "path_synced path fs \<longleftrightarrow> (case node_at fs path of None \<Rightarrow> True | Some n \<Rightarrow> nd_synced n)"

text \<open>
  The states a store's file passes through since the start, with the values it was asked to
  save. The process may be killed after any call of a save, and started again.
\<close>

inductive synced_run ::
  "(save_step \<Rightarrow> go_error \<Rightarrow> go_error) \<Rightarrow> (bytes \<Rightarrow> 'a option) \<Rightarrow> bytes \<Rightarrow> 'a list \<Rightarrow> fs list \<Rightarrow> bool"
  for wrap dec path where
  run_start: "fs_wf fs \<Longrightarrow> path_synced path fs \<Longrightarrow> synced_run wrap dec path [] [fs]"
| run_save: "synced_run wrap dec path xs hist \<Longrightarrow> temp_of env \<noteq> path \<Longrightarrow> encodes dec encoded x \<Longrightarrow>
     synced_save wrap path env encoded (last hist) = (r, s, ts) \<Longrightarrow>
     synced_run wrap dec path (xs @ [x]) (hist @ take k ts)"

inductive_simps synced_run_simps: "synced_run wrap dec path xs hist"

text \<open>Every name the path has had refers to a synced node, unchanged since, that satisfies \<open>P\<close>.\<close>

definition solid :: "(file_node option \<Rightarrow> bool) \<Rightarrow> file_node list \<Rightarrow> nat option \<Rightarrow> bool" where
  "solid P ns r = (case r of None \<Rightarrow> P None
     | Some i \<Rightarrow> i < length ns \<and> nd_synced (ns ! i) \<and> P (Some (ns ! i)))"

definition kept_nodes :: "(file_node option \<Rightarrow> bool) \<Rightarrow> bytes \<Rightarrow> fs list \<Rightarrow> bool" where
  "kept_nodes P path hist \<longleftrightarrow> hist \<noteq> [] \<and> fs_wf (last hist) \<and>
     (\<forall>t \<in> set hist. solid P (fs_nodes (last hist)) (map_of (fs_names t) path))"

lemma solid_extends:
  "solid P ns r \<Longrightarrow> (\<And>i. i < length ns \<Longrightarrow> i < length ms \<and> ms ! i = ns ! i) \<Longrightarrow> solid P ms r"
  by (cases r) (simp_all add: solid_def)

lemma kept_nodes_append:
  assumes kept: "kept_nodes P path hist" and wf: "us \<noteq> [] \<Longrightarrow> fs_wf (last us)"
    and nodes: "\<And>i. us \<noteq> [] \<Longrightarrow> i < length (fs_nodes (last hist)) \<Longrightarrow>
        i < length (fs_nodes (last us)) \<and> fs_nodes (last us) ! i = fs_nodes (last hist) ! i"
    and new: "\<And>t. t \<in> set us \<Longrightarrow> map_of (fs_names t) path = map_of (fs_names (last hist)) path \<or>
      solid P (fs_nodes (last us)) (map_of (fs_names t) path)"
  shows "kept_nodes P path (hist @ us)"
proof (cases "us = []")
  case False
  have old: "solid P (fs_nodes (last us)) (map_of (fs_names t) path)" if "t \<in> set hist" for t
    using kept that nodes [OF False] by (auto simp: kept_nodes_def intro: solid_extends)
  have "last hist \<in> set hist" using kept by (simp add: kept_nodes_def)
  then have "solid P (fs_nodes (last us)) (map_of (fs_names t) path)" if "t \<in> set us" for t
    using new [OF that] old by metis
  then show ?thesis using old wf False by (auto simp: kept_nodes_def)
qed (use kept in simp)

lemma solid_mono: "solid P ns r \<Longrightarrow> (\<And>n. P n \<Longrightarrow> Q n) \<Longrightarrow> solid Q ns r"
  by (cases r) (simp_all add: solid_def)

lemma kept_nodes_mono: "kept_nodes P path hist \<Longrightarrow> (\<And>n. P n \<Longrightarrow> Q n) \<Longrightarrow> kept_nodes Q path hist"
  by (auto simp: kept_nodes_def intro: solid_mono)

lemma kept_nodes_survive:
  assumes kept: "kept_nodes P path hist" and loss: "survives hist fs'"
    and data: "\<And>n n'. P (Some n) \<Longrightarrow> nd_data n' = nd_data n \<Longrightarrow> nd_mode n' = nd_mode n \<Longrightarrow> P (Some n')"
  shows "P (node_at fs' path)"
proof -
  obtain t where t: "t \<in> set hist" "fs_names fs' = fs_names t" using loss by (auto simp: survives_def)
  show ?thesis
  proof (cases "map_of (fs_names t) path")
    case None
    then show ?thesis using kept t by (auto simp: kept_nodes_def solid_def node_at_def dest: bspec [where x = t])
  next
    case (Some i)
    then have "i < length (fs_nodes (last hist))" "nd_synced (fs_nodes (last hist) ! i)"
      "P (Some (fs_nodes (last hist) ! i))"
      using kept t by (auto simp: kept_nodes_def solid_def dest: bspec [where x = t])
    moreover have "nd_mode (fs_nodes fs' ! i) = nd_mode (fs_nodes (last hist) ! i)"
      "nd_data (fs_nodes fs' ! i) = nd_data (fs_nodes (last hist) ! i)"
      using loss calculation(1,2) by (auto simp: survives_def list_all2_conv_all_nth)
    ultimately show ?thesis using data Some t(2) by (simp add: node_at_def)
  qed
qed

lemma replaced_index:
  "map_of (fs_names (replaced fs temp path data)) path = Some (length (fs_nodes fs))"
  "fs_nodes (replaced fs temp path data) = fs_nodes fs @ [\<lparr>nd_data = data, nd_mode = 384, nd_synced = True\<rparr>]"
  by (simp_all add: replaced_def fs_rename_def draft_def gomap_simps)

lemma fs_wf_replaced: "fs_wf fs \<Longrightarrow> fs_wf (replaced fs temp path data)"
  by (simp add: replaced_def)

lemma kept_nodes_aside:
  assumes kept: "kept_nodes P path hist" and us: "\<forall>t \<in> set us. aside (last hist) temp t" and temp: "temp \<noteq> path"
  shows "kept_nodes P path (hist @ us)"
proof (rule kept_nodes_append [OF kept])
  have wf: "fs_wf (last hist)" using kept by (simp add: kept_nodes_def)
  have last: "aside (last hist) temp (last us)" if "us \<noteq> []" using us that by simp
  show "fs_wf (last us)" if "us \<noteq> []" using aside_nodes(1) [OF last [OF that] wf] .
  show "i < length (fs_nodes (last us)) \<and> fs_nodes (last us) ! i = fs_nodes (last hist) ! i"
    if "us \<noteq> []" "i < length (fs_nodes (last hist))" for i
    using aside_index(2,3) [OF last [OF that(1)]] that(2) by (metis order_less_le_trans)
  show "map_of (fs_names t) path = map_of (fs_names (last hist)) path \<or>
      solid P (fs_nodes (last us)) (map_of (fs_names t) path)" if "t \<in> set us" for t
    using aside_index(1) [of _ temp t path] us that temp by metis
qed

lemma kept_nodes_save:
  assumes kept: "kept_nodes P path hist" and temp: "temp_of env \<noteq> path"
    and run: "synced_save wrap path env encoded (last hist) = (r, s, ts)"
    and new: "\<And>data. encoded = Inr data \<Longrightarrow> P (Some \<lparr>nd_data = data, nd_mode = 384, nd_synced = True\<rparr>)"
  shows "kept_nodes P path (hist @ take k ts)"
  using synced_save_cases [OF run]
proof (elim disjE exE conjE)
  assume "\<forall>t \<in> set ts. aside (last hist) (temp_of env) t"
  then have "\<forall>t \<in> set (take k ts). aside (last hist) (temp_of env) t" by (meson in_set_takeD)
  then show ?thesis using kept_nodes_aside [OF kept _ temp] by simp
next
  fix data us
  assume enc: "encoded = Inr data" and ts: "ts = us @ [s]" and us: "\<forall>t \<in> set us. aside (last hist) (temp_of env) t"
    and s: "s = replaced (last hist) (temp_of env) path data"
  show ?thesis
  proof (cases "k \<le> length us")
    case True
    have "\<forall>t \<in> set (take k us). aside (last hist) (temp_of env) t" using us by (meson in_set_takeD)
    then show ?thesis using kept_nodes_aside [OF kept _ temp] True ts by simp
  next
    case False
    have "kept_nodes P path (hist @ us @ [s])"
    proof (rule kept_nodes_append [OF kept])
      have "fs_wf (last hist)" using kept by (simp add: kept_nodes_def)
      then show "fs_wf (last (us @ [s]))" by (simp add: s fs_wf_replaced)
      show "i < length (fs_nodes (last (us @ [s]))) \<and> fs_nodes (last (us @ [s])) ! i = fs_nodes (last hist) ! i"
        if "i < length (fs_nodes (last hist))" for i
        using that by (simp add: s replaced_index nth_append)
      show "map_of (fs_names t) path = map_of (fs_names (last hist)) path \<or>
          solid P (fs_nodes (last (us @ [s]))) (map_of (fs_names t) path)" if "t \<in> set (us @ [s])" for t
        using that us temp aside_index(1) [of "last hist" "temp_of env" t path] new [OF enc]
        by (auto simp: s replaced_index solid_def)
    qed
    then show ?thesis using False ts by simp
  qed
qed

section \<open>Properties\<close>

definition view_of :: "(bytes \<Rightarrow> 'a option) \<Rightarrow> file_node option \<Rightarrow> 'a disk" where
  "view_of dec r = view dec [] (case r of None \<Rightarrow> \<lparr>fs_names = [], fs_nodes = []\<rparr>
     | Some n \<Rightarrow> \<lparr>fs_names = [([], 0)], fs_nodes = [n]\<rparr>)"

lemma view_of_node: "view dec path fs = view_of dec (node_at fs path)"
  by (simp add: view_of_def view_def node_at_def split: option.splits)

lemma synced_run_keeps:
  assumes "synced_run wrap dec path xs hist"
  shows "kept_nodes (\<lambda>r. view_of dec r = view dec path (hd hist) \<or>
      (\<exists>x \<in> set xs. view_of dec r = \<lparr>disk_file = Holds x, disk_mode = 384\<rparr>)) path hist"
  using assms
proof induction
  case (run_start fs)
  then show ?case
    by (auto simp: kept_nodes_def solid_def path_synced_def fs_wf_def view_of_node node_at_def split: option.splits)
next
  case (run_save xs hist env encoded x r s ts k)
  have hd: "hd (hist @ take k ts) = hd hist" using run_save.IH by (cases hist) (auto simp: kept_nodes_def)
  show ?case unfolding hd
  proof (rule kept_nodes_save [OF kept_nodes_mono [OF run_save.IH] run_save.hyps(2,4)])
    show "view_of dec (Some \<lparr>nd_data = data, nd_mode = 384, nd_synced = True\<rparr>) = view dec path (hd hist) \<or>
        (\<exists>y \<in> set (xs @ [x]). view_of dec (Some \<lparr>nd_data = data, nd_mode = 384, nd_synced = True\<rparr>) =
           \<lparr>disk_file = Holds y, disk_mode = 384\<rparr>)" if "encoded = Inr data" for data
      using run_save.hyps(3) that by (simp add: view_of_def view_def node_at_def encodes_def)
  qed auto
qed

text \<open>
  A store that replaces its file by the synchronized save can lose power at any moment, in
  the middle of a save, after the process was killed in one, or long after: at the next start
  the file is the one it started from or the complete file of a value it was asked to save,
  with mode \<open>0600\<close>. It is never empty, truncated or mixed.
\<close>

theorem synced_store_survives_power_loss:
  assumes "synced_run wrap dec path xs hist" and "survives hist fs'"
  shows "view dec path fs' = view dec path (hd hist) \<or>
    (\<exists>x \<in> set xs. view dec path fs' = \<lparr>disk_file = Holds x, disk_mode = 384\<rparr>)"
proof -
  have content: "view_of dec (Some n') = view_of dec (Some n)"
    if "nd_data n' = nd_data n" "nd_mode n' = nd_mode n" for n n'
    using that by (simp add: view_of_def view_def node_at_def)
  show ?thesis
    unfolding view_of_node [of dec path fs']
    by (rule kept_nodes_survive [OF synced_run_keeps [OF assms(1)] assms(2)]) (use content in metis)
qed

definition sample_save_env :: save_env where
  "sample_save_env = \<lparr>sa_make_dir = Inr (), sa_secure_dir = Inr (), sa_temp = Inr ''sync/.1.tmp'',
     sa_open = Inr (), sa_secure_temp = Inr (), sa_write = None, sa_sync = Inr (), sa_close = Inr (),
     sa_rename = Inr (), sa_remove = Inr ()\<rparr>"

definition sample_fs :: fs where
  "sample_fs = \<lparr>fs_names = [(''sync/store'', 0)],
     fs_nodes = [\<lparr>nd_data = ''old'', nd_mode = 384, nd_synced = True\<rparr>]\<rparr>"

lemma sample_fs_wf: "fs_wf sample_fs" "path_synced ''sync/store'' sample_fs"
  by (auto simp: sample_fs_def fs_wf_def map_wf_def path_synced_def node_at_def split: if_splits)

text \<open>A loss of power that takes the names of one state and empties the nodes that were not synced.\<close>

definition power_cut :: "fs \<Rightarrow> fs \<Rightarrow> fs" where
  "power_cut t s = \<lparr>fs_names = fs_names t,
     fs_nodes = map (\<lambda>n. n\<lparr>nd_data := (if nd_synced n then nd_data n else []), nd_synced := True\<rparr>) (fs_nodes s)\<rparr>"

lemma survives_power_cut: "t \<in> set hist \<Longrightarrow> last hist = s \<Longrightarrow> survives hist (power_cut t s)"
  by (auto simp: survives_def power_cut_def list_all2_conv_all_nth)

lemma synced_store_survives_power_loss_witness:
  "\<exists>hist fs'. synced_run (\<lambda>_ e. e) Some ''sync/store'' [''new''] hist \<and> survives hist fs' \<and>
     (view Some ''sync/store'' fs' = view Some ''sync/store'' (hd hist) \<or>
      (\<exists>x \<in> set [''new'']. view Some ''sync/store'' fs' = \<lparr>disk_file = Holds x, disk_mode = 384\<rparr>))"
proof -
  obtain r s ts where run: "synced_save (\<lambda>_ e. e) ''sync/store'' sample_save_env (Inr ''new'') sample_fs = (r, s, ts)"
    by (cases "synced_save (\<lambda>_ e. e) ''sync/store'' sample_save_env (Inr ''new'') sample_fs") auto
  have temp: "temp_of sample_save_env \<noteq> ''sync/store''" by (simp add: temp_of_def sample_save_env_def)
  let ?hist = "[sample_fs] @ take (length ts) ts"
  have hist: "synced_run (\<lambda>_ e. e) Some ''sync/store'' ([] @ [''new'']) ?hist"
    by (rule run_save [OF run_start [OF sample_fs_wf] temp, where encoded = "Inr ''new''" and r = r and s = s])
       (use run in \<open>simp_all add: encodes_def\<close>)
  have loss: "survives ?hist (power_cut sample_fs (last ?hist))"
    by (rule survives_power_cut) simp_all
  show ?thesis
    by (rule exI [where x = ?hist], rule exI [where x = "power_cut sample_fs (last ?hist)"])
       (use hist loss synced_store_survives_power_loss [OF hist loss] in simp)
qed

text \<open>
  What the plain save does not have: its content is renamed over the path before it is forced
  to the disk. What neither has: the directory is not synced, so the old name may come back.
\<close>

lemma node_at_power_cut:
  "fs_wf s \<Longrightarrow> node_at s path = Some n \<Longrightarrow>
     node_at (power_cut s s) path = Some (n\<lparr>nd_data := (if nd_synced n then nd_data n else []), nd_synced := True\<rparr>)"
  by (auto simp: power_cut_def node_at_def fs_wf_def)

lemma plain_save_may_be_blank:
  assumes run: "plain_save always path env encoded fs = (Inr (), s, ts)" and wf: "fs_wf fs"
  shows "survives (fs # ts) (power_cut s s) \<and> disk_file (view dec path (power_cut s s)) = Blank"
proof -
  obtain us b data m where ts: "ts = us @ [s]"
    and s: "s = fs_rename (path @ ''.tmp'') path b" and b: "beside fs (path @ ''.tmp'') b"
    and temp: "node_at b (path @ ''.tmp'') = Some \<lparr>nd_data = data, nd_mode = m, nd_synced = False\<rparr>"
    using plain_save_cases [OF run wf] by auto
  have "fs_wf s" "node_at s path = Some \<lparr>nd_data = data, nd_mode = m, nd_synced = False\<rparr>"
    using s b temp by (simp_all add: beside_def)
  from node_at_power_cut [OF this] show ?thesis
    using survives_power_cut [of s "fs # ts" s] ts by (simp add: view_def)
qed

lemma synced_save_may_be_undone:
  assumes run: "synced_save wrap path env encoded fs = (Inr (), s, ts)"
    and wf: "fs_wf fs" and durable: "path_synced path fs"
  shows "survives (fs # ts) (power_cut fs s) \<and> view dec path (power_cut fs s) = view dec path fs"
proof -
  obtain us data where ts: "ts = us @ [s]" and s: "s = replaced fs (temp_of env) path data"
    using synced_save_cases [OF run] by auto
  have "view dec path (power_cut fs s) = view dec path fs"
    using wf durable
    by (auto simp: s replaced_index view_def node_at_def power_cut_def path_synced_def nth_append fs_wf_def
      split: option.splits)
  then show ?thesis using survives_power_cut [of fs "fs # ts" s] ts by simp
qed

end
