(* ===== verification/Sessions.thy ===== *)
theory Sessions
  imports Identity
begin

text \<open>
  Package \<open>internal/session\<close>: peers admitted by a pairing proof (\<open>authenticated.go\<close>), the
  binding of record signatures to them (\<open>record.go\<close>), and the bearer-session file
  (\<open>store.go\<close>).
\<close>

section \<open>Authenticated peers\<close>

abbreviation ErrUnauthenticatedPeer :: go_error where
  "ErrUnauthenticatedPeer \<equiv> Sentinel ''sync peer is not authenticated''"
abbreviation ErrDeviceMismatch :: go_error where
  "ErrDeviceMismatch \<equiv> Sentinel ''pairing proof device does not match session device''"
abbreviation ErrRecordIdentityMismatch :: go_error where
  "ErrRecordIdentityMismatch \<equiv> Sentinel ''record signature does not match authenticated peer''"

record authenticated_peer =
  ap_device :: bytes
  ap_fingerprint :: bytes
  ap_capabilities :: "capability list"
  ap_negotiated :: "capability list"

definition authenticate_peer ::
  "runtime \<Rightarrow> bytes \<Rightarrow> pairing_proof \<Rightarrow> capability list \<Rightarrow> capability list \<Rightarrow>
     authenticated_peer result" where
  "authenticate_peer rt device_id proof local remote =
     (let device = trim_space device_id in
      if device = [] \<or> pp_device proof \<noteq> device then Inl ErrDeviceMismatch
      else case verify_pairing_proof rt proof of
        Inl _ \<Rightarrow> Inl ErrUnauthenticatedPeer
      | Inr fp \<Rightarrow> Inr \<lparr>ap_device = device, ap_fingerprint = fp, ap_capabilities = remote,
                      ap_negotiated = negotiate local remote\<rparr>)"

definition verify_signed_record ::
  "runtime \<Rightarrow> authenticated_peer \<Rightarrow> record_envelope \<Rightarrow> record_proof \<Rightarrow> unit result" where
  "verify_signed_record rt peer record proof =
     (if env_origin record \<noteq> ap_device peer \<or> rp_device proof \<noteq> ap_device peer
      then Inl ErrRecordIdentityMismatch
      else case verify_record_proof rt proof record of
        Inl _ \<Rightarrow> Inl ErrRecordIdentityMismatch
      | Inr fp \<Rightarrow> if fp \<noteq> ap_fingerprint peer then Inl ErrRecordIdentityMismatch else Inr ())"

lemma verify_signed_record_Inr [result_iff]:
  "verify_signed_record rt peer e p = Inr u \<longleftrightarrow>
     env_origin e = ap_device peer \<and> rp_device p = ap_device peer \<and>
     verify_record_proof rt p e = Inr (ap_fingerprint peer)"
  by (auto simp: verify_signed_record_def split: sum.splits if_splits)

lemma verified_device_nonempty: "verify_pairing_proof rt p = Inr fp \<Longrightarrow> pp_device p \<noteq> []"
  using valid_device_id_nonempty by (auto simp: verify_pairing_proof_Inr)

lemma authenticate_peer_Inr:
  "authenticate_peer rt v p l r = Inr peer \<longleftrightarrow>
     trim_space v = pp_device p \<and> verify_pairing_proof rt p = Inr (ap_fingerprint peer) \<and>
     peer = \<lparr>ap_device = pp_device p, ap_fingerprint = ap_fingerprint peer, ap_capabilities = r,
             ap_negotiated = negotiate l r\<rparr>"
  by (cases "verify_pairing_proof rt p")
    (auto simp: authenticate_peer_def Let_def dest: verified_device_nonempty)

section \<open>The session file\<close>

abbreviation ErrInvalidSessionToken :: go_error where
  "ErrInvalidSessionToken \<equiv> Sentinel ''invalid sync session token''"
abbreviation ErrSessionExpired :: go_error where
  "ErrSessionExpired \<equiv> Sentinel ''sync session expired''"

record persisted_session =
  ps_hash :: bytes
  ps_peer :: authenticated_peer
  ps_expires :: time

type_synonym sessions = "(bytes, persisted_session) gomap"
type_synonym session_disk = "sessions disk"

definition token_hash :: "runtime \<Rightarrow> bytes \<Rightarrow> bytes" where
  "token_hash rt token = hex_encode (rt_sha256 rt token)"

definition load_sessions :: "session_disk \<Rightarrow> sessions result" where
  "load_sessions d =
     (case disk_file d of
        Absent \<Rightarrow> Inr []
      | Unreadable \<Rightarrow> Inl ErrRead
      | Blank \<Rightarrow> Inr []
      | Garbage \<Rightarrow> Inl ErrDecode
      | Holds ms \<Rightarrow> Inr (map_from ms))"

definition put_session ::
  "runtime \<Rightarrow> session_disk \<Rightarrow> bytes \<Rightarrow> authenticated_peer \<Rightarrow> time \<Rightarrow> bool \<Rightarrow>
     unit result \<times> session_disk" where
  "put_session rt d token0 peer expires_at ok =
     (let token = trim_space token0 in
      if token = [] \<or> is_blank (ap_device peer) \<or> is_blank (ap_fingerprint peer) \<or>
         time_is_zero expires_at
      then (Inl ErrInvalidSessionToken, d)
      else case load_sessions d of
        Inl e \<Rightarrow> (Inl e, d)
      | Inr sessions \<Rightarrow>
          let hash = token_hash rt token in
          disk_save ok (map_put hash \<lparr>ps_hash = hash, ps_peer = peer, ps_expires = expires_at\<rparr> sessions) d)"

text \<open>
  A zero instant stands for the current time, here the argument \<open>clock\<close>. The result of
  removing an expired session is ignored, as in the source.
\<close>

definition resolve_session ::
  "runtime \<Rightarrow> session_disk \<Rightarrow> bytes \<Rightarrow> time \<Rightarrow> time \<Rightarrow> bool \<Rightarrow>
     authenticated_peer result \<times> session_disk" where
  "resolve_session rt d token0 now0 clock ok =
     (let token = trim_space token0 in
      if token = [] then (Inl ErrInvalidSessionToken, d)
      else
        let now = (if time_is_zero now0 then clock else now0) in
        case load_sessions d of
          Inl e \<Rightarrow> (Inl e, d)
        | Inr sessions \<Rightarrow>
            let hash = token_hash rt token in
            case map_of sessions hash of
              None \<Rightarrow> (Inl ErrInvalidSessionToken, d)
            | Some entry \<Rightarrow>
                if \<not> now < ps_expires entry
                then (Inl ErrSessionExpired, snd (disk_save ok (map_del hash sessions) d))
                else (Inr (ps_peer entry), d))"

text \<open>The sessions a file holds, by token digest.\<close>

definition session_at :: "session_disk \<Rightarrow> bytes \<Rightarrow> persisted_session option" where
  "session_at d h = (case load_sessions d of Inl _ \<Rightarrow> None | Inr m \<Rightarrow> map_of m h)"

lemma load_sessions_wf: "load_sessions d = Inr m \<Longrightarrow> map_wf m"
  by (auto simp: load_sessions_def split: content.splits)

lemma load_sessions_saved [simp]:
  "map_wf m \<Longrightarrow> load_sessions \<lparr>disk_file = Holds m, disk_mode = x\<rparr> = Inr m"
  by (simp add: load_sessions_def)

lemma put_session_effect:
  assumes "put_session rt d token peer t ok = (Inr u, d')"
  shows "trim_space token \<noteq> [] \<and> \<not> is_blank (ap_device peer) \<and> \<not> is_blank (ap_fingerprint peer) \<and>
    is_ok (load_sessions d) \<and> is_ok (load_sessions d') \<and>
    session_at d' h =
      (if h = token_hash rt (trim_space token)
       then Some \<lparr>ps_hash = h, ps_peer = peer, ps_expires = t\<rparr> else session_at d h)"
  using assms load_sessions_wf [of d]
  by (auto simp: put_session_def Let_def disk_save_def session_at_def gomap_simps
      split: if_splits sum.splits)

lemma resolve_session_Inr:
  "resolve_session rt d token now clock ok = (Inr p, d') \<longleftrightarrow>
     trim_space token \<noteq> [] \<and> d' = d \<and>
     (\<exists>s. session_at d (token_hash rt (trim_space token)) = Some s \<and> ps_peer s = p \<and>
        (if time_is_zero now then clock else now) < ps_expires s)"
  by (auto simp: resolve_session_def Let_def session_at_def split: sum.splits option.splits if_splits)

lemma resolve_session_removes:
  "session_at (snd (resolve_session rt d token now clock ok)) h \<in> {None, session_at d h}"
  using load_sessions_wf [of d]
  by (auto simp: resolve_session_def Let_def session_at_def disk_save_def gomap_simps
      split: sum.splits option.splits)

section \<open>Properties\<close>

text \<open>
  C26. A peer is authenticated only for the device its pairing proof names, with the
  fingerprint of the key that signed the proof; a record that verifies for that peer was
  signed, over this exact record, by a key with the same fingerprint, and names the peer's
  device as its origin.
\<close>

theorem signed_record_bound_to_peer:
  assumes peer: "authenticate_peer rt v pp l r = Inr peer"
    and signed: "verify_signed_record rt peer e p = Inr ()"
  shows "env_origin e = trim_space v \<and> valid_device_id (env_origin e) \<and>
    (\<exists>k k' s s'. b64_decode (pp_public pp) = Some k \<and> b64_decode (rp_public p) = Some k' \<and>
       fingerprint rt k = fingerprint rt k' \<and>
       rt_verify rt k (pairing_message (env_origin e) (pp_nonce pp)) s \<and>
       rt_verify rt k' (record_proof_message rt e) s')"
  using assms
  by (auto simp: authenticate_peer_Inr result_iff verify_pairing_proof_Inr verify_record_proof_Inr)

definition sample_peer :: authenticated_peer where
  "sample_peer = \<lparr>ap_device = sample_device,
     ap_fingerprint = fingerprint sample_runtime sample_public,
     ap_capabilities = first_party, ap_negotiated = negotiate first_party first_party\<rparr>"

definition sample_proof :: record_proof where
  "sample_proof = \<lparr>rp_device = sample_device, rp_public = b64_encode sample_public,
     rp_signature = b64_encode (rt_sign sample_runtime sample_private
       (record_proof_message sample_runtime sample_record))\<rparr>"

lemma sample_peer_authenticates:
  "authenticate_peer sample_runtime sample_device sample_pairing first_party first_party = Inr sample_peer"
  using sample_pairing_verifies
  by (simp add: authenticate_peer_Inr sample_peer_def valid_device_id_trim)
    (simp add: sample_pairing_def)

lemma sample_proof_verifies: "verify_signed_record sample_runtime sample_peer sample_record sample_proof = Inr ()"
  using sample_keypair
  by (auto simp: result_iff sample_peer_def sample_record_def sample_proof_def
      verify_record_proof_Inr keypair_ok_def key_sizes sample_key_sizes [unfolded key_sizes]
      valid_device_id_nonempty)

theorem signed_record_bound_to_peer_witness:
  "env_origin sample_record = trim_space sample_device"
  using signed_record_bound_to_peer [OF sample_peer_authenticates sample_proof_verifies] by simp

text \<open>
  A stored session resolves, until it expires, to exactly the peer it was stored for,
  whatever surrounds the token in white space; no other token is affected unless its digest
  collides; and resolving never makes a session appear.
\<close>

theorem session_put_resolve:
  assumes put: "put_session rt d token peer t ok = (Inr (), d')"
  shows "(\<forall>token' now clock ok'. trim_space token' = trim_space token \<longrightarrow> now \<noteq> 0 \<longrightarrow> now < t \<longrightarrow>
       resolve_session rt d' token' now clock ok' = (Inr peer, d')) \<and>
    (\<forall>token' now clock ok'. no_collision rt (trim_space token') (trim_space token) \<longrightarrow>
       trim_space token' \<noteq> trim_space token \<longrightarrow>
       fst (resolve_session rt d' token' now clock ok') = fst (resolve_session rt d token' now clock ok')) \<and>
    (\<forall>token' now clock ok' h.
       session_at (snd (resolve_session rt d' token' now clock ok')) h \<in> {None, session_at d' h})"
proof (intro conjI allI impI)
  fix token' now clock ok'
  assume "trim_space token' = trim_space token" "now \<noteq> 0" "now < t"
  then show "resolve_session rt d' token' now clock ok' = (Inr peer, d')"
    using put_session_effect [OF put, of "token_hash rt (trim_space token)"]
    by (auto simp: resolve_session_Inr time_is_zero_def)
next
  fix token' now clock ok'
  assume "no_collision rt (trim_space token') (trim_space token)" "trim_space token' \<noteq> trim_space token"
  then have "token_hash rt (trim_space token') \<noteq> token_hash rt (trim_space token)"
    by (auto simp: token_hash_def no_collision_def)
  with put_session_effect [OF put, of "token_hash rt (trim_space token')"]
  have "session_at d' (token_hash rt (trim_space token')) = session_at d (token_hash rt (trim_space token'))"
    "is_ok (load_sessions d)" "is_ok (load_sessions d')" by auto
  then show "fst (resolve_session rt d' token' now clock ok') = fst (resolve_session rt d token' now clock ok')"
    by (auto simp: resolve_session_def Let_def session_at_def is_ok_iff split: option.splits)
next
  fix token' now clock ok' h
  show "session_at (snd (resolve_session rt d' token' now clock ok')) h \<in> {None, session_at d' h}"
    by (rule resolve_session_removes)
qed

lemma not_blank_sample: "\<not> is_blank sample_device" "\<not> is_blank (fingerprint rt k)"
proof -
  show "\<not> is_blank sample_device"
    using valid_device_id_trim [OF sample_device_valid] valid_device_id_nonempty [OF sample_device_valid]
    by (simp add: is_blank_def)
  have "set (hex_encode (rt_sha256 rt k)) \<subseteq> set hex_alphabet" by (rule hex_encode_chars)
  moreover have "\<forall>c \<in> set hex_alphabet. printable c" by (simp add: hex_alphabet_def printable_def)
  ultimately have "\<forall>c \<in> set (fingerprint rt k). printable c"
    by (auto simp: fingerprint_def printable_def)
  then have "trim_space (fingerprint rt k) = fingerprint rt k"
    by (intro trim_space_printable) simp_all
  then show "\<not> is_blank (fingerprint rt k)" by (simp add: is_blank_def)
qed

theorem session_put_resolve_witness:
  "\<exists>d. resolve_session sample_runtime d ''secret '' 5 0 True = (Inr sample_peer, d)"
proof -
  have trim: "trim_space ''secret'' = ''secret''" by (rule trim_space_printable) (simp_all add: printable_def)
  have trim': "trim_space ''secret '' = trim_space ''secret''" by code_simp
  obtain d' where put: "put_session sample_runtime \<lparr>disk_file = Absent, disk_mode = 0\<rparr> ''secret''
      sample_peer 9 True = (Inr (), d')"
    by (simp add: put_session_def Let_def trim sample_peer_def not_blank_sample load_sessions_def time_is_zero_def)
  from session_put_resolve [OF put] trim' show ?thesis by (intro exI [of _ d']) auto
qed

end
