(* ===== verification/Policy.thy ===== *)
theory Policy
  imports Sessions
begin

text \<open>
  Package \<open>internal/policy\<close>: the acceptance decision over a negotiated capability, a Privacy
  Shield decision and Wardveil trust evidence (\<open>acceptance.go\<close>), and the pair of decision
  providers (\<open>providers.go\<close>).
\<close>

abbreviation ErrPurposeDenied :: go_error where
  "ErrPurposeDenied \<equiv> Sentinel ''privacy purpose is not authorized''"
abbreviation ErrConsentDenied :: go_error where
  "ErrConsentDenied \<equiv> Sentinel ''privacy consent is not authorized''"
abbreviation ErrPeerUntrusted :: go_error where
  "ErrPeerUntrusted \<equiv> Sentinel ''peer trust evidence is insufficient''"
abbreviation ErrDatasetUnauthorized :: go_error where
  "ErrDatasetUnauthorized \<equiv> Sentinel ''dataset is not negotiated for peer''"
abbreviation ErrDecisionProviderUnavailable :: go_error where
  "ErrDecisionProviderUnavailable \<equiv> Sentinel ''required policy decision provider is unavailable''"

record privacy_decision =
  pd_purpose :: bytes
  pd_purpose_allowed :: bool
  pd_consent :: bool
  pd_decided_at :: time
  pd_evidence :: bytes

record trust_evidence =
  te_device :: bytes
  te_fingerprint :: bytes
  te_trusted :: bool
  te_evaluated_at :: time
  te_evidence :: bytes

record acceptance_evidence =
  ae_dataset :: bytes
  ae_record :: bytes
  ae_device :: bytes
  ae_fingerprint :: bytes
  ae_privacy :: bytes
  ae_trust :: bytes
  ae_accepted_at :: time

text \<open>The loop over the negotiated datasets stops at the first entry of the record's dataset.\<close>

definition negotiated_capability :: "authenticated_peer \<Rightarrow> bytes \<Rightarrow> capability option" where
  "negotiated_capability peer dataset = find (\<lambda>c. cap_dataset c = dataset) (ap_negotiated peer)"

text \<open>A zero instant stands for the current time, the argument \<open>clock\<close>.\<close>

definition authorize_record ::
  "record_envelope \<Rightarrow> authenticated_peer \<Rightarrow> privacy_decision \<Rightarrow> trust_evidence \<Rightarrow> time \<Rightarrow> time \<Rightarrow>
     acceptance_evidence result" where
  "authorize_record record peer privacy trust now clock =
     (case negotiated_capability peer (env_dataset record) of
        None \<Rightarrow> Inl ErrDatasetUnauthorized
      | Some capability \<Rightarrow>
          case validate_record record capability of
            Inl e \<Rightarrow> Inl e
          | Inr _ \<Rightarrow>
              if is_blank (pd_purpose privacy) \<or> \<not> pd_purpose_allowed privacy
              then Inl ErrPurposeDenied
              else if \<not> pd_consent privacy \<or> time_is_zero (pd_decided_at privacy)
              then Inl ErrConsentDenied
              else if \<not> te_trusted trust \<or> time_is_zero (te_evaluated_at trust) \<or>
                te_device trust \<noteq> ap_device peer \<or> te_fingerprint trust \<noteq> ap_fingerprint peer
              then Inl ErrPeerUntrusted
              else Inr \<lparr>ae_dataset = env_dataset record, ae_record = env_id record,
                        ae_device = ap_device peer, ae_fingerprint = ap_fingerprint peer,
                        ae_privacy = pd_evidence privacy, ae_trust = te_evidence trust,
                        ae_accepted_at = (if time_is_zero now then clock else now)\<rparr>)"

record decision_providers =
  dp_privacy :: "(record_envelope \<Rightarrow> authenticated_peer \<Rightarrow> privacy_decision result) option"
  dp_trust :: "(record_envelope \<Rightarrow> authenticated_peer \<Rightarrow> trust_evidence result) option"

definition validate_providers :: "decision_providers \<Rightarrow> unit result" where
  "validate_providers p =
     (if dp_privacy p = None \<or> dp_trust p = None then Inl ErrDecisionProviderUnavailable else Inr ())"

lemma validate_providers_Inr [result_iff]:
  "validate_providers p = Inr u \<longleftrightarrow> (\<exists>f g. dp_privacy p = Some f \<and> dp_trust p = Some g)"
  by (auto simp: validate_providers_def)

lemma negotiated_capability_Some:
  "negotiated_capability p d = Some c \<Longrightarrow> c \<in> set (ap_negotiated p) \<and> cap_dataset c = d"
  by (auto simp: negotiated_capability_def find_Some_iff)

definition record_authorized ::
  "record_envelope \<Rightarrow> authenticated_peer \<Rightarrow> privacy_decision \<Rightarrow> trust_evidence \<Rightarrow> bool" where
  "record_authorized e peer v t \<longleftrightarrow>
     (\<exists>c. negotiated_capability peer (env_dataset e) = Some c \<and> validate_record e c = Inr ()) \<and>
     \<not> is_blank (pd_purpose v) \<and> pd_purpose_allowed v \<and> pd_consent v \<and> pd_decided_at v \<noteq> 0 \<and>
     te_trusted t \<and> te_evaluated_at t \<noteq> 0 \<and> te_device t = ap_device peer \<and>
     te_fingerprint t = ap_fingerprint peer"

lemma authorize_record_Inr:
  "authorize_record e peer v t now clock = Inr ev \<longleftrightarrow>
     record_authorized e peer v t \<and>
     ev = \<lparr>ae_dataset = env_dataset e, ae_record = env_id e, ae_device = ap_device peer,
           ae_fingerprint = ap_fingerprint peer, ae_privacy = pd_evidence v,
           ae_trust = te_evidence t, ae_accepted_at = (if now = 0 then clock else now)\<rparr>"
  by (auto simp: authorize_record_def record_authorized_def time_is_zero_def
      split: option.splits sum.splits if_splits)

lemma record_authorizedD:
  assumes "record_authorized e peer v t"
  obtains c where "c \<in> set (ap_negotiated peer)" "cap_dataset c = env_dataset e"
    "validate_record e c = Inr ()"
  using assms negotiated_capability_Some by (auto simp: record_authorized_def)

section \<open>Concrete inputs\<close>

text \<open>A peer, decisions and search-history records on which the properties are exercised.\<close>

definition history_capability :: capability where
  "history_capability = \<lparr>cap_dataset = ''search.history'', cap_application = ''search'',
     cap_schema = 1, cap_read = True, cap_write = True, cap_delete = True\<rparr>"

definition history_record :: "bytes \<Rightarrow> u64 \<Rightarrow> time \<Rightarrow> payload \<Rightarrow> record_envelope" where
  "history_record i rv t p = \<lparr>env_dataset = ''search.history'', env_schema = 1, env_id = i,
     env_revision = rv, env_updated = t, env_origin = sample_device, env_deleted = False,
     env_payload = p\<rparr>"

definition sample_privacy :: privacy_decision where
  "sample_privacy = \<lparr>pd_purpose = ''sync'', pd_purpose_allowed = True, pd_consent = True,
     pd_decided_at = 1, pd_evidence = ''p1''\<rparr>"

definition sample_trust :: trust_evidence where
  "sample_trust = \<lparr>te_device = sample_device,
     te_fingerprint = fingerprint sample_runtime sample_public, te_trusted = True,
     te_evaluated_at = 1, te_evidence = ''t1''\<rparr>"

lemma sample_negotiated: "negotiated_capability sample_peer ''search.history'' = Some history_capability"
  unfolding sample_peer_def history_capability_def by code_simp

lemma history_record_simps [simp]:
  "env_dataset (history_record i rv t p) = ''search.history''"
  "env_id (history_record i rv t p) = i" "env_revision (history_record i rv t p) = rv"
  "env_updated (history_record i rv t p) = t" "env_payload (history_record i rv t p) = p"
  "env_schema (history_record i rv t p) = 1" "env_deleted (history_record i rv t p) = False"
  "env_origin (history_record i rv t p) = sample_device"
  by (simp_all add: history_record_def)

lemma history_record_valid:
  assumes "i \<noteq> []" "\<forall>c \<in> set i. printable c" "length i \<le> 512" "rv \<noteq> 0" "t \<noteq> 0" "p \<noteq> None"
  shows "validate_record (history_record i rv t p) history_capability = Inr ()"
proof -
  have "\<not> is_blank i" using assms(1) trim_space_printable [of i] assms(2) by (simp add: is_blank_def)
  moreover have "\<not> is_blank ''search.history''"
    by (simp add: is_blank_def trim_space_printable printable_def)
  ultimately show ?thesis
    using assms by (simp add: validate_record_def history_capability_def not_blank_sample
        max_record_id_bytes_def time_is_zero_def not_less)
qed

lemma history_record_authorized:
  assumes "i \<noteq> []" "\<forall>c \<in> set i. printable c" "length i \<le> 512" "rv \<noteq> 0" "t \<noteq> 0" "p \<noteq> None"
  shows "record_authorized (history_record i rv t p) sample_peer sample_privacy sample_trust"
  using history_record_valid [OF assms] sample_negotiated
  by (simp add: record_authorized_def sample_privacy_def sample_trust_def is_blank_def
      trim_space_printable printable_def) (simp add: sample_peer_def)

end
