(* ===== verification/Record_Stores.thy ===== *)
theory Record_Stores
  imports Policy
begin

text \<open>
  The persistent record stores of \<open>internal/replication\<close>: \<open>search_history_store.go\<close>,
  \<open>bookmark_item_store.go\<close> and \<open>browser_record_store.go\<close>. They share one file format and
  one body; an interface states what ingestion, retrieval and compaction rely on, and is
  interpreted on each of the three.
\<close>

section \<open>The file\<close>

record persisted_record =
  pr_envelope :: record_envelope
  pr_evidence :: acceptance_evidence

text \<open>
  The members of the JSON object, in the order of the file. The map in memory is what the decoder
  builds from them.
\<close>

type_synonym record_disk = "(bytes \<times> persisted_record) list disk"
type_synonym records = "(bytes, persisted_record) gomap"

definition load_records :: "record_disk \<Rightarrow> records result" where
  "load_records d =
     (case disk_file d of
        Absent \<Rightarrow> Inr []
      | Unreadable \<Rightarrow> Inl ErrRead
      | Blank \<Rightarrow> Inr []
      | Garbage \<Rightarrow> Inl ErrDecode
      | Holds ms \<Rightarrow> Inr (map_from ms))"

text \<open>
  What a record reads back as: the payload has the JSON option \<open>omitempty\<close>, so an empty map is
  not written and is decoded as the nil map. Every other field survives the round trip.
\<close>

definition stored_envelope :: "record_envelope \<Rightarrow> record_envelope" where
  "stored_envelope e = e\<lparr>env_payload := (if payload_length (env_payload e) = 0 then None
                                        else env_payload e)\<rparr>"

definition stored_form :: "persisted_record \<Rightarrow> persisted_record" where
  "stored_form r = r\<lparr>pr_envelope := stored_envelope (pr_envelope r)\<rparr>"

definition save_records :: "bool \<Rightarrow> records \<Rightarrow> record_disk \<Rightarrow> unit result \<times> record_disk" where
  "save_records ok records d = disk_save ok (map (\<lambda>(k, r). (k, stored_form r)) records) d"

section \<open>Operations\<close>

text \<open>
  The common body of the three \<open>AcceptAndPersist\<close> methods: \<open>dataset\<close> and \<open>mismatch\<close> are
  what a store compares the record with and answers when it differs.
\<close>

definition accept_and_persist ::
  "bytes \<Rightarrow> go_error \<Rightarrow> record_envelope \<Rightarrow> authenticated_peer \<Rightarrow> privacy_decision \<Rightarrow> trust_evidence \<Rightarrow>
     time \<Rightarrow> time \<Rightarrow> record_disk \<Rightarrow> bool \<Rightarrow> acceptance_evidence result \<times> record_disk" where
  "accept_and_persist dataset mismatch record peer privacy trust now clock d ok =
     (if env_dataset record \<noteq> dataset then (Inl mismatch, d)
      else case authorize_record record peer privacy trust now clock of
        Inl e \<Rightarrow> (Inl e, d)
      | Inr evidence \<Rightarrow>
          case load_records d of
            Inl e \<Rightarrow> (Inl e, d)
          | Inr records \<Rightarrow>
              let persist =
                (case save_records ok
                        (map_put (env_id record) \<lparr>pr_envelope = record, pr_evidence = evidence\<rparr> records) d of
                   (Inl e, d') \<Rightarrow> (Inl e, d')
                 | (Inr _, d') \<Rightarrow> (Inr evidence, d'))
              in case map_of records (env_id record) of
                Some current \<Rightarrow>
                  (case resolve_conflict (pr_envelope current) record of
                     ResolutionLocal \<Rightarrow> (Inr (pr_evidence current), d)
                   | ResolutionConverged \<Rightarrow> (Inr (pr_evidence current), d)
                   | ResolutionRemote \<Rightarrow> persist)
              | None \<Rightarrow> persist)"

text \<open>
  \<open>sort.Slice\<close> on the record identifier; identifiers are distinct in a file the stores wrote.
\<close>

definition sorted_records :: "record_disk \<Rightarrow> record_envelope list result" where
  "sorted_records d =
     and_then (load_records d) (\<lambda>records. Inr (sort_key env_id (map (pr_envelope \<circ> snd) records)))"

abbreviation ErrSearchHistoryOnly :: go_error where
  "ErrSearchHistoryOnly \<equiv> Sentinel ''replication store accepts only search.history''"
abbreviation ErrBookmarkItemsOnly :: go_error where
  "ErrBookmarkItemsOnly \<equiv> Sentinel ''replication store accepts only bookmarks.items''"
abbreviation ErrBrowserDatasetMismatch :: go_error where
  "ErrBrowserDatasetMismatch \<equiv> Sentinel ''browser replication store dataset mismatch''"

definition search_accept ::
  "record_envelope \<Rightarrow> authenticated_peer \<Rightarrow> privacy_decision \<Rightarrow> trust_evidence \<Rightarrow> time \<Rightarrow> time \<Rightarrow>
     record_disk \<Rightarrow> bool \<Rightarrow> acceptance_evidence result \<times> record_disk" where
  "search_accept = accept_and_persist ''search.history'' ErrSearchHistoryOnly"

definition bookmark_accept ::
  "record_envelope \<Rightarrow> authenticated_peer \<Rightarrow> privacy_decision \<Rightarrow> trust_evidence \<Rightarrow> time \<Rightarrow> time \<Rightarrow>
     record_disk \<Rightarrow> bool \<Rightarrow> acceptance_evidence result \<times> record_disk" where
  "bookmark_accept = accept_and_persist ''bookmarks.items'' ErrBookmarkItemsOnly"

record browser_store =
  bs_disk :: record_disk
  bs_dataset :: bytes

definition new_browser_tab_store :: "record_disk \<Rightarrow> browser_store" where
  "new_browser_tab_store d = \<lparr>bs_disk = d, bs_dataset = ''browser.tabs''\<rparr>"

definition new_browser_history_store :: "record_disk \<Rightarrow> browser_store" where
  "new_browser_history_store d = \<lparr>bs_disk = d, bs_dataset = ''browser.history''\<rparr>"

definition browser_accept ::
  "record_envelope \<Rightarrow> authenticated_peer \<Rightarrow> privacy_decision \<Rightarrow> trust_evidence \<Rightarrow> time \<Rightarrow> time \<Rightarrow>
     browser_store \<Rightarrow> bool \<Rightarrow> acceptance_evidence result \<times> browser_store" where
  "browser_accept record peer privacy trust now clock s ok =
     (case accept_and_persist (bs_dataset s) ErrBrowserDatasetMismatch record peer privacy trust now
             clock (bs_disk s) ok of
        (r, d) \<Rightarrow> (r, s\<lparr>bs_disk := d\<rparr>))"

section \<open>What a store holds\<close>

definition stored_at :: "record_disk \<Rightarrow> bytes \<Rightarrow> persisted_record option" where
  "stored_at d i =
     (case load_records d of Inl _ \<Rightarrow> None | Inr m \<Rightarrow> map_option stored_form (map_of m i))"

lemma stored_form_idem [simp]: "stored_form (stored_form r) = stored_form r"
  by (simp add: stored_form_def stored_envelope_def payload_length_def split: option.splits)

lemma stored_form_simps [simp]:
  "pr_envelope (stored_form r) = stored_envelope (pr_envelope r)"
  "pr_evidence (stored_form r) = pr_evidence r"
  by (simp_all add: stored_form_def)

lemma stored_envelope_simps [simp]:
  "env_id (stored_envelope e) = env_id e" "env_dataset (stored_envelope e) = env_dataset e"
  "env_schema (stored_envelope e) = env_schema e" "env_revision (stored_envelope e) = env_revision e"
  "env_updated (stored_envelope e) = env_updated e" "env_origin (stored_envelope e) = env_origin e"
  "env_deleted (stored_envelope e) = env_deleted e"
  "conflict_key (stored_envelope e) = conflict_key e"
  by (simp_all add: stored_envelope_def conflict_key_def)

lemma resolve_stored [simp]:
  "resolve_conflict (stored_envelope e) r = resolve_conflict e r"
  "resolve_conflict e (stored_envelope r) = resolve_conflict e r"
  by (simp_all add: resolve_conflict_key)

lemma load_records_wf: "load_records d = Inr m \<Longrightarrow> map_wf m"
  by (auto simp: load_records_def split: content.splits)

lemma map_wf_map_snd: "map_wf (map (\<lambda>(k, r). (k, f r)) m) \<longleftrightarrow> map_wf m"
  by (simp add: map_wf_def comp_def split_beta)

lemma load_records_saved:
  "map_wf m \<Longrightarrow>
     load_records \<lparr>disk_file = Holds (map (\<lambda>(k, r). (k, stored_form r)) m), disk_mode = x\<rparr> =
       Inr (map (\<lambda>(k, r). (k, stored_form r)) m)"
  by (simp add: load_records_def map_wf_map_snd)

lemma stored_at_saved:
  "map_wf m \<Longrightarrow>
     stored_at \<lparr>disk_file = Holds (map (\<lambda>(k, r). (k, stored_form r)) m), disk_mode = x\<rparr> i =
       map_option stored_form (map_of m i)"
  by (simp add: stored_at_def load_records_saved map_of_map option.map_comp comp_def)

text \<open>The new content at the identifier of an accepted record.\<close>

definition winner :: "persisted_record option \<Rightarrow> persisted_record \<Rightarrow> persisted_record" where
  "winner current r =
     (case current of
        None \<Rightarrow> r
      | Some c \<Rightarrow> if resolve_conflict (pr_envelope c) (pr_envelope r) = ResolutionRemote then r else c)"

lemma accept_failed:
  "accept_and_persist ds err e peer v t now clock d ok = (Inl x, d') \<Longrightarrow> d' = d"
  by (auto simp: accept_and_persist_def Let_def save_records_def disk_save_def
      split: if_splits sum.splits option.splits resolution.splits)

lemma accept_effect:
  assumes "accept_and_persist ds err e peer v t now clock d ok = (Inr ev, d')"
  shows "env_dataset e = ds \<and> record_authorized e peer v t \<and>
    stored_at d' i =
      (if i = env_id e
       then Some (stored_form (winner (stored_at d i)
              \<lparr>pr_envelope = e, pr_evidence = \<lparr>ae_dataset = env_dataset e, ae_record = env_id e,
                 ae_device = ap_device peer, ae_fingerprint = ap_fingerprint peer,
                 ae_privacy = pd_evidence v, ae_trust = te_evidence t,
                 ae_accepted_at = (if now = 0 then clock else now)\<rparr>\<rparr>))
       else stored_at d i)"
proof -
  obtain ev0 m where ds: "env_dataset e = ds" and ev0: "authorize_record e peer v t now clock = Inr ev0"
    and m: "load_records d = Inr m"
    using assms by (auto simp: accept_and_persist_def split: if_splits sum.splits)
  let ?r = "\<lparr>pr_envelope = e, pr_evidence = ev0\<rparr>"
  let ?saved = "\<lparr>disk_file = Holds (map (\<lambda>(k, r). (k, stored_form r)) (map_put (env_id e) ?r m)),
    disk_mode = 384\<rparr>"
  have wf: "map_wf m" using m by (rule load_records_wf)
  consider (kept) c where "map_of m (env_id e) = Some c"
      "resolve_conflict (pr_envelope c) e \<noteq> ResolutionRemote" "d' = d"
    | (written) "d' = ?saved"
      "\<forall>c. map_of m (env_id e) = Some c \<longrightarrow> resolve_conflict (pr_envelope c) e = ResolutionRemote"
    using assms ds ev0 m
    by (auto simp: accept_and_persist_def Let_def save_records_def disk_save_def
        split: if_splits sum.splits option.splits resolution.splits)
  then have "stored_at d' i =
      (if i = env_id e then Some (stored_form (winner (stored_at d i) ?r)) else stored_at d i)"
  proof cases
    case kept
    then show ?thesis by (auto simp: stored_at_def m winner_def)
  next
    case written
    have "stored_at d' i = map_option stored_form (map_of (map_put (env_id e) ?r m) i)"
      unfolding written(1) by (rule stored_at_saved [OF map_wf_put [OF wf]])
    moreover have "stored_at d i = map_option stored_form (map_of m i)"
      by (simp add: stored_at_def m)
    ultimately show ?thesis
      using written(2) by (cases "map_of m (env_id e)") (auto simp: winner_def map_of_put)
  qed
  with ds ev0 show ?thesis by (auto simp: authorize_record_Inr)
qed

text \<open>
  A store that is handed one record after another, each with the peer and the decisions it
  arrived with: the records it accepted, in order, and its state.
\<close>

type_synonym arrival = "record_envelope \<times> authenticated_peer \<times> privacy_decision \<times> trust_evidence \<times>
    time \<times> time \<times> bool"

fun accept_all :: "(record_envelope \<Rightarrow> authenticated_peer \<Rightarrow> privacy_decision \<Rightarrow> trust_evidence \<Rightarrow>
      time \<Rightarrow> time \<Rightarrow> 's \<Rightarrow> bool \<Rightarrow> acceptance_evidence result \<times> 's) \<Rightarrow>
    arrival list \<Rightarrow> 's \<Rightarrow> record_envelope list \<times> 's" where
  "accept_all accept [] s = ([], s)"
| "accept_all accept ((e, p, v, t, n, c, ok) # xs) s =
     (case accept e p v t n c s ok of
        (Inl _, s') \<Rightarrow> accept_all accept xs s'
      | (Inr _, s') \<Rightarrow> (case accept_all accept xs s' of (es, s'') \<Rightarrow> (e # es, s'')))"

section \<open>The interface of a record store\<close>

text \<open>
  What the users of a store rely on: an operation that fails changes nothing; one that succeeds
  was authorized, was for the store's dataset, and leaves at the record's identifier the
  winner of conflict resolution and everything else alone.
\<close>

locale record_store =
  fixes accept :: "record_envelope \<Rightarrow> authenticated_peer \<Rightarrow> privacy_decision \<Rightarrow> trust_evidence \<Rightarrow>
      time \<Rightarrow> time \<Rightarrow> 's \<Rightarrow> bool \<Rightarrow> acceptance_evidence result \<times> 's"
    and stored :: "'s \<Rightarrow> bytes \<Rightarrow> persisted_record option"
    and dataset :: "'s \<Rightarrow> bytes"
  assumes failed: "accept e p v t n c s ok = (Inl x, s') \<Longrightarrow> s' = s"
    and same_dataset: "accept e p v t n c s ok = (Inr ev, s') \<Longrightarrow>
      env_dataset e = dataset s \<and> dataset s' = dataset s"
    and authorized: "accept e p v t n c s ok = (Inr ev, s') \<Longrightarrow> record_authorized e p v t"
    and effect: "accept e p v t n c s ok = (Inr ev, s') \<Longrightarrow>
      \<exists>ev'. stored s' i =
        (if i = env_id e
         then Some (stored_form (winner (stored s i) \<lparr>pr_envelope = e, pr_evidence = ev'\<rparr>))
         else stored s i)"
    and in_form: "stored s i = Some r \<Longrightarrow> stored_form r = r"
begin

lemma accept_envelope:
  assumes "accept e p v t n c s ok = (Inr ev, s')"
  shows "map_option pr_envelope (stored s' i) =
    (if i = env_id e
     then Some (case stored s i of None \<Rightarrow> stored_envelope e
                | Some r \<Rightarrow> keep_winner (pr_envelope r) (stored_envelope e))
     else map_option pr_envelope (stored s i))"
proof -
  obtain ev' where eff: "stored s' i =
      (if i = env_id e
       then Some (stored_form (winner (stored s i) \<lparr>pr_envelope = e, pr_evidence = ev'\<rparr>))
       else stored s i)"
    using effect [OF assms, of i] by blast
  show ?thesis
  proof (cases "stored s i")
    case None
    have "map_option pr_envelope (stored s' (env_id e)) = Some (stored_envelope e)" if "i = env_id e"
      using eff that None by (simp add: winner_def)
    with eff show ?thesis using None by (cases "i = env_id e") simp_all
  next
    case (Some r)
    from in_form [OF this] have "stored_envelope (pr_envelope r) = pr_envelope r"
      by (metis stored_form_simps(1))
    with Some eff show ?thesis
      by (auto simp: winner_def keep_winner_def split: resolution.splits)
  qed
qed

lemma accept_all_envelope:
  assumes "accept_all accept xs s = (es, s')"
  shows "map_option pr_envelope (stored s' i) =
    (case (map_option pr_envelope (stored s i), filter (\<lambda>e. env_id e = i) es) of
       (None, []) \<Rightarrow> None
     | (None, e # es) \<Rightarrow> Some (keep_winners (stored_envelope e) (map stored_envelope es))
     | (Some c, es) \<Rightarrow> Some (keep_winners c (map stored_envelope es)))"
  using assms
proof (induction xs arbitrary: s es)
  case Nil
  then show ?case by (simp split: option.splits)
next
  case (Cons x xs)
  obtain e p v t n c ok where x: "x = (e, p, v, t, n, c, ok)" by (cases x)
  obtain r s1 where acc: "accept e p v t n c s ok = (r, s1)" by fastforce
  show ?case
  proof (cases r)
    case (Inl y)
    with acc have "s1 = s" by (simp add: failed)
    with Cons x acc Inl show ?thesis by simp
  next
    case (Inr ev)
    with Cons.prems x acc obtain fs where rest: "accept_all accept xs s1 = (fs, s')" and es: "es = e # fs"
      by (auto split: prod.splits)
    from Cons.IH [OF rest] accept_envelope [OF acc [unfolded Inr], of i] show ?thesis
      by (auto simp: es split: option.splits list.splits)
  qed
qed

lemma converges:
  assumes run: "accept_all accept xs s = (as, s')" and run': "accept_all accept ys u = (bs, u')"
    and empty: "stored s i = None" "stored u i = None"
    and same: "set as = set bs"
  shows "map_option (conflict_key \<circ> pr_envelope) (stored s' i) =
      map_option (conflict_key \<circ> pr_envelope) (stored u' i)"
    and "inj_on conflict_key {e \<in> set as. env_id e = i} \<Longrightarrow>
      map_option pr_envelope (stored s' i) = map_option pr_envelope (stored u' i)"
proof -
  let ?es = "filter (\<lambda>e. env_id e = i) as" and ?fs = "filter (\<lambda>e. env_id e = i) bs"
  have set: "set ?es = set ?fs" using same by auto
  have key: "map_option (conflict_key \<circ> pr_envelope) r =
      map_option conflict_key (map_option pr_envelope r)" for r
    by (simp add: option.map_comp)
  note views = accept_all_envelope [OF run, of i] accept_all_envelope [OF run', of i]
  have both: "map_option (conflict_key \<circ> pr_envelope) (stored s' i) =
        map_option (conflict_key \<circ> pr_envelope) (stored u' i) \<and>
      (inj_on conflict_key (set ?es) \<longrightarrow>
        map_option pr_envelope (stored s' i) = map_option pr_envelope (stored u' i))"
  proof (cases ?es)
    case Nil
    with set have "?fs = []" by simp
    with Nil views empty show ?thesis by (simp add: key)
  next
    case (Cons e es)
    with set obtain f fs where f: "?fs = f # fs" by (cases ?fs) auto
    have eq: "insert (stored_envelope e) (set (map stored_envelope es)) =
        insert (stored_envelope f) (set (map stored_envelope fs))"
      using set Cons f by (metis image_insert list.set(2) set_map)
    have inj: "inj_on conflict_key (insert (stored_envelope e) (set (map stored_envelope es)))"
      if "inj_on conflict_key (set ?es)"
      using that Cons by (auto simp: inj_on_def)
    have left: "map_option pr_envelope (stored s' i) =
        Some (fold (\<lambda>r c. cr.merge c r) (map stored_envelope es) (stored_envelope e))"
      using views(1) empty(1) by (simp add: Cons keep_winners_fold)
    have right: "map_option pr_envelope (stored u' i) =
        Some (fold (\<lambda>r c. cr.merge c r) (map stored_envelope fs) (stored_envelope f))"
      using views(2) empty(2) by (simp add: f keep_winners_fold)
    show ?thesis
      unfolding key left right option.map
      using cr.fold_merge_order [OF eq] cr.fold_merge_unique [OF eq inj] by blast
  qed
  then show "map_option (conflict_key \<circ> pr_envelope) (stored s' i) =
      map_option (conflict_key \<circ> pr_envelope) (stored u' i)" ..
  have "set ?es = {e \<in> set as. env_id e = i}" by auto
  with both show "inj_on conflict_key {e \<in> set as. env_id e = i} \<Longrightarrow>
      map_option pr_envelope (stored s' i) = map_option pr_envelope (stored u' i)" by simp
qed

end

lemma stored_at_in_form: "stored_at d i = Some r \<Longrightarrow> stored_form r = r"
  by (auto simp: stored_at_def split: sum.splits)

lemma accept_and_persist_effect:
  assumes "accept_and_persist ds err e p v t n c d ok = (Inr ev, d')"
  shows "env_dataset e = ds" and "record_authorized e p v t"
    and "\<exists>ev'. stored_at d' i =
      (if i = env_id e
       then Some (stored_form (winner (stored_at d i) \<lparr>pr_envelope = e, pr_evidence = ev'\<rparr>))
       else stored_at d i)"
  using accept_effect [OF assms] by blast+

interpretation stores: record_store "accept_and_persist ds err" stored_at "\<lambda>_. ds" for ds err
  by unfold_locales
    (simp_all only: accept_failed accept_and_persist_effect stored_at_in_form simp_thms)

interpretation search: record_store search_accept stored_at "\<lambda>_. ''search.history''"
  unfolding search_accept_def by (rule stores.record_store_axioms)

interpretation bookmarks: record_store bookmark_accept stored_at "\<lambda>_. ''bookmarks.items''"
  unfolding bookmark_accept_def by (rule stores.record_store_axioms)

interpretation browser: record_store browser_accept "\<lambda>s. stored_at (bs_disk s)" bs_dataset
proof
  fix e p v t n c s ok ev s' i
  assume "browser_accept e p v t n c s ok = (Inr ev, s')"
  then obtain d' where acc: "accept_and_persist (bs_dataset s) ErrBrowserDatasetMismatch e p v t n c
      (bs_disk s) ok = (Inr ev, d')" and s': "s' = s\<lparr>bs_disk := d'\<rparr>"
    by (auto simp: browser_accept_def split: prod.splits)
  from accept_and_persist_effect [OF acc] s'
  show "env_dataset e = bs_dataset s \<and> bs_dataset s' = bs_dataset s" and "record_authorized e p v t"
    and "\<exists>ev'. stored_at (bs_disk s') i =
        (if i = env_id e
         then Some (stored_form (winner (stored_at (bs_disk s) i) \<lparr>pr_envelope = e, pr_evidence = ev'\<rparr>))
         else stored_at (bs_disk s) i)"
    by auto
qed (auto simp: browser_accept_def split: prod.splits dest: accept_failed stored_at_in_form)

section \<open>Properties\<close>

lemma winner_key:
  "conflict_key (pr_envelope (winner (Some c) r)) =
     max (conflict_key (pr_envelope c)) (conflict_key (pr_envelope r))"
  by (auto simp: winner_def resolve_conflict_key max_def)

lemma winner_not_below:
  "conflict_key e \<le> conflict_key (pr_envelope (winner x \<lparr>pr_envelope = e, pr_evidence = ev\<rparr>))"
  by (cases x) (simp_all only: winner_key, simp_all add: winner_def)

text \<open>
  A store accepts a record only of its own dataset and only when the policy authorizes it for
  the peer; a refused record leaves the file as it was; an accepted one touches no other
  record, and the record kept under any identifier never steps back in the conflict order,
  the accepted one included.
\<close>

theorem accept_never_steps_back:
  assumes "accept_and_persist ds err e peer v t now clock d ok = (r, d')"
  shows "(is_ok r \<longrightarrow> env_dataset e = ds \<and> record_authorized e peer v t) \<and>
    (\<not> is_ok r \<longrightarrow> d' = d) \<and>
    (\<forall>i. i \<noteq> env_id e \<longrightarrow> stored_at d' i = stored_at d i) \<and>
    (\<forall>i c. stored_at d i = Some c \<longrightarrow>
       (\<exists>c'. stored_at d' i = Some c' \<and>
          conflict_key (pr_envelope c) \<le> conflict_key (pr_envelope c'))) \<and>
    (is_ok r \<longrightarrow> (\<exists>c. stored_at d' (env_id e) = Some c \<and>
       conflict_key e \<le> conflict_key (pr_envelope c)))"
proof (cases r)
  case (Inl x)
  with assms have "d' = d" by (auto dest: accept_failed)
  with Inl show ?thesis by auto
next
  case (Inr ev)
  note eff = accept_and_persist_effect [OF assms [unfolded Inr]]
  have other: "stored_at d' i = stored_at d i" if "i \<noteq> env_id e" for i
    using eff(3) [of i] that by simp
  obtain ev' where own: "stored_at d' (env_id e) =
      Some (stored_form (winner (stored_at d (env_id e)) \<lparr>pr_envelope = e, pr_evidence = ev'\<rparr>))"
    using eff(3) [of "env_id e"] by auto
  have "conflict_key e \<le> conflict_key (pr_envelope (winner x \<lparr>pr_envelope = e, pr_evidence = ev'\<rparr>))"
    for x by (rule winner_not_below)
  moreover have "\<exists>c'. stored_at d' i = Some c' \<and>
      conflict_key (pr_envelope c) \<le> conflict_key (pr_envelope c')" if "stored_at d i = Some c" for i c
    using that own other [of i] by (cases "i = env_id e") (auto simp: winner_key)
  ultimately show ?thesis using eff(1,2) other own Inr by auto
qed

definition sample_arrival :: "bytes \<Rightarrow> u64 \<Rightarrow> arrival" where
  "sample_arrival i rv = (history_record i rv 9 (Some [(''query'', JString i)]), sample_peer,
     sample_privacy, sample_trust, 5, 5, True)"

definition empty_disk :: "'a disk" where
  "empty_disk = \<lparr>disk_file = Absent, disk_mode = 0\<rparr>"

lemma load_empty_disk [simp]: "load_records empty_disk = Inr []" "stored_at empty_disk i = None"
  by (simp_all add: load_records_def empty_disk_def stored_at_def)

lemma authorize_sample:
  assumes "i \<noteq> []" "\<forall>c \<in> set i. printable c" "length i \<le> 512" "rv \<noteq> 0" "t \<noteq> 0" "p \<noteq> None"
  shows "\<exists>ev. authorize_record (history_record i rv t p) sample_peer sample_privacy sample_trust
    now clock = Inr ev"
  using history_record_authorized [OF assms] by (auto simp: authorize_record_Inr)

lemma accept_loads:
  "accept_and_persist ds err e p v t now clock d ok = (Inr ev, d') \<Longrightarrow> is_ok (load_records d')"
  by (auto simp: accept_and_persist_def Let_def save_records_def disk_save_def is_ok_iff
      split: if_splits sum.splits option.splits resolution.splits) (simp_all add: load_records_def)

lemma accept_sample:
  assumes "i \<noteq> []" "\<forall>c \<in> set i. printable c" "length i \<le> 512" "rv \<noteq> 0" "t \<noteq> 0" "p \<noteq> None"
    and "is_ok (load_records d)"
  shows "\<exists>ev d'. accept_and_persist ''search.history'' err (history_record i rv t p) sample_peer
    sample_privacy sample_trust now clock d True = (Inr ev, d')"
  using authorize_sample [OF assms(1-6), of now clock] assms(7)
  by (auto simp: accept_and_persist_def Let_def save_records_def is_ok_iff
      split: option.splits resolution.splits)

theorem accept_never_steps_back_witness:
  "\<exists>r d'. accept_and_persist ''search.history'' ErrSearchHistoryOnly
      (history_record ''h1'' 3 9 (Some [])) sample_peer sample_privacy sample_trust 5 5
      empty_disk True = (r, d') \<and> is_ok r \<and> stored_at d' ''h2'' = None"
proof -
  obtain ev d' where acc: "accept_and_persist ''search.history'' ErrSearchHistoryOnly
      (history_record ''h1'' 3 9 (Some [])) sample_peer sample_privacy sample_trust 5 5
      empty_disk True = (Inr ev, d')"
    using accept_sample [of "''h1''" 3 9 "Some []" "empty_disk" ErrSearchHistoryOnly 5 5]
    by (auto simp: printable_def)
  from accept_never_steps_back [OF this] acc show ?thesis by auto
qed

text \<open>
  C2. Two stores of one dataset that started without a record and have accepted the same
  set of revisions of it, in whatever order, repetition and company, hold revisions with the
  same conflict key; if no two of the accepted revisions share a key, they hold the same one.
\<close>

theorem stores_converge:
  assumes run: "accept_all (accept_and_persist ds err) xs d = (as, d')"
    and run': "accept_all (accept_and_persist ds err) ys u = (bs, u')"
    and empty: "stored_at d i = None" "stored_at u i = None"
    and same: "set as = set bs"
  shows "map_option (conflict_key \<circ> pr_envelope) (stored_at d' i) =
      map_option (conflict_key \<circ> pr_envelope) (stored_at u' i) \<and>
    (inj_on conflict_key {e \<in> set as. env_id e = i} \<longrightarrow>
      map_option pr_envelope (stored_at d' i) = map_option pr_envelope (stored_at u' i))"
  using stores.converges [OF run run' empty same] by blast

theorem stores_converge_witness:
  "\<exists>as d' bs u'.
     accept_all search_accept [sample_arrival ''h1'' 3, sample_arrival ''h1'' 4] empty_disk = (as, d') \<and>
     accept_all search_accept [sample_arrival ''h1'' 4, sample_arrival ''h1'' 3] empty_disk = (bs, u') \<and>
     length as = 2 \<and> map_option pr_envelope (stored_at d' ''h1'') = map_option pr_envelope (stored_at u' ''h1'')"
proof -
  have ok: "\<exists>ev d'. search_accept (history_record ''h1'' rv 9 (Some [(''query'', JString ''h1'')]))
      sample_peer sample_privacy sample_trust 5 5 d True = (Inr ev, d') \<and> is_ok (load_records d')"
    if "is_ok (load_records d)" "rv \<noteq> 0" for rv d
    using accept_sample [of "''h1''" rv 9 "Some [(''query'', JString ''h1'')]" d
        ErrSearchHistoryOnly 5 5] accept_loads that
    unfolding search_accept_def by (fastforce simp: printable_def)
  have two: "\<exists>d'. accept_all search_accept [sample_arrival ''h1'' r1, sample_arrival ''h1'' r2] empty_disk =
      (map (\<lambda>r. history_record ''h1'' r 9 (Some [(''query'', JString ''h1'')])) [r1, r2], d')"
    if nz: "r1 \<noteq> 0" "r2 \<noteq> 0" for r1 r2
  proof -
    obtain ev1 d1 where "search_accept (history_record ''h1'' r1 9 (Some [(''query'', JString ''h1'')]))
        sample_peer sample_privacy sample_trust 5 5 empty_disk True = (Inr ev1, d1)"
      and d1: "is_ok (load_records d1)"
      using ok [of "empty_disk" r1] nz by auto
    moreover obtain ev2 d2 where "search_accept (history_record ''h1'' r2 9 (Some [(''query'', JString ''h1'')]))
        sample_peer sample_privacy sample_trust 5 5 d1 True = (Inr ev2, d2)"
      using ok [OF d1, of r2] nz by auto
    ultimately show ?thesis by (simp add: sample_arrival_def)
  qed
  obtain d' where one: "accept_all search_accept [sample_arrival ''h1'' 3, sample_arrival ''h1'' 4] empty_disk =
      (map (\<lambda>r. history_record ''h1'' r 9 (Some [(''query'', JString ''h1'')])) [3, 4], d')"
    using two [of 3 4] by auto
  obtain u' where other: "accept_all search_accept [sample_arrival ''h1'' 4, sample_arrival ''h1'' 3] empty_disk =
      (map (\<lambda>r. history_record ''h1'' r 9 (Some [(''query'', JString ''h1'')])) [4, 3], u')"
    using two [of 4 3] by auto
  let ?r = "\<lambda>r. history_record ''h1'' r 9 (Some [(''query'', JString ''h1'')])"
  have same: "set (map ?r [3, 4]) = set (map ?r [4, 3])" by auto
  have inj: "inj_on conflict_key {e \<in> set (map ?r [3, 4]). env_id e = ''h1''}"
    by (auto simp: inj_on_def conflict_key_def)
  have "map_option pr_envelope (stored_at d' ''h1'') = map_option pr_envelope (stored_at u' ''h1'')"
    using stores_converge [OF one [unfolded search_accept_def] other [unfolded search_accept_def]
        load_empty_disk(2) load_empty_disk(2) same] inj by blast
  with one other show ?thesis by auto
qed

end
