(* ===== verification/Receipts.thy ===== *)
theory Receipts
  imports Record_Stores
begin

text \<open>
  Observation receipts of \<open>internal/replication\<close>: what they record and when they confirm a
  tombstone's convergence (\<open>receipts.go\<close>), the receipt file (\<open>receipt_store.go\<close>), and the
  compaction of tombstones (\<open>tombstone_compaction.go\<close>).
\<close>

section \<open>Receipts\<close>

abbreviation ErrInvalidObservationReceipt :: go_error where
  "ErrInvalidObservationReceipt \<equiv> Sentinel ''invalid peer observation receipt''"

record observation_receipt =
  or_dataset :: bytes
  or_record :: bytes
  or_revision :: u64
  or_digest :: bytes
  or_observer :: bytes
  or_observed_at :: time

definition record_digest :: "runtime \<Rightarrow> record_envelope \<Rightarrow> bytes" where
  "record_digest rt record =
     hex_encode (rt_sha256 rt (join_lines [env_dataset record, env_id record,
       rt_time rt (env_updated record), env_origin record]))"

definition new_observation_receipt ::
  "runtime \<Rightarrow> record_envelope \<Rightarrow> authenticated_peer \<Rightarrow> time \<Rightarrow> time \<Rightarrow> observation_receipt result" where
  "new_observation_receipt rt record observer observed_at clock =
     (if is_blank (ap_device observer) \<or> env_id record = [] \<or> env_revision record = 0
      then Inl ErrInvalidObservationReceipt
      else Inr \<lparr>or_dataset = env_dataset record, or_record = env_id record,
                or_revision = env_revision record, or_digest = record_digest rt record,
                or_observer = ap_device observer,
                or_observed_at = (if time_is_zero observed_at then clock else observed_at)\<rparr>)"

text \<open>The digest covers dataset, identifier, instant and origin; revision is compared apart.\<close>

definition receipt_matches :: "runtime \<Rightarrow> record_envelope \<Rightarrow> observation_receipt \<Rightarrow> bool" where
  "receipt_matches rt record receipt \<longleftrightarrow>
     or_dataset receipt = env_dataset record \<and> or_record receipt = env_id record \<and>
     or_revision receipt = env_revision record \<and> or_digest receipt = record_digest rt record"

fun mark_seen :: "runtime \<Rightarrow> record_envelope \<Rightarrow> observation_receipt list \<Rightarrow> (bytes, bool) gomap \<Rightarrow>
    (bytes, bool) gomap" where
  "mark_seen rt record [] seen = seen"
| "mark_seen rt record (receipt # receipts) seen =
     mark_seen rt record receipts
       (if receipt_matches rt record receipt then map_put (or_observer receipt) True seen else seen)"

fun all_seen :: "(bytes, bool) gomap \<Rightarrow> bytes list \<Rightarrow> bool" where
  "all_seen seen [] = True"
| "all_seen seen (peer # peers) =
     (if map_of seen peer \<noteq> Some True then False else all_seen seen peers)"

definition convergence_confirmed ::
  "runtime \<Rightarrow> record_envelope \<Rightarrow> bytes list \<Rightarrow> observation_receipt list \<Rightarrow> bool" where
  "convergence_confirmed rt record required_peers receipts =
     (if \<not> env_deleted record \<or> required_peers = [] then False
      else all_seen (mark_seen rt record receipts []) (sort required_peers))"

lemma mark_seen_Some:
  "map_of (mark_seen rt e rs seen) p = Some True \<longleftrightarrow>
     map_of seen p = Some True \<or> (\<exists>r \<in> set rs. receipt_matches rt e r \<and> or_observer r = p)"
  by (induction rs arbitrary: seen) (auto simp: gomap_simps)

lemma all_seen_iff: "all_seen seen ps \<longleftrightarrow> (\<forall>p \<in> set ps. map_of seen p = Some True)"
  by (induction ps) auto

lemma convergence_confirmed_iff:
  "convergence_confirmed rt e peers rs \<longleftrightarrow>
     env_deleted e \<and> peers \<noteq> [] \<and>
     (\<forall>p \<in> set peers. \<exists>r \<in> set rs. receipt_matches rt e r \<and> or_observer r = p)"
  by (auto simp: convergence_confirmed_def all_seen_iff mark_seen_Some)

section \<open>The receipt file\<close>

type_synonym receipt_disk = "observation_receipt list disk"

definition load_receipts :: "receipt_disk \<Rightarrow> observation_receipt list result" where
  "load_receipts d =
     (case disk_file d of
        Absent \<Rightarrow> Inr []
      | Unreadable \<Rightarrow> Inl ErrRead
      | Blank \<Rightarrow> Inr []
      | Garbage \<Rightarrow> Inl ErrDecode
      | Holds rs \<Rightarrow> Inr rs)"

definition same_receipt :: "observation_receipt \<Rightarrow> observation_receipt \<Rightarrow> bool" where
  "same_receipt a b \<longleftrightarrow> or_dataset a = or_dataset b \<and> or_record a = or_record b \<and>
     or_revision a = or_revision b \<and> or_digest a = or_digest b \<and> or_observer a = or_observer b"

lemma same_receipt_matches:
  "same_receipt a b \<Longrightarrow> receipt_matches rt e a = receipt_matches rt e b \<and> or_observer a = or_observer b"
  by (simp add: same_receipt_def receipt_matches_def)

text \<open>
  The comparison passed to \<open>sort.Slice\<close> orders by instant, then record, then observer;
  \<open>sort_key\<close> is one of the orders it allows for receipts equal in all three.
\<close>

definition receipt_order :: "observation_receipt \<Rightarrow> time \<times> bytes \<times> bytes" where
  "receipt_order r = (or_observed_at r, or_record r, or_observer r)"

definition append_receipt ::
  "receipt_disk \<Rightarrow> observation_receipt \<Rightarrow> bool \<Rightarrow> unit result \<times> receipt_disk" where
  "append_receipt d receipt ok =
     (if or_dataset receipt = [] \<or> or_record receipt = [] \<or> or_revision receipt = 0 \<or>
         or_digest receipt = [] \<or> or_observer receipt = [] \<or> time_is_zero (or_observed_at receipt)
      then (Inl ErrInvalidObservationReceipt, d)
      else case load_receipts d of
        Inl e \<Rightarrow> (Inl e, d)
      | Inr receipts \<Rightarrow>
          if \<exists>existing \<in> set receipts. same_receipt existing receipt then (Inr (), d)
          else disk_save ok (sort_key receipt_order (receipts @ [receipt])) d)"

definition receipts_for_record ::
  "receipt_disk \<Rightarrow> bytes \<Rightarrow> bytes \<Rightarrow> observation_receipt list result" where
  "receipts_for_record d dataset record_id =
     and_then (load_receipts d) (\<lambda>receipts.
       Inr (filter (\<lambda>r. or_dataset r = dataset \<and> or_record r = record_id) receipts))"

definition receipts_in :: "receipt_disk \<Rightarrow> observation_receipt set" where
  "receipts_in d = (case load_receipts d of Inl _ \<Rightarrow> {} | Inr rs \<Rightarrow> set rs)"

lemma load_receipts_saved [simp]: "load_receipts \<lparr>disk_file = Holds rs, disk_mode = m\<rparr> = Inr rs"
  by (simp add: load_receipts_def)

lemma append_receipt_effect:
  assumes "append_receipt d r ok = (Inr u, d')"
  shows "receipts_in d \<subseteq> receipts_in d' \<and> receipts_in d' \<subseteq> insert r (receipts_in d) \<and>
    (\<exists>r' \<in> receipts_in d'. same_receipt r' r)"
proof -
  obtain rs where rs: "load_receipts d = Inr rs"
    using assms by (auto simp: append_receipt_def split: if_splits sum.splits)
  show ?thesis
  proof (cases "\<exists>existing \<in> set rs. same_receipt existing r")
    case True
    with assms rs have "d' = d" by (auto simp: append_receipt_def split: if_splits)
    with rs True show ?thesis by (auto simp: receipts_in_def)
  next
    case False
    with assms rs have "d' = \<lparr>disk_file = Holds (sort_key receipt_order (rs @ [r])), disk_mode = 384\<rparr>"
      by (auto simp: append_receipt_def disk_save_def split: if_splits)
    with rs show ?thesis by (auto simp: receipts_in_def same_receipt_def)
  qed
qed

lemma append_receipt_failed: "append_receipt d r ok = (Inl e, d') \<Longrightarrow> d' = d"
  by (auto simp: append_receipt_def disk_save_def split: if_splits sum.splits)

lemma receipts_for_record_Inr [result_iff]:
  "receipts_for_record d ds i = Inr rs \<longleftrightarrow>
     (\<exists>all. load_receipts d = Inr all \<and> rs = filter (\<lambda>r. or_dataset r = ds \<and> or_record r = i) all)"
  by (auto simp: receipts_for_record_def result_iff)

section \<open>Compaction\<close>

abbreviation ErrCompactionNotConfirmed :: go_error where
  "ErrCompactionNotConfirmed \<equiv> Sentinel ''tombstone convergence is not confirmed''"
abbreviation ErrInvalidRetention :: go_error where
  "ErrInvalidRetention \<equiv> Sentinel ''tombstone retention must be positive''"
abbreviation ErrReceiptStoreRequired :: go_error where
  "ErrReceiptStoreRequired \<equiv> Sentinel ''receipt store is required''"

record compaction_policy =
  cp_minimum_retention :: duration
  cp_convergence_confirmed :: bool

text \<open>
  The two loops over the map: what stays and how many records were removed. A Go map may be
  visited in any order; the loops' results do not depend on it.
\<close>

fun sweep_expired :: "time \<Rightarrow> records \<Rightarrow> records \<times> nat" where
  "sweep_expired cutoff [] = ([], 0)"
| "sweep_expired cutoff ((i, r) # rest) =
     (case sweep_expired cutoff rest of
        (kept, removed) \<Rightarrow>
          if env_deleted (pr_envelope r) \<and> \<not> cutoff < env_updated (pr_envelope r)
          then (kept, removed + 1)
          else ((i, r) # kept, removed))"

fun sweep_confirmed ::
  "runtime \<Rightarrow> time \<Rightarrow> bytes list \<Rightarrow> receipt_disk \<Rightarrow> records \<Rightarrow> (records \<times> nat) result" where
  "sweep_confirmed rt cutoff peers receipt_store [] = Inr ([], 0)"
| "sweep_confirmed rt cutoff peers receipt_store ((i, persisted) # rest) =
     (let record = pr_envelope persisted;
          keep = and_then (sweep_confirmed rt cutoff peers receipt_store rest)
            (\<lambda>(kept, removed). Inr ((i, persisted) # kept, removed)) in
      if \<not> env_deleted record \<or> cutoff < env_updated record then keep
      else case receipts_for_record receipt_store (env_dataset record) (env_id record) of
        Inl e \<Rightarrow> Inl e
      | Inr receipts \<Rightarrow>
          if \<not> convergence_confirmed rt record peers receipts then keep
          else and_then (sweep_confirmed rt cutoff peers receipt_store rest)
            (\<lambda>(kept, removed). Inr (kept, removed + 1)))"

definition finish_compaction :: "bool \<Rightarrow> records \<Rightarrow> nat \<Rightarrow> record_disk \<Rightarrow> nat result \<times> record_disk" where
  "finish_compaction ok kept removed d =
     (if removed = 0 then (Inr 0, d)
      else case save_records ok kept d of
        (Inl e, d') \<Rightarrow> (Inl e, d')
      | (Inr _, d') \<Rightarrow> (Inr removed, d'))"

definition compact_tombstones ::
  "time \<Rightarrow> time \<Rightarrow> compaction_policy \<Rightarrow> record_disk \<Rightarrow> bool \<Rightarrow> nat result \<times> record_disk" where
  "compact_tombstones now0 clock policy d ok =
     (if \<not> cp_convergence_confirmed policy then (Inl ErrCompactionNotConfirmed, d)
      else if cp_minimum_retention policy \<le> 0 then (Inl ErrInvalidRetention, d)
      else
        let now = (if time_is_zero now0 then clock else now0);
            cutoff = now - cp_minimum_retention policy in
        case load_records d of
          Inl e \<Rightarrow> (Inl e, d)
        | Inr records \<Rightarrow>
            (case sweep_expired cutoff records of
               (kept, removed) \<Rightarrow> finish_compaction ok kept removed d))"

text \<open>
  The same body serves the search history store and the bookmark store; a nil receipt store
  is \<open>None\<close>.
\<close>

definition compact_tombstones_with_receipts ::
  "runtime \<Rightarrow> time \<Rightarrow> time \<Rightarrow> duration \<Rightarrow> bytes list \<Rightarrow> receipt_disk option \<Rightarrow> record_disk \<Rightarrow> bool \<Rightarrow>
     nat result \<times> record_disk" where
  "compact_tombstones_with_receipts rt now0 clock minimum_retention required_peers receipt_store d ok =
     (if minimum_retention \<le> 0 then (Inl ErrInvalidRetention, d)
      else case receipt_store of
        None \<Rightarrow> (Inl ErrReceiptStoreRequired, d)
      | Some receipts \<Rightarrow>
          let now = (if time_is_zero now0 then clock else now0);
              cutoff = now - minimum_retention in
          case load_records d of
            Inl e \<Rightarrow> (Inl e, d)
          | Inr records \<Rightarrow>
              (case sweep_confirmed rt cutoff required_peers receipts records of
                 Inl e \<Rightarrow> (Inl e, d)
               | Inr (kept, removed) \<Rightarrow> finish_compaction ok kept removed d))"

definition bookmark_compact_with_receipts ::
  "runtime \<Rightarrow> time \<Rightarrow> time \<Rightarrow> duration \<Rightarrow> bytes list \<Rightarrow> receipt_disk option \<Rightarrow> record_disk \<Rightarrow> bool \<Rightarrow>
     nat result \<times> record_disk" where
  "bookmark_compact_with_receipts = compact_tombstones_with_receipts"

text \<open>The loops as filters.\<close>

definition sweepable :: "time \<Rightarrow> persisted_record \<Rightarrow> bool" where
  "sweepable cutoff r \<longleftrightarrow> env_deleted (pr_envelope r) \<and> env_updated (pr_envelope r) \<le> cutoff"

lemma sweep_expired_filter:
  "sweep_expired cutoff m =
     (filter (\<lambda>p. \<not> sweepable cutoff (snd p)) m, length (filter (\<lambda>p. sweepable cutoff (snd p)) m))"
  by (induction cutoff m rule: sweep_expired.induct) (auto simp: sweepable_def)

lemma receipt_matches_record:
  "receipt_matches rt e r \<Longrightarrow> or_dataset r = env_dataset e \<and> or_record r = env_id e"
  by (simp add: receipt_matches_def)

definition sweep_confirms :: "runtime \<Rightarrow> time \<Rightarrow> bytes list \<Rightarrow> observation_receipt set \<Rightarrow> persisted_record \<Rightarrow> bool" where
  "sweep_confirms rt cutoff peers receipts r \<longleftrightarrow>
     sweepable cutoff r \<and> peers \<noteq> [] \<and>
     (\<forall>p \<in> set peers. \<exists>q \<in> receipts. receipt_matches rt (pr_envelope r) q \<and> or_observer q = p)"

lemma sweep_confirmed_filter:
  assumes "sweep_confirmed rt cutoff peers d m = Inr (kept, n)"
  shows "kept = filter (\<lambda>p. \<not> sweep_confirms rt cutoff peers (receipts_in d) (snd p)) m \<and>
    n = length (filter (\<lambda>p. sweep_confirms rt cutoff peers (receipts_in d) (snd p)) m)"
  using assms
proof (induction m arbitrary: kept n)
  case (Cons p m)
  obtain i r where p: "p = (i, r)" by (cases p)
  show ?case
  proof (cases "sweepable cutoff r")
    case False
    with Cons show ?thesis
      by (force simp: p Let_def sweepable_def sweep_confirms_def result_iff not_le)
  next
    case True
    with Cons.prems obtain rs where rs: "receipts_for_record d (env_dataset (pr_envelope r))
        (env_id (pr_envelope r)) = Inr rs"
      by (auto simp: p Let_def sweepable_def split: sum.splits)
    then have "q \<in> set rs \<and> receipt_matches rt (pr_envelope r) q \<longleftrightarrow>
        q \<in> receipts_in d \<and> receipt_matches rt (pr_envelope r) q" for q
      by (auto simp: result_iff receipts_in_def dest: receipt_matches_record)
    then have "convergence_confirmed rt (pr_envelope r) peers rs \<longleftrightarrow>
        sweep_confirms rt cutoff peers (receipts_in d) r"
      using True unfolding convergence_confirmed_iff sweep_confirms_def sweepable_def by blast
    with True Cons rs show ?thesis
      by (auto simp: p Let_def sweepable_def result_iff split: if_splits)
  qed
qed simp

text \<open>The digest's text, and what it determines.\<close>

definition digest_text :: "runtime \<Rightarrow> record_envelope \<Rightarrow> bytes" where
  "digest_text rt e = join_lines [env_dataset e, env_id e, rt_time rt (env_updated e), env_origin e]"

lemma record_digest_text: "record_digest rt e = hex_encode (rt_sha256 rt (digest_text rt e))"
  by (simp add: record_digest_def digest_text_def)

lemma record_digest_origin:
  assumes "time_text_ok rt" and "no_collision rt (digest_text rt e) (digest_text rt e')"
    and "line_feed \<notin> set (env_dataset e) \<union> set (env_origin e)"
    and "line_feed \<notin> set (env_dataset e') \<union> set (env_origin e')"
    and "record_digest rt e = record_digest rt e'"
  shows "env_origin e = env_origin e'"
proof -
  have "digest_text rt e = digest_text rt e'"
    using assms(2,5) by (simp add: record_digest_text no_collision_def hex_encode_inject)
  then have "join_lines ([env_dataset e] @ [env_id e] @ [rt_time rt (env_updated e), env_origin e]) =
      join_lines ([env_dataset e'] @ [env_id e'] @ [rt_time rt (env_updated e'), env_origin e'])"
    by (simp add: digest_text_def)
  then have "[env_dataset e] = [env_dataset e'] \<and> env_id e = env_id e' \<and>
      [rt_time rt (env_updated e), env_origin e] = [rt_time rt (env_updated e'), env_origin e']"
    by (rule join_lines_inject [rotated -1]) (use assms(1,3,4) in \<open>auto simp: time_text_ok_def\<close>)
  then show ?thesis by simp
qed

lemma new_observation_receipt_Inr:
  "new_observation_receipt rt e peer t clock = Inr r \<longleftrightarrow>
     \<not> is_blank (ap_device peer) \<and> env_id e \<noteq> [] \<and> env_revision e \<noteq> 0 \<and>
     r = \<lparr>or_dataset = env_dataset e, or_record = env_id e, or_revision = env_revision e,
          or_digest = record_digest rt e, or_observer = ap_device peer,
          or_observed_at = (if t = 0 then clock else t)\<rparr>"
  by (auto simp: new_observation_receipt_def time_is_zero_def)

text \<open>What a compaction leaves.\<close>

lemma map_of_filter_snd:
  "map_wf m \<Longrightarrow> map_of (filter (\<lambda>p. P (snd p)) m) i =
     (case map_of m i of None \<Rightarrow> None | Some r \<Rightarrow> if P r then Some r else None)"
proof (induction m)
  case (Cons p m)
  then have "map_of m (fst p) = None"
    by (force simp: map_wf_Cons map_of_eq_None_iff)
  with Cons show ?case by (auto simp: map_wf_Cons split: option.splits)
qed simp

lemma sweepable_stored [simp]: "sweepable c (stored_form r) = sweepable c r"
  by (simp add: sweepable_def)

lemma sweep_confirms_stored [simp]:
  "sweep_confirms rt c ps rs (stored_form r) = sweep_confirms rt c ps rs r"
  by (simp add: sweep_confirms_def receipt_matches_def record_digest_def)

lemma finish_compaction_effect:
  assumes m: "load_records d = Inr m"
    and fin: "finish_compaction ok (filter (\<lambda>p. \<not> P (snd p)) m)
      (length (filter (\<lambda>p. P (snd p)) m)) d = (Inr n, d')"
    and P: "\<And>r. P (stored_form r) = P r"
  shows "stored_at d' i = (case stored_at d i of None \<Rightarrow> None | Some r \<Rightarrow> if P r then None else Some r)
    \<and> n = card {i. \<exists>r. stored_at d i = Some r \<and> P r}"
proof
  have wf: "map_wf m" using m by (rule load_records_wf)
  show "stored_at d' i = (case stored_at d i of None \<Rightarrow> None | Some r \<Rightarrow> if P r then None else Some r)"
  proof (cases "length (filter (\<lambda>p. P (snd p)) m) = 0")
    case True
    then have "\<not> P r" if "map_of m i = Some r" for r
      using map_of_SomeD [OF that] by (force simp: filter_empty_conv)
    with True fin m show ?thesis
      by (auto simp: finish_compaction_def stored_at_def P split: option.splits)
  next
    case False
    let ?kept = "filter (\<lambda>p. \<not> P (snd p)) m"
    from False fin have "d' = \<lparr>disk_file = Holds (map (\<lambda>(k, r). (k, stored_form r)) ?kept), disk_mode = 384\<rparr>"
      by (auto simp: finish_compaction_def save_records_def disk_save_def split: if_splits)
    then have "stored_at d' i = map_option stored_form (map_of ?kept i)"
      using stored_at_saved [OF map_wf_filter [OF wf]] by simp
    then show ?thesis
      using map_of_filter_snd [OF wf, of "\<lambda>r. \<not> P r"]
      by (auto simp: stored_at_def m P split: option.splits)
  qed
  have "{i. \<exists>r. stored_at d i = Some r \<and> P r} = fst ` set (filter (\<lambda>p. P (snd p)) m)"
    using map_of_wf_iff [OF wf] by (force simp: stored_at_def m P)
  moreover have "distinct (map fst (filter (\<lambda>p. P (snd p)) m))"
    using map_wf_distinct map_wf_filter [OF wf] by blast
  moreover have "n = length (filter (\<lambda>p. P (snd p)) m)"
    using fin by (auto simp: finish_compaction_def split: if_splits prod.splits sum.splits)
  ultimately show "n = card {i. \<exists>r. stored_at d i = Some r \<and> P r}"
    by (metis distinct_card length_map set_map)
qed

lemma finish_compaction_failed: "finish_compaction ok kept n d = (Inl e, d') \<Longrightarrow> d' = d"
  by (auto simp: finish_compaction_def save_records_def disk_save_def split: if_splits)

lemma compaction_failed:
  "compact_tombstones_with_receipts rt now clock retention peers receipts d ok = (Inl e, d') \<Longrightarrow> d' = d"
  by (auto simp: compact_tombstones_with_receipts_def Let_def dest: finish_compaction_failed
      split: if_splits option.splits sum.splits)

lemma compaction_effect:
  assumes "compact_tombstones_with_receipts rt now clock retention peers receipts d ok = (Inr n, d')"
    and "now \<noteq> 0"
  obtains store where "receipts = Some store" "0 < retention"
    "\<And>i. stored_at d' i = (case stored_at d i of None \<Rightarrow> None | Some r \<Rightarrow>
       if sweep_confirms rt (now - retention) peers (receipts_in store) r then None else Some r)"
    "n = card {i. \<exists>r. stored_at d i = Some r \<and>
       sweep_confirms rt (now - retention) peers (receipts_in store) r}"
proof -
  from assms obtain store m kept k where store: "receipts = Some store" "0 < retention"
    and m: "load_records d = Inr m"
    and sweep: "sweep_confirmed rt (now - retention) peers store m = Inr (kept, k)"
    and fin: "finish_compaction ok kept k d = (Inr n, d')"
    by (auto simp: compact_tombstones_with_receipts_def Let_def time_is_zero_def
        split: if_splits option.splits sum.splits)
  let ?P = "sweep_confirms rt (now - retention) peers (receipts_in store)"
  have "finish_compaction ok (filter (\<lambda>p. \<not> ?P (snd p)) m) (length (filter (\<lambda>p. ?P (snd p)) m)) d =
      (Inr n, d')"
    using fin sweep_confirmed_filter [OF sweep] by simp
  from finish_compaction_effect [OF m this sweep_confirms_stored] store that show thesis
    by blast
qed

lemma sweep_confirms_alt:
  "sweep_confirms rt (now - retention) peers rs =
     (\<lambda>r. env_deleted (pr_envelope r) \<and> env_updated (pr_envelope r) + retention \<le> now \<and>
        peers \<noteq> [] \<and> (\<forall>p \<in> set peers. \<exists>q \<in> rs.
          receipt_matches rt (pr_envelope r) q \<and> or_observer q = p))"
  by (auto simp: sweep_confirms_def sweepable_def fun_eq_iff)

section \<open>Properties\<close>

text \<open>
  C27. Compaction under receipts that fails changes nothing. One that succeeds removes exactly the
  tombstones that are at least the retention period old and that every required peer has
  acknowledged with a receipt for their dataset, identifier, revision and digest; it keeps
  every other record as it was and returns how many it removed. With no required peers it
  removes nothing.
\<close>

theorem compaction_removes_only_observed:
  assumes "compact_tombstones_with_receipts rt now clock retention peers receipts d ok = (res, d')"
    and "now \<noteq> 0"
  shows "(\<forall>e. res = Inl e \<longrightarrow> d' = d) \<and>
    (\<forall>n. res = Inr n \<longrightarrow> (\<exists>store. receipts = Some store \<and> 0 < retention \<and>
       (let gone = (\<lambda>r. env_deleted (pr_envelope r) \<and> env_updated (pr_envelope r) + retention \<le> now \<and>
              peers \<noteq> [] \<and> (\<forall>p \<in> set peers. \<exists>q \<in> receipts_in store.
                receipt_matches rt (pr_envelope r) q \<and> or_observer q = p)) in
        (\<forall>i. stored_at d' i =
           (case stored_at d i of None \<Rightarrow> None | Some r \<Rightarrow> if gone r then None else Some r)) \<and>
        n = card {i. \<exists>r. stored_at d i = Some r \<and> gone r})))"
proof (intro conjI allI impI)
  fix e assume "res = Inl e"
  with assms(1) show "d' = d" using compaction_failed by blast
next
  fix n assume "res = Inr n"
  with assms compaction_effect [of rt now clock retention peers receipts d ok n d'] obtain store where
    "receipts = Some store" "0 < retention"
    "\<And>i. stored_at d' i = (case stored_at d i of None \<Rightarrow> None | Some r \<Rightarrow>
       if sweep_confirms rt (now - retention) peers (receipts_in store) r then None else Some r)"
    "n = card {i. \<exists>r. stored_at d i = Some r \<and>
       sweep_confirms rt (now - retention) peers (receipts_in store) r}" by blast
  then show "\<exists>store. receipts = Some store \<and> 0 < retention \<and>
       (let gone = (\<lambda>r. env_deleted (pr_envelope r) \<and> env_updated (pr_envelope r) + retention \<le> now \<and>
              peers \<noteq> [] \<and> (\<forall>p \<in> set peers. \<exists>q \<in> receipts_in store.
                receipt_matches rt (pr_envelope r) q \<and> or_observer q = p)) in
        (\<forall>i. stored_at d' i =
           (case stored_at d i of None \<Rightarrow> None | Some r \<Rightarrow> if gone r then None else Some r)) \<and>
        n = card {i. \<exists>r. stored_at d i = Some r \<and> gone r})"
    unfolding sweep_confirms_alt by (intro exI [of _ store]) (simp add: Let_def)
qed

definition sample_tombstone :: record_envelope where
  "sample_tombstone = (history_record ''h1'' 3 10 None)\<lparr>env_deleted := True\<rparr>"

lemma sample_tombstone_simps [simp]:
  "env_dataset sample_tombstone = ''search.history''" "env_id sample_tombstone = ''h1''"
  "env_revision sample_tombstone = 3" "env_updated sample_tombstone = 10"
  "env_deleted sample_tombstone" "env_origin sample_tombstone = sample_device"
  by (simp_all add: sample_tombstone_def)

definition sample_receipts :: receipt_disk where
  "sample_receipts = \<lparr>disk_file = Holds [\<lparr>or_dataset = ''search.history'', or_record = ''h1'',
     or_revision = 3, or_digest = record_digest sample_runtime sample_tombstone,
     or_observer = ''peer'', or_observed_at = 20\<rparr>], disk_mode = 384\<rparr>"

definition tombstone_store :: record_disk where
  "tombstone_store = \<lparr>disk_file = Holds [(''h1'', \<lparr>pr_envelope = sample_tombstone,
     pr_evidence = \<lparr>ae_dataset = ''search.history'', ae_record = ''h1'', ae_device = sample_device,
       ae_fingerprint = ''f'', ae_privacy = ''p'', ae_trust = ''t'', ae_accepted_at = 11\<rparr>\<rparr>)],
     disk_mode = 384\<rparr>"

theorem compaction_removes_only_observed_witness:
  "\<exists>d'. compact_tombstones_with_receipts sample_runtime 100 0 5 [''peer''] (Some sample_receipts)
       tombstone_store True = (Inr 1, d') \<and> stored_at d' ''h1'' = None \<and>
     stored_at tombstone_store ''h1'' \<noteq> None"
proof -
  have here: "stored_at tombstone_store ''h1'' \<noteq> None"
    by (simp add: stored_at_def load_records_def tombstone_store_def map_from_def)
  obtain d' where run: "compact_tombstones_with_receipts sample_runtime 100 0 5 [''peer'']
      (Some sample_receipts) tombstone_store True = (Inr 1, d')"
    by (simp add: compact_tombstones_with_receipts_def time_is_zero_def load_records_def
        tombstone_store_def map_from_def receipts_for_record_def load_receipts_def sample_receipts_def
        convergence_confirmed_iff receipt_matches_def finish_compaction_def save_records_def
        disk_save_def Let_def)
  have "env_deleted (pr_envelope r) \<and> env_updated (pr_envelope r) + 5 \<le> 100 \<and>
      (\<exists>q \<in> receipts_in sample_receipts. receipt_matches sample_runtime (pr_envelope r) q \<and>
         or_observer q = ''peer'')" if "stored_at tombstone_store ''h1'' = Some r" for r
    using that by (auto simp: stored_at_def load_records_def tombstone_store_def map_from_def
        receipts_in_def load_receipts_def sample_receipts_def receipt_matches_def record_digest_def)
  with compaction_removes_only_observed [OF run] run here show ?thesis
    by (auto simp: Let_def split: option.splits)
qed

end
