(* ===== verification/Replay.thy ===== *)
theory Replay
  imports Policy
begin

text \<open>
  The replay guard (\<open>replication/replay_guard.go\<close>): high-water marks of the revisions a device
  has presented for a record, in memory and in a file. An interface states what a guard
  promises; the guard is shown to implement the history of its accepted revisions, failed
  saves and restarts.
\<close>

section \<open>Keys\<close>

datatype replay_key = ReplayKey (rk_device: bytes) (rk_dataset: bytes) (rk_record: bytes)

definition replay_key_tuple :: "replay_key \<Rightarrow> bytes \<times> bytes \<times> bytes" where
  "replay_key_tuple k = (rk_device k, rk_dataset k, rk_record k)"

lemma replay_key_tuple_inject: "replay_key_tuple k = replay_key_tuple l \<longleftrightarrow> k = l"
  by (cases k; cases l) (simp add: replay_key_tuple_def)

text \<open>Go map keys are only compared for equality; the order serves the canonical form of maps.\<close>

instantiation replay_key :: linorder
begin

definition less_eq_replay_key :: "replay_key \<Rightarrow> replay_key \<Rightarrow> bool" where
  "less_eq_replay_key k l \<longleftrightarrow> replay_key_tuple k \<le> replay_key_tuple l"

definition less_replay_key :: "replay_key \<Rightarrow> replay_key \<Rightarrow> bool" where
  "less_replay_key k l \<longleftrightarrow> replay_key_tuple k < replay_key_tuple l"

instance
proof
  fix k l m :: replay_key
  show "k < l \<longleftrightarrow> k \<le> l \<and> \<not> l \<le> k"
    unfolding less_replay_key_def less_eq_replay_key_def by (rule less_le_not_le)
  show "k \<le> k" unfolding less_eq_replay_key_def by (rule order_refl)
  show "k \<le> m" if "k \<le> l" "l \<le> m"
    using that unfolding less_eq_replay_key_def by (rule order_trans)
  show "k = l" if "k \<le> l" "l \<le> k"
    using that antisym unfolding less_eq_replay_key_def replay_key_tuple_inject [symmetric] by blast
  show "k \<le> l \<or> l \<le> k"
    unfolding less_eq_replay_key_def by (rule linear)
qed

end

section \<open>The guard\<close>

abbreviation ErrReplayRecord :: go_error where
  "ErrReplayRecord \<equiv> Sentinel ''replication record revision already observed''"

record replay_guard =
  rg_path :: bytes
  rg_revision :: "(replay_key, u64) gomap"

record replay_entry =
  re_key :: replay_key
  re_revision :: u64

type_synonym replay_disk = "replay_entry list disk"

definition new_replay_guard :: replay_guard where
  "new_replay_guard = \<lparr>rg_path = [], rg_revision = []\<rparr>"

text \<open>An empty file is not a JSON array, so it is a decoding error here.\<close>

definition load_replay :: "replay_guard \<Rightarrow> replay_disk \<Rightarrow> replay_guard result" where
  "load_replay g d =
     (case disk_file d of
        Absent \<Rightarrow> Inr g
      | Unreadable \<Rightarrow> Inl ErrRead
      | Blank \<Rightarrow> Inl ErrDecode
      | Garbage \<Rightarrow> Inl ErrDecode
      | Holds entries \<Rightarrow>
          Inr (g\<lparr>rg_revision := fold (\<lambda>e. map_put (re_key e) (re_revision e)) entries (rg_revision g)\<rparr>))"

definition new_persistent_replay_guard :: "bytes \<Rightarrow> replay_disk \<Rightarrow> replay_guard result" where
  "new_persistent_replay_guard path d = load_replay \<lparr>rg_path = path, rg_revision = []\<rparr> d"

definition save_replay :: "bool \<Rightarrow> replay_guard \<Rightarrow> replay_disk \<Rightarrow> unit result \<times> replay_disk" where
  "save_replay ok g d =
     disk_save ok (map (\<lambda>(k, r). \<lparr>re_key = k, re_revision = r\<rparr>) (rg_revision g)) d"

text \<open>A nil guard accepts everything.\<close>

definition replay_accept ::
  "replay_guard option \<Rightarrow> replay_disk \<Rightarrow> authenticated_peer \<Rightarrow> record_envelope \<Rightarrow> bool \<Rightarrow>
     unit result \<times> replay_guard option \<times> replay_disk" where
  "replay_accept guard d peer record ok =
     (case guard of
        None \<Rightarrow> (Inr (), None, d)
      | Some g \<Rightarrow>
          let key = ReplayKey (ap_device peer) (env_dataset record) (env_id record) in
          if (case map_of (rg_revision g) key of None \<Rightarrow> False | Some current \<Rightarrow> env_revision record \<le> current)
          then (Inl ErrReplayRecord, Some g, d)
          else
            let g' = g\<lparr>rg_revision := map_put key (env_revision record) (rg_revision g)\<rparr> in
            if rg_path g' \<noteq> [] then
              (case save_replay ok g' d of
                 (Inl e, d') \<Rightarrow> (Inl e, Some (g'\<lparr>rg_revision := map_del key (rg_revision g')\<rparr>), d')
               | (Inr _, d') \<Rightarrow> (Inr (), Some g', d'))
            else (Inr (), Some g', d))"

definition replay_key_of :: "authenticated_peer \<Rightarrow> record_envelope \<Rightarrow> replay_key" where
  "replay_key_of peer e = ReplayKey (ap_device peer) (env_dataset e) (env_id e)"

section \<open>The history of a guard\<close>

text \<open>
  What has happened to a guard, the latest event first: revisions it accepted, revisions it
  could not save, restarts. From the history alone follow the marks a guard holds in memory and
  the ones a restart finds in the file. A failed save deletes the mark in memory and leaves the
  file; an accepted revision writes all marks, so the deletions before it reach the file too.
\<close>

datatype ('k, 'r) mark_event = Accepted 'k 'r | Unsaved 'k 'r | Restarted

fun memory_mark :: "('k, 'r) mark_event list \<Rightarrow> 'k \<Rightarrow> 'r option"
  and file_mark :: "('k, 'r) mark_event list \<Rightarrow> 'k \<Rightarrow> 'r option" where
  "memory_mark [] = Map.empty"
| "memory_mark (Accepted k r # es) = (memory_mark es)(k \<mapsto> r)"
| "memory_mark (Unsaved k r # es) = (memory_mark es)(k := None)"
| "memory_mark (Restarted # es) = file_mark es"
| "file_mark [] = Map.empty"
| "file_mark (Accepted k r # es) = (memory_mark es)(k \<mapsto> r)"
| "file_mark (Unsaved k r # es) = file_mark es"
| "file_mark (Restarted # es) = file_mark es"

definition replayed :: "('k, 'r::linorder) mark_event list \<Rightarrow> 'k \<Rightarrow> 'r \<Rightarrow> bool" where
  "replayed es k r = (case memory_mark es k of None \<Rightarrow> False | Some m \<Rightarrow> r \<le> m)"

fun accepted_revisions :: "'k \<Rightarrow> ('k, 'r) mark_event list \<Rightarrow> 'r list" where
  "accepted_revisions k [] = []"
| "accepted_revisions k (Accepted l r # es) =
     (if l = k then r # accepted_revisions k es else accepted_revisions k es)"
| "accepted_revisions k (Unsaved l r # es) = accepted_revisions k es"
| "accepted_revisions k (Restarted # es) = accepted_revisions k es"

text \<open>Nothing was accepted that was a replay at the time.\<close>

fun lawful :: "('k, 'r::linorder) mark_event list \<Rightarrow> bool" where
  "lawful [] = True"
| "lawful (Accepted k r # es) = (\<not> replayed es k r \<and> lawful es)"
| "lawful (Unsaved k r # es) = lawful es"
| "lawful (Restarted # es) = lawful es"

definition never_unsaved :: "'k \<Rightarrow> ('k, 'r) mark_event list \<Rightarrow> bool" where
  "never_unsaved k es = list_all (\<lambda>e. case e of Unsaved l r \<Rightarrow> l \<noteq> k | _ \<Rightarrow> True) es"

text \<open>
  As long as no save of a record has failed, its mark is the latest accepted revision, in memory
  and in the file, and the accepted revisions strictly increase: a restart and the failures of
  other records change nothing for it.
\<close>

lemma clean_mark:
  assumes "lawful es" and "never_unsaved k es"
  shows "memory_mark es k = (case accepted_revisions k es of [] \<Rightarrow> None | r # _ \<Rightarrow> Some r) \<and>
    file_mark es k = memory_mark es k \<and> sorted_wrt (>) (accepted_revisions k es)"
  using assms
proof (induction es rule: lawful.induct)
  case (2 l r es)
  then show ?case
    by (cases "accepted_revisions k es")
      (auto simp: never_unsaved_def replayed_def split: option.splits)
qed (auto simp: never_unsaved_def)

lemma clean_replayed:
  assumes "lawful es" and "never_unsaved k es"
  shows "replayed es k r \<longleftrightarrow> (\<exists>r' \<in> set (accepted_revisions k es). r \<le> r')"
  using clean_mark [OF assms]
  by (cases "accepted_revisions k es") (auto simp: replayed_def)

section \<open>The interface of a replay guard\<close>

text \<open>
  A guard holds a mark per key in memory and one that outlives a restart. An observation whose
  revision is not above the mark is refused and changes nothing; another one becomes the mark
  in both places when it is saved, and costs the key its mark in memory when it is not.
\<close>

locale high_water =
  fixes observe :: "bool \<Rightarrow> 'k \<Rightarrow> 'r::linorder \<Rightarrow> 's \<Rightarrow> bool \<times> 's"
    and restart :: "'s \<Rightarrow> 's"
    and mark :: "'s \<Rightarrow> 'k \<Rightarrow> 'r option"
    and durable :: "'s \<Rightarrow> 'k \<Rightarrow> 'r option"
    and inv :: "'s \<Rightarrow> bool"
  assumes accepts: "inv s \<Longrightarrow> fst (observe ok k r s) \<longleftrightarrow> ok \<and> (\<forall>m. mark s k = Some m \<longrightarrow> m < r)"
    and saved: "inv s \<Longrightarrow> fst (observe ok k r s) \<Longrightarrow>
      mark (snd (observe ok k r s)) = (mark s)(k \<mapsto> r) \<and>
      durable (snd (observe ok k r s)) = (mark s)(k \<mapsto> r)"
    and unsaved: "inv s \<Longrightarrow> \<forall>m. mark s k = Some m \<longrightarrow> m < r \<Longrightarrow> \<not> ok \<Longrightarrow>
      mark (snd (observe ok k r s)) = (mark s)(k := None) \<and>
      durable (snd (observe ok k r s)) = durable s"
    and refuses: "inv s \<Longrightarrow> mark s k = Some m \<Longrightarrow> r \<le> m \<Longrightarrow> snd (observe ok k r s) = s"
    and restarts: "inv s \<Longrightarrow> mark (restart s) = durable s \<and> durable (restart s) = durable s"
    and inv_observe: "inv s \<Longrightarrow> inv (snd (observe ok k r s))"
    and inv_restart: "inv s \<Longrightarrow> inv (restart s)"
begin

definition tracks :: "('k, 'r) mark_event list \<Rightarrow> 's \<Rightarrow> bool" where
  "tracks es s \<longleftrightarrow> inv s \<and> lawful es \<and> mark s = memory_mark es \<and> durable s = file_mark es"

lemma tracks_Nil: "inv s \<Longrightarrow> mark s = Map.empty \<Longrightarrow> durable s = Map.empty \<Longrightarrow> tracks [] s"
  by (simp add: tracks_def)

lemma fresh_iff: "tracks es s \<Longrightarrow> (\<forall>m. mark s k = Some m \<longrightarrow> m < r) \<longleftrightarrow> \<not> replayed es k r"
  by (auto simp: tracks_def replayed_def split: option.splits)

lemma tracks_decides: "tracks es s \<Longrightarrow> fst (observe ok k r s) \<longleftrightarrow> ok \<and> \<not> replayed es k r"
  using fresh_iff [of es s k r] accepts [of s ok k r] unfolding tracks_def by blast

lemma tracks_accepted: "tracks es s \<Longrightarrow> fst (observe ok k r s) \<Longrightarrow>
    tracks (Accepted k r # es) (snd (observe ok k r s))"
  using tracks_decides [of es s ok k r] saved inv_observe by (simp add: tracks_def)

lemma tracks_unsaved: "tracks es s \<Longrightarrow> \<not> replayed es k r \<Longrightarrow> \<not> ok \<Longrightarrow>
    tracks (Unsaved k r # es) (snd (observe ok k r s))"
  using unsaved [of s k r ok] inv_observe fresh_iff [of es s k r] by (auto simp: tracks_def)

lemma tracks_replayed: "tracks es s \<Longrightarrow> replayed es k r \<Longrightarrow> snd (observe ok k r s) = s"
  using refuses by (auto simp: tracks_def replayed_def split: option.splits)

lemma tracks_restarted: "tracks es s \<Longrightarrow> tracks (Restarted # es) (restart s)"
  using restarts inv_restart by (simp add: tracks_def)

end

section \<open>The guard keeps the interface\<close>

definition guard_observe ::
  "bool \<Rightarrow> replay_key \<Rightarrow> u64 \<Rightarrow> replay_guard \<times> replay_disk \<Rightarrow> bool \<times> replay_guard \<times> replay_disk" where
  "guard_observe ok k r s =
     (case replay_accept (Some (fst s)) (snd s)
        \<lparr>ap_device = rk_device k, ap_fingerprint = [], ap_capabilities = [], ap_negotiated = []\<rparr>
        \<lparr>env_dataset = rk_dataset k, env_schema = 0, env_id = rk_record k, env_revision = r,
         env_updated = 0, env_origin = [], env_deleted = False, env_payload = None\<rparr> ok of
        (res, g, d) \<Rightarrow> (is_ok res, the g, d))"

definition guard_mark :: "replay_guard \<times> replay_disk \<Rightarrow> replay_key \<Rightarrow> u64 option" where
  "guard_mark s = map_of (rg_revision (fst s))"

text \<open>A file that the guard has written, or none; then a restart reads the marks back.\<close>

definition replay_file :: "(replay_key, u64) gomap \<Rightarrow> replay_entry list content" where
  "replay_file m = Holds (map (\<lambda>(k, r). \<lparr>re_key = k, re_revision = r\<rparr>) m)"

definition guard_file :: "replay_guard \<times> replay_disk \<Rightarrow> replay_key \<Rightarrow> u64 option" where
  "guard_file s = (case disk_file (snd s) of
     Holds entries \<Rightarrow> map_of (map_from (map (\<lambda>e. (re_key e, re_revision e)) entries))
   | _ \<Rightarrow> Map.empty)"

definition guard_inv :: "replay_guard \<times> replay_disk \<Rightarrow> bool" where
  "guard_inv s \<longleftrightarrow> rg_path (fst s) \<noteq> [] \<and> map_wf (rg_revision (fst s)) \<and>
     (disk_file (snd s) = Absent \<or> (\<exists>m. map_wf m \<and> disk_file (snd s) = replay_file m))"

definition guard_restart :: "replay_guard \<times> replay_disk \<Rightarrow> replay_guard \<times> replay_disk" where
  "guard_restart s = (case new_persistent_replay_guard (rg_path (fst s)) (snd s) of
     Inr g \<Rightarrow> (g, snd s) | Inl _ \<Rightarrow> s)"

lemma replay_accept_cases:
  "replay_accept (Some g) d peer e ok =
     (if \<exists>m. map_of (rg_revision g) (replay_key_of peer e) = Some m \<and> env_revision e \<le> m
      then (Inl ErrReplayRecord, Some g, d)
      else let g' = g\<lparr>rg_revision := map_put (replay_key_of peer e) (env_revision e) (rg_revision g)\<rparr> in
        if rg_path g = [] then (Inr (), Some g', d)
        else if ok then
          (Inr (), Some g', \<lparr>disk_file = Holds (map (\<lambda>(k, r). \<lparr>re_key = k, re_revision = r\<rparr>)
             (rg_revision g')), disk_mode = 384\<rparr>)
        else (Inl ErrWrite, Some (g\<lparr>rg_revision := map_del (replay_key_of peer e) (rg_revision g')\<rparr>), d))"
  by (auto simp: replay_accept_def Let_def save_replay_def disk_save_def replay_key_of_def
      split: option.splits)

lemma replay_accept_cong:
  "replay_key_of peer e = replay_key_of peer' e' \<Longrightarrow> env_revision e = env_revision e' \<Longrightarrow>
     replay_accept (Some g) d peer e ok = replay_accept (Some g) d peer' e' ok"
  by (simp only: replay_accept_cases)

lemma guard_observe_accept:
  assumes "replay_accept (Some g) d peer e ok = (res, g', d')"
  shows "guard_observe ok (replay_key_of peer e) (env_revision e) (g, d) = (is_ok res, the g', d')"
  unfolding guard_observe_def fst_conv snd_conv
  by (subst replay_accept_cong [of _ _ peer e]) (simp_all add: replay_key_of_def assms)

lemma replay_file_pairs:
  "map_wf m \<Longrightarrow> map_from (map (\<lambda>e. (re_key e, re_revision e))
     (map (\<lambda>(k, r). \<lparr>re_key = k, re_revision = r\<rparr>) m)) = m"
  by (simp add: comp_def case_prod_unfold map_from_wf)

lemma load_replay_saved:
  "map_wf m \<Longrightarrow> fold (\<lambda>e. map_put (re_key e) (re_revision e)) (map (\<lambda>(k, r). \<lparr>re_key = k, re_revision = r\<rparr>) m) [] = m"
  using map_from_wf [of m] by (simp add: map_from_def fold_map comp_def case_prod_unfold)

lemma guard_file_saved:
  "disk_file d = replay_file m \<Longrightarrow> map_wf m \<Longrightarrow> guard_file (g, d) = map_of m"
  by (simp only: guard_file_def replay_file_def snd_conv content.case replay_file_pairs)

lemma restart_loads:
  assumes "guard_inv (g, d)"
  shows "\<exists>m. map_wf m \<and> guard_file (g, d) = map_of m \<and>
    new_persistent_replay_guard path d = Inr \<lparr>rg_path = path, rg_revision = m\<rparr>"
proof (cases "disk_file d = Absent")
  case True
  then show ?thesis
    by (intro exI [of _ "[]"]) (simp add: guard_file_def new_persistent_replay_guard_def load_replay_def)
next
  case False
  then obtain m where m: "map_wf m" "disk_file d = replay_file m"
    using assms by (auto simp: guard_inv_def)
  then have "new_persistent_replay_guard path d = Inr \<lparr>rg_path = path, rg_revision = m\<rparr>"
    by (simp add: new_persistent_replay_guard_def load_replay_def replay_file_def load_replay_saved)
  with m guard_file_saved show ?thesis by blast
qed

lemma guard_restart_same:
  assumes "guard_inv (g, d)" and "new_persistent_replay_guard (rg_path g) d = Inr g'"
  shows "guard_restart (g, d) = (g', d)"
  using assms by (simp add: guard_restart_def)

interpretation hw: high_water guard_observe guard_restart guard_mark guard_file guard_inv
proof
  fix ok :: bool and k :: replay_key and r m :: u64 and s :: "replay_guard \<times> replay_disk"
  assume inv: "guard_inv s"
  obtain g d where s: "s = (g, d)" by (cases s)
  note run = s guard_observe_def replay_accept_cases replay_key_of_def guard_mark_def Let_def
  have path: "rg_path g \<noteq> []" and wf: "map_wf (rg_revision g)"
    using inv s by (auto simp: guard_inv_def)
  show "fst (guard_observe ok k r s) \<longleftrightarrow> ok \<and> (\<forall>m. guard_mark s k = Some m \<longrightarrow> m < r)"
    using path by (cases k) (auto simp: run not_le)
  show "guard_mark (snd (guard_observe ok k r s)) = (guard_mark s)(k \<mapsto> r) \<and>
      guard_file (snd (guard_observe ok k r s)) = (guard_mark s)(k \<mapsto> r)" if "fst (guard_observe ok k r s)"
  proof -
    have new: "map_wf (map_put k r (rg_revision g))" using wf by simp
    have "snd (guard_observe ok k r s) = (g\<lparr>rg_revision := map_put k r (rg_revision g)\<rparr>,
        \<lparr>disk_file = replay_file (map_put k r (rg_revision g)), disk_mode = 384\<rparr>)"
      using that path by (cases k) (auto simp: run replay_file_def split: if_splits)
    with new show ?thesis by (simp add: guard_file_saved guard_mark_def s gomap_simps)
  qed
  show "guard_mark (snd (guard_observe ok k r s)) = (guard_mark s)(k := None) \<and>
      guard_file (snd (guard_observe ok k r s)) = guard_file s"
    if "\<forall>m. guard_mark s k = Some m \<longrightarrow> m < r" "\<not> ok"
    using that path by (cases k) (auto simp: run guard_file_def gomap_simps not_le [symmetric] split: if_splits)
  show "snd (guard_observe ok k r s) = s" if "guard_mark s k = Some m" "r \<le> m"
    using that by (cases k) (auto simp: run)
  show "guard_inv (snd (guard_observe ok k r s))"
    using inv wf path by (cases k) (auto simp: run guard_inv_def replay_file_def map_wf_Cons
        intro!: exI [of _ "map_put k r (rg_revision g)"])
  obtain l where "map_wf l" "guard_file (g, d) = map_of l"
    "guard_restart s = (\<lparr>rg_path = rg_path g, rg_revision = l\<rparr>, d)"
    using restart_loads [of g d "rg_path g"] inv s by (auto simp: guard_restart_def)
  then show "guard_mark (guard_restart s) = guard_file s \<and> guard_file (guard_restart s) = guard_file s"
    and "guard_inv (guard_restart s)"
    using inv s by (auto simp: guard_mark_def guard_inv_def guard_file_def)
qed

section \<open>Traces with failing writes and restarts\<close>

text \<open>
  The life of a persistent guard from its first start without a file: any records are presented,
  any writes fail, and the process may be restarted, which reads the file again.
\<close>

inductive replay_trace ::
  "bytes \<Rightarrow> (replay_key, u64) mark_event list \<Rightarrow> replay_guard \<Rightarrow> replay_disk \<Rightarrow> bool"
  for path where
  start: "disk_file d = Absent \<Longrightarrow> new_persistent_replay_guard path d = Inr g \<Longrightarrow> replay_trace path [] g d"
| accepted: "replay_trace path es g d \<Longrightarrow> replay_accept (Some g) d peer e ok = (Inr (), Some g', d') \<Longrightarrow>
    replay_trace path (Accepted (replay_key_of peer e) (env_revision e) # es) g' d'"
| refused: "replay_trace path es g d \<Longrightarrow>
    replay_accept (Some g) d peer e ok = (Inl ErrReplayRecord, Some g', d') \<Longrightarrow>
    replay_trace path es g' d'"
| unsaved: "replay_trace path es g d \<Longrightarrow>
    replay_accept (Some g) d peer e ok = (Inl x, Some g', d') \<Longrightarrow> x \<noteq> ErrReplayRecord \<Longrightarrow>
    replay_trace path (Unsaved (replay_key_of peer e) (env_revision e) # es) g' d'"
| restarted: "replay_trace path es g d \<Longrightarrow> new_persistent_replay_guard path d = Inr g' \<Longrightarrow>
    replay_trace path (Restarted # es) g' d"

lemma accept_path: "replay_accept (Some g) d peer e ok = (res, Some g', d') \<Longrightarrow> rg_path g' = rg_path g"
  by (auto simp: replay_accept_cases Let_def split: if_splits)

lemma accept_error:
  assumes "hw.tracks es (g, d)" and "replay_accept (Some g) d peer e ok = (res, g', d')"
  shows "res = (if replayed es (replay_key_of peer e) (env_revision e) then Inl ErrReplayRecord
    else if ok then Inr () else Inl ErrWrite)"
  using assms by (auto simp: hw.tracks_def guard_inv_def guard_mark_def replay_accept_cases replayed_def
      Let_def split: if_splits option.splits)

lemma replay_trace_inv:
  assumes "replay_trace path es g d" and "path \<noteq> []"
  shows "rg_path g = path \<and> hw.tracks es (g, d)"
  using assms(1)
proof (induction rule: replay_trace.induct)
  case (start d g)
  then have "g = \<lparr>rg_path = path, rg_revision = []\<rparr>"
    by (auto simp: new_persistent_replay_guard_def load_replay_def)
  with start assms(2) have "guard_inv (g, d)" "guard_mark (g, d) = Map.empty" "guard_file (g, d) = Map.empty"
    "rg_path g = path"
    by (simp_all add: guard_inv_def guard_mark_def guard_file_def)
  then show ?case using hw.tracks_Nil by blast
next
  case (accepted es g d peer e ok g' d')
  then show ?case
    using hw.tracks_accepted [of es "(g, d)" ok "replay_key_of peer e" "env_revision e"]
      guard_observe_accept [OF accepted.hyps(2)] accept_path [OF accepted.hyps(2)] by simp
next
  case (refused es g d peer e ok g' d')
  then have "replayed es (replay_key_of peer e) (env_revision e)"
    using accept_error [of es g d peer e ok] by (auto split: if_splits)
  with refused show ?case
    using hw.tracks_replayed [of es "(g, d)" "replay_key_of peer e" "env_revision e" ok]
      guard_observe_accept [OF refused.hyps(2)] accept_path [OF refused.hyps(2)] by simp
next
  case (unsaved es g d peer e ok x g' d')
  then have "\<not> replayed es (replay_key_of peer e) (env_revision e)" "\<not> ok"
    using accept_error [of es g d peer e ok] by (auto split: if_splits)
  with unsaved show ?case
    using hw.tracks_unsaved [of es "(g, d)" "replay_key_of peer e" "env_revision e" ok]
      guard_observe_accept [OF unsaved.hyps(2)] accept_path [OF unsaved.hyps(2)] by simp
next
  case (restarted es g d g')
  then have "guard_restart (g, d) = (g', d)" "rg_path g' = path"
    using restart_loads [of g d path] by (auto simp: hw.tracks_def guard_restart_def)
  with restarted show ?case using hw.tracks_restarted [of es "(g, d)"] by simp
qed

section \<open>Properties\<close>

text \<open>
  C4. A persistent guard decides by its whole history, restarts and failed writes included. A
  revision is refused as a replay, with nothing changed, exactly when it is not above the mark
  that the history gives its key: the latest accepted revision of the device for the record,
  which a failed save of a newer one deletes until a restart brings back the mark of the file.
  Another revision is accepted when its save succeeds and is a write error when not. For a
  record none of whose saves has failed this is the strict law: a revision is a replay exactly
  when one at least as high was accepted before, and the accepted revisions strictly increase.
\<close>

theorem replay_guard_implements_history:
  assumes "replay_trace path es g d" and "path \<noteq> []"
    and "replay_accept (Some g) d peer e ok = (res, g', d')"
    and "k = replay_key_of peer e" and "r = env_revision e"
  shows "res = (if replayed es k r then Inl ErrReplayRecord else if ok then Inr () else Inl ErrWrite) \<and>
    (replayed es k r \<longrightarrow> g' = Some g \<and> d' = d) \<and>
    (never_unsaved k es \<longrightarrow>
       (replayed es k r \<longleftrightarrow> (\<exists>r' \<in> set (accepted_revisions k es). r \<le> r')) \<and>
       sorted_wrt (>) (accepted_revisions k es))"
proof (intro conjI impI)
  have tracks: "hw.tracks es (g, d)" using replay_trace_inv [OF assms(1,2)] by blast
  then have lawful: "lawful es" by (simp add: hw.tracks_def)
  show res: "res = (if replayed es k r then Inl ErrReplayRecord else if ok then Inr () else Inl ErrWrite)"
    using accept_error [OF tracks assms(3)] assms(4,5) by simp
  show "g' = Some g" "d' = d" if "replayed es k r"
    using that res assms(3) by (auto simp: replay_accept_cases Let_def split: if_splits)
  show "replayed es k r \<longleftrightarrow> (\<exists>r' \<in> set (accepted_revisions k es). r \<le> r')"
    "sorted_wrt (>) (accepted_revisions k es)" if "never_unsaved k es"
    using clean_replayed [OF lawful that] clean_mark [OF lawful that] by blast+
qed

theorem replay_guard_implements_history_witness:
  "\<exists>g d k. replay_trace ''replay.json'' [Restarted, Unsaved k 4, Accepted k 3] g d \<and>
     k = replay_key_of sample_peer (history_record ''h1'' 3 10 None) \<and>
     fst (replay_accept (Some g) d sample_peer (history_record ''h1'' 3 10 None) True) = Inl ErrReplayRecord"
proof -
  let ?d0 = "\<lparr>disk_file = Absent, disk_mode = 0\<rparr> :: replay_disk"
  let ?e = "\<lambda>r. history_record ''h1'' r 9 None"
  let ?k = "replay_key_of sample_peer (?e 3)"
  let ?g0 = "\<lparr>rg_path = ''replay.json'', rg_revision = []\<rparr>"
  let ?f = "history_record ''h1'' 3 10 None"
  have key: "replay_key_of sample_peer (?e 4) = ?k" "?k = replay_key_of sample_peer ?f"
    by (simp_all add: replay_key_of_def)
  have start: "replay_trace ''replay.json'' [] ?g0 ?d0"
    by (intro replay_trace.start) (simp_all add: new_persistent_replay_guard_def load_replay_def)
  obtain g1 d1 where acc: "replay_accept (Some ?g0) ?d0 sample_peer (?e 3) True = (Inr (), Some g1, d1)"
    and g1: "g1 = \<lparr>rg_path = ''replay.json'', rg_revision = [(?k, 3)]\<rparr>"
    and d1: "disk_file d1 = replay_file [(?k, 3)]"
    by (simp add: replay_accept_cases replay_file_def)
  obtain g2 where fail: "replay_accept (Some g1) d1 sample_peer (?e 4) False = (Inl ErrWrite, Some g2, d1)"
    by (simp add: replay_accept_cases g1 key)
  have "new_persistent_replay_guard ''replay.json'' d1 = Inr g1"
    by (simp add: new_persistent_replay_guard_def load_replay_def d1 replay_file_def g1)
  then have life: "replay_trace ''replay.json'' [Restarted, Unsaved ?k 4, Accepted ?k 3] g1 d1"
    using replay_trace.restarted [OF replay_trace.unsaved [OF replay_trace.accepted [OF start acc] fail]]
    by (simp add: key(1))
  obtain res g' d' where run: "replay_accept (Some g1) d1 sample_peer ?f True = (res, g', d')"
    by (cases "replay_accept (Some g1) d1 sample_peer ?f True")
  have "replayed [Restarted, Unsaved ?k 4, Accepted ?k 3] ?k (3 :: u64)" by (simp add: replayed_def)
  then have "res = Inl ErrReplayRecord"
    using replay_guard_implements_history [OF life _ run key(2), of 3] by simp
  with life run key(2) show ?thesis by fastforce
qed

text \<open>
  A failed write loses the mark: a guard that had accepted a revision and then fails to
  save a newer one forgets the record altogether, so the same device can present the older
  revision, or any other positive one, again.
\<close>

theorem failed_save_forgets_mark:
  assumes "rg_path g \<noteq> []" and "map_of (rg_revision g) (replay_key_of peer e) = Some m"
    and "m < env_revision e" and "replay_accept (Some g) d peer e False = (res, g', d')"
    and "replay_key_of peer e' = replay_key_of peer e"
  shows "res = Inl ErrWrite \<and> d' = d \<and> is_ok (fst (replay_accept g' d' peer e' True))"
proof -
  have "res = Inl ErrWrite" "d' = d" and g': "g' = Some (g\<lparr>rg_revision := map_del (replay_key_of peer e)
      (map_put (replay_key_of peer e) (env_revision e) (rg_revision g))\<rparr>)"
    using assms(1-4) by (simp_all add: replay_accept_cases Let_def not_le [symmetric])
  moreover have "map_of (map_del (replay_key_of peer e)
      (map_put (replay_key_of peer e) (env_revision e) (rg_revision g))) (replay_key_of peer e') = None"
    by (simp add: gomap_simps assms(5))
  ultimately show ?thesis using assms(1) by (simp add: replay_accept_cases Let_def)
qed

theorem failed_save_forgets_mark_witness:
  "\<exists>g g' d'. map_of (rg_revision g) (replay_key_of sample_peer (history_record ''h1'' 1 9 None)) = Some 3 \<and>
     replay_accept (Some g) d' sample_peer (history_record ''h1'' 4 9 None) False = (Inl ErrWrite, g', d') \<and>
     is_ok (fst (replay_accept g' d' sample_peer (history_record ''h1'' 1 9 None) True))"
proof -
  let ?k = "replay_key_of sample_peer (history_record ''h1'' 1 9 None)"
  let ?g = "\<lparr>rg_path = ''replay.json'', rg_revision = [(?k, 3)]\<rparr>"
  let ?d = "\<lparr>disk_file = Absent, disk_mode = 0\<rparr> :: replay_disk"
  obtain res g' d' where run: "replay_accept (Some ?g) ?d sample_peer (history_record ''h1'' 4 9 None) False =
      (res, g', d')"
    by (cases "replay_accept (Some ?g) ?d sample_peer (history_record ''h1'' 4 9 None) False")
  have path: "rg_path ?g \<noteq> []" and old: "(3::u64) < env_revision (history_record ''h1'' 4 9 None)"
    and mark: "map_of (rg_revision ?g) (replay_key_of sample_peer (history_record ''h1'' 4 9 None)) = Some 3"
    and key: "?k = replay_key_of sample_peer (history_record ''h1'' 4 9 None)"
    by (simp_all add: replay_key_of_def)
  note lost = failed_save_forgets_mark [OF path mark old run key]
  show ?thesis
  proof (intro exI conjI)
    show "map_of (rg_revision ?g) ?k = Some 3" by simp
    show "replay_accept (Some ?g) d' sample_peer (history_record ''h1'' 4 9 None) False = (Inl ErrWrite, g', d')"
      using lost run by blast
    show "is_ok (fst (replay_accept g' d' sample_peer (history_record ''h1'' 1 9 None) True))"
      using lost by blast
  qed
qed

end
