(* ===== verification/Retrieval.thy ===== *)
theory Retrieval
  imports Record_Stores
begin

text \<open>
  The retrieval page of the record stores (\<open>replication/retrieval_page.go\<close>): a scan of the
  whole file that validates every record and keeps the records after a cursor, at most one
  more than the page holds, by binary insertion. The page is the sorted segment of the store
  and following the cursors enumerates the store.
\<close>

abbreviation ErrPersistedRecordKeyMismatch :: go_error where
  "ErrPersistedRecordKeyMismatch \<equiv> Sentinel ''persisted sync record key does not match recordId''"
abbreviation ErrInvalidRetrievalPageSize :: go_error where
  "ErrInvalidRetrievalPageSize \<equiv> Sentinel ''invalid sync retrieval page size''"

section \<open>Binary insertion\<close>

text \<open>The library's \<open>sort.Search\<close>: the loop over the interval \<open>[i, j)\<close>.\<close>

function go_search :: "(nat \<Rightarrow> bool) \<Rightarrow> nat \<Rightarrow> nat \<Rightarrow> nat" where
  "go_search f i j =
     (if i < j then
        let h = (i + j) div 2 in
        if \<not> f h then go_search f (h + 1) j else go_search f i h
      else i)"
  by pat_completeness auto
termination
proof (relation "measure (\<lambda>(f, i, j). j - i)")
  fix f :: "nat \<Rightarrow> bool" and i j h :: nat
  assume "i < j" and h: "h = (i + j) div 2"
  then have "i \<le> h" "h < j" by linarith+
  then show "((f, h + 1, j), f, i, j) \<in> measure (\<lambda>(f, i, j). j - i)"
    and "((f, i, h), f, i, j) \<in> measure (\<lambda>(f, i, j). j - i)"
    using \<open>i < j\<close> by simp_all
qed simp

declare go_search.simps [simp del]

lemma go_search_spec:
  assumes "i \<le> j" and mono: "\<And>x y. x \<le> y \<Longrightarrow> y < n \<Longrightarrow> f x \<Longrightarrow> f y" and "j \<le> n"
    and below: "\<And>x. x < i \<Longrightarrow> \<not> f x" and above: "\<And>x. j \<le> x \<Longrightarrow> x < n \<Longrightarrow> f x"
  shows "i \<le> go_search f i j \<and> go_search f i j \<le> j \<and>
    (\<forall>x < go_search f i j. \<not> f x) \<and> (\<forall>x. go_search f i j \<le> x \<longrightarrow> x < n \<longrightarrow> f x)"
  using assms
proof (induction f i j rule: go_search.induct)
  case (1 f i j)
  show ?case
  proof (cases "i < j")
    case False
    then have "go_search f i j = i" by (subst go_search.simps) simp
    with False 1(3-) show ?thesis by auto
  next
    case True
    define h where "h = (i + j) div 2"
    have h: "i \<le> h" "h < j" using True by (auto simp: h_def)
    show ?thesis
    proof (cases "f h")
      case True
      have *: "go_search f i j = go_search f i h"
        using \<open>i < j\<close> True by (simp add: go_search.simps [of f i j] h_def Let_def)
      have "f x" if "h \<le> x" "x < n" for x using 1(4) [of h x] that True by blast
      with 1(2) [OF \<open>i < j\<close> h_def] True 1(3-) h show ?thesis unfolding * by fastforce
    next
      case False
      have *: "go_search f i j = go_search f (h + 1) j"
        using \<open>i < j\<close> False by (simp add: go_search.simps [of f i j] h_def Let_def)
      have "\<not> f x" if "x < h + 1" for x using 1(4) [of x h] 1(5) that False h by fastforce
      with 1(1) [OF \<open>i < j\<close> h_def] False 1(3-) h show ?thesis unfolding * by fastforce
    qed
  qed
qed

definition retain_page_candidate ::
  "record_envelope list \<Rightarrow> record_envelope \<Rightarrow> nat \<Rightarrow> record_envelope list" where
  "retain_page_candidate candidates candidate limit =
     (let position = go_search (\<lambda>i. env_id candidate \<le> env_id (candidates ! i)) 0 (length candidates) in
      if position < length candidates \<and> env_id (candidates ! position) = env_id candidate
      then candidates[position := candidate]
      else if limit \<le> length candidates \<and> position = length candidates
      then candidates
      else
        let grown = take position candidates @ candidate # drop position candidates in
        if limit < length grown then take limit grown else grown)"

section \<open>The scan\<close>

text \<open>The loop over the members of the object, in file order.\<close>

fun page_scan ::
  "capability \<Rightarrow> bytes \<Rightarrow> nat \<Rightarrow> (bytes \<times> persisted_record) list \<Rightarrow> record_envelope list \<Rightarrow>
     record_envelope list result" where
  "page_scan cap cursor lim [] candidates = Inr candidates"
| "page_scan cap cursor lim ((key, r) # ms) candidates =
     (let e = pr_envelope r in
      if key \<noteq> env_id e then Inl ErrPersistedRecordKeyMismatch
      else case validate_record e cap of
        Inl err \<Rightarrow> Inl err
      | Inr _ \<Rightarrow>
          if env_id e \<le> cursor then page_scan cap cursor lim ms candidates
          else page_scan cap cursor lim ms (retain_page_candidate candidates e lim))"

text \<open>
  The argument \<open>readable\<close> is what the decoder reads of a malformed file before it fails; the
  scan may stop at one of these members first.
\<close>

definition validated_persisted_page ::
  "(bytes \<times> persisted_record) list \<Rightarrow> record_disk \<Rightarrow> capability \<Rightarrow> bytes \<Rightarrow> int \<Rightarrow>
     (record_envelope list \<times> bytes) result" where
  "validated_persisted_page readable d cap cursor limit =
     (if limit < 1 then Inl ErrInvalidRetrievalPageSize
      else case disk_file d of
        Absent \<Rightarrow> Inr ([], [])
      | Unreadable \<Rightarrow> Inl ErrRead
      | Blank \<Rightarrow> Inr ([], [])
      | Garbage \<Rightarrow> and_then (page_scan cap cursor (nat (limit + 1)) readable []) (\<lambda>_. Inl ErrDecode)
      | Holds ms \<Rightarrow>
          and_then (page_scan cap cursor (nat (limit + 1)) ms []) (\<lambda>candidates.
            if length candidates \<le> nat limit then Inr (candidates, [])
            else let page = take (nat limit) candidates in Inr (page, env_id (last page))))"

section \<open>Insertion keeps the smallest records\<close>

definition keyed :: "record_envelope list \<Rightarrow> (bytes, record_envelope) gomap" where
  "keyed es = map (\<lambda>e. (env_id e, e)) es"

lemma keyed_simps [simp]:
  "keyed [] = []" "keyed (e # es) = (env_id e, e) # keyed es" "keyed (es @ fs) = keyed es @ keyed fs"
  "length (keyed es) = length es" "take n (keyed es) = keyed (take n es)"
  "map snd (keyed es) = es" "map fst (keyed es) = map env_id es"
  by (simp_all add: keyed_def take_map comp_def)

lemma keyed_inj [simp]: "keyed es = keyed fs \<longleftrightarrow> es = fs"
  by (metis keyed_simps(6))

lemma map_put_prefix:
  "\<forall>q \<in> set m. fst q < k \<Longrightarrow> map_put k v (m @ n) = m @ map_put k v n"
  by (induction m) auto

lemma take_put: "take n (map_put k v (take n m)) = take n (map_put k v m)"
proof (induction m arbitrary: n)
  case (Cons p m)
  then show ?case by (cases n; cases p) (auto simp: take_Cons' split: nat.splits)
qed simp

lemma retain_position:
  assumes wf: "map_wf (keyed cs)"
    and p: "p = go_search (\<lambda>i. env_id c \<le> env_id (cs ! i)) 0 (length cs)"
  shows "p \<le> length cs" and "\<forall>e \<in> set (take p cs). env_id e < env_id c"
    and "\<forall>e \<in> set (drop p cs). env_id c \<le> env_id e"
proof -
  have sorted: "sorted (map env_id cs)" using wf by (simp add: map_wf_def strict_sorted_iff)
  have mono: "env_id (cs ! x) \<le> env_id (cs ! y)" if "x \<le> y" "y < length cs" for x y
    using sorted_nth_mono [OF sorted, of x y] that by simp
  have *: "0 \<le> p \<and> p \<le> length cs \<and> (\<forall>x < p. \<not> env_id c \<le> env_id (cs ! x)) \<and>
      (\<forall>x. p \<le> x \<longrightarrow> x < length cs \<longrightarrow> env_id c \<le> env_id (cs ! x))"
    unfolding p by (rule go_search_spec) (auto intro: order.trans [OF _ mono])
  then show "p \<le> length cs" by blast
  show "\<forall>e \<in> set (take p cs). env_id e < env_id c"
    using * by (auto simp: in_set_conv_nth not_le)
  show "\<forall>e \<in> set (drop p cs). env_id c \<le> env_id e"
    using * by (auto simp: in_set_conv_nth)
qed

lemma retain_page_candidate_keyed:
  assumes wf: "map_wf (keyed cs)" and len: "length cs \<le> lim"
  shows "keyed (retain_page_candidate cs c lim) = take lim (map_put (env_id c) c (keyed cs))"
proof -
  define p where "p = go_search (\<lambda>i. env_id c \<le> env_id (cs ! i)) 0 (length cs)"
  note pos = retain_position [OF wf p_def]
  have put: "map_put (env_id c) c (keyed cs) =
      keyed (take p cs) @ map_put (env_id c) c (keyed (drop p cs))"
    using map_put_prefix [of "keyed (take p cs)" "env_id c" c "keyed (drop p cs)"] pos(2)
    by (simp add: keyed_def flip: map_append)
  consider (same) e es where "drop p cs = e # es" "env_id e = env_id c"
    | (more) e es where "drop p cs = e # es" "env_id c < env_id e"
    | (tail) "drop p cs = []"
    using pos(3) by (cases "drop p cs") (metis list.set_intros(1) order_le_imp_less_or_eq)+
  then show ?thesis
  proof cases
    case same
    then have p: "p < length cs" "cs ! p = e"
      by (metis drop_eq_Nil list.distinct(1) not_le) (metis same(1) nth_via_drop)
    have upd: "cs[p := c] = take p cs @ c # es"
      using p same by (simp add: upd_conv_take_nth_drop Cons_nth_drop_Suc [symmetric])
    have len': "length (take p cs @ c # es) \<le> lim"
      using len by (metis length_list_update upd)
    show ?thesis
      using p same len' by (simp add: retain_page_candidate_def Let_def put upd flip: p_def)
  next
    case more
    then have p: "p < length cs" "cs ! p = e"
      by (metis drop_eq_Nil list.distinct(1) not_le) (metis more(1) nth_via_drop)
    show ?thesis
      using p more by (simp add: retain_page_candidate_def Let_def put less_imp_neq [THEN not_sym]
          flip: p_def) (simp flip: keyed_simps(5))
  next
    case tail
    then have p: "p = length cs" using pos(1) by simp
    show ?thesis
      using p len by (auto simp: retain_page_candidate_def Let_def put simp flip: p_def)
  qed
qed

text \<open>The records of a file after a cursor, and the page taken from them.\<close>

definition after_cursor :: "bytes \<Rightarrow> record_envelope list \<Rightarrow> record_envelope list" where
  "after_cursor cursor es = filter (\<lambda>e. cursor < env_id e) es"

definition member_ok :: "capability \<Rightarrow> bytes \<times> persisted_record \<Rightarrow> bool" where
  "member_ok cap p \<longleftrightarrow> fst p = env_id (pr_envelope (snd p)) \<and>
     validate_record (pr_envelope (snd p)) cap = Inr ()"

lemma page_scan_Inr:
  assumes "map_wf m" and "keyed candidates = take lim m"
  shows "page_scan cap cursor lim ms candidates = Inr es \<longleftrightarrow>
    (\<forall>p \<in> set ms. member_ok cap p) \<and>
    keyed es = take lim (fold (\<lambda>(k, v). map_put k v)
      (keyed (after_cursor cursor (map (pr_envelope \<circ> snd) ms))) m)"
  using assms
proof (induction ms arbitrary: candidates m)
  case Nil
  then show ?case by (auto simp: after_cursor_def) (metis keyed_inj)
next
  case (Cons p ms)
  obtain k r where p: "p = (k, r)" by (cases p)
  let ?e = "pr_envelope r"
  have wf: "map_wf (keyed candidates)" and len: "length candidates \<le> lim"
    using Cons.prems sorted_wrt_take [of "(<)" "map fst m" lim]
    by (simp_all add: map_wf_def take_map) (metis keyed_simps(4) length_take min.cobounded2)
  have step: "keyed (retain_page_candidate candidates ?e lim) = take lim (map_put (env_id ?e) ?e m)"
    using retain_page_candidate_keyed [OF wf len] Cons.prems(2) take_put by metis
  show ?case
    using Cons.IH [OF Cons.prems] Cons.IH [OF map_wf_put [OF Cons.prems(1)] step]
    by (auto simp: p member_ok_def Let_def after_cursor_def split: sum.splits)
qed

text \<open>Decoding commutes with changing the values and with dropping keys.\<close>

lemma map_put_map: "map_put k (f v) (map (\<lambda>(k, v). (k, f v)) m) = map (\<lambda>(k, v). (k, f v)) (map_put k v m)"
  by (induction k v m rule: map_put.induct) auto

lemma map_from_map: "map_from (map (\<lambda>(k, v). (k, f v)) ps) = map (\<lambda>(k, v). (k, f v)) (map_from ps)"
proof -
  have "fold (\<lambda>(k, v). map_put k v) (map (\<lambda>(k, v). (k, f v)) ps) (map (\<lambda>(k, v). (k, f v)) m) =
      map (\<lambda>(k, v). (k, f v)) (fold (\<lambda>(k, v). map_put k v) ps m)" for m
    by (induction ps arbitrary: m) (auto simp: map_put_map)
  from this [of "[]"] show ?thesis by (simp add: map_from_def)
qed

lemma map_put_filter:
  "map_wf m \<Longrightarrow> filter (\<lambda>p. P (fst p)) (map_put k v m) =
     (if P k then map_put k v (filter (\<lambda>p. P (fst p)) m) else filter (\<lambda>p. P (fst p)) m)"
  by (rule map_wf_set_unique) (auto simp: set_put)

lemma map_from_filter:
  "map_from (filter (\<lambda>p. P (fst p)) ps) = filter (\<lambda>p. P (fst p)) (map_from ps)"
proof -
  have "fold (\<lambda>(k, v). map_put k v) (filter (\<lambda>p. P (fst p)) ps) (filter (\<lambda>p. P (fst p)) m) =
      filter (\<lambda>p. P (fst p)) (fold (\<lambda>(k, v). map_put k v) ps m)" if "map_wf m" for m
    using that
  proof (induction ps arbitrary: m)
    case (Cons p ps)
    from Cons.IH [OF map_wf_put [OF Cons.prems, of "fst p" "snd p"]] show ?case
      using Cons.prems by (simp add: map_put_filter split_beta split: if_splits)
  qed simp
  from this [of "[]"] show ?thesis by (simp add: map_from_def)
qed

text \<open>The records in the order of \<open>Records\<close>, when every key is its record's identifier.\<close>

lemma sorted_records_keyed:
  assumes "disk_file d = Holds ms" and "\<forall>p \<in> set ms. fst p = env_id (pr_envelope (snd p))"
    and "sorted_records d = Inr rs"
  shows "keyed rs = map_from (keyed (map (pr_envelope \<circ> snd) ms))"
proof -
  let ?m = "map_from ms" and ?f = "\<lambda>(k, r). (k, pr_envelope r)"
  have ok: "\<forall>p \<in> set ?m. fst p = env_id (pr_envelope (snd p))"
    using set_map_from [of ms] assms(2) by blast
  have eq: "keyed (map (pr_envelope \<circ> snd) xs) = map ?f xs"
    if "\<forall>p \<in> set xs. fst p = env_id (pr_envelope (snd p))" for xs
    using that by (auto simp: keyed_def)
  have "map env_id (map (pr_envelope \<circ> snd) ?m) = map fst ?m"
    using ok by simp
  then have "sort_key env_id (map (pr_envelope \<circ> snd) ?m) = map (pr_envelope \<circ> snd) ?m"
    using map_wf_from [of ms] 
    by (intro sort_key_id_if_sorted) (simp only: map_wf_def strict_sorted_iff)
  then have "rs = map (pr_envelope \<circ> snd) ?m"
    using assms(1,3) by (simp add: sorted_records_def load_records_def)
  then show ?thesis using eq [OF ok] eq [OF assms(2)] map_from_map [of pr_envelope ms] by simp
qed

lemma sorted_records_wf:
  assumes "disk_file d = Holds ms" and "\<forall>p \<in> set ms. fst p = env_id (pr_envelope (snd p))"
    and "sorted_records d = Inr rs"
  shows "map_wf (keyed rs)"
  using sorted_records_keyed [OF assms] by simp

lemma after_cursor_keyed:
  "keyed (after_cursor cursor es) = filter (\<lambda>p. cursor < fst p) (keyed es)"
  by (simp add: after_cursor_def keyed_def filter_map comp_def)

definition page_of :: "nat \<Rightarrow> record_envelope list \<Rightarrow> record_envelope list \<times> bytes" where
  "page_of n es = (take n es, if length es \<le> n then [] else env_id (last (take n es)))"

lemma page_of_take: "n < lim \<Longrightarrow> page_of n (take lim es) = page_of n es"
  by (auto simp: page_of_def min_def)

lemma page_holds:
  assumes d: "disk_file d = Holds ms" and limit: "1 \<le> limit" and rs: "sorted_records d = Inr rs"
  shows "validated_persisted_page readable d cap cursor limit = Inr x \<longleftrightarrow>
    (\<forall>p \<in> set ms. member_ok cap p) \<and> x = page_of (nat limit) (after_cursor cursor rs)"
proof (cases "\<forall>p \<in> set ms. member_ok cap p")
  case False
  then show ?thesis
    using d limit page_scan_Inr [of "[]" "[]"] by (auto simp: validated_persisted_page_def result_iff)
next
  case True
  then have key: "\<forall>p \<in> set ms. fst p = env_id (pr_envelope (snd p))" by (auto simp: member_ok_def)
  let ?lim = "nat (limit + 1)" and ?S = "after_cursor cursor rs"
  have "fold (\<lambda>(k, v). map_put k v) (keyed (after_cursor cursor (map (pr_envelope \<circ> snd) ms))) [] =
      keyed ?S"
    using map_from_filter [of "\<lambda>k. cursor < k" "keyed (map (pr_envelope \<circ> snd) ms)"]
      sorted_records_keyed [OF d key rs]
    by (simp add: after_cursor_keyed map_from_def)
  then have "page_scan cap cursor ?lim ms [] = Inr es \<longleftrightarrow> es = take ?lim ?S" for es
    using page_scan_Inr [of "[]" "[]" ?lim cap cursor ms es] True by simp
  then have scan: "page_scan cap cursor ?lim ms [] = Inr (take ?lim ?S)" by simp
  have "nat limit < ?lim" using limit by simp
  from page_of_take [OF this, of ?S] show ?thesis
    using d limit scan True by (auto simp: validated_persisted_page_def page_of_def Let_def min_def)
qed

text \<open>Following the cursors: the calls a client makes from the empty cursor, with fuel.\<close>

fun fetch_all ::
  "nat \<Rightarrow> (bytes \<times> persisted_record) list \<Rightarrow> record_disk \<Rightarrow> capability \<Rightarrow> int \<Rightarrow> bytes \<Rightarrow>
     record_envelope list option" where
  "fetch_all 0 readable d cap limit cursor = None"
| "fetch_all (Suc fuel) readable d cap limit cursor =
     (case validated_persisted_page readable d cap cursor limit of
        Inl _ \<Rightarrow> None
      | Inr (page, next_cursor) \<Rightarrow>
          if next_cursor = [] then Some page
          else map_option ((@) page) (fetch_all fuel readable d cap limit next_cursor))"

lemma after_last:
  assumes wf: "map_wf (keyed rs)" and n: "0 < n" "n < length (after_cursor cursor rs)"
  shows "after_cursor (env_id (last (take n (after_cursor cursor rs)))) rs = drop n (after_cursor cursor rs)"
proof -
  let ?S = "after_cursor cursor rs"
  let ?c = "env_id (last (take n ?S))"
  have last_in: "last (take n ?S) \<in> set (take n ?S)" using n by (intro last_in_set) auto
  then have cur: "cursor < ?c"
    using set_take_subset [of n ?S] by (auto simp: after_cursor_def)
  have "after_cursor ?c rs = filter (\<lambda>e. ?c < env_id e) ?S"
    using cur by (auto simp: after_cursor_def intro!: filter_cong)
  also have "\<dots> = filter (\<lambda>e. ?c < env_id e) (take n ?S @ drop n ?S)" by simp
  also have "\<dots> = filter (\<lambda>e. ?c < env_id e) (take n ?S) @ filter (\<lambda>e. ?c < env_id e) (drop n ?S)"
    by (rule filter_append)
  also have "\<dots> = [] @ drop n ?S"
  proof (intro arg_cong2 [where f = "(@)"])
    have sorted: "sorted_wrt (\<lambda>x y. env_id x < env_id y) ?S"
      using wf by (simp add: map_wf_def sorted_wrt_map after_cursor_def sorted_wrt_filter)
    then have split: "sorted_wrt (\<lambda>x y. env_id x < env_id y) (take n ?S)"
      "\<forall>x \<in> set (take n ?S). \<forall>y \<in> set (drop n ?S). env_id x < env_id y"
      by (metis append_take_drop_id sorted_wrt_append)+
    show "filter (\<lambda>e. ?c < env_id e) (drop n ?S) = drop n ?S"
      using split(2) last_in by (auto simp: filter_id_conv)
    have "take n ?S = butlast (take n ?S) @ [last (take n ?S)]"
      using n by (intro append_butlast_last_id [symmetric]) auto
    then obtain xs where xs: "take n ?S = xs @ [last (take n ?S)]" by blast
    then have "sorted_wrt (\<lambda>x y. env_id x < env_id y) (xs @ [last (take n ?S)])"
      using split(1) by argo
    then have "\<forall>x \<in> set (xs @ [last (take n ?S)]). env_id x \<le> ?c"
      by (auto simp: sorted_wrt_append less_imp_le)
    with xs have "\<forall>x \<in> set (take n ?S). env_id x \<le> ?c" by argo
    then show "filter (\<lambda>e. ?c < env_id e) (take n ?S) = []"
      by (auto simp: filter_empty_conv not_less)
  qed
  finally show ?thesis by simp
qed

lemma member_id_nonempty: "member_ok cap p \<Longrightarrow> env_id (pr_envelope (snd p)) \<noteq> []"
  by (auto simp: member_ok_def dest: validate_record_bounds)

lemma sorted_records_mem:
  assumes "disk_file d = Holds ms" and "sorted_records d = Inr rs" and "e \<in> set rs"
  shows "\<exists>p \<in> set ms. e = pr_envelope (snd p)"
  using assms set_map_from [of ms] by (force simp: sorted_records_def load_records_def)

lemma fetch_from:
  assumes d: "disk_file d = Holds ms" and limit: "1 \<le> limit" and rs: "sorted_records d = Inr rs"
    and ok: "\<forall>p \<in> set ms. member_ok cap p"
    and fuel: "length (after_cursor cursor rs) < fuel"
  shows "fetch_all fuel readable d cap limit cursor = Some (after_cursor cursor rs)"
  using fuel
proof (induction fuel arbitrary: cursor)
  case (Suc fuel)
  let ?S = "after_cursor cursor rs" and ?n = "nat limit"
  have page: "validated_persisted_page readable d cap cursor limit = Inr (page_of ?n ?S)"
    using page_holds [OF d limit rs] ok by simp
  show ?case
  proof (cases "length ?S \<le> ?n")
    case True
    with page show ?thesis by (simp add: page_of_def)
  next
    case False
    have wf: "map_wf (keyed rs)"
      using sorted_records_wf [OF d _ rs] ok by (auto simp: member_ok_def)
    have "last (take ?n ?S) \<in> set (take ?n ?S)" using False limit by (intro last_in_set) auto
    then have "last (take ?n ?S) \<in> set rs"
      using set_take_subset [of ?n ?S] by (auto simp: after_cursor_def)
    with sorted_records_mem [OF d rs] ok have ne: "env_id (last (take ?n ?S)) \<noteq> []"
      using member_id_nonempty by metis
    have rest: "after_cursor (env_id (last (take ?n ?S))) rs = drop ?n ?S"
      using after_last [OF wf] False limit by simp
    have "fetch_all fuel readable d cap limit (env_id (last (take ?n ?S))) = Some (drop ?n ?S)"
      using Suc.IH [of "env_id (last (take ?n ?S))"] Suc.prems limit False by (simp add: rest)
    with page ne False show ?thesis by (simp add: page_of_def)
  qed
qed simp

section \<open>What keeps a store retrievable\<close>

text \<open>
  Every member of the file is stored under its identifier, valid for the capability, and in
  the form the file gives it.
\<close>

definition retrievable :: "capability \<Rightarrow> record_disk \<Rightarrow> bool" where
  "retrievable cap d \<longleftrightarrow>
     (case disk_file d of
        Absent \<Rightarrow> True
      | Blank \<Rightarrow> True
      | Holds ms \<Rightarrow> \<forall>p \<in> set ms. member_ok cap p \<and> stored_form (snd p) = snd p
      | _ \<Rightarrow> False)"

lemma retrievable_page:
  assumes "retrievable cap d" and "1 \<le> limit"
  shows "is_ok (validated_persisted_page readable d cap cursor limit)"
proof (cases "disk_file d")
  case (Holds ms)
  obtain rs where "sorted_records d = Inr rs"
    using Holds by (simp add: sorted_records_def load_records_def)
  with Holds assms page_holds [OF Holds assms(2)] show ?thesis
    by (auto simp: retrievable_def is_ok_iff)
qed (use assms in \<open>auto simp: retrievable_def validated_persisted_page_def\<close>)

text \<open>A record that comes back from the file as it went in.\<close>

definition survives_file :: "record_envelope \<Rightarrow> bool" where
  "survives_file e \<longleftrightarrow> env_deleted e \<or> env_payload e \<noteq> Some []"

lemma stored_envelope_valid:
  assumes "validate_record e c = Inr ()" and "survives_file e"
  shows "validate_record (stored_envelope e) c = Inr ()"
  using assms
  by (cases "env_payload e") (auto simp: validate_record_def survives_file_def stored_envelope_def
      payload_length_def split: if_splits)

lemma accept_retrievable:
  assumes acc: "accept_and_persist ds err e p v t now clock d ok = (r, d')"
    and d: "retrievable cap d" and e: "survives_file e"
    and cap: "\<And>c. negotiated_capability p ds = Some c \<Longrightarrow> validate_record e c = Inr () \<Longrightarrow>
        validate_record e cap = Inr ()"
  shows "retrievable cap d'"
proof (cases "d' = d")
  case False
  with acc obtain m ev where m: "load_records d = Inr m"
    and d': "disk_file d' = Holds (map (\<lambda>(k, r). (k, stored_form r))
        (map_put (env_id e) \<lparr>pr_envelope = e, pr_evidence = ev\<rparr> m))"
    and auth: "authorize_record e p v t now clock = Inr ev" and ds: "env_dataset e = ds"
    by (auto simp: accept_and_persist_def Let_def save_records_def disk_save_def
        split: if_splits sum.splits option.splits resolution.splits)
  have old: "member_ok cap q \<and> stored_form (snd q) = snd q" if "q \<in> set m" for q
    using d m that set_map_from
    by (auto simp: retrievable_def load_records_def split: content.splits)
  from auth obtain c where "negotiated_capability p ds = Some c" "validate_record e c = Inr ()"
    by (auto simp: authorize_record_Inr record_authorized_def ds)
  then have "validate_record (stored_envelope e) cap = Inr ()"
    using cap e by (intro stored_envelope_valid)
  then have "member_ok cap (env_id e, stored_form \<lparr>pr_envelope = e, pr_evidence = ev\<rparr>)"
    by (simp add: member_ok_def)
  then show ?thesis
    using old set_put_subset [of "env_id e" "\<lparr>pr_envelope = e, pr_evidence = ev\<rparr>" m]
    by (fastforce simp: retrievable_def d')
qed (use d in simp)

section \<open>Properties\<close>

text \<open>
  C5. A page request succeeds exactly when the page size is positive and every record of the file
  is stored under its identifier and valid for the capability, whichever page is asked
  for; the page is then the first records after the cursor in the order of \<open>Records\<close>, and
  the next cursor is the identifier of the last of them, or empty when nothing follows.
\<close>

theorem page_is_sorted_segment:
  "validated_persisted_page readable d cap cursor limit = Inr x \<longleftrightarrow>
     1 \<le> limit \<and>
     (disk_file d \<in> {Absent, Blank} \<and> x = ([], []) \<or>
      (\<exists>ms rs. disk_file d = Holds ms \<and> sorted_records d = Inr rs \<and>
         (\<forall>p \<in> set ms. fst p = env_id (pr_envelope (snd p)) \<and>
            validate_record (pr_envelope (snd p)) cap = Inr ()) \<and>
         x = (let selected = filter (\<lambda>e. cursor < env_id e) rs; page = take (nat limit) selected in
              (page, if length selected \<le> nat limit then [] else env_id (last page)))))"
proof (cases "1 \<le> limit \<and> (\<exists>ms. disk_file d = Holds ms)")
  case True
  then obtain ms where d: "disk_file d = Holds ms" by blast
  obtain rs where rs: "sorted_records d = Inr rs"
    using d by (simp add: sorted_records_def load_records_def)
  from page_holds [OF d _ rs] True show ?thesis
    by (simp add: d rs member_ok_def page_of_def after_cursor_def Let_def)
next
  case False
  then show ?thesis
    by (cases "disk_file d") (auto simp: validated_persisted_page_def result_iff)
qed

definition sample_persisted :: "bytes \<Rightarrow> bytes \<times> persisted_record" where
  "sample_persisted i = (i, \<lparr>pr_envelope = history_record i 1 9 (Some [(''query'', JString i)]),
     pr_evidence = \<lparr>ae_dataset = ''search.history'', ae_record = i, ae_device = sample_device,
       ae_fingerprint = ''f'', ae_privacy = ''p'', ae_trust = ''t'', ae_accepted_at = 5\<rparr>\<rparr>)"

definition sample_store :: record_disk where
  "sample_store = \<lparr>disk_file = Holds (map sample_persisted [''a'', ''b'', ''c'']), disk_mode = 384\<rparr>"

lemma sample_members:
  "\<forall>p \<in> set (map sample_persisted [''a'', ''b'', ''c'']). member_ok history_capability p"
proof -
  have "member_ok history_capability (sample_persisted i)" if "i \<in> {''a'', ''b'', ''c''}" for i
    using that history_record_valid [of i 1 9 "Some [(''query'', JString i)]"]
    by (auto simp: member_ok_def sample_persisted_def printable_def)
  then show ?thesis by simp
qed

lemma sample_store_sorted:
  "sorted_records sample_store =
     Inr (map (\<lambda>i. history_record i 1 9 (Some [(''query'', JString i)])) [''a'', ''b'', ''c''])"
  by (simp add: sorted_records_def load_records_def sample_store_def sample_persisted_def map_from_def)

theorem page_is_sorted_segment_witness:
  "\<exists>page. validated_persisted_page [] sample_store history_capability ''a'' 1 = Inr (page, ''b'') \<and>
     map env_id page = [''b'']"
proof -
  have "validated_persisted_page [] sample_store history_capability ''a'' 1 =
      Inr ([history_record ''b'' 1 9 (Some [(''query'', JString ''b'')])], ''b'')"
    using sample_members sample_store_sorted
    by (subst page_is_sorted_segment) (simp add: member_ok_def, simp add: sample_store_def)
  then show ?thesis by simp
qed


lemma sample_store_retrievable: "retrievable history_capability sample_store"
  using sample_members
  by (simp add: retrievable_def sample_store_def)
    (simp add: sample_persisted_def stored_form_def stored_envelope_def payload_length_def history_record_def)


text \<open>
  A store that is retrievable stays so through any number of deliveries, accepted or not,
  provided every delivered record comes back from the file as it went in and a record valid
  for what its peer negotiated is valid for the capability retrieval uses; every page then
  succeeds.
\<close>

theorem deliveries_stay_retrievable:
  assumes "retrievable cap d"
    and "\<forall>(e, p, v, t, n, c, ok) \<in> set xs. survives_file e \<and>
      (\<forall>c'. negotiated_capability p ds = Some c' \<longrightarrow> validate_record e c' = Inr () \<longrightarrow>
         validate_record e cap = Inr ())"
    and "accept_all (accept_and_persist ds err) xs d = (es, d')"
  shows "retrievable cap d' \<and>
    (1 \<le> limit \<longrightarrow> is_ok (validated_persisted_page readable d' cap cursor limit))"
proof -
  have "retrievable cap d'"
    using assms
  proof (induction xs arbitrary: d es)
    case (Cons x xs)
    obtain e p v t n c ok where x: "x = (e, p, v, t, n, c, ok)" by (cases x)
    obtain r d1 where acc: "accept_and_persist ds err e p v t n c d ok = (r, d1)" by fastforce
    have "retrievable cap d1"
      by (rule accept_retrievable [OF acc Cons.prems(1)]) (use Cons.prems(2) x in auto)
    moreover obtain fs where "accept_all (accept_and_persist ds err) xs d1 = (fs, d')"
      using Cons.prems(3) acc x by (auto split: sum.splits prod.splits)
    ultimately show ?case using Cons.IH Cons.prems(2) by simp
  qed simp
  then show ?thesis using retrievable_page by blast
qed

theorem deliveries_stay_retrievable_witness:
  "\<exists>es d'. accept_all search_accept [sample_arrival ''d'' 7] sample_store = (es, d') \<and>
     is_ok (validated_persisted_page [] d' history_capability [] 2)"
proof -
  obtain es d' where run: "accept_all (accept_and_persist ''search.history'' ErrSearchHistoryOnly)
      [sample_arrival ''d'' 7] sample_store = (es, d')" by fastforce
  have ok: "\<forall>(e, p, v, t, n, c, ok) \<in> set [sample_arrival ''d'' 7]. survives_file e \<and>
      (\<forall>c'. negotiated_capability p ''search.history'' = Some c' \<longrightarrow> validate_record e c' = Inr () \<longrightarrow>
         validate_record e history_capability = Inr ())"
    by (simp add: sample_arrival_def survives_file_def sample_negotiated)
  have "is_ok (validated_persisted_page [] d' history_capability [] 2)"
    using deliveries_stay_retrievable [OF sample_store_retrievable ok run, of 2 "[]" "[]"] by simp
  with run show ?thesis by (auto simp: search_accept_def)
qed

text \<open>
  C38. The provision is needed: a live record whose payload is the empty map is valid and
  accepted, but the file drops the empty payload, and from then on every page of the whole
  store is refused, whatever the capability and the cursor, until the record is replaced.
\<close>

theorem empty_payload_poisons_dataset:
  assumes "accept_and_persist ds err e p v t now clock d ok = (Inr ev, d')"
    and "env_payload e = Some []" and "\<not> env_deleted e"
    and "stored_at d (env_id e) = None"
  shows "\<not> is_ok (validated_persisted_page readable d' cap cursor limit)"
proof
  assume "is_ok (validated_persisted_page readable d' cap cursor limit)"
  then obtain x where page: "validated_persisted_page readable d' cap cursor limit = Inr x"
    by (auto simp: is_ok_iff)
  obtain m where m: "load_records d = Inr m" "map_of m (env_id e) = None"
    using assms(1,4) by (auto simp: accept_and_persist_def stored_at_def split: if_splits sum.splits)
  then have d': "disk_file d' = Holds (map (\<lambda>(k, r). (k, stored_form r))
      (map_put (env_id e) \<lparr>pr_envelope = e, pr_evidence = ev\<rparr> m))" and "env_dataset e = ds"
    using assms(1) by (auto simp: accept_and_persist_def Let_def save_records_def disk_save_def
        split: if_splits sum.splits)
  have "(env_id e, \<lparr>pr_envelope = e, pr_evidence = ev\<rparr>) \<in>
      set (map_put (env_id e) \<lparr>pr_envelope = e, pr_evidence = ev\<rparr> m)"
    using load_records_wf [OF m(1)] by (simp add: set_put)
  then have stored: "(env_id e, stored_form \<lparr>pr_envelope = e, pr_evidence = ev\<rparr>) \<in>
      set (map (\<lambda>(k, r). (k, stored_form r)) (map_put (env_id e) \<lparr>pr_envelope = e, pr_evidence = ev\<rparr> m))"
    by (metis (mono_tags, lifting) case_prod_conv image_eqI list.set_map)
  obtain rs where rs: "sorted_records d' = Inr rs"
    using d' by (simp add: sorted_records_def load_records_def)
  have limit: "1 \<le> limit" using page by (simp add: validated_persisted_page_def split: if_splits)
  from page stored have "member_ok cap (env_id e, stored_form \<lparr>pr_envelope = e, pr_evidence = ev\<rparr>)"
    unfolding page_holds [OF d' limit rs] by (elim conjE) (rule bspec)
  then show False
    using assms(2,3)
    by (auto simp: member_ok_def validate_record_def stored_envelope_def payload_length_def split: if_splits)
qed

theorem empty_payload_poisons_dataset_witness:
  "\<exists>ev d'. search_accept (history_record ''d'' 1 9 (Some [])) sample_peer sample_privacy sample_trust
       5 5 sample_store True = (Inr ev, d') \<and>
     \<not> is_ok (validated_persisted_page [] d' history_capability [] 2)"
proof -
  have load: "load_records sample_store = Inr (map sample_persisted [''a'', ''b'', ''c''])"
    by (simp add: load_records_def sample_store_def sample_persisted_def map_from_def)
  then obtain ev d' where acc: "accept_and_persist ''search.history'' ErrSearchHistoryOnly
      (history_record ''d'' 1 9 (Some [])) sample_peer sample_privacy sample_trust 5 5
      sample_store True = (Inr ev, d')"
    using accept_sample [of "''d''" 1 9 "Some []" sample_store ErrSearchHistoryOnly 5 5]
    by (auto simp: printable_def)
  have "stored_at sample_store ''d'' = None"
    by (simp add: stored_at_def load sample_persisted_def)
  with empty_payload_poisons_dataset [OF acc, of "[]" history_capability "[]" 2] acc show ?thesis
    by (auto simp: search_accept_def)
qed

end
