(* ===== verification/Store_Files.thy ===== *)
theory Store_Files
  imports Atomic_Files Receipts Replay Trusted_Devices Device_Keys Retrieval
begin

text \<open>
  The stores on the file system: what their \<open>load\<close> and \<open>save\<close> methods read and write, and the
  whole of \<open>AcceptAndPersist\<close> as a sequence of system calls. The JSON encoder and decoder are
  arguments; what they promise is \<open>encodes\<close>. The lemmas show that the operations on files implement
  the operations on the abstract disk that the other theories use.
\<close>

section \<open>Reading\<close>

definition read_file :: "bytes \<Rightarrow> unit result \<Rightarrow> fs \<Rightarrow> bytes result" where
  "read_file path rd fs =
     (case rd of
        Inl e \<Rightarrow> Inl e
      | Inr _ \<Rightarrow> (case node_at fs path of None \<Rightarrow> Inl ErrNotExist | Some n \<Rightarrow> Inr (nd_data n)))"

text \<open>
  The body of \<open>load\<close>: what it starts with where there is no file, what an empty file gives, and
  the decoder.
\<close>

definition json_load :: "'a \<Rightarrow> 'a result \<Rightarrow> (bytes \<Rightarrow> 'a option) \<Rightarrow> bytes \<Rightarrow> unit result \<Rightarrow> fs \<Rightarrow> 'a result" where
  "json_load fresh blank dec path rd fs =
     (case read_file path rd fs of
        Inl e \<Rightarrow> if e = ErrNotExist then Inr fresh else Inl e
      | Inr data \<Rightarrow>
          if data = [] then blank
          else case dec data of None \<Rightarrow> Inl ErrDecode | Some x \<Rightarrow> Inr x)"

text \<open>The disk a store sees when reading has the given outcome.\<close>

definition seen :: "unit result \<Rightarrow> (bytes \<Rightarrow> 'a option) \<Rightarrow> bytes \<Rightarrow> fs \<Rightarrow> 'a disk" where
  "seen rd dec path fs =
     (case rd of
        Inl e \<Rightarrow> \<lparr>disk_file = (if e = ErrNotExist then Absent else Unreadable), disk_mode = 0\<rparr>
      | Inr _ \<Rightarrow> view dec path fs)"

definition same_outcome :: "'a result \<Rightarrow> 'a result \<Rightarrow> bool" where
  "same_outcome r r' \<longleftrightarrow> (case r of Inl _ \<Rightarrow> \<not> is_ok r' | Inr _ \<Rightarrow> r' = r)"

lemma same_outcome_simps [simp]:
  "same_outcome (Inl e) (Inl e')" "same_outcome (Inr x) r' \<longleftrightarrow> r' = Inr x"
  "same_outcome (Inl e) (Inr x) = False" "same_outcome r (Inr x) \<longleftrightarrow> r = Inr x"
  by (cases r; auto simp: same_outcome_def is_ok_def)+

section \<open>The record stores\<close>

type_synonym members = "(bytes \<times> persisted_record) list"

definition stored_members :: "records \<Rightarrow> members" where
  "stored_members records = map (\<lambda>(k, r). (k, stored_form r)) records"

definition search_load :: "(bytes \<Rightarrow> members option) \<Rightarrow> bytes \<Rightarrow> unit result \<Rightarrow> fs \<Rightarrow> records result" where
  "search_load dec = json_load [] (Inr []) (map_option map_from \<circ> dec)"

definition bookmark_load :: "(bytes \<Rightarrow> members option) \<Rightarrow> bytes \<Rightarrow> unit result \<Rightarrow> fs \<Rightarrow> records result" where
  "bookmark_load dec = json_load [] (Inr []) (map_option map_from \<circ> dec)"

definition browser_load :: "(bytes \<Rightarrow> members option) \<Rightarrow> bytes \<Rightarrow> unit result \<Rightarrow> fs \<Rightarrow> records result" where
  "browser_load dec = json_load [] (Inr []) (map_option map_from \<circ> dec)"

definition search_save :: "(records \<Rightarrow> bytes result) \<Rightarrow> bytes \<Rightarrow> save_env \<Rightarrow> records \<Rightarrow> unit io" where
  "search_save enc path env records = plain_save False path env (enc records)"

definition bookmark_save :: "(records \<Rightarrow> bytes result) \<Rightarrow> bytes \<Rightarrow> save_env \<Rightarrow> records \<Rightarrow> unit io" where
  "bookmark_save enc path env records = plain_save False path env (enc records)"

definition browser_save :: "(records \<Rightarrow> bytes result) \<Rightarrow> bytes \<Rightarrow> save_env \<Rightarrow> records \<Rightarrow> unit io" where
  "browser_save enc path env records = plain_save False path env (enc records)"

definition envelopes_of :: "records \<Rightarrow> record_envelope list" where
  "envelopes_of records = sort_key env_id (map (pr_envelope \<circ> snd) records)"

definition bookmark_records ::
  "(bytes \<Rightarrow> members option) \<Rightarrow> bytes \<Rightarrow> unit result \<Rightarrow> fs \<Rightarrow> record_envelope list result" where
  "bookmark_records dec path rd fs = and_then (bookmark_load dec path rd fs) (Inr \<circ> envelopes_of)"

definition browser_records ::
  "(bytes \<Rightarrow> members option) \<Rightarrow> bytes \<Rightarrow> unit result \<Rightarrow> fs \<Rightarrow> record_envelope list result" where
  "browser_records dec path rd fs = and_then (browser_load dec path rd fs) (Inr \<circ> envelopes_of)"

text \<open>A page is read from the store's path by the scan that the stores share.\<close>

definition search_page ::
  "(bytes \<Rightarrow> members option) \<Rightarrow> members \<Rightarrow> bytes \<Rightarrow> unit result \<Rightarrow> fs \<Rightarrow> capability \<Rightarrow> bytes \<Rightarrow> int \<Rightarrow>
     (record_envelope list \<times> bytes) result" where
  "search_page dec readable path rd fs = validated_persisted_page readable (seen rd dec path fs)"

definition bookmark_page ::
  "(bytes \<Rightarrow> members option) \<Rightarrow> members \<Rightarrow> bytes \<Rightarrow> unit result \<Rightarrow> fs \<Rightarrow> capability \<Rightarrow> bytes \<Rightarrow> int \<Rightarrow>
     (record_envelope list \<times> bytes) result" where
  "bookmark_page dec readable path rd fs = validated_persisted_page readable (seen rd dec path fs)"

definition browser_page ::
  "(bytes \<Rightarrow> members option) \<Rightarrow> members \<Rightarrow> bytes \<Rightarrow> unit result \<Rightarrow> fs \<Rightarrow> capability \<Rightarrow> bytes \<Rightarrow> int \<Rightarrow>
     (record_envelope list \<times> bytes) result" where
  "browser_page dec readable path rd fs = validated_persisted_page readable (seen rd dec path fs)"

text \<open>The body of \<open>AcceptAndPersist\<close>, with the store's own \<open>load\<close> and \<open>save\<close>.\<close>

definition accept_on_file ::
  "bytes \<Rightarrow> go_error \<Rightarrow> (fs \<Rightarrow> records result) \<Rightarrow> (records \<Rightarrow> unit io) \<Rightarrow> record_envelope \<Rightarrow>
     authenticated_peer \<Rightarrow> privacy_decision \<Rightarrow> trust_evidence \<Rightarrow> time \<Rightarrow> time \<Rightarrow> acceptance_evidence io" where
  "accept_on_file dataset mismatch load save record peer privacy trust now clock =
     io_bind (io_lift (ensure (env_dataset record = dataset) mismatch)) (\<lambda>_.
     io_bind (io_lift (authorize_record record peer privacy trust now clock)) (\<lambda>evidence.
     io_bind (\<lambda>fs. io_lift (load fs) fs) (\<lambda>records.
       let persist =
         io_bind (save (map_put (env_id record) \<lparr>pr_envelope = record, pr_evidence = evidence\<rparr> records)) (\<lambda>_.
           io_lift (Inr evidence))
       in case map_of records (env_id record) of
         Some current \<Rightarrow>
           (case resolve_conflict (pr_envelope current) record of
              ResolutionLocal \<Rightarrow> io_lift (Inr (pr_evidence current))
            | ResolutionConverged \<Rightarrow> io_lift (Inr (pr_evidence current))
            | ResolutionRemote \<Rightarrow> persist)
       | None \<Rightarrow> persist)))"

text \<open>The encoder, the decoder, the path and the outcomes of the system calls of one operation.\<close>

record file_env =
  fe_enc :: "records \<Rightarrow> bytes result"
  fe_dec :: "bytes \<Rightarrow> members option"
  fe_path :: bytes
  fe_read :: "unit result"
  fe_save :: save_env

definition search_accept_file ::
  "file_env \<Rightarrow> record_envelope \<Rightarrow> authenticated_peer \<Rightarrow> privacy_decision \<Rightarrow> trust_evidence \<Rightarrow>
     time \<Rightarrow> time \<Rightarrow> acceptance_evidence io" where
  "search_accept_file fe = accept_on_file ''search.history'' ErrSearchHistoryOnly
     (search_load (fe_dec fe) (fe_path fe) (fe_read fe)) (search_save (fe_enc fe) (fe_path fe) (fe_save fe))"

definition bookmark_accept_file ::
  "file_env \<Rightarrow> record_envelope \<Rightarrow> authenticated_peer \<Rightarrow> privacy_decision \<Rightarrow> trust_evidence \<Rightarrow>
     time \<Rightarrow> time \<Rightarrow> acceptance_evidence io" where
  "bookmark_accept_file fe = accept_on_file ''bookmarks.items'' ErrBookmarkItemsOnly
     (bookmark_load (fe_dec fe) (fe_path fe) (fe_read fe)) (bookmark_save (fe_enc fe) (fe_path fe) (fe_save fe))"

definition browser_accept_file ::
  "bytes \<Rightarrow> file_env \<Rightarrow> record_envelope \<Rightarrow> authenticated_peer \<Rightarrow> privacy_decision \<Rightarrow> trust_evidence \<Rightarrow>
     time \<Rightarrow> time \<Rightarrow> acceptance_evidence io" where
  "browser_accept_file dataset fe = accept_on_file dataset ErrBrowserDatasetMismatch
     (browser_load (fe_dec fe) (fe_path fe) (fe_read fe)) (browser_save (fe_enc fe) (fe_path fe) (fe_save fe))"

section \<open>Receipts, replay marks, sessions, trust and keys\<close>

definition receipts_load ::
  "(bytes \<Rightarrow> observation_receipt list option) \<Rightarrow> bytes \<Rightarrow> unit result \<Rightarrow> fs \<Rightarrow> observation_receipt list result" where
  "receipts_load = json_load [] (Inr [])"

definition receipts_save ::
  "(observation_receipt list \<Rightarrow> bytes result) \<Rightarrow> bytes \<Rightarrow> save_env \<Rightarrow> observation_receipt list \<Rightarrow> unit io" where
  "receipts_save enc path env receipts = plain_save True path env (enc receipts)"

definition replay_load ::
  "(bytes \<Rightarrow> replay_entry list option) \<Rightarrow> unit result \<Rightarrow> replay_guard \<Rightarrow> fs \<Rightarrow> replay_guard result" where
  "replay_load dec rd g =
     json_load g (Inl ErrDecode)
       (map_option (\<lambda>entries. g\<lparr>rg_revision :=
          fold (\<lambda>e. map_put (re_key e) (re_revision e)) entries (rg_revision g)\<rparr>) \<circ> dec) (rg_path g) rd"

definition replay_entries :: "replay_guard \<Rightarrow> replay_entry list" where
  "replay_entries g = map (\<lambda>(k, r). \<lparr>re_key = k, re_revision = r\<rparr>) (rg_revision g)"

definition replay_save :: "(replay_entry list \<Rightarrow> bytes result) \<Rightarrow> save_env \<Rightarrow> replay_guard \<Rightarrow> unit io" where
  "replay_save enc env g = plain_save True (rg_path g) env (enc (replay_entries g))"

definition sessions_load ::
  "(bytes \<Rightarrow> (bytes \<times> persisted_session) list option) \<Rightarrow> bytes \<Rightarrow> unit result \<Rightarrow> fs \<Rightarrow> sessions result" where
  "sessions_load dec = json_load [] (Inr []) (map_option map_from \<circ> dec)"

definition sessions_save :: "(sessions \<Rightarrow> bytes result) \<Rightarrow> bytes \<Rightarrow> save_env \<Rightarrow> sessions \<Rightarrow> unit io" where
  "sessions_save enc path env sessions = plain_save False path env (enc sessions)"

text \<open>The path a registry keeps; \<open>absolute\<close> is what the file system makes of the one it is given.\<close>

definition new_trusted_device_store :: "bytes \<Rightarrow> bytes result \<Rightarrow> bytes result" where
  "new_trusted_device_store path absolute =
     (if path = [] then Inl (Msg ''trusted device store path is required'')
      else and_then (wrap_error ''resolve trusted device store path'' absolute) (\<lambda>p. Inr (clean_path p)))"

fun trusted_step_error :: "save_step \<Rightarrow> go_error \<Rightarrow> go_error" where
  "trusted_step_error MakeDir = Wrap ''create trusted device store directory''"
| "trusted_step_error SecureDir = Wrap ''secure trusted device store directory''"
| "trusted_step_error Encode = Wrap ''encode trusted device store''"
| "trusted_step_error MakeTemp = Wrap ''create trusted device store temp file''"
| "trusted_step_error SecureTemp = Wrap ''secure trusted device store temp file''"
| "trusted_step_error WriteTemp = Wrap ''write trusted device store''"
| "trusted_step_error SyncTemp = Wrap ''sync trusted device store''"
| "trusted_step_error CloseTemp = Wrap ''close trusted device store''"
| "trusted_step_error Publish = Wrap ''publish trusted device store''"

definition trusted_write ::
  "(trusted_device_file \<Rightarrow> bytes result) \<Rightarrow> bytes \<Rightarrow> save_env \<Rightarrow> trusted_device_file \<Rightarrow> unit io" where
  "trusted_write enc path env state = synced_save trusted_step_error path env (enc (state\<lparr>tf_version := 1\<rparr>))"

definition device_key_write ::
  "runtime \<Rightarrow> (stored_device_key \<Rightarrow> bytes result) \<Rightarrow> save_env \<Rightarrow> stored_device_key \<Rightarrow>
     device_key_store option \<Rightarrow> unit io" where
  "device_key_write rt enc env stored store =
     (case store of
        None \<Rightarrow> io_lift (Inl ErrInvalidDeviceKey)
      | Some s \<Rightarrow>
          if dk_path s = [] then io_lift (Inl ErrInvalidDeviceKey)
          else io_bind (io_lift (validate_stored_device_key rt stored)) (\<lambda>_.
            synced_save (\<lambda>_ e. e) (dk_path s) env (enc stored)))"

section \<open>Reading and writing agree with the disk\<close>

lemma json_load_seen:
  "json_load fresh blank dec path rd fs =
     (case disk_file (seen rd dec path fs) of
        Absent \<Rightarrow> Inr fresh
      | Unreadable \<Rightarrow> (case rd of Inl e \<Rightarrow> Inl e | Inr _ \<Rightarrow> Inl ErrRead)
      | Blank \<Rightarrow> blank
      | Garbage \<Rightarrow> Inl ErrDecode
      | Holds x \<Rightarrow> Inr x)"
  by (auto simp: json_load_def read_file_def seen_def view_def split: sum.splits option.splits)

lemma seen_decoded:
  "disk_file (seen rd (map_option f \<circ> dec) path fs) =
     (case disk_file (seen rd dec path fs) of
        Holds x \<Rightarrow> Holds (f x) | Absent \<Rightarrow> Absent | Unreadable \<Rightarrow> Unreadable | Blank \<Rightarrow> Blank | Garbage \<Rightarrow> Garbage)"
  by (auto simp: seen_def view_def split: sum.splits option.splits)

lemma seen_mode_decoded: "disk_mode (seen rd (map_option f \<circ> dec) path fs) = disk_mode (seen rd dec path fs)"
  by (simp add: seen_def view_def split: sum.splits option.splits)

lemmas load_file_defs = search_load_def bookmark_load_def browser_load_def receipts_load_def replay_load_def
  sessions_load_def json_load_seen seen_decoded

lemma loads_implement:
  "same_outcome (search_load dec path rd fs) (load_records (seen rd dec path fs))"
  "same_outcome (bookmark_load dec path rd fs) (load_records (seen rd dec path fs))"
  "same_outcome (browser_load dec path rd fs) (load_records (seen rd dec path fs))"
  "same_outcome (receipts_load rdec path rd fs) (load_receipts (seen rd rdec path fs))"
  "same_outcome (replay_load edec rd g fs) (load_replay g (seen rd edec (rg_path g) fs))"
  "same_outcome (sessions_load sdec path rd fs) (load_sessions (seen rd sdec path fs))"
  by (auto simp: load_file_defs load_records_def load_receipts_def load_replay_def load_sessions_def
      same_outcome_def is_ok_def split: content.splits sum.splits)

lemma records_implement:
  "same_outcome (bookmark_records dec path rd fs) (sorted_records (seen rd dec path fs))"
  "same_outcome (browser_records dec path rd fs) (sorted_records (seen rd dec path fs))"
  using loads_implement(2,3) [of dec path rd fs]
  by (auto simp: bookmark_records_def browser_records_def sorted_records_def envelopes_of_def same_outcome_def is_ok_def
      split: sum.splits)

definition file_ready :: "file_env \<Rightarrow> fs \<Rightarrow> bool" where
  "file_ready fe fs \<longleftrightarrow> plain_ready (fe_path fe) (fe_save fe) fs \<and> fe_read fe \<noteq> Inl ErrNotExist \<and>
     (\<forall>records. encodes (fe_dec fe) (fe_enc fe records) (stored_members records))"

definition file_disk :: "file_env \<Rightarrow> fs \<Rightarrow> record_disk" where
  "file_disk fe = seen (fe_read fe) (fe_dec fe) (fe_path fe)"

section \<open>The interface of a record file\<close>

text \<open>
  What \<open>AcceptAndPersist\<close> asks of the file: loading it gives what the abstract disk holds, and
  saving it after a successful load is one \<open>save_records\<close>.
\<close>

locale record_file =
  fixes load :: "fs \<Rightarrow> records result"
    and save :: "records \<Rightarrow> unit io"
    and disk :: "fs \<Rightarrow> record_disk"
    and ready :: "fs \<Rightarrow> bool"
  assumes load_reads: "same_outcome (load fs) (load_records (disk fs))"
    and save_writes: "ready fs \<Longrightarrow> load fs = Inr records' \<Longrightarrow> save records fs = (r, s, ts) \<Longrightarrow>
      \<exists>r'. save_records (is_ok r) records (disk fs) = (r', disk s) \<and> is_ok r' = is_ok r"
    and save_atomic: "ready fs \<Longrightarrow> load fs = Inr records' \<Longrightarrow> save records fs = (r, s, ts) \<Longrightarrow> t \<in> set ts \<Longrightarrow>
      disk t = disk fs \<or> disk t = disk s"
begin

lemma persist_implements:
  assumes rd: "ready fs" and load: "load fs = Inr records'"
    and run: "io_bind (save records) (\<lambda>_. io_lift (Inr v)) fs = (r, s, ts)"
  shows "\<exists>ok r'. save_records ok records (disk fs) = (r', disk s) \<and> is_ok r' = is_ok r \<and> (is_ok r \<longrightarrow> r = Inr v)"
    and "\<forall>t \<in> set ts. disk t = disk fs \<or> disk t = disk s"
proof -
  obtain w b c where sv: "save records fs = (w, b, c)" by (cases "save records fs") auto
  have "is_ok r = is_ok w \<and> (is_ok r \<longrightarrow> r = Inr v) \<and> s = b \<and> ts = c"
    using run sv by (auto simp: io_defs is_ok_def split: sum.splits)
  then show "\<exists>ok r'. save_records ok records (disk fs) = (r', disk s) \<and> is_ok r' = is_ok r \<and> (is_ok r \<longrightarrow> r = Inr v)"
    and "\<forall>t \<in> set ts. disk t = disk fs \<or> disk t = disk s"
    using save_writes [OF rd load sv] save_atomic [OF rd load sv] by auto
qed

lemma accept_implements:
  assumes rd: "ready fs"
    and run: "accept_on_file ds err load save e peer v t now clock fs = (r, s, ts)"
  shows "(\<exists>ok r'. accept_and_persist ds err e peer v t now clock (disk fs) ok = (r', disk s) \<and> same_outcome r r') \<and>
    (\<forall>u \<in> set ts. disk u = disk fs \<or> disk u = disk s)"
proof (cases "env_dataset e = ds \<and> is_ok (authorize_record e peer v t now clock) \<and> is_ok (load fs)")
  case False
  then have "\<not> is_ok r \<and> s = fs \<and> ts = []" 
    using run by (auto simp: accept_on_file_def io_defs ensure_def is_ok_def split: sum.splits if_splits)
  moreover have "\<exists>r'. accept_and_persist ds err e peer v t now clock (disk fs) True = (r', disk fs) \<and> \<not> is_ok r'"
    using False load_reads [of fs]
    by (auto simp: accept_and_persist_def is_ok_def same_outcome_def split: sum.splits)
  ultimately show ?thesis by (auto simp: same_outcome_def is_ok_def split: sum.splits)
next
  case True
  then obtain ev records where ds: "env_dataset e = ds"
    and ev: "authorize_record e peer v t now clock = Inr ev" and ld: "load fs = Inr records"
    by (auto simp: is_ok_def split: sum.splits)
  have ld': "load_records (disk fs) = Inr records" using load_reads [of fs] ld by simp
  let ?new = "map_put (env_id e) \<lparr>pr_envelope = e, pr_evidence = ev\<rparr> records"
  show ?thesis
  proof (cases "\<exists>cur. map_of records (env_id e) = Some cur \<and> resolve_conflict (pr_envelope cur) e \<noteq> ResolutionRemote")
    case True
    then obtain cur where "map_of records (env_id e) = Some cur"
      "resolve_conflict (pr_envelope cur) e \<noteq> ResolutionRemote" by blast
    then have "r = Inr (pr_evidence cur) \<and> s = fs \<and> ts = []"
      and "accept_and_persist ds err e peer v t now clock (disk fs) True = (Inr (pr_evidence cur), disk fs)"
      using run ds ev ld ld'
      by (auto simp: accept_on_file_def accept_and_persist_def io_defs ensure_def Let_def split: resolution.splits)
    then show ?thesis by auto
  next
    case False
    then have "io_bind (save ?new) (\<lambda>_. io_lift (Inr ev)) fs = (r, s, ts)"
      using run ds ev ld
      by (auto simp: accept_on_file_def io_bind_def io_lift_def ensure_def Let_def
        split: option.splits resolution.splits prod.splits)
    note facts = persist_implements [OF rd ld this]
    obtain ok r' where sv: "save_records ok ?new (disk fs) = (r', disk s)" "is_ok r' = is_ok r"
      "is_ok r \<longrightarrow> r = Inr ev" using facts(1) by blast
    have "\<exists>r''. accept_and_persist ds err e peer v t now clock (disk fs) ok = (r'', disk s) \<and> same_outcome r r''"
      using False sv ds ev ld'
      by (auto simp: accept_and_persist_def Let_def same_outcome_def is_ok_def
        split: option.splits resolution.splits sum.splits)
    then show ?thesis using facts(2) by blast
  qed
qed

end

section \<open>The record stores have record files\<close>

lemma loaded_readable:
  "file_ready fe fs \<Longrightarrow> json_load fresh blank dec path (fe_read fe) fs = Inr x \<Longrightarrow> file_disk fe t = view (fe_dec fe) (fe_path fe) t"
  by (auto simp: file_ready_def file_disk_def seen_def json_load_def read_file_def split: sum.splits if_splits)

lemma record_file_saves:
  assumes ready: "file_ready fe fs"
    and load: "json_load fresh blank dec path (fe_read fe) fs = Inr x"
    and run: "plain_save False (fe_path fe) (fe_save fe) (fe_enc fe records) fs = (r, s, ts)"
  shows "\<exists>r'. save_records (is_ok r) records (file_disk fe fs) = (r', file_disk fe s) \<and> is_ok r' = is_ok r"
    and "t \<in> set ts \<Longrightarrow> file_disk fe t = file_disk fe fs \<or> file_disk fe t = file_disk fe s"
proof -
  note disk = loaded_readable [OF ready load]
  have plain: "plain_ready (fe_path fe) (fe_save fe) fs"
    and enc: "encodes (fe_dec fe) (fe_enc fe records) (stored_members records)"
    using ready by (auto simp: file_ready_def)
  show "\<exists>r'. save_records (is_ok r) records (file_disk fe fs) = (r', file_disk fe s) \<and> is_ok r' = is_ok r"
    using plain.implements_disk_save [OF plain run enc]
    unfolding disk save_records_def stored_members_def .
  show "file_disk fe t = file_disk fe fs \<or> file_disk fe t = file_disk fe s" if "t \<in> set ts"
    using plain.readers_see_old_or_new [OF plain run enc, of t] that unfolding disk by auto
qed

interpretation search_file: record_file "search_load (fe_dec fe) (fe_path fe) (fe_read fe)"
    "search_save (fe_enc fe) (fe_path fe) (fe_save fe)" "file_disk fe" "file_ready fe"
  for fe
proof unfold_locales
  show "same_outcome (search_load (fe_dec fe) (fe_path fe) (fe_read fe) fs) (load_records (file_disk fe fs))" for fs
    by (simp add: file_disk_def loads_implement)
qed (auto simp: search_load_def search_save_def intro: record_file_saves dest: record_file_saves(2))

interpretation bookmark_file: record_file "bookmark_load (fe_dec fe) (fe_path fe) (fe_read fe)"
    "bookmark_save (fe_enc fe) (fe_path fe) (fe_save fe)" "file_disk fe" "file_ready fe"
  for fe
  using search_file.record_file_axioms [of fe]
  by (simp add: bookmark_load_def bookmark_save_def [abs_def] search_load_def search_save_def [abs_def])

interpretation browser_file: record_file "browser_load (fe_dec fe) (fe_path fe) (fe_read fe)"
    "browser_save (fe_enc fe) (fe_path fe) (fe_save fe)" "file_disk fe" "file_ready fe"
  for fe
  using search_file.record_file_axioms [of fe]
  by (simp add: browser_load_def browser_save_def [abs_def] search_load_def search_save_def [abs_def])

section \<open>Properties\<close>

definition implements_op ::
  "file_env \<Rightarrow> 'a io \<Rightarrow> (record_disk \<Rightarrow> bool \<Rightarrow> 'a result \<times> record_disk) \<Rightarrow> bool" where
  "implements_op fe m a \<longleftrightarrow>
     (\<forall>fs. file_ready fe fs \<longrightarrow>
        (case m fs of (r, s, ts) \<Rightarrow>
           (\<exists>ok r'. a (file_disk fe fs) ok = (r', file_disk fe s) \<and> same_outcome r r') \<and>
           (\<forall>u \<in> set ts. file_disk fe u = file_disk fe fs \<or> file_disk fe u = file_disk fe s)))"

lemma implements_opI:
  assumes "\<And>fs r s ts. file_ready fe fs \<Longrightarrow> m fs = (r, s, ts) \<Longrightarrow>
      (\<exists>ok r'. a (file_disk fe fs) ok = (r', file_disk fe s) \<and> same_outcome r r') \<and>
      (\<forall>u \<in> set ts. file_disk fe u = file_disk fe fs \<or> file_disk fe u = file_disk fe s)"
  shows "implements_op fe m a"
  using assms by (auto simp: implements_op_def split: prod.splits)

text \<open>
  C14. \<open>AcceptAndPersist\<close> of the three record stores, as a sequence of system calls any of which
  can fail, implements the operation on the abstract disk for some outcome of its one write: it
  returns the same evidence or fails with it, leaves the file the abstract operation leaves,
  and at every moment before the file is the old or the new one.
\<close>

theorem record_files_implement_stores:
  "implements_op fe (search_accept_file fe e peer v t now clock) (search_accept e peer v t now clock) \<and>
   implements_op fe (bookmark_accept_file fe e peer v t now clock) (bookmark_accept e peer v t now clock) \<and>
   implements_op fe (browser_accept_file ds fe e peer v t now clock)
     (\<lambda>d ok. map_prod id bs_disk (browser_accept e peer v t now clock \<lparr>bs_disk = d, bs_dataset = ds\<rparr> ok))"
proof (intro conjI implements_opI)
  fix fs r s ts
  assume ready: "file_ready fe fs"
  let ?atomic = "\<forall>u \<in> set ts. file_disk fe u = file_disk fe fs \<or> file_disk fe u = file_disk fe s"
  show "(\<exists>ok r'. search_accept e peer v t now clock (file_disk fe fs) ok = (r', file_disk fe s) \<and> same_outcome r r')"
    and ?atomic if "search_accept_file fe e peer v t now clock fs = (r, s, ts)"
    using search_file.accept_implements [OF ready that [unfolded search_accept_file_def]]
    by (simp_all add: search_accept_def)
  show "(\<exists>ok r'. bookmark_accept e peer v t now clock (file_disk fe fs) ok = (r', file_disk fe s) \<and> same_outcome r r')"
    and ?atomic if "bookmark_accept_file fe e peer v t now clock fs = (r, s, ts)"
    using bookmark_file.accept_implements [OF ready that [unfolded bookmark_accept_file_def]]
    by (simp_all add: bookmark_accept_def)
  show "(\<exists>ok r'. map_prod id bs_disk (browser_accept e peer v t now clock \<lparr>bs_disk = file_disk fe fs, bs_dataset = ds\<rparr> ok) =
      (r', file_disk fe s) \<and> same_outcome r r')"
    and ?atomic if "browser_accept_file ds fe e peer v t now clock fs = (r, s, ts)"
    using browser_file.accept_implements [OF ready that [unfolded browser_accept_file_def]]
    by (simp_all add: browser_accept_def split_beta)
qed

lemma accept_on_file_saves:
  assumes "accept_on_file ds err load save e peer v t now clock fs = (Inr ev, s, ts)" and "ts \<noteq> []"
  shows "\<exists>records. save records fs = (Inr (), s, ts)"
  using assms
  by (auto simp: accept_on_file_def io_bind_def io_lift_def ensure_def Let_def
      split: prod.splits sum.splits option.splits resolution.splits if_splits)

text \<open>
  C35. The record stores do not sync what they write: after an accepted record has been written,
  a loss of power may leave an empty file, which loads as a store without any record.
\<close>

theorem accepted_records_may_be_lost:
  assumes "search_accept_file fe e peer v t now clock fs = (Inr ev, s, ts)" and "ts \<noteq> []" and "fs_wf fs"
  shows "\<exists>fs'. survives (fs # ts) fs' \<and> search_load (fe_dec fe) (fe_path fe) (Inr ()) fs' = Inr []"
proof -
  obtain records where "plain_save False (fe_path fe) (fe_save fe) (fe_enc fe records) fs = (Inr (), s, ts)"
    using accept_on_file_saves [OF assms(1) [unfolded search_accept_file_def] assms(2)]
    by (auto simp: search_save_def)
  from plain_save_may_be_blank [OF this assms(3), of "fe_dec fe"] show ?thesis
    by (intro exI [where x = "power_cut s s"]) (simp add: search_load_def json_load_seen seen_decoded, simp add: seen_def)
qed

definition empty_fs :: fs where
  "empty_fs = \<lparr>fs_names = [], fs_nodes = []\<rparr>"

lemma empty_fs_wf [simp]: "fs_wf empty_fs" "node_at empty_fs p = None"
  by (simp_all add: empty_fs_def fs_wf_def map_wf_def node_at_def)

text \<open>A codec that writes one set of records and fails on every other.\<close>

definition one_value_env :: "records \<Rightarrow> file_env" where
  "one_value_env m = \<lparr>fe_enc = (\<lambda>records. if records = m then Inr ''{}'' else Inl ErrWrite),
     fe_dec = (\<lambda>data. if data = ''{}'' then Some (stored_members m) else None),
     fe_path = ''sync/history.json'', fe_read = Inr (), fe_save = sample_save_env\<rparr>"

lemma one_value_ready: "file_ready (one_value_env m) empty_fs"
  by (simp add: file_ready_def one_value_env_def plain_ready_def encodes_def)

lemma plain_sample_succeeds:
  "\<exists>s ts. plain_save always path sample_save_env (Inr data) fs = (Inr (), s, ts) \<and> ts \<noteq> []"
  by (simp add: plain_save_def write_file_def io_write_def io_defs sample_save_env_def Let_def)

theorem accepted_records_may_be_lost_witness:
  "\<exists>m ev s ts fs'. search_accept_file (one_value_env m) (history_record ''h1'' 3 9 (Some [])) sample_peer
      sample_privacy sample_trust 5 5 empty_fs = (Inr ev, s, ts) \<and> survives (empty_fs # ts) fs' \<and>
      search_load (fe_dec (one_value_env m)) (fe_path (one_value_env m)) (Inr ()) fs' = Inr []"
proof -
  let ?e = "history_record ''h1'' 3 9 (Some [])"
  obtain ev where ev: "authorize_record ?e sample_peer sample_privacy sample_trust 5 5 = Inr ev"
    using authorize_sample [of "''h1''" 3 9 "Some []" 5 5] by (auto simp: printable_def)
  let ?m = "map_put (env_id ?e) \<lparr>pr_envelope = ?e, pr_evidence = ev\<rparr> []"
  let ?fe = "one_value_env ?m"
  obtain s ts where sv: "plain_save False (fe_path ?fe) (fe_save ?fe) (fe_enc ?fe ?m) empty_fs = (Inr (), s, ts)" "ts \<noteq> []"
    using plain_sample_succeeds [of False "fe_path ?fe" "''{}''" empty_fs] by (auto simp: one_value_env_def)
  have "search_load (fe_dec ?fe) (fe_path ?fe) (fe_read ?fe) empty_fs = Inr []"
    by (simp add: search_load_def json_load_def read_file_def one_value_env_def)
  moreover have "env_dataset ?e = ''search.history''" by (simp add: history_record_def)
  ultimately have acc: "search_accept_file ?fe ?e sample_peer sample_privacy sample_trust 5 5 empty_fs = (Inr ev, s, ts)"
    using ev sv(1)
    by (simp add: search_accept_file_def accept_on_file_def search_save_def io_bind_def io_lift_def ensure_def Let_def)
  show ?thesis
    using acc accepted_records_may_be_lost [OF acc sv(2) empty_fs_wf(1)] by blast
qed

lemma unsynced_replay_may_not_load:
  assumes "replay_save enc env g fs = (Inr (), s, ts)" and "fs_wf fs"
  shows "\<exists>fs'. survives (fs # ts) fs' \<and> replay_load dec (Inr ()) g fs' = Inl ErrDecode"
  using plain_save_may_be_blank [OF assms(1) [unfolded replay_save_def] assms(2), of dec]
  by (intro exI [where x = "power_cut s s"]) (simp add: replay_load_def json_load_seen seen_decoded, simp add: seen_def)

lemma unsynced_sessions_may_be_lost:
  assumes "sessions_save enc path env m fs = (Inr (), s, ts)" and "fs_wf fs"
  shows "\<exists>fs'. survives (fs # ts) fs' \<and> sessions_load dec path (Inr ()) fs' = Inr []"
  using plain_save_may_be_blank [OF assms(1) [unfolded sessions_save_def] assms(2), of dec]
  by (intro exI [where x = "power_cut s s"]) (simp add: sessions_load_def json_load_seen seen_decoded, simp add: seen_def)

lemma trusted_write_implements:
  assumes ready: "synced_ready path env fs"
    and enc: "encodes dec (enc (state\<lparr>tf_version := 1\<rparr>)) (state\<lparr>tf_version := 1\<rparr>)"
    and run: "trusted_write enc path env state fs = (r, s, ts)"
  shows "\<exists>r'. write_trusted (is_ok r) state (view dec path fs) = (r', view dec path s) \<and> is_ok r' = is_ok r"
  using synced.implements_disk_save [OF ready run [unfolded trusted_write_def] enc]
  by (simp add: write_trusted_def)

lemma device_key_write_implements:
  assumes ready: "synced_ready (dk_path store) env fs" and enc: "encodes dec (enc stored) stored"
    and disk: "dk_disk store = view dec (dk_path store) fs"
    and run: "device_key_write rt enc env stored (Some store) fs = (r, s, ts)"
  shows "\<exists>r'. write_device_key rt (is_ok r) stored (Some store) =
      (r', Some (store\<lparr>dk_disk := view dec (dk_path store) s\<rparr>)) \<and> is_ok r' = is_ok r"
proof (cases "dk_path store = [] \<or> \<not> is_ok (validate_stored_device_key rt stored)")
  case True
  have "store\<lparr>dk_disk := view dec (dk_path store) fs\<rparr> = store" by (simp add: disk [symmetric])
  then show ?thesis
    using run True
    by (auto simp: device_key_write_def write_device_key_def io_defs is_ok_def split: sum.splits if_splits)
next
  case False
  then have "synced_save (\<lambda>_ e. e) (dk_path store) env (enc stored) fs = (r, s, ts)"
    using run by (auto simp: device_key_write_def io_bind_def io_lift_def is_ok_def split: sum.splits prod.splits)
  from synced.implements_disk_save [OF ready this enc] show ?thesis
    using False disk by (auto simp: write_device_key_def is_ok_def split: sum.splits)
qed

text \<open>
  \<open>writeLocked\<close> of the trust registry and \<open>write\<close> of the key store, as sequences of system calls
  any of which can fail, implement the writes on the abstract disk: they fail exactly where the
  abstract write does and then leave the file as it was, and otherwise the file holds the new
  value with mode \<open>0600\<close>.
\<close>

theorem synced_files_implement_writes:
  assumes "synced_ready (dk_path store) env fs" and "dk_disk store = view kdec (dk_path store) fs"
    and "encodes tdec (tenc (state\<lparr>tf_version := 1\<rparr>)) (state\<lparr>tf_version := 1\<rparr>)"
    and "encodes kdec (kenc stored) stored"
  shows "(case trusted_write tenc (dk_path store) env state fs of (r, s, ts) \<Rightarrow>
       \<exists>r'. write_trusted (is_ok r) state (view tdec (dk_path store) fs) = (r', view tdec (dk_path store) s) \<and>
         is_ok r' = is_ok r) \<and>
     (case device_key_write rt kenc env stored (Some store) fs of (r, s, ts) \<Rightarrow>
       \<exists>r'. write_device_key rt (is_ok r) stored (Some store) =
           (r', Some (store\<lparr>dk_disk := view kdec (dk_path store) s\<rparr>)) \<and> is_ok r' = is_ok r)"
  using trusted_write_implements [where enc = tenc, OF assms(1,3)]
    device_key_write_implements [where enc = kenc, OF assms(1,4,2)]
  by (auto split: prod.splits)

lemma synced_files_implement_writes_witness:
  "case trusted_write (\<lambda>_. Inr ''{}'') ''/keys/device'' sample_save_env \<lparr>tf_version = 0, tf_devices = []\<rparr> empty_fs of
     (r, s, ts) \<Rightarrow>
       \<exists>r'. write_trusted (is_ok r) \<lparr>tf_version = 0, tf_devices = []\<rparr>
           (view (\<lambda>_. Some \<lparr>tf_version = 1, tf_devices = []\<rparr>) ''/keys/device'' empty_fs) =
           (r', view (\<lambda>_. Some \<lparr>tf_version = 1, tf_devices = []\<rparr>) ''/keys/device'' s) \<and> is_ok r' = is_ok r"
proof -
  let ?stored = "\<lparr>sk_device = [], sk_public = [], sk_protected = [], sk_created_at = 0, sk_rotated_at = 0,
    sk_fingerprint = []\<rparr>"
  have ready: "synced_ready (dk_path sample_key_store) sample_save_env empty_fs"
    by (simp add: synced_ready_def temp_of_def sample_save_env_def sample_key_store_def)
  have disk: "dk_disk sample_key_store = view (\<lambda>_. Some ?stored) (dk_path sample_key_store) empty_fs"
    by (simp add: view_def sample_key_store_def)
  have tenc: "encodes (\<lambda>_. Some \<lparr>tf_version = 1, tf_devices = []\<rparr>)
      ((\<lambda>_ :: trusted_device_file. Inr ''{}'') (\<lparr>tf_version = 0, tf_devices = []\<rparr>\<lparr>tf_version := 1\<rparr>))
      (\<lparr>tf_version = 0, tf_devices = []\<rparr>\<lparr>tf_version := 1\<rparr>)"
    and kenc: "encodes (\<lambda>_. Some ?stored) ((\<lambda>_ :: stored_device_key. Inr ''{}'') ?stored) ?stored"
    by (simp_all add: encodes_def)
  show ?thesis
    using synced_files_implement_writes [where rt = sample_runtime and tenc = "\<lambda>_. Inr ''{}''" and
        kenc = "\<lambda>_. Inr ''{}''", OF ready disk tenc kenc]
    by (simp add: sample_key_store_def split_beta)
qed

text \<open>After a completed write of the registry a loss of power may bring the previous registry back.\<close>

lemma trust_change_may_be_undone:
  assumes "trusted_write enc path env state fs = (Inr (), s, ts)" and "fs_wf fs" and "path_synced path fs"
  shows "\<exists>fs'. survives (fs # ts) fs' \<and> load_trusted rt (view dec path fs') = load_trusted rt (view dec path fs)"
  using synced_save_may_be_undone [OF assms(1) [unfolded trusted_write_def] assms(2,3), of dec]
  by (intro exI [where x = "power_cut fs s"]) simp

end
