(* ===== verification/Ingest.thy ===== *)
theory Ingest
  imports Receipts Replay
begin

text \<open>
  The ingestion boundary (\<open>replication/ingest.go\<close>): the whole of \<open>Ingest\<close> over the four record
  stores, the replay guard and the receipt store, in the order of its calls.
\<close>

abbreviation ErrUnsupportedIngestDataset :: go_error where
  "ErrUnsupportedIngestDataset \<equiv> Sentinel ''unsupported ingestion dataset''"

text \<open>
  The \<open>Ingestor\<close> with the files its stores own. A nil store is \<open>None\<close>; the replay guard
  keeps its marks in memory as well. \<open>in_now\<close> is the optional clock.
\<close>

record ingestor =
  in_providers :: decision_providers
  in_history :: "record_disk option"
  in_bookmarks :: "record_disk option"
  in_browser_tabs :: "browser_store option"
  in_browser_history :: "browser_store option"
  in_receipts :: "receipt_disk option"
  in_replay :: "replay_guard option"
  in_replay_disk :: replay_disk
  in_now :: "time option"

text \<open>The outcomes the environment gives the three writes an ingestion may make.\<close>

record write_outcomes =
  wo_replay :: bool
  wo_store :: bool
  wo_receipt :: bool

text \<open>The \<open>switch\<close> on the dataset.\<close>

definition dispatch ::
  "record_envelope \<Rightarrow> authenticated_peer \<Rightarrow> privacy_decision \<Rightarrow> trust_evidence \<Rightarrow> time \<Rightarrow> time \<Rightarrow> bool \<Rightarrow>
     ingestor \<Rightarrow> acceptance_evidence result \<times> ingestor" where
  "dispatch record peer privacy trust now clock ok i =
     (if env_dataset record = ''search.history'' then
        (case in_history i of
           None \<Rightarrow> (Inl ErrUnsupportedIngestDataset, i)
         | Some d \<Rightarrow>
             (case search_accept record peer privacy trust now clock d ok of
                (r, d') \<Rightarrow> (r, i\<lparr>in_history := Some d'\<rparr>)))
      else if env_dataset record = ''bookmarks.items'' then
        (case in_bookmarks i of
           None \<Rightarrow> (Inl ErrUnsupportedIngestDataset, i)
         | Some d \<Rightarrow>
             (case bookmark_accept record peer privacy trust now clock d ok of
                (r, d') \<Rightarrow> (r, i\<lparr>in_bookmarks := Some d'\<rparr>)))
      else if env_dataset record = ''browser.tabs'' then
        (case in_browser_tabs i of
           None \<Rightarrow> (Inl ErrUnsupportedIngestDataset, i)
         | Some s \<Rightarrow>
             (case browser_accept record peer privacy trust now clock s ok of
                (r, s') \<Rightarrow> (r, i\<lparr>in_browser_tabs := Some s'\<rparr>)))
      else if env_dataset record = ''browser.history'' then
        (case in_browser_history i of
           None \<Rightarrow> (Inl ErrUnsupportedIngestDataset, i)
         | Some s \<Rightarrow>
             (case browser_accept record peer privacy trust now clock s ok of
                (r, s') \<Rightarrow> (r, i\<lparr>in_browser_history := Some s'\<rparr>)))
      else (Inl ErrUnsupportedIngestDataset, i))"

text \<open>The last steps, once a store has accepted the record.\<close>

definition acknowledge ::
  "runtime \<Rightarrow> ingestor \<Rightarrow> authenticated_peer \<Rightarrow> record_envelope \<Rightarrow> acceptance_evidence \<Rightarrow> time \<Rightarrow> time \<Rightarrow>
     bool \<Rightarrow> (acceptance_evidence \<times> observation_receipt) result \<times> ingestor" where
  "acknowledge rt i peer record evidence now clock ok =
     (case new_observation_receipt rt record peer now clock of
        Inl e \<Rightarrow> (Inl e, i)
      | Inr receipt \<Rightarrow>
          case in_receipts i of
            None \<Rightarrow> (Inr (evidence, receipt), i)
          | Some d \<Rightarrow>
              (case append_receipt d receipt ok of
                 (Inl e, d') \<Rightarrow> (Inl e, i\<lparr>in_receipts := Some d'\<rparr>)
               | (Inr _, d') \<Rightarrow> (Inr (evidence, receipt), i\<lparr>in_receipts := Some d'\<rparr>)))"

definition ingest ::
  "runtime \<Rightarrow> ingestor \<Rightarrow> authenticated_peer \<Rightarrow> record_envelope \<Rightarrow> record_proof \<Rightarrow> time \<Rightarrow> write_outcomes \<Rightarrow>
     (acceptance_evidence \<times> observation_receipt) result \<times> ingestor" where
  "ingest rt i peer record proof clock w =
     (case validate_providers (in_providers i) of
        Inl e \<Rightarrow> (Inl e, i)
      | Inr _ \<Rightarrow>
      case verify_signed_record rt peer record proof of
        Inl e \<Rightarrow> (Inl e, i)
      | Inr _ \<Rightarrow>
      case replay_accept (in_replay i) (in_replay_disk i) peer record (wo_replay w) of
        (Inl e, g, d) \<Rightarrow> (Inl e, i\<lparr>in_replay := g, in_replay_disk := d\<rparr>)
      | (Inr _, g, d) \<Rightarrow>
      let i1 = i\<lparr>in_replay := g, in_replay_disk := d\<rparr> in
      case the (dp_privacy (in_providers i)) record peer of
        Inl e \<Rightarrow> (Inl e, i1)
      | Inr privacy \<Rightarrow>
      case the (dp_trust (in_providers i)) record peer of
        Inl e \<Rightarrow> (Inl e, i1)
      | Inr trust \<Rightarrow>
      let now = (case in_now i of None \<Rightarrow> clock | Some t \<Rightarrow> t) in
      case dispatch record peer privacy trust now clock (wo_store w) i1 of
        (Inl e, i2) \<Rightarrow> (Inl e, i2)
      | (Inr evidence, i2) \<Rightarrow> acknowledge rt i2 peer record evidence now clock (wo_receipt w))"

text \<open>The record stores of an ingestor, as one.\<close>

definition held :: "ingestor \<Rightarrow> bytes \<Rightarrow> bytes \<Rightarrow> persisted_record option" where
  "held i dataset rid =
     (if dataset = ''search.history'' then Option.bind (in_history i) (\<lambda>d. stored_at d rid)
      else if dataset = ''bookmarks.items'' then Option.bind (in_bookmarks i) (\<lambda>d. stored_at d rid)
      else if dataset = ''browser.tabs'' then
        Option.bind (in_browser_tabs i) (\<lambda>s. stored_at (bs_disk s) rid)
      else if dataset = ''browser.history'' then
        Option.bind (in_browser_history i) (\<lambda>s. stored_at (bs_disk s) rid)
      else None)"

lemma held_simps [simp]:
  "held (i\<lparr>in_replay := g\<rparr>) = held i" "held (i\<lparr>in_replay_disk := d\<rparr>) = held i"
  "held (i\<lparr>in_receipts := r\<rparr>) = held i" "held (i\<lparr>in_providers := p\<rparr>) = held i"
  by (simp_all add: held_def fun_eq_iff)

lemma dispatch_failed:
  "dispatch e p v t now clock ok i = (Inl x, i') \<Longrightarrow> i' = i"
  by (auto simp: dispatch_def split: if_splits option.splits prod.splits
      dest!: search.failed bookmarks.failed browser.failed)

text \<open>Each branch rests on the interface of its store.\<close>

lemma dispatch_effect:
  assumes "dispatch e p v t now clock ok i = (Inr ev, i')"
  shows "record_authorized e p v t \<and> (\<exists>ev'. held i' ds rid =
      (if ds = env_dataset e \<and> rid = env_id e
       then Some (stored_form (winner (held i ds rid) \<lparr>pr_envelope = e, pr_evidence = ev'\<rparr>))
       else held i ds rid))"
proof -
  have "env_dataset e \<in> {''search.history'', ''bookmarks.items'', ''browser.tabs'', ''browser.history''}"
    using assms by (simp add: dispatch_def split: if_splits)
  then consider "env_dataset e = ''search.history''" | "env_dataset e = ''bookmarks.items''"
    | "env_dataset e = ''browser.tabs''" | "env_dataset e = ''browser.history''" by blast
  then show ?thesis
  proof cases
    case 1
    with assms obtain d d' where s: "in_history i = Some d" "i' = i\<lparr>in_history := Some d'\<rparr>"
      and acc: "search_accept e p v t now clock d ok = (Inr ev, d')"
      by (auto simp: dispatch_def split: option.splits prod.splits)
    from search.effect [OF acc, of rid] obtain ev' where eff: "stored_at d' rid =
        (if rid = env_id e then Some (stored_form (winner (stored_at d rid)
           \<lparr>pr_envelope = e, pr_evidence = ev'\<rparr>)) else stored_at d rid)"
      by blast
    with search.authorized [OF acc] s show ?thesis
      by (cases "rid = env_id e"; intro conjI exI [of _ ev']) (simp_all add: held_def 1)
  next
    case 2
    with assms obtain d d' where s: "in_bookmarks i = Some d" "i' = i\<lparr>in_bookmarks := Some d'\<rparr>"
      and acc: "bookmark_accept e p v t now clock d ok = (Inr ev, d')"
      by (auto simp: dispatch_def split: option.splits prod.splits)
    from bookmarks.effect [OF acc, of rid] obtain ev' where eff: "stored_at d' rid =
        (if rid = env_id e then Some (stored_form (winner (stored_at d rid)
           \<lparr>pr_envelope = e, pr_evidence = ev'\<rparr>)) else stored_at d rid)"
      by blast
    with bookmarks.authorized [OF acc] s show ?thesis
      by (cases "rid = env_id e"; intro conjI exI [of _ ev']) (simp_all add: held_def 2)
  next
    case 3
    with assms obtain d d' where s: "in_browser_tabs i = Some d" "i' = i\<lparr>in_browser_tabs := Some d'\<rparr>"
      and acc: "browser_accept e p v t now clock d ok = (Inr ev, d')"
      by (auto simp: dispatch_def split: option.splits prod.splits)
    from browser.effect [OF acc, of rid] obtain ev' where eff: "stored_at (bs_disk d') rid =
        (if rid = env_id e then Some (stored_form (winner (stored_at (bs_disk d) rid)
           \<lparr>pr_envelope = e, pr_evidence = ev'\<rparr>)) else stored_at (bs_disk d) rid)"
      by blast
    with browser.authorized [OF acc] s show ?thesis
      by (cases "rid = env_id e"; intro conjI exI [of _ ev']) (simp_all add: held_def 3)
  next
    case 4
    with assms obtain d d' where s: "in_browser_history i = Some d" "i' = i\<lparr>in_browser_history := Some d'\<rparr>"
      and acc: "browser_accept e p v t now clock d ok = (Inr ev, d')"
      by (auto simp: dispatch_def split: option.splits prod.splits)
    from browser.effect [OF acc, of rid] obtain ev' where eff: "stored_at (bs_disk d') rid =
        (if rid = env_id e then Some (stored_form (winner (stored_at (bs_disk d) rid)
           \<lparr>pr_envelope = e, pr_evidence = ev'\<rparr>)) else stored_at (bs_disk d) rid)"
      by blast
    with browser.authorized [OF acc] s show ?thesis
      by (cases "rid = env_id e"; intro conjI exI [of _ ev']) (simp_all add: held_def 4)
  qed
qed

lemma dispatch_others:
  "dispatch e p v t now clock ok i = (r, i') \<Longrightarrow>
     in_receipts i' = in_receipts i \<and> in_replay i' = in_replay i \<and>
     in_replay_disk i' = in_replay_disk i \<and> in_providers i' = in_providers i \<and> in_now i' = in_now i"
  by (auto simp: dispatch_def split: if_splits option.splits prod.splits)

text \<open>
  An ingestion is either refused before a store is written, or passes every gate, writes the
  store, and then succeeds or fails with the receipt file.
\<close>

definition gates_passed ::
  "runtime \<Rightarrow> ingestor \<Rightarrow> authenticated_peer \<Rightarrow> record_envelope \<Rightarrow> record_proof \<Rightarrow> bool \<Rightarrow>
     privacy_decision \<Rightarrow> trust_evidence \<Rightarrow> bool" where
  "gates_passed rt i peer e proof ok v t \<longleftrightarrow>
     verify_signed_record rt peer e proof = Inr () \<and>
     is_ok (fst (replay_accept (in_replay i) (in_replay_disk i) peer e ok)) \<and>
     (\<exists>f g. dp_privacy (in_providers i) = Some f \<and> dp_trust (in_providers i) = Some g \<and>
        f e peer = Inr v \<and> g e peer = Inr t) \<and>
     record_authorized e peer v t"

lemma authorized_receipt:
  assumes "record_authorized e peer v t" and "env_origin e = ap_device peer"
  obtains r where "new_observation_receipt rt e peer now clock = Inr r"
    "or_observer r = env_origin e" "or_digest r = record_digest rt e"
    "or_dataset r = env_dataset e" "or_record r = env_id e" "or_revision r = env_revision e"
proof -
  from assms(1) obtain c where c: "validate_record e c = Inr ()" by (rule record_authorizedD)
  then have "\<not> is_blank (ap_device peer)"
    using assms(2) by (auto simp: validate_record_def split: if_splits)
  with validate_record_bounds [OF c] that assms(2) show thesis
    by (auto simp: new_observation_receipt_Inr word_gt_0)
qed

lemma acknowledge_cases:
  assumes "acknowledge rt i peer e ev now clock ok = (res, i')"
    and "new_observation_receipt rt e peer now clock = Inr receipt"
  shows "held i' = held i \<and> in_replay i' = in_replay i \<and>
    (case in_receipts i of
       None \<Rightarrow> in_receipts i' = None \<and> res = Inr (ev, receipt)
     | Some d \<Rightarrow> (\<exists>r d'. append_receipt d receipt ok = (r, d') \<and> in_receipts i' = Some d' \<and>
         res = (case r of Inl x \<Rightarrow> Inl x | Inr _ \<Rightarrow> Inr (ev, receipt))))"
  using assms by (auto simp: acknowledge_def split: option.splits prod.splits sum.splits)

definition after_guard :: "ingestor \<Rightarrow> authenticated_peer \<Rightarrow> record_envelope \<Rightarrow> bool \<Rightarrow> ingestor" where
  "after_guard i peer e ok =
     (case replay_accept (in_replay i) (in_replay_disk i) peer e ok of
        (_, g, d) \<Rightarrow> i\<lparr>in_replay := g, in_replay_disk := d\<rparr>)"

lemma after_guard_simps [simp]:
  "held (after_guard i peer e ok) = held i" "in_receipts (after_guard i peer e ok) = in_receipts i"
  "in_now (after_guard i peer e ok) = in_now i"
  by (simp_all add: after_guard_def split: prod.splits)

lemma ingest_cases:
  assumes run: "ingest rt i peer e proof clock w = (res, i')"
  obtains (refused) x where "res = Inl x" "i' = i \<or> i' = after_guard i peer e (wo_replay w)"
    | (written) v t now ev i2 where "gates_passed rt i peer e proof (wo_replay w) v t"
      "dispatch e peer v t now clock (wo_store w) (after_guard i peer e (wo_replay w)) = (Inr ev, i2)"
      "acknowledge rt i2 peer e ev now clock (wo_receipt w) = (res, i')"
proof -
  let ?now = "case in_now i of None \<Rightarrow> clock | Some t \<Rightarrow> t"
  obtain r g d where guard: "replay_accept (in_replay i) (in_replay_disk i) peer e (wo_replay w) = (r, g, d)"
    by (cases "replay_accept (in_replay i) (in_replay_disk i) peer e (wo_replay w)")
  then have i1: "after_guard i peer e (wo_replay w) = i\<lparr>in_replay := g, in_replay_disk := d\<rparr>"
    by (simp add: after_guard_def)
  note unfolded = run [unfolded ingest_def Let_def guard]
  show thesis
  proof (cases "validate_providers (in_providers i)")
    case (Inl x)
    with unfolded show ?thesis by (intro refused [of x]) auto
  next
    case (Inr u)
    note providers = this
    then obtain f h where fh: "dp_privacy (in_providers i) = Some f" "dp_trust (in_providers i) = Some h"
      by (auto simp: result_iff)
    show ?thesis
    proof (cases "verify_signed_record rt peer e proof")
      case (Inl x)
      with unfolded providers show ?thesis by (intro refused [of x]) auto
    next
      case (Inr u)
      note signed = this
      consider (a) x where "r = Inl x" | (b) x where "r = Inr ()" "f e peer = Inl x"
        | (c) v x where "r = Inr ()" "f e peer = Inr v" "h e peer = Inl x"
        | (d) v t where "r = Inr ()" "f e peer = Inr v" "h e peer = Inr t"
        by (metis old.sum.exhaust old.unit.exhaust)
      then show ?thesis
      proof cases
        case d
        obtain q i2 where disp: "dispatch e peer v t ?now clock (wo_store w)
            (after_guard i peer e (wo_replay w)) = (q, i2)" by fastforce
        show ?thesis
        proof (cases q)
          case (Inl x)
          with disp have "i2 = after_guard i peer e (wo_replay w)" by (simp add: dispatch_failed)
          with unfolded providers signed fh d disp Inl i1 show ?thesis by (intro refused [of x]) auto
        next
          case (Inr ev)
          with disp have "record_authorized e peer v t" using dispatch_effect by blast
          with d signed fh guard have "gates_passed rt i peer e proof (wo_replay w) v t"
            by (simp add: gates_passed_def)
          with unfolded providers signed fh d disp Inr i1 show ?thesis by (intro written) auto
        qed
      qed (use unfolded providers signed fh i1 in \<open>auto intro: refused\<close>)
    qed
  qed
qed

section \<open>Properties\<close>

lemma dispatch_dataset:
  "dispatch e p v t now clock ok i = (Inr ev, i') \<Longrightarrow>
     env_dataset e \<in> {''search.history'', ''bookmarks.items'', ''browser.tabs'', ''browser.history''}"
  by (simp add: dispatch_def split: if_splits)

lemma gates_receipt:
  assumes "gates_passed rt i peer e proof ok v t"
  obtains r where "new_observation_receipt rt e peer now clock = Inr r" "or_observer r = env_origin e"
    "receipt_matches rt e r"
proof -
  from assms have "record_authorized e peer v t" "env_origin e = ap_device peer"
    by (auto simp: gates_passed_def result_iff)
  then show thesis
    by (rule authorized_receipt [of e peer v t rt now clock]) (rule that, auto simp: receipt_matches_def)
qed

text \<open>
  C1. Ingestion fails closed. No stored record of any dataset changes unless the record was signed
  by the authenticated peer, passed the replay guard, and was authorized by the privacy and
  trust providers, and then only under the record's own dataset and identifier; a success
  leaves there a record that is not older, and a receipt of the origin in the receipt file.
\<close>

theorem ingest_fails_closed:
  assumes "ingest rt i peer e proof clock w = (res, i')"
  shows "(\<forall>ds rid. held i' ds rid \<noteq> held i ds rid \<longrightarrow>
       ds = env_dataset e \<and> rid = env_id e \<and> (\<exists>v t. gates_passed rt i peer e proof (wo_replay w) v t)) \<and>
    (is_ok res \<longrightarrow>
       (\<exists>v t. gates_passed rt i peer e proof (wo_replay w) v t) \<and>
       (\<exists>c. held i' (env_dataset e) (env_id e) = Some c \<and>
          conflict_key e \<le> conflict_key (pr_envelope c)) \<and>
       (\<forall>d. in_receipts i' = Some d \<longrightarrow>
          (\<exists>r \<in> receipts_in d. receipt_matches rt e r \<and> or_observer r = env_origin e)))"
  using assms
proof (cases rule: ingest_cases)
  case refused
  then show ?thesis by auto
next
  case (written v t now ev i2)
  obtain receipt where receipt: "new_observation_receipt rt e peer now clock = Inr receipt"
    "or_observer receipt = env_origin e" "receipt_matches rt e receipt"
    using gates_receipt [OF written(1)] by blast
  note ack = acknowledge_cases [OF written(3) receipt(1)]
  have own: "\<exists>c. held i' (env_dataset e) (env_id e) = Some c \<and> conflict_key e \<le> conflict_key (pr_envelope c)"
    using dispatch_effect [OF written(2), of "env_dataset e" "env_id e"] ack
    by (auto simp: winner_not_below)
  have other: "ds = env_dataset e \<and> rid = env_id e" if "held i' ds rid \<noteq> held i ds rid" for ds rid
    using that dispatch_effect [OF written(2), of ds rid] ack by (auto split: if_splits)
  have acknowledged: "\<exists>r \<in> receipts_in d. receipt_matches rt e r \<and> or_observer r = env_origin e"
    if ok: "is_ok res" "in_receipts i' = Some d" for d
  proof -
    obtain d0 r where "append_receipt d0 receipt (wo_receipt w) = (r, d)"
      "res = (case r of Inl x \<Rightarrow> Inl x | Inr _ \<Rightarrow> Inr (ev, receipt))"
      using ok(2) ack by (auto split: option.splits)
    with ok(1) have "append_receipt d0 receipt (wo_receipt w) = (Inr (), d)"
      by (cases r) simp_all
    from append_receipt_effect [OF this] obtain q where q: "q \<in> receipts_in d" "same_receipt q receipt"
      by blast
    from same_receipt_matches [OF q(2), of rt e] receipt(2,3) q(1) show ?thesis by auto
  qed
  have gates: "\<exists>v t. gates_passed rt i peer e proof (wo_replay w) v t" using written(1) by blast
  show ?thesis
  proof (intro conjI allI impI)
    fix ds rid assume "held i' ds rid \<noteq> held i ds rid"
    from other [OF this] show "ds = env_dataset e" "rid = env_id e" by simp_all
  qed (use gates own acknowledged in simp_all)
qed

definition sample_providers :: decision_providers where
  "sample_providers = \<lparr>dp_privacy = Some (\<lambda>_ _. Inr sample_privacy),
     dp_trust = Some (\<lambda>_ _. Inr sample_trust)\<rparr>"

definition sample_ingestor :: ingestor where
  "sample_ingestor = \<lparr>in_providers = sample_providers, in_history = Some empty_disk,
     in_bookmarks = None, in_browser_tabs = None, in_browser_history = None,
     in_receipts = Some empty_disk, in_replay = Some new_replay_guard, in_replay_disk = empty_disk,
     in_now = Some 50\<rparr>"

definition writes_ok :: write_outcomes where
  "writes_ok = \<lparr>wo_replay = True, wo_store = True, wo_receipt = True\<rparr>"

lemma sample_record_history:
  "sample_record = history_record ''h1'' 3 10 (Some [(''query'', JString ''isabelle'')])"
  by (simp add: sample_record_def history_record_def)

lemma sample_record_authorized: "record_authorized sample_record sample_peer sample_privacy sample_trust"
  unfolding sample_record_history by (rule history_record_authorized) (simp_all add: printable_def)

lemma record_digest_nonempty: "sha256_sized rt \<Longrightarrow> record_digest rt e \<noteq> []"
  by (metis hex_encode_eq_Nil list.size(3) record_digest_text sha256_sized_def zero_neq_numeral)

definition sample_ack :: observation_receipt where
  "sample_ack = \<lparr>or_dataset = ''search.history'', or_record = ''h1'', or_revision = 3,
     or_digest = record_digest sample_runtime sample_record, or_observer = sample_device,
     or_observed_at = 50\<rparr>"

lemma sample_ingest:
  "\<exists>x i'. ingest sample_runtime sample_ingestor sample_peer sample_record sample_proof 0 writes_ok = (Inr x, i') \<and>
     in_receipts i' = Some \<lparr>disk_file = Holds [sample_ack], disk_mode = 384\<rparr>"
proof -
  obtain ev where ev: "authorize_record sample_record sample_peer sample_privacy sample_trust 50 0 = Inr ev"
    using sample_record_authorized by (auto simp: authorize_record_Inr)
  have r: "new_observation_receipt sample_runtime sample_record sample_peer 50 0 = Inr sample_ack"
    by (simp add: new_observation_receipt_Inr sample_peer_def not_blank_sample sample_ack_def)
      (simp add: sample_record_def)
  have append: "append_receipt empty_disk sample_ack True =
      (Inr (), \<lparr>disk_file = Holds [sample_ack], disk_mode = 384\<rparr>)"
    using record_digest_nonempty [OF sample_runtime_ok(1)] valid_device_id_nonempty [OF sample_device_valid]
    by (simp add: append_receipt_def time_is_zero_def load_receipts_def empty_disk_def
        sample_ack_def)
  have "env_dataset sample_record = ''search.history''" by (simp add: sample_record_def)
  then show ?thesis
    using ev r append sample_proof_verifies
    by (simp add: ingest_def sample_ingestor_def sample_providers_def validate_providers_def writes_ok_def
        replay_accept_cases new_replay_guard_def Let_def dispatch_def search_accept_def
        accept_and_persist_def save_records_def acknowledge_def)
qed

theorem ingest_fails_closed_witness:
  "\<exists>x i'. ingest sample_runtime sample_ingestor sample_peer sample_record sample_proof 0 writes_ok = (Inr x, i') \<and>
     held i' ''search.history'' ''h1'' \<noteq> None \<and> held i' ''search.history'' ''h2'' = None"
proof -
  obtain x i' where run: "ingest sample_runtime sample_ingestor sample_peer sample_record sample_proof 0
      writes_ok = (Inr x, i')" using sample_ingest by blast
  have none: "held sample_ingestor ''search.history'' ''h2'' = None"
    by (simp add: held_def sample_ingestor_def)
  have rec: "env_dataset sample_record = ''search.history''" "env_id sample_record = ''h1''"
    "env_id sample_record \<noteq> ''h2''" by (simp_all add: sample_record_def)
  have "held i' ''search.history'' ''h2'' = None"
    using ingest_fails_closed [OF run] none rec(3) by metis
  moreover have "held i' ''search.history'' ''h1'' \<noteq> None"
    using ingest_fails_closed [OF run] rec(1,2) by auto
  ultimately show ?thesis using run by blast
qed

lemma ingest_guard:
  assumes "ingest rt i peer e proof clock w = (res, i')"
    and "is_ok (validate_providers (in_providers i))" and "verify_signed_record rt peer e proof = Inr ()"
  shows "in_replay i' = in_replay (after_guard i peer e (wo_replay w)) \<and>
    in_replay_disk i' = in_replay_disk (after_guard i peer e (wo_replay w))"
proof -
  have ack: "in_replay j' = in_replay j \<and> in_replay_disk j' = in_replay_disk j"
    if "acknowledge rt j peer e ev now clock ok = (r, j')" for j j' ev now ok r
    using that by (auto simp: acknowledge_def split: sum.splits option.splits prod.splits)
  show ?thesis
    using assms
    by (auto simp: ingest_def after_guard_def Let_def is_ok_iff split: prod.splits sum.splits
        dest!: dispatch_others ack)
qed

text \<open>
  C36. The guard is consulted before policy and before storage: once a signed revision has passed
  it, a refusal by the providers, by validation or by a store has used the revision up, and
  presenting the same signed record again fails as a replay whatever the providers then
  decide and whatever the outcome of the writes.
\<close>

theorem denied_revision_is_burned:
  assumes "ingest rt i peer e proof clock w = (Inl x, i')"
    and "is_ok (validate_providers (in_providers i))" and "verify_signed_record rt peer e proof = Inr ()"
    and "in_replay i = Some g"
    and "is_ok (fst (replay_accept (in_replay i) (in_replay_disk i) peer e (wo_replay w)))"
    and "is_ok (validate_providers p)"
  shows "fst (ingest rt (i'\<lparr>in_providers := p\<rparr>) peer e proof clock' w') = Inl ErrReplayRecord"
proof -
  obtain g' d' where guard: "in_replay i' = Some g'" "in_replay_disk i' = d'"
    "map_of (rg_revision g') (replay_key_of peer e) = Some (env_revision e)"
    using ingest_guard [OF assms(1-3)] assms(4,5)
    by (auto simp: after_guard_def replay_accept_cases Let_def gomap_simps split: if_splits)
  then have "replay_accept (in_replay i') (in_replay_disk i') peer e (wo_replay w') =
      (Inl ErrReplayRecord, Some g', d')"
    by (simp add: replay_accept_cases)
  with assms(3,6) show ?thesis by (auto simp: ingest_def is_ok_iff)
qed

definition denying_providers :: decision_providers where
  "denying_providers = sample_providers\<lparr>dp_trust := Some (\<lambda>_ _. Inl ErrRead)\<rparr>"

theorem denied_revision_is_burned_witness:
  "\<exists>x i'. ingest sample_runtime (sample_ingestor\<lparr>in_providers := denying_providers\<rparr>) sample_peer
       sample_record sample_proof 0 writes_ok = (Inl x, i') \<and>
     fst (ingest sample_runtime (i'\<lparr>in_providers := sample_providers\<rparr>) sample_peer sample_record
       sample_proof 0 writes_ok) = Inl ErrReplayRecord"
proof -
  let ?i = "sample_ingestor\<lparr>in_providers := denying_providers\<rparr>"
  have ok: "is_ok (validate_providers (in_providers ?i))" "is_ok (validate_providers sample_providers)"
    by (simp_all add: validate_providers_def denying_providers_def sample_providers_def)
  have guard: "in_replay ?i = Some new_replay_guard"
    "is_ok (fst (replay_accept (in_replay ?i) (in_replay_disk ?i) sample_peer sample_record (wo_replay writes_ok)))"
    by (simp_all add: sample_ingestor_def replay_accept_cases new_replay_guard_def)
  obtain x i' where run: "ingest sample_runtime ?i sample_peer sample_record sample_proof 0 writes_ok = (Inl x, i')"
    using sample_proof_verifies
    by (simp add: ingest_def sample_ingestor_def denying_providers_def sample_providers_def
        validate_providers_def replay_accept_cases new_replay_guard_def Let_def)
  from denied_revision_is_burned [OF run ok(1) sample_proof_verifies guard ok(2), of 0 writes_ok] run
  show ?thesis by blast
qed

text \<open>Several ingestions, whatever their outcomes; the receipts they leave.\<close>

type_synonym delivery = "authenticated_peer \<times> record_envelope \<times> record_proof \<times> time \<times> write_outcomes"

fun ingest_all :: "runtime \<Rightarrow> delivery list \<Rightarrow> ingestor \<Rightarrow> ingestor" where
  "ingest_all rt [] i = i"
| "ingest_all rt ((peer, e, proof, clock, w) # xs) i =
     ingest_all rt xs (snd (ingest rt i peer e proof clock w))"

definition receipts_held :: "ingestor \<Rightarrow> observation_receipt set" where
  "receipts_held i = (case in_receipts i of None \<Rightarrow> {} | Some d \<Rightarrow> receipts_in d)"

definition ingested_receipt :: "runtime \<Rightarrow> delivery list \<Rightarrow> observation_receipt \<Rightarrow> bool" where
  "ingested_receipt rt xs r \<longleftrightarrow> (\<exists>peer e proof clock w. (peer, e, proof, clock, w) \<in> set xs \<and>
     receipt_matches rt e r \<and> or_observer r = env_origin e \<and> env_origin e = ap_device peer \<and>
     line_feed \<notin> set (env_dataset e))"

lemma ingested_receipt_mono:
  "ingested_receipt rt xs r \<Longrightarrow> set xs \<subseteq> set ys \<Longrightarrow> ingested_receipt rt ys r"
  unfolding ingested_receipt_def by blast

lemma ingest_receipts:
  assumes "ingest rt i peer e proof clock w = (res, i')" and "r \<in> receipts_held i'"
  shows "r \<in> receipts_held i \<or> ingested_receipt rt [(peer, e, proof, clock, w)] r"
  using assms(1)
proof (cases rule: ingest_cases)
  case refused
  with assms(2) show ?thesis by (auto simp: receipts_held_def)
next
  case (written v t now ev i2)
  obtain receipt where receipt: "new_observation_receipt rt e peer now clock = Inr receipt"
    "or_observer receipt = env_origin e" "receipt_matches rt e receipt"
    using gates_receipt [OF written(1)] by blast
  have plain: "line_feed \<notin> set (env_dataset e)" using dispatch_dataset [OF written(2)] by auto
  have origin: "env_origin e = ap_device peer" using written(1) by (simp add: gates_passed_def result_iff)
  have "receipts_held i' \<subseteq> insert receipt (receipts_held i)"
  proof (cases "in_receipts i2")
    case None
    with acknowledge_cases [OF written(3) receipt(1)] show ?thesis by (simp add: receipts_held_def)
  next
    case (Some d)
    with acknowledge_cases [OF written(3) receipt(1)] obtain q d' where
      q: "append_receipt d receipt (wo_receipt w) = (q, d')" "in_receipts i' = Some d'" by auto
    have "in_receipts i = Some d" using dispatch_others [OF written(2)] Some by simp
    then show ?thesis
      using q append_receipt_effect [of d receipt "wo_receipt w" "()" d']
        append_receipt_failed [of d receipt "wo_receipt w" _ d']
      by (cases q) (auto simp: receipts_held_def)
  qed
  with assms(2) receipt(2,3) plain origin show ?thesis by (auto simp: ingested_receipt_def)
qed

lemma ingest_all_receipts:
  "r \<in> receipts_held (ingest_all rt xs i) \<Longrightarrow> r \<in> receipts_held i \<or> ingested_receipt rt xs r"
proof (induction xs arbitrary: i)
  case (Cons x xs)
  obtain peer e pf clock w where x: "x = (peer, e, pf, clock, w)" by (cases x)
  obtain res i1 where run: "ingest rt i peer e pf clock w = (res, i1)" by fastforce
  from Cons x run have "r \<in> receipts_held i1 \<or> ingested_receipt rt xs r" by simp
  then show ?case
  proof
    assume "r \<in> receipts_held i1"
    from ingest_receipts [OF run this] ingested_receipt_mono [of rt "[x]" r "x # xs"]
    show ?thesis by (auto simp: x)
  next
    assume "ingested_receipt rt xs r"
    from ingested_receipt_mono [OF this, of "x # xs"] show ?thesis by auto
  qed
qed simp

text \<open>
  C37. Receipts that come from ingestion name the record's origin as its observer, and the
  digest covers the origin. So compaction under the receipt file an ingestor filled removes a
  tombstone only when its origin is the one required peer: with a second required peer no
  tombstone is ever removed, barring a digest collision among the presented records.
\<close>

theorem ingested_receipts_confirm_origin_only:
  assumes time: "time_text_ok rt"
    and empty: "receipts_held i = {}"
    and receipts: "in_receipts (ingest_all rt xs i) = Some store"
    and peers: "\<forall>(peer, e, _) \<in> set xs. valid_device_id (ap_device peer) \<and>
        no_collision rt (digest_text rt (pr_envelope r)) (digest_text rt e)"
    and plain: "line_feed \<notin> set (env_dataset (pr_envelope r)) \<union> set (env_origin (pr_envelope r))"
    and run: "compact_tombstones_with_receipts rt now clock retention required (Some store) d ok = (Inr n, d')"
      "now \<noteq> 0"
    and gone: "stored_at d rid = Some r" "stored_at d' rid = None"
  shows "set required = {env_origin (pr_envelope r)}"
proof -
  from run obtain removed: "sweep_confirms rt (now - retention) required (receipts_in store) r"
  proof (rule compaction_effect)
    fix store'
    assume "Some store = Some store'" "\<And>i. stored_at d' i = (case stored_at d i of None \<Rightarrow> None
        | Some r \<Rightarrow> if sweep_confirms rt (now - retention) required (receipts_in store') r
            then None else Some r)"
    with gone show ?thesis by (auto split: if_splits intro: that)
  qed
  have "p = env_origin (pr_envelope r)" if "p \<in> set required" for p
  proof -
    from that removed obtain q where q: "q \<in> receipts_in store" "receipt_matches rt (pr_envelope r) q"
      "or_observer q = p" by (auto simp: sweep_confirms_def)
    with receipts have "ingested_receipt rt xs q"
      using ingest_all_receipts [of q rt xs i] empty by (simp add: receipts_held_def)
    then obtain peer e pf c w where e: "(peer, e, pf, c, w) \<in> set xs" "receipt_matches rt e q"
      "or_observer q = env_origin e" "env_origin e = ap_device peer" "line_feed \<notin> set (env_dataset e)"
      by (auto simp: ingested_receipt_def)
    with peers have "valid_device_id (env_origin e)"
      "no_collision rt (digest_text rt (pr_envelope r)) (digest_text rt e)" by auto
    moreover have "record_digest rt (pr_envelope r) = record_digest rt e"
      using q(2) e(2) by (simp add: receipt_matches_def)
    ultimately have "env_origin (pr_envelope r) = env_origin e"
      using time plain e(5) valid_device_id_no_line_feed by (intro record_digest_origin) auto
    with q(3) e(3) show ?thesis by simp
  qed
  moreover have "required \<noteq> []" using removed by (simp add: sweep_confirms_def)
  ultimately show ?thesis by (cases required) auto
qed

theorem ingested_receipts_confirm_origin_only_witness:
  "\<exists>store d'. in_receipts (ingest_all sample_runtime
         [(sample_peer, sample_record, sample_proof, 0, writes_ok)] sample_ingestor) = Some store \<and>
     compact_tombstones_with_receipts sample_runtime 100 0 5 [sample_device] (Some store)
       tombstone_store True = (Inr 1, d') \<and>
     {sample_device} = {env_origin sample_tombstone}"
proof -
  let ?xs = "[(sample_peer, sample_record, sample_proof, 0, writes_ok)]"
  let ?store = "\<lparr>disk_file = Holds [sample_ack], disk_mode = 384\<rparr>"
  have receipts: "in_receipts (ingest_all sample_runtime ?xs sample_ingestor) = Some ?store"
    using sample_ingest by auto
  have empty: "receipts_held sample_ingestor = {}"
    by (simp add: receipts_held_def sample_ingestor_def receipts_in_def load_receipts_def empty_disk_def)
  have digest: "digest_text sample_runtime sample_tombstone = digest_text sample_runtime sample_record"
    by (simp add: digest_text_def) (simp add: sample_record_def)
  obtain ev where store: "tombstone_store = \<lparr>disk_file = Holds [(''h1'', \<lparr>pr_envelope = sample_tombstone,
      pr_evidence = ev\<rparr>)], disk_mode = 384\<rparr>" by (simp add: tombstone_store_def)
  let ?r = "stored_form \<lparr>pr_envelope = sample_tombstone, pr_evidence = ev\<rparr>"
  obtain d' where run: "compact_tombstones_with_receipts sample_runtime 100 0 5 [sample_device]
      (Some ?store) tombstone_store True = (Inr 1, d')" and d': "stored_at d' ''h1'' = None"
    using digest
    by (simp add: compact_tombstones_with_receipts_def time_is_zero_def load_records_def store
        map_from_def receipts_for_record_def load_receipts_def sample_ack_def record_digest_text
        convergence_confirmed_iff receipt_matches_def finish_compaction_def save_records_def
        disk_save_def Let_def stored_at_def)
  have here: "stored_at tombstone_store ''h1'' = Some ?r"
    by (simp add: stored_at_def load_records_def store map_from_def)
  have peers: "\<forall>(peer, e, _) \<in> set ?xs. valid_device_id (ap_device peer) \<and>
      no_collision sample_runtime (digest_text sample_runtime (pr_envelope ?r)) (digest_text sample_runtime e)"
    using digest by (simp add: sample_peer_def no_collision_def digest_text_def)
  have plain: "line_feed \<notin> set (env_dataset (pr_envelope ?r)) \<union> set (env_origin (pr_envelope ?r))"
    using valid_device_id_no_line_feed [OF sample_device_valid] by simp
  from ingested_receipts_confirm_origin_only [OF sample_runtime_ok(2) empty receipts peers plain run _ here d']
  have "{sample_device} = {env_origin sample_tombstone}" by simp
  with receipts run show ?thesis by blast
qed

end
