(* ===== verification/Http_Api.thy ===== *)
theory Http_Api
  imports Ingest Retrieval Trusted_Devices Manifests
begin

text \<open>
  The HTTP interface of the service (\<open>app/server.go\<close>, \<open>ingestion.go\<close>, \<open>retrieval.go\<close>,
  \<open>session_resolver.go\<close>, \<open>trusted_peer_resolver.go\<close>): how a request is traced to a peer, the
  two handlers of a dataset, and the routes. The JSON decoder of a request body is a parameter;
  of a request the model keeps what the handlers read of it.
\<close>

abbreviation ErrPeerResolutionFailed :: go_error where
  "ErrPeerResolutionFailed \<equiv> Sentinel ''authenticated sync peer could not be resolved''"
abbreviation ErrInvalidAuthorizationHeader :: go_error where
  "ErrInvalidAuthorizationHeader \<equiv> Sentinel ''invalid sync authorization header''"
abbreviation ErrPeerNotTrusted :: go_error where
  "ErrPeerNotTrusted \<equiv> Sentinel ''authenticated sync peer is not trusted for this account''"
abbreviation ErrInvalidRetrievalPage :: go_error where
  "ErrInvalidRetrievalPage \<equiv> Sentinel ''invalid sync retrieval page''"

section \<open>Requests and responses\<close>

text \<open>
  The \<open>Authorization\<close> header, the two query values (empty where absent) and the body.
\<close>

record http_request =
  rq_authorization :: bytes
  rq_limit :: bytes
  rq_after :: bytes
  rq_body :: reader

datatype response_body =
    Plain bytes
  | Accepted acceptance_evidence observation_receipt
  | Page bytes nat "record_envelope list" bytes
  | StatusReport bytes bytes bytes bytes bytes

text \<open>A response: its status, the headers in the order they are set, and its body.\<close>

record http_response =
  rs_status :: nat
  rs_headers :: "(bytes \<times> bytes) list"
  rs_body :: response_body

definition header :: "http_response \<Rightarrow> bytes \<Rightarrow> bytes option" where
  "header rs name = map_of (map_from (rs_headers rs)) name"

text \<open>\<open>http.Error\<close>, and a JSON answer with its content type.\<close>

definition http_error :: "nat \<Rightarrow> bytes \<Rightarrow> http_response" where
  "http_error status message =
     \<lparr>rs_status = status,
      rs_headers = [(''Content-Type'', ''text/plain; charset=utf-8''), (''X-Content-Type-Options'', ''nosniff'')],
      rs_body = Plain message\<rparr>"

definition http_json :: "nat \<Rightarrow> response_body \<Rightarrow> http_response" where
  "http_json status body =
     \<lparr>rs_status = status, rs_headers = [(''Content-Type'', ''application/json'')], rs_body = body\<rparr>"

section \<open>Resolving a request to a peer\<close>

text \<open>\<open>SessionPeerResolver\<close>: the sessions and the optional clock.\<close>

record session_resolver =
  sr_sessions :: "session_disk option"
  sr_now :: "time option"

definition bearer_token :: "http_request \<Rightarrow> bytes result" where
  "bearer_token q =
     (let authorization = trim_space (rq_authorization q) in
      if \<not> starts_with authorization ''Bearer '' then Inl ErrInvalidAuthorizationHeader
      else let token = trim_space (drop (length ''Bearer '') authorization) in
        if token = [] then Inl ErrInvalidAuthorizationHeader else Inr token)"

definition session_resolve_peer ::
  "runtime \<Rightarrow> time \<Rightarrow> bool \<Rightarrow> session_resolver \<Rightarrow> http_request option \<Rightarrow>
     authenticated_peer result \<times> session_resolver" where
  "session_resolve_peer rt clock ok r request =
     (case (sr_sessions r, request) of
        (Some d, Some q) \<Rightarrow>
          (case bearer_token q of
             Inl e \<Rightarrow> (Inl e, r)
           | Inr token \<Rightarrow>
               let now = (case sr_now r of None \<Rightarrow> clock | Some t \<Rightarrow> t) in
               case resolve_session rt d token now clock ok of
                 (res, d') \<Rightarrow> (res, r\<lparr>sr_sessions := Some d'\<rparr>))
      | _ \<Rightarrow> (Inl ErrPeerResolutionFailed, r))"

text \<open>
  \<open>TrustedPeerResolver\<close> around a resolver of any kind; \<open>tr_trust\<close> is the interface value, the
  registry in it may be a nil pointer.
\<close>

record 'r trusted_resolver =
  tr_inner :: "'r option"
  tr_account :: bytes
  tr_trust :: "trusted_device_store option"

definition trusted_resolve_peer ::
  "runtime \<Rightarrow> ('r \<Rightarrow> http_request option \<Rightarrow> authenticated_peer result \<times> 'r) \<Rightarrow>
     'r trusted_resolver \<Rightarrow> http_request option \<Rightarrow> authenticated_peer result \<times> 'r trusted_resolver" where
  "trusted_resolve_peer rt resolve r request =
     (case (tr_inner r, tr_trust r) of
        (Some inner, Some trust) \<Rightarrow>
          if tr_account r = [] then (Inl ErrPeerResolutionFailed, r)
          else (case resolve inner request of
              (Inl e, inner') \<Rightarrow> (Inl e, r\<lparr>tr_inner := Some inner'\<rparr>)
            | (Inr peer, inner') \<Rightarrow>
                (case is_trusted rt trust (tr_account r) (ap_device peer) (ap_fingerprint peer) of
                   Inl _ \<Rightarrow> Inl ErrPeerResolutionFailed
                 | Inr trusted \<Rightarrow> if \<not> trusted then Inl ErrPeerNotTrusted else Inr peer,
                 r\<lparr>tr_inner := Some inner'\<rparr>))
      | _ \<Rightarrow> (Inl ErrPeerResolutionFailed, r))"

section \<open>Ingestion\<close>

record ingest_request =
  iq_record :: record_envelope
  iq_proof :: record_proof

text \<open>
  The decoder of a request body: \<open>Decode\<close> into a request with unknown fields refused, and
  \<open>Decode\<close> of a further value of any kind, which fails with \<open>io.EOF\<close> at the end.
\<close>

record body_decoder =
  bd_request :: "reader \<Rightarrow> ingest_request result \<times> reader"
  bd_any :: "reader \<Rightarrow> json result \<times> reader"

definition max_ingest_body_bytes :: nat where
  "max_ingest_body_bytes = 256 * 2 ^ 10"

text \<open>\<open>http.MaxBytesReader\<close>: a body with more bytes breaks off after the last one allowed.\<close>

definition max_bytes_reader :: "reader \<Rightarrow> nat \<Rightarrow> reader" where
  "max_bytes_reader r n =
     (if length (rd_bytes r) \<le> n then r
      else \<lparr>rd_bytes = take n (rd_bytes r), rd_end = Broken (Msg ''http: request body too large'')\<rparr>)"

definition ensure_json_eof :: "body_decoder \<Rightarrow> reader \<Rightarrow> unit result" where
  "ensure_json_eof bd r =
     (case fst (bd_any bd r) of
        Inr _ \<Rightarrow> Inl (Msg ''multiple JSON values'')
      | Inl e \<Rightarrow> if e \<noteq> ErrEOF then Inl e else Inr ())"

text \<open>The server: its ingestor and its peer resolver, either of which may be nil.\<close>

record 'r server =
  sv_ingestor :: "ingestor option"
  sv_resolver :: "'r option"

definition handle_dataset_ingest ::
  "runtime \<Rightarrow> ('r \<Rightarrow> http_request option \<Rightarrow> authenticated_peer result \<times> 'r) \<Rightarrow> body_decoder \<Rightarrow> time \<Rightarrow>
     write_outcomes \<Rightarrow> 'r server \<Rightarrow> http_request \<Rightarrow> bytes \<Rightarrow> http_response \<times> 'r server" where
  "handle_dataset_ingest rt resolve bd clock w sv q expected =
     (case (sv_ingestor sv, sv_resolver sv) of
        (Some i, Some r) \<Rightarrow>
          (case resolve r (Some q) of
             (Inl _, r') \<Rightarrow>
               (http_error 401 ''authenticated sync peer could not be resolved'', sv\<lparr>sv_resolver := Some r'\<rparr>)
           | (Inr peer, r') \<Rightarrow>
               let sv = sv\<lparr>sv_resolver := Some r'\<rparr>;
                   body = max_bytes_reader (rq_body q) max_ingest_body_bytes in
               (case bd_request bd body of
                  (Inl _, _) \<Rightarrow> (http_error 400 ''invalid ingestion request'', sv)
                | (Inr request, left_over) \<Rightarrow>
                    if \<not> is_ok (ensure_json_eof bd left_over)
                    then (http_error 400 ''invalid ingestion request'', sv)
                    else if env_dataset (iq_record request) \<noteq> expected
                    then (http_error 400 ''dataset does not match ingestion route'', sv)
                    else (case ingest rt i peer (iq_record request) (iq_proof request) clock w of
                        (Inl _, i') \<Rightarrow> (http_error 403 ''record rejected'', sv\<lparr>sv_ingestor := Some i'\<rparr>)
                      | (Inr (evidence, receipt), i') \<Rightarrow>
                          (http_json 202 (Accepted evidence receipt), sv\<lparr>sv_ingestor := Some i'\<rparr>))))
      | _ \<Rightarrow> (http_error 503 ''sync ingestion unavailable'', sv))"

section \<open>Retrieval\<close>

definition default_retrieval_limit :: int where
  "default_retrieval_limit = 256"

definition max_retrieval_limit :: int where
  "max_retrieval_limit = 1024"

text \<open>\<open>strconv.Atoi\<close>: an optional sign, decimal digits, and the range of the 64-bit \<open>int\<close>.\<close>

definition atoi :: "bytes \<Rightarrow> int result" where
  "atoi s =
     (let digits = (if s \<noteq> [] \<and> hd s \<in> {CHR ''+'', CHR ''-''} then tl s else s);
          value = (if s \<noteq> [] \<and> hd s = CHR ''-'' then - int (read_nat digits) else int (read_nat digits)) in
      if digits = [] \<or> (\<exists>c \<in> set digits. (of_char c :: nat) < 48 \<or> 57 < (of_char c :: nat))
      then Inl (Msg ''invalid syntax'')
      else if value < - (2 ^ 63) \<or> 2 ^ 63 \<le> value then Inl (Msg ''value out of range'')
      else Inr value)"

definition retrieval_page :: "http_request \<Rightarrow> (int \<times> bytes) result" where
  "retrieval_page q =
     and_then
       (if rq_limit q = [] then Inr default_retrieval_limit
        else case atoi (rq_limit q) of
          Inl _ \<Rightarrow> Inl ErrInvalidRetrievalPage
        | Inr parsed \<Rightarrow>
            if parsed < 1 \<or> max_retrieval_limit < parsed then Inl ErrInvalidRetrievalPage else Inr parsed)
       (\<lambda>limit.
          if max_record_id_bytes < length (rq_after q) then Inl ErrInvalidRetrievalPage
          else Inr (limit, rq_after q))"

definition peer_read_capability :: "authenticated_peer \<Rightarrow> bytes \<Rightarrow> capability option" where
  "peer_read_capability peer dataset =
     find (\<lambda>c. cap_dataset c = dataset \<and> cap_read c) (ap_negotiated peer)"

text \<open>
  The \<open>switch\<close> on the dataset: the file of the store that serves it, \<open>None\<close> where the store is
  nil, or no store for any other dataset.
\<close>

definition store_for :: "ingestor \<Rightarrow> bytes \<Rightarrow> record_disk option option" where
  "store_for i dataset =
     (if dataset = ''search.history'' then Some (in_history i)
      else if dataset = ''bookmarks.items'' then Some (in_bookmarks i)
      else if dataset = ''browser.tabs'' then Some (map_option bs_disk (in_browser_tabs i))
      else if dataset = ''browser.history'' then Some (map_option bs_disk (in_browser_history i))
      else None)"

abbreviation read_unavailable :: bytes where
  "read_unavailable \<equiv> ''sync dataset retrieval unavailable''"

definition handle_dataset_retrieve ::
  "('r \<Rightarrow> http_request option \<Rightarrow> authenticated_peer result \<times> 'r) \<Rightarrow> (bytes \<times> persisted_record) list \<Rightarrow>
     'r server \<Rightarrow> http_request \<Rightarrow> bytes \<Rightarrow> http_response \<times> 'r server" where
  "handle_dataset_retrieve resolve readable sv q dataset =
     (case (sv_ingestor sv, sv_resolver sv) of
        (Some i, Some r) \<Rightarrow>
          (case resolve r (Some q) of
             (Inl _, r') \<Rightarrow>
               (http_error 401 ''authenticated sync peer could not be resolved'', sv\<lparr>sv_resolver := Some r'\<rparr>)
           | (Inr peer, r') \<Rightarrow>
               (case peer_read_capability peer dataset of
                  None \<Rightarrow> http_error 403 ''dataset read capability was not negotiated''
                | Some read_capability \<Rightarrow>
                (case retrieval_page q of
                  Inl _ \<Rightarrow> http_error 400 ''invalid sync retrieval page''
                | Inr (limit, after_id) \<Rightarrow>
                let validation = read_capability\<lparr>cap_write := True, cap_delete := True\<rparr> in
                (case store_for i dataset of
                  None \<Rightarrow> http_error 404 read_unavailable
                | Some None \<Rightarrow> http_error 503 read_unavailable
                | Some (Some d) \<Rightarrow>
                (case validated_persisted_page readable d validation after_id limit of
                  Inl _ \<Rightarrow> http_error 500 read_unavailable
                | Inr (page, next_after) \<Rightarrow> http_json 200 (Page dataset (length page) page next_after)))),
                sv\<lparr>sv_resolver := Some r'\<rparr>))
      | _ \<Rightarrow> (http_error 503 read_unavailable, sv))"

section \<open>Routes\<close>

datatype http_method = GET | HEAD | POST | OtherMethod bytes
datatype endpoint = Health | Status | IngestAt bytes | RetrieveAt bytes

definition routes :: "'r server \<Rightarrow> (http_method \<times> bytes \<times> endpoint) list" where
  "routes sv =
     [(GET, ''/healthz'', Health), (GET, ''/api/v1/status'', Status)] @
     (if sv_ingestor sv \<noteq> None \<and> sv_resolver sv \<noteq> None then
        [(POST, ''/api/v1/sync/search/history'', IngestAt ''search.history''),
         (GET, ''/api/v1/sync/search/history'', RetrieveAt ''search.history''),
         (POST, ''/api/v1/sync/bookmarks/items'', IngestAt ''bookmarks.items''),
         (GET, ''/api/v1/sync/bookmarks/items'', RetrieveAt ''bookmarks.items''),
         (POST, ''/api/v1/sync/browser/tabs'', IngestAt ''browser.tabs''),
         (GET, ''/api/v1/sync/browser/tabs'', RetrieveAt ''browser.tabs''),
         (POST, ''/api/v1/sync/browser/history'', IngestAt ''browser.history''),
         (GET, ''/api/v1/sync/browser/history'', RetrieveAt ''browser.history'')]
      else [])"

text \<open>
  \<open>http.ServeMux\<close> on patterns without wildcards and a path in clean form: a pattern for \<open>GET\<close>
  also takes \<open>HEAD\<close>. The \<open>Allow\<close> header of its refusals is left out.
\<close>

definition takes :: "http_method \<Rightarrow> http_method \<Rightarrow> bool" where
  "takes pattern m \<longleftrightarrow> m = pattern \<or> pattern = GET \<and> m = HEAD"

definition find_route :: "(http_method \<times> bytes \<times> endpoint) list \<Rightarrow> http_method \<Rightarrow> bytes \<Rightarrow> endpoint option" where
  "find_route table m path =
     map_option (snd \<circ> snd) (find (\<lambda>(pattern, p, _). takes pattern m \<and> p = path) table)"

definition not_routed :: "(http_method \<times> bytes \<times> endpoint) list \<Rightarrow> bytes \<Rightarrow> http_response" where
  "not_routed table path =
     (if \<exists>(_, p, _) \<in> set table. p = path then http_error 405 ''Method Not Allowed''
      else http_error 404 ''404 page not found'')"

definition handle_health :: http_response where
  "handle_health = http_json 200 (Plain ''{\"status\":\"ok\"}'')"

text \<open>The build's version and commit, and the text of the start time, are arguments.\<close>

definition handle_status :: "bytes \<Rightarrow> bytes \<Rightarrow> bytes \<Rightarrow> http_response" where
  "handle_status version commit started =
     http_json 200 (StatusReport ''GoreeCloud Sync'' version commit ''development'' started)"

definition security_headers :: "http_response \<Rightarrow> http_response" where
  "security_headers rs =
     rs\<lparr>rs_headers :=
       [(''Cache-Control'', ''no-store''), (''X-Content-Type-Options'', ''nosniff''),
        (''X-Frame-Options'', ''DENY''), (''Referrer-Policy'', ''no-referrer'')] @ rs_headers rs\<rparr>"

text \<open>The surroundings of one request.\<close>

record serve_env =
  se_clock :: time
  se_writes :: write_outcomes
  se_decoder :: body_decoder
  se_readable :: "(bytes \<times> persisted_record) list"
  se_build :: "bytes \<times> bytes \<times> bytes"

definition run_endpoint ::
  "runtime \<Rightarrow> ('r \<Rightarrow> http_request option \<Rightarrow> authenticated_peer result \<times> 'r) \<Rightarrow> serve_env \<Rightarrow> 'r server \<Rightarrow>
     http_request \<Rightarrow> endpoint \<Rightarrow> http_response \<times> 'r server" where
  "run_endpoint rt resolve env sv q ep =
     (case ep of
        Health \<Rightarrow> (handle_health, sv)
      | Status \<Rightarrow> (case se_build env of (version, commit, started) \<Rightarrow> (handle_status version commit started, sv))
      | IngestAt ds \<Rightarrow> handle_dataset_ingest rt resolve (se_decoder env) (se_clock env) (se_writes env) sv q ds
      | RetrieveAt ds \<Rightarrow> handle_dataset_retrieve resolve (se_readable env) sv q ds)"

text \<open>\<open>table\<close> is the routes of the server as it was made; they do not change.\<close>

definition serve ::
  "runtime \<Rightarrow> ('r \<Rightarrow> http_request option \<Rightarrow> authenticated_peer result \<times> 'r) \<Rightarrow> serve_env \<Rightarrow>
     (http_method \<times> bytes \<times> endpoint) list \<Rightarrow> 'r server \<Rightarrow> http_method \<Rightarrow> bytes \<Rightarrow> http_request \<Rightarrow>
     http_response \<times> 'r server" where
  "serve rt resolve env table sv m path q =
     (case find_route table m path of
        None \<Rightarrow> (security_headers (not_routed table path), sv)
      | Some ep \<Rightarrow> (case run_endpoint rt resolve env sv q ep of (rs, sv') \<Rightarrow> (security_headers rs, sv')))"

section \<open>The life of the service\<close>

abbreviation ErrServerClosed :: go_error where
  "ErrServerClosed \<equiv> Sentinel ''http: Server closed''"

text \<open>\<open>errors.Is\<close> follows the wrapped errors.\<close>

fun errors_is :: "go_error \<Rightarrow> go_error \<Rightarrow> bool" where
  "errors_is (Wrap s e) target = (Wrap s e = target \<or> errors_is e target)"
| "errors_is e target = (e = target)"

text \<open>
  The server a program makes has the options it was given, and its routes are those of that
  server for good; the address, the timeouts and the logger are the library's business.
\<close>

record 'r server_options =
  op_ingestor :: "ingestor option"
  op_resolver :: "'r option"

definition new_server_with_options :: "'r server_options \<Rightarrow> 'r server \<times> (http_method \<times> bytes \<times> endpoint) list" where
  "new_server_with_options options =
     (let s = \<lparr>sv_ingestor = op_ingestor options, sv_resolver = op_resolver options\<rparr> in (s, routes s))"

definition new_server :: "'r server \<times> (http_method \<times> bytes \<times> endpoint) list" where
  "new_server = new_server_with_options \<lparr>op_ingestor = None, op_resolver = None\<rparr>"

text \<open>
  The \<open>select\<close> of \<open>Run\<close>: listening ends by itself, with its error, or the context is done, the
  server is shut down, and listening then ends too.
\<close>

datatype run_event = ListenEnded go_error | ContextDone "unit result" go_error

definition server_run :: "run_event \<Rightarrow> unit result" where
  "server_run event =
     (case event of
        ListenEnded e \<Rightarrow> if errors_is e ErrServerClosed then Inr () else Inl e
      | ContextDone shutdown e \<Rightarrow>
          (case shutdown of
             Inl x \<Rightarrow> Inl x
           | Inr _ \<Rightarrow> if errors_is e ErrServerClosed then Inr () else Inl e))"

section \<open>Admission of requests\<close>

text \<open>
  The Go interface \<open>PeerResolver\<close> as the handlers rely on it: a peer it returns is one the
  resolver may admit for that request.
\<close>

locale peer_resolver =
  fixes resolve :: "'r \<Rightarrow> http_request option \<Rightarrow> authenticated_peer result \<times> 'r"
    and admits :: "'r \<Rightarrow> http_request \<Rightarrow> authenticated_peer \<Rightarrow> bool"
  assumes resolved: "resolve r (Some q) = (Inr peer, r') \<Longrightarrow> admits r q peer"
begin

lemma ingest_admitted:
  assumes "handle_dataset_ingest rt resolve bd clock w sv q ds = (rs, sv')"
    and "rs_status rs < 400 \<or> sv_ingestor sv' \<noteq> sv_ingestor sv"
  shows "\<exists>r i peer req res i'. sv_resolver sv = Some r \<and> sv_ingestor sv = Some i \<and> admits r q peer \<and>
    fst (bd_request bd (max_bytes_reader (rq_body q) max_ingest_body_bytes)) = Inr req \<and>
    env_dataset (iq_record req) = ds \<and>
    ingest rt i peer (iq_record req) (iq_proof req) clock w = (res, i') \<and> sv_ingestor sv' = Some i' \<and>
    (rs_status rs < 400 \<longrightarrow> is_ok res)"
proof -
  obtain i r where ir: "sv_ingestor sv = Some i" "sv_resolver sv = Some r"
    using assms by (auto simp: handle_dataset_ingest_def http_error_def split: option.splits)
  obtain res r' where res: "resolve r (Some q) = (res, r')" by (cases "resolve r (Some q)")
  note run = assms(1) [unfolded handle_dataset_ingest_def ir res Let_def option.case prod.case]
  obtain peer where peer: "res = Inr peer"
    using run assms(2) ir by (cases res) (auto simp: http_error_def)
  let ?body = "max_bytes_reader (rq_body q) max_ingest_body_bytes"
  obtain dec left_over where dec: "bd_request bd ?body = (dec, left_over)" by (cases "bd_request bd ?body")
  note run = run [unfolded peer dec prod.case sum.case]
  obtain req where req: "dec = Inr req"
    using run assms(2) ir by (cases dec) (auto simp: http_error_def)
  have ok: "is_ok (ensure_json_eof bd left_over)" "env_dataset (iq_record req) = ds"
    using run assms(2) ir by (auto simp: req http_error_def split: if_splits)
  obtain out i' where out: "ingest rt i peer (iq_record req) (iq_proof req) clock w = (out, i')"
    by (cases "ingest rt i peer (iq_record req) (iq_proof req) clock w")
  have "sv_ingestor sv' = Some i' \<and> (rs_status rs < 400 \<longrightarrow> is_ok out)"
    using run ok by (cases out) (auto simp: req out http_error_def)
  with ir resolved [OF res [unfolded peer]] dec req ok out show ?thesis by auto
qed

lemma retrieve_admitted:
  assumes "handle_dataset_retrieve resolve readable sv q ds = (rs, sv')"
  shows "sv_ingestor sv' = sv_ingestor sv \<and>
    (rs_status rs < 400 \<longrightarrow>
      (\<exists>r i peer c limit d page next_after. sv_resolver sv = Some r \<and> sv_ingestor sv = Some i \<and> admits r q peer \<and>
        peer_read_capability peer ds = Some c \<and> retrieval_page q = Inr (limit, rq_after q) \<and>
        store_for i ds = Some (Some d) \<and>
        validated_persisted_page readable d (c\<lparr>cap_write := True, cap_delete := True\<rparr>) (rq_after q) limit =
          Inr (page, next_after) \<and>
        rs = http_json 200 (Page ds (length page) page next_after)))"
proof -
  have after: "s = rq_after q" if "retrieval_page q = Inr (limit, s)" for limit s
    using that by (auto simp: retrieval_page_def result_iff)
  show ?thesis
  proof (cases "sv_ingestor sv = None \<or> sv_resolver sv = None")
    case True
    with assms show ?thesis
      by (auto simp: handle_dataset_retrieve_def http_error_def split: option.splits)
  next
    case False
    then obtain i r where ir: "sv_ingestor sv = Some i" "sv_resolver sv = Some r" by auto
    obtain res r' where res: "resolve r (Some q) = (res, r')" by (cases "resolve r (Some q)")
    note run = assms [unfolded handle_dataset_retrieve_def ir res Let_def option.case prod.case]
    show ?thesis
    proof (cases res)
      case (Inl e)
      with run ir show ?thesis by (auto simp: http_error_def)
    next
      case (Inr peer)
      with res have "admits r q peer" by (auto intro: resolved)
      with run ir after show ?thesis
        by (auto simp: Inr http_error_def split: option.splits sum.splits prod.splits)
    qed
  qed
qed

end

definition session_admits :: "runtime \<Rightarrow> time \<Rightarrow> session_resolver \<Rightarrow> http_request \<Rightarrow> authenticated_peer \<Rightarrow> bool" where
  "session_admits rt clock r q peer \<longleftrightarrow>
     (\<exists>d token s. sr_sessions r = Some d \<and> bearer_token q = Inr token \<and>
        session_at d (token_hash rt (trim_space token)) = Some s \<and> ps_peer s = peer \<and>
        (let now = (case sr_now r of None \<Rightarrow> clock | Some t \<Rightarrow> t) in
         (if time_is_zero now then clock else now) < ps_expires s))"

definition trusted_admits ::
  "runtime \<Rightarrow> ('r \<Rightarrow> http_request \<Rightarrow> authenticated_peer \<Rightarrow> bool) \<Rightarrow> 'r trusted_resolver \<Rightarrow> http_request \<Rightarrow>
     authenticated_peer \<Rightarrow> bool" where
  "trusted_admits rt admits r q peer \<longleftrightarrow>
     (\<exists>inner trust. tr_inner r = Some inner \<and> tr_trust r = Some trust \<and> admits inner q peer \<and>
        is_trusted rt trust (tr_account r) (ap_device peer) (ap_fingerprint peer) = Inr True)"

interpretation sessions: peer_resolver "session_resolve_peer rt clock ok" "session_admits rt clock" for rt clock ok
  by unfold_locales
    (auto simp: session_resolve_peer_def session_admits_def resolve_session_Inr Let_def
      split: option.splits sum.splits prod.splits)

text \<open>The composition keeps the contract, whatever the resolver inside.\<close>

context peer_resolver begin

lemma trusted: "peer_resolver (trusted_resolve_peer rt resolve) (trusted_admits rt admits)"
  using resolved
  by unfold_locales
    (fastforce simp: trusted_resolve_peer_def trusted_admits_def split: option.splits sum.splits prod.splits if_splits)

end

interpretation trusted: peer_resolver "trusted_resolve_peer rt (session_resolve_peer rt clock ok)"
  "trusted_admits rt (session_admits rt clock)" for rt clock ok
  by (rule sessions.trusted)

text \<open>Any resolver at all admits what it resolves.\<close>

interpretation any_resolver: peer_resolver resolve "\<lambda>r q peer. \<exists>r'. resolve r (Some q) = (Inr peer, r')" for resolve
  by unfold_locales blast

section \<open>Facts about routes and pages\<close>

lemma security_headers_simps [simp]:
  "rs_status (security_headers rs) = rs_status rs" "rs_body (security_headers rs) = rs_body rs"
  by (simp_all add: security_headers_def)

lemma find_route_mem:
  "find_route table m path = Some ep \<Longrightarrow> \<exists>pattern. (pattern, path, ep) \<in> set table \<and> takes pattern m"
  by (auto simp: find_route_def find_Some_iff) (metis nth_mem)

lemma routes_entry:
  "(pattern, path, ep) \<in> set (routes sv) \<Longrightarrow>
     (case ep of
        Health \<Rightarrow> pattern = GET \<and> path = ''/healthz''
      | Status \<Rightarrow> pattern = GET \<and> path = ''/api/v1/status''
      | IngestAt _ \<Rightarrow> pattern = POST \<and> sv_ingestor sv \<noteq> None \<and> sv_resolver sv \<noteq> None
      | RetrieveAt _ \<Rightarrow> pattern = GET \<and> sv_ingestor sv \<noteq> None \<and> sv_resolver sv \<noteq> None)"
  by (cases ep) (simp_all add: routes_def split: if_splits, (elim conjE disjE; assumption)+)

lemma find_route_cases:
  assumes "find_route (routes sv) m path = Some ep"
  obtains (health) "ep = Health" "path = ''/healthz''" "m \<in> {GET, HEAD}"
    | (status) "ep = Status" "path = ''/api/v1/status''" "m \<in> {GET, HEAD}"
    | (ingest) ds where "ep = IngestAt ds" "m = POST" "sv_ingestor sv \<noteq> None" "sv_resolver sv \<noteq> None"
    | (retrieve) ds where "ep = RetrieveAt ds" "m \<in> {GET, HEAD}" "sv_ingestor sv \<noteq> None" "sv_resolver sv \<noteq> None"
proof -
  obtain pattern where entry: "(pattern, path, ep) \<in> set (routes sv)" and m: "takes pattern m"
    using find_route_mem [OF assms] by blast
  from routes_entry [OF entry] m show thesis
    by (cases ep) (auto simp: takes_def intro: that)
qed

text \<open>What the command line serves.\<close>

lemma new_server_bare:
  "new_server = (\<lparr>sv_ingestor = None, sv_resolver = None\<rparr>,
     [(GET, ''/healthz'', Health), (GET, ''/api/v1/status'', Status)])"
  by (simp add: new_server_def new_server_with_options_def routes_def)

text \<open>A response is an error text or a JSON answer; neither unsets a security header.\<close>

definition plain_or_json :: "http_response \<Rightarrow> bool" where
  "plain_or_json rs \<longleftrightarrow> (\<exists>status message. rs = http_error status message) \<or> (\<exists>status body. rs = http_json status body)"

lemma plain_or_json_intros [simp]: "plain_or_json (http_error status message)" "plain_or_json (http_json status body)"
  by (auto simp: plain_or_json_def)

lemma plain_headers: "plain_or_json (not_routed table path)" "\<not> rs_status (not_routed table path) < 400"
  by (simp_all add: not_routed_def) (simp add: http_error_def)

lemma security_headers_set:
  assumes "plain_or_json rs"
  shows "header (security_headers rs) ''Cache-Control'' = Some ''no-store'' \<and>
    header (security_headers rs) ''X-Content-Type-Options'' = Some ''nosniff'' \<and>
    header (security_headers rs) ''X-Frame-Options'' = Some ''DENY'' \<and>
    header (security_headers rs) ''Referrer-Policy'' = Some ''no-referrer''"
  using assms
  by (auto simp: plain_or_json_def header_def map_of_from security_headers_def http_error_def http_json_def)

lemma ingest_headers: "plain_or_json (fst (handle_dataset_ingest rt resolve bd clock w sv q ds))"
  by (auto simp: handle_dataset_ingest_def Let_def split: option.split sum.split prod.split)

lemma retrieve_headers: "plain_or_json (fst (handle_dataset_retrieve resolve readable sv q ds))"
  by (auto simp: handle_dataset_retrieve_def Let_def split: option.split sum.split prod.split)

lemma run_endpoint_headers: "plain_or_json (fst (run_endpoint rt resolve env sv q ep))"
  by (cases ep) (simp_all add: run_endpoint_def handle_health_def handle_status_def ingest_headers
      retrieve_headers split: prod.splits)

lemma atoi_Nil: "atoi [] \<noteq> Inr k"
  by (simp add: atoi_def)

lemma retrieval_page_bounds:
  "retrieval_page q = Inr (limit, s) \<Longrightarrow> 1 \<le> limit \<and> limit \<le> 1024 \<and> length s \<le> 512 \<and> s = rq_after q \<and>
     (rq_limit q = [] \<longrightarrow> limit = 256)"
  by (auto simp: retrieval_page_def result_iff default_retrieval_limit_def max_retrieval_limit_def
      max_record_id_bytes_def split: if_splits sum.splits)

lemma sorted_take_filter:
  "map_wf (keyed rs) \<Longrightarrow> sorted_wrt (<) (map env_id (take n (filter P rs)))"
proof -
  assume "map_wf (keyed rs)"
  then have "sorted_wrt (\<lambda>x y. env_id x < env_id y) rs"
    by (simp add: map_wf_def keyed_def comp_def sorted_wrt_map)
  then show ?thesis by (simp add: sorted_wrt_map sorted_wrt_take sorted_wrt_filter)
qed

text \<open>A page that is served: bounded, in order, behind the cursor, every record valid.\<close>

lemma page_served:
  assumes "validated_persisted_page readable d cap cursor limit = Inr (page, next_after)"
  shows "1 \<le> limit \<and> length page \<le> nat limit \<and> sorted_wrt (<) (map env_id page) \<and>
    (\<forall>e \<in> set page. cursor < env_id e \<and> validate_record e cap = Inr ()) \<and>
    (next_after \<noteq> [] \<longrightarrow> length page = nat limit \<and> next_after = env_id (last page))"
proof (cases "1 \<le> limit \<and> (\<exists>ms. disk_file d = Holds ms)")
  case True
  then obtain ms rs where d: "disk_file d = Holds ms" and rs: "sorted_records d = Inr rs"
    by (auto simp: sorted_records_def load_records_def)
  from page_holds [OF d _ rs] True assms
  have ok: "\<forall>p \<in> set ms. member_ok cap p"
    and page: "(page, next_after) = page_of (nat limit) (after_cursor cursor rs)" by blast+
  have key: "\<forall>p \<in> set ms. fst p = env_id (pr_envelope (snd p))"
    using ok by (auto simp: member_ok_def)
  have "set rs \<subseteq> (pr_envelope \<circ> snd) ` set ms"
    using rs set_map_from [of ms]
    by (auto simp: sorted_records_def load_records_def d) (metis image_eqI snd_conv subsetD)
  then have valid: "\<forall>e \<in> set rs. validate_record e cap = Inr ()"
    using ok by (fastforce simp: member_ok_def)
  have sorted: "sorted_wrt (<) (map env_id page)"
    using sorted_take_filter [OF sorted_records_wf [OF d key rs], of "nat limit" "\<lambda>e. cursor < env_id e"] page
    by (simp add: page_of_def after_cursor_def)
  have "set page \<subseteq> set (after_cursor cursor rs)"
    using page set_take_subset by (fastforce simp: page_of_def)
  then have "\<forall>e \<in> set page. cursor < env_id e \<and> validate_record e cap = Inr ()"
    using valid by (auto simp: after_cursor_def)
  with True page sorted show ?thesis by (auto simp: page_of_def split: if_splits)
next
  case False
  with assms show ?thesis
    by (cases "disk_file d") (auto simp: validated_persisted_page_def result_iff)
qed

lemma ingest_other_records:
  assumes "ingest rt i peer e proof clock w = (res, i')" and "held i' ds rid \<noteq> held i ds rid"
  shows "ds = env_dataset e \<and> rid = env_id e \<and> env_origin e = ap_device peer"
  using assms(1)
proof (cases rule: ingest_cases)
  case refused
  with assms(2) show ?thesis by auto
next
  case (written v t now ev i2)
  obtain receipt where "new_observation_receipt rt e peer now clock = Inr receipt"
    using gates_receipt [OF written(1)] by blast
  from acknowledge_cases [OF written(3) this] dispatch_effect [OF written(2), of ds rid] written(1) assms(2)
  show ?thesis by (auto simp: gates_passed_def result_iff split: if_splits)
qed

section \<open>Properties\<close>

text \<open>
  C6. The sync routes serve current devices only. Behind the resolver for trusted devices, a
  request to one of them that succeeds, or that changes anything, carries the token of an
  unexpired session of a device that the history of the trust registry grants, at this
  moment, exactly the key of the session; and a stored record that changes does so through
  the ingestion route of its dataset, by a record of the body that names that device as its
  origin. So a revoked device is shut out at once, whatever sessions it still holds.
\<close>

theorem api_admits_current_devices:
  assumes run: "serve rt (trusted_resolve_peer rt (session_resolve_peer rt clock ok)) env (routes sv) sv m path q = (rs, sv')"
    and sv: "sv_resolver sv = Some \<lparr>tr_inner = Some \<lparr>sr_sessions = Some d, sr_now = None\<rparr>,
      tr_account = a, tr_trust = Some s\<rparr>"
    and trust: "trust_trace rt es s"
    and sync: "path \<noteq> ''/healthz''" "path \<noteq> ''/api/v1/status''"
    and effect: "rs_status rs < 400 \<or> sv_ingestor sv' \<noteq> sv_ingestor sv"
  shows "\<exists>token entry. bearer_token q = Inr token \<and>
    session_at d (token_hash rt (trim_space token)) = Some entry \<and> clock < ps_expires entry \<and>
    history_key a (ap_device (ps_peer entry)) es = Some (ap_fingerprint (ps_peer entry)) \<and>
    (\<forall>i i' ds rid. sv_ingestor sv = Some i \<longrightarrow> sv_ingestor sv' = Some i' \<longrightarrow> held i' ds rid \<noteq> held i ds rid \<longrightarrow>
       find_route (routes sv) m path = Some (IngestAt ds) \<and>
       (\<exists>req. fst (bd_request (se_decoder env) (max_bytes_reader (rq_body q) max_ingest_body_bytes)) = Inr req \<and>
          env_dataset (iq_record req) = ds \<and> env_id (iq_record req) = rid \<and>
          env_origin (iq_record req) = ap_device (ps_peer entry)))"
proof -
  let ?r = "\<lparr>tr_inner = Some \<lparr>sr_sessions = Some d, sr_now = None\<rparr>, tr_account = a, tr_trust = Some s\<rparr>"
  let ?resolve = "trusted_resolve_peer rt (session_resolve_peer rt clock ok)"
  have admitted: "\<exists>token entry. bearer_token q = Inr token \<and>
      session_at d (token_hash rt (trim_space token)) = Some entry \<and> clock < ps_expires entry \<and>
      history_key a (ap_device (ps_peer entry)) es = Some (ap_fingerprint (ps_peer entry)) \<and> peer = ps_peer entry"
    if "trusted_admits rt (session_admits rt clock) ?r q peer" for peer
  proof -
    obtain ds where "registry_ok rt s ds" "\<forall>a v. trusted_key ds a v = history_key a v es"
      using trust_trace_view [OF trust] by blast
    with that show ?thesis by (auto simp: trusted_admits_def session_admits_def is_trusted_key)
  qed
  obtain ep where ep: "find_route (routes sv) m path = Some ep"
    using run effect by (auto simp: serve_def not_routed_def http_error_def split: option.splits if_splits)
  obtain rs1 where rs1: "run_endpoint rt ?resolve env sv q ep = (rs1, sv')" "rs = security_headers rs1"
    using run by (auto simp: serve_def ep split: prod.splits)
  from ep show ?thesis
  proof (cases rule: find_route_cases)
    case (ingest ds)
    with rs1 effect have "handle_dataset_ingest rt ?resolve (se_decoder env) (se_clock env) (se_writes env) sv q ds = (rs1, sv')"
      "rs_status rs1 < 400 \<or> sv_ingestor sv' \<noteq> sv_ingestor sv" by (simp_all add: run_endpoint_def)
    from trusted.ingest_admitted [OF this] sv obtain i peer req res i' where
      i: "sv_ingestor sv = Some i" "sv_ingestor sv' = Some i'" and adm: "trusted_admits rt (session_admits rt clock) ?r q peer"
      and req: "fst (bd_request (se_decoder env) (max_bytes_reader (rq_body q) max_ingest_body_bytes)) = Inr req"
        "env_dataset (iq_record req) = ds"
        "ingest rt i peer (iq_record req) (iq_proof req) (se_clock env) (se_writes env) = (res, i')" by auto
    from admitted [OF adm] i req ingest(1) ep ingest_other_records [OF req(3)] show ?thesis by fastforce
  next
    case (retrieve ds)
    with rs1 have "handle_dataset_retrieve ?resolve (se_readable env) sv q ds = (rs1, sv')"
      by (simp add: run_endpoint_def)
    from trusted.retrieve_admitted [OF this] sv effect rs1(2) obtain peer where
      "trusted_admits rt (session_admits rt clock) ?r q peer" "sv_ingestor sv' = sv_ingestor sv" by auto
    with admitted show ?thesis by fastforce
  qed (use sync in auto)
qed

text \<open>
  A page the service answers with is bounded and in order, whatever resolver admitted the
  request: at most 1024 records, at most as many as were asked for (256 where nothing was
  asked), strictly ascending behind the cursor, each valid for a capability of the dataset that
  the admitted peer negotiated with reading; the next cursor, if any, is the last identifier
  of a full page. Retrieval changes nothing.
\<close>

theorem api_page_bounded:
  assumes run: "handle_dataset_retrieve resolve readable sv q ds = (rs, sv')" and "rs_status rs = 200"
  shows "\<exists>r peer r' c page next_after. sv_resolver sv = Some r \<and> resolve r (Some q) = (Inr peer, r') \<and>
    c \<in> set (ap_negotiated peer) \<and> cap_dataset c = ds \<and> cap_read c \<and>
    rs_body rs = Page ds (length page) page next_after \<and> length page \<le> 1024 \<and>
    (rq_limit q = [] \<longrightarrow> length page \<le> 256) \<and> (\<forall>k. atoi (rq_limit q) = Inr k \<longrightarrow> int (length page) \<le> k) \<and>
    sorted_wrt (<) (map env_id page) \<and>
    (\<forall>e \<in> set page. rq_after q < env_id e \<and> validate_record e (c\<lparr>cap_write := True, cap_delete := True\<rparr>) = Inr ()) \<and>
    (next_after \<noteq> [] \<longrightarrow> page \<noteq> [] \<and> next_after = env_id (last page)) \<and>
    sv_ingestor sv' = sv_ingestor sv"
proof -
  obtain r peer r' c limit d page next_after where
    r: "sv_resolver sv = Some r" "resolve r (Some q) = (Inr peer, r')"
    and c: "peer_read_capability peer ds = Some c" and limit: "retrieval_page q = Inr (limit, rq_after q)"
    and page: "validated_persisted_page readable d (c\<lparr>cap_write := True, cap_delete := True\<rparr>) (rq_after q) limit =
      Inr (page, next_after)"
    and rs: "rs = http_json 200 (Page ds (length page) page next_after)"
    and same: "sv_ingestor sv' = sv_ingestor sv"
    using any_resolver.retrieve_admitted [OF run] assms(2) by auto
  have cap: "c \<in> set (ap_negotiated peer)" "cap_dataset c = ds" "cap_read c"
    using c by (auto simp: peer_read_capability_def find_Some_iff)
  note served = page_served [OF page]
  have "limit \<le> 1024" "rq_limit q = [] \<longrightarrow> limit = 256" "\<forall>k. atoi (rq_limit q) = Inr k \<longrightarrow> limit = k"
    using retrieval_page_bounds [OF limit] limit
    by (auto simp: retrieval_page_def atoi_Nil result_iff split: if_splits sum.splits)
  with served have size: "length page \<le> 1024" "rq_limit q = [] \<longrightarrow> length page \<le> 256"
    "\<forall>k. atoi (rq_limit q) = Inr k \<longrightarrow> int (length page) \<le> k" by auto
  have "next_after \<noteq> [] \<longrightarrow> page \<noteq> [] \<and> next_after = env_id (last page)"
    using served by auto
  with r cap size served same show ?thesis
    by (intro exI [of _ r] exI [of _ peer] exI [of _ r'] exI [of _ c] exI [of _ page] exI [of _ next_after])
      (simp add: rs http_json_def)
qed

text \<open>
  Every response carries the four security headers as set. A server made without an
  ingestor or without a resolver, as the command line makes it, serves only health and status
  and never changes.
\<close>

theorem responses_hardened:
  assumes "serve rt resolve env (routes sv) sv m path q = (rs, sv')"
  shows "header rs ''Cache-Control'' = Some ''no-store'' \<and> header rs ''X-Content-Type-Options'' = Some ''nosniff'' \<and>
    header rs ''X-Frame-Options'' = Some ''DENY'' \<and> header rs ''Referrer-Policy'' = Some ''no-referrer'' \<and>
    (sv_ingestor sv = None \<or> sv_resolver sv = None \<longrightarrow>
       sv' = sv \<and> (rs_status rs < 400 \<longleftrightarrow> m \<in> {GET, HEAD} \<and> path \<in> {''/healthz'', ''/api/v1/status''}))"
proof (cases "find_route (routes sv) m path")
  case None
  with assms have rs: "rs = security_headers (not_routed (routes sv) path)" "sv' = sv"
    by (auto simp: serve_def)
  have "\<not> (m \<in> {GET, HEAD} \<and> path \<in> {''/healthz'', ''/api/v1/status''})"
    using None by (auto simp: find_route_def routes_def takes_def)
  then show ?thesis
    using rs by (auto simp: plain_headers security_headers_set)
next
  case (Some ep)
  then obtain rs1 where rs1: "run_endpoint rt resolve env sv q ep = (rs1, sv')" "rs = security_headers rs1"
    using assms by (auto simp: serve_def split: prod.splits)
  then have headers: "plain_or_json rs1"
    using run_endpoint_headers [of rt resolve env sv q ep] by simp
  from Some have "sv_ingestor sv = None \<or> sv_resolver sv = None \<longrightarrow>
      sv' = sv \<and> (rs_status rs < 400 \<longleftrightarrow> m \<in> {GET, HEAD} \<and> path \<in> {''/healthz'', ''/api/v1/status''})"
    by (cases rule: find_route_cases)
      (use rs1 in \<open>auto simp: run_endpoint_def handle_health_def handle_status_def http_json_def split: prod.splits\<close>)
  with security_headers_set [OF headers] rs1(2) show ?thesis by simp
qed

section \<open>Witnesses\<close>

definition sample_http :: http_request where
  "sample_http = \<lparr>rq_authorization = '' Bearer secret'', rq_limit = ''2'', rq_after = [],
     rq_body = \<lparr>rd_bytes = ''{}'', rd_end = Eof\<rparr>\<rparr>"

definition sample_decoder :: body_decoder where
  "sample_decoder = \<lparr>bd_request = (\<lambda>r. (Inr \<lparr>iq_record = sample_record, iq_proof = sample_proof\<rparr>, r)),
     bd_any = (\<lambda>r. (Inl ErrEOF, r))\<rparr>"

definition sample_serve :: serve_env where
  "sample_serve = \<lparr>se_clock = 0, se_writes = writes_ok, se_decoder = sample_decoder, se_readable = [],
     se_build = (''0.1.0'', ''dev'', ''t'')\<rparr>"

lemma sample_token: "bearer_token sample_http = Inr ''secret''"
  by code_simp

lemma sample_read_capability: "peer_read_capability sample_peer ''search.history'' = Some history_capability"
  unfolding sample_peer_def history_capability_def by code_simp

lemma sample_session:
  obtains d where "\<And>ok. resolve_session sample_runtime d ''secret'' 5 5 ok = (Inr sample_peer, d)"
proof -
  have trim: "trim_space ''secret'' = ''secret''" by (rule trim_space_printable) (simp_all add: printable_def)
  obtain d where put: "put_session sample_runtime \<lparr>disk_file = Absent, disk_mode = 0\<rparr> ''secret''
      sample_peer 9 True = (Inr (), d)"
    by (simp add: put_session_def Let_def trim sample_peer_def not_blank_sample load_sessions_def time_is_zero_def)
  have "resolve_session sample_runtime d ''secret'' 5 5 ok = (Inr sample_peer, d)" for ok
    using put_session_effect [OF put, of "token_hash sample_runtime ''secret''"]
    by (simp add: resolve_session_Inr trim time_is_zero_def)
  with that show thesis .
qed

theorem api_admits_current_devices_witness:
  "\<exists>r rs sv'. serve sample_runtime (trusted_resolve_peer sample_runtime (session_resolve_peer sample_runtime 5 True))
      sample_serve (routes \<lparr>sv_ingestor = Some sample_ingestor, sv_resolver = Some r\<rparr>)
      \<lparr>sv_ingestor = Some sample_ingestor, sv_resolver = Some r\<rparr> POST ''/api/v1/sync/search/history'' sample_http = (rs, sv') \<and>
    rs_status rs = 202 \<and>
    (\<exists>entry :: persisted_session. history_key ''acct'' (ap_device (ps_peer entry)) [Authorized ''acct'' sample_verified] =
       Some (ap_fingerprint (ps_peer entry)))"
proof (rule sample_session)
  fix d assume d: "\<And>ok. resolve_session sample_runtime d ''secret'' 5 5 ok = (Inr sample_peer, d)"
  obtain s where s: "trust_trace sample_runtime [Authorized ''acct'' sample_verified] s"
    using sample_trust_trace by blast
  obtain ds where ds: "registry_ok sample_runtime s ds"
    "\<forall>a v. trusted_key ds a v = history_key a v [Authorized ''acct'' sample_verified]"
    using trust_trace_view [OF s] by blast
  let ?r = "\<lparr>tr_inner = Some \<lparr>sr_sessions = Some d, sr_now = None\<rparr>, tr_account = ''acct'', tr_trust = Some s\<rparr>"
  let ?sv = "\<lparr>sv_ingestor = Some sample_ingestor, sv_resolver = Some ?r\<rparr>"
  let ?resolve = "trusted_resolve_peer sample_runtime (session_resolve_peer sample_runtime 5 True)"
  have "is_trusted sample_runtime s ''acct'' (ap_device sample_peer) (ap_fingerprint sample_peer) = Inr True"
    by (simp add: is_trusted_key [OF ds(1)] ds(2) sample_verified_def sample_peer_def)
  then have resolve: "?resolve ?r (Some sample_http) = (Inr sample_peer, ?r)"
    by (simp add: trusted_resolve_peer_def session_resolve_peer_def sample_token d Let_def)
  obtain x i' where x: "ingest sample_runtime sample_ingestor sample_peer sample_record sample_proof 0 writes_ok = (Inr x, i')"
    using sample_ingest by blast
  have route: "find_route (routes ?sv) POST ''/api/v1/sync/search/history'' = Some (IngestAt ''search.history'')"
    by (simp add: find_route_def routes_def takes_def)
  have "env_dataset sample_record = ''search.history''" by (simp add: sample_record_def)
  then obtain rs sv' where run: "serve sample_runtime ?resolve sample_serve (routes ?sv) ?sv POST
      ''/api/v1/sync/search/history'' sample_http = (rs, sv')" and status: "rs_status rs = 202"
    using x resolve
    by (cases x) (simp add: serve_def route run_endpoint_def handle_dataset_ingest_def sample_serve_def sample_decoder_def
        ensure_json_eof_def http_json_def Let_def)
  have "\<exists>entry :: persisted_session. history_key ''acct'' (ap_device (ps_peer entry)) [Authorized ''acct'' sample_verified] =
      Some (ap_fingerprint (ps_peer entry))"
    using api_admits_current_devices [OF run _ s, of d "''acct''"] status
    by (simp del: history_key.simps) blast
  with run status show ?thesis by blast
qed

theorem api_page_bounded_witness:
  "\<exists>rs sv' page next_after. handle_dataset_retrieve (\<lambda>r q. (Inr sample_peer, r)) []
      \<lparr>sv_ingestor = Some (sample_ingestor\<lparr>in_history := Some sample_store\<rparr>), sv_resolver = Some ()\<rparr> sample_http
      ''search.history'' = (rs, sv') \<and> rs_status rs = 200 \<and>
    rs_body rs = Page ''search.history'' (length page) page next_after \<and> length page \<le> 1024"
proof -
  let ?sv = "\<lparr>sv_ingestor = Some (sample_ingestor\<lparr>in_history := Some sample_store\<rparr>), sv_resolver = Some ()\<rparr>"
  let ?resolve = "\<lambda>(r :: unit) (q :: http_request option). (Inr sample_peer :: authenticated_peer result, r)"
  have page: "retrieval_page sample_http = Inr (2, [])" by code_simp
  have "history_capability\<lparr>cap_write := True, cap_delete := True\<rparr> = history_capability"
    by (simp add: history_capability_def)
  moreover have "is_ok (validated_persisted_page [] sample_store history_capability [] 2)"
    by (rule retrievable_page [OF sample_store_retrievable]) simp
  ultimately obtain rs sv' where run: "handle_dataset_retrieve ?resolve [] ?sv sample_http ''search.history'' = (rs, sv')"
    and status: "rs_status rs = 200"
    using page by (auto simp: handle_dataset_retrieve_def sample_read_capability store_for_def is_ok_iff http_json_def)
  from api_page_bounded [OF run status] run status show ?thesis by blast
qed

theorem responses_hardened_witness:
  "\<exists>rs sv'. serve sample_runtime (\<lambda>(r :: unit) q. (Inl ErrPeerResolutionFailed, r)) sample_serve
      (routes (\<lparr>sv_ingestor = None, sv_resolver = None\<rparr> :: unit server)) \<lparr>sv_ingestor = None, sv_resolver = None\<rparr> POST
      ''/api/v1/sync/search/history'' sample_http = (rs, sv') \<and>
    \<not> rs_status rs < 400 \<and> header rs ''X-Frame-Options'' = Some ''DENY''"
proof -
  let ?sv = "\<lparr>sv_ingestor = None, sv_resolver = None\<rparr> :: unit server"
  obtain rs sv' where run: "serve sample_runtime (\<lambda>(r :: unit) q. (Inl ErrPeerResolutionFailed, r)) sample_serve
      (routes ?sv) ?sv POST ''/api/v1/sync/search/history'' sample_http = (rs, sv')" by fastforce
  from responses_hardened [OF run] have "\<not> rs_status rs < 400 \<and> header rs ''X-Frame-Options'' = Some ''DENY''" by simp
  with run show ?thesis by blast
qed

end
