(* ===== verification/Concurrent_Ingest.thy ===== *)
theory Concurrent_Ingest
  imports Ingest
begin

text \<open>
  Requests are served by concurrent goroutines, and \<open>Ingest\<close> holds no lock of its own: what it
  calls does, the replay guard, each store and the receipt store one mutex each. An ingestion is
  therefore a sequence of moves, each of which touches the shared state at one of these points,
  and the moves of several ingestions interleave in any order.
\<close>

section \<open>An ingestion in progress\<close>

datatype phase =
    Arrived
  | Admitted
  | Decided privacy_decision trust_evidence
  | Stored acceptance_evidence time
  | Refused go_error
  | Answered "(acceptance_evidence \<times> observation_receipt) result"

record job =
  jb_peer :: authenticated_peer
  jb_record :: record_envelope
  jb_proof :: record_proof
  jb_clock :: time
  jb_writes :: write_outcomes
  jb_phase :: phase

definition ingest_move :: "runtime \<Rightarrow> ingestor \<Rightarrow> job \<Rightarrow> ingestor \<times> job" where
  "ingest_move rt i j =
     (let peer = jb_peer j; record = jb_record j; to = (\<lambda>p. j\<lparr>jb_phase := p\<rparr>) in
      case jb_phase j of
        Arrived \<Rightarrow>
          (case validate_providers (in_providers i) of
             Inl e \<Rightarrow> (i, to (Refused e))
           | Inr _ \<Rightarrow>
           case verify_signed_record rt peer record (jb_proof j) of
             Inl e \<Rightarrow> (i, to (Refused e))
           | Inr _ \<Rightarrow>
           case replay_accept (in_replay i) (in_replay_disk i) peer record (wo_replay (jb_writes j)) of
             (Inl e, g, d) \<Rightarrow> (i\<lparr>in_replay := g, in_replay_disk := d\<rparr>, to (Refused e))
           | (Inr _, g, d) \<Rightarrow> (i\<lparr>in_replay := g, in_replay_disk := d\<rparr>, to Admitted))
      | Admitted \<Rightarrow>
          (case the (dp_privacy (in_providers i)) record peer of
             Inl e \<Rightarrow> (i, to (Refused e))
           | Inr privacy \<Rightarrow>
           case the (dp_trust (in_providers i)) record peer of
             Inl e \<Rightarrow> (i, to (Refused e))
           | Inr trust \<Rightarrow> (i, to (Decided privacy trust)))
      | Decided privacy trust \<Rightarrow>
          (let now = (case in_now i of None \<Rightarrow> jb_clock j | Some t \<Rightarrow> t) in
           case dispatch record peer privacy trust now (jb_clock j) (wo_store (jb_writes j)) i of
             (Inl e, i') \<Rightarrow> (i', to (Refused e))
           | (Inr evidence, i') \<Rightarrow> (i', to (Stored evidence now)))
      | Stored evidence now \<Rightarrow>
          (case acknowledge rt i peer record evidence now (jb_clock j) (wo_receipt (jb_writes j)) of
             (r, i') \<Rightarrow> (i', to (Answered r)))
      | Refused e \<Rightarrow> (i, j)
      | Answered r \<Rightarrow> (i, j))"

fun answer :: "phase \<Rightarrow> (acceptance_evidence \<times> observation_receipt) result option" where
  "answer (Refused e) = Some (Inl e)"
| "answer (Answered r) = Some r"
| "answer _ = None"

fun move_times :: "nat \<Rightarrow> runtime \<Rightarrow> ingestor \<times> job \<Rightarrow> ingestor \<times> job" where
  "move_times 0 rt s = s"
| "move_times (Suc n) rt s = move_times n rt (ingest_move rt (fst s) (snd s))"

text \<open>One of the ingestions in progress moves.\<close>

inductive ingest_step :: "runtime \<Rightarrow> ingestor \<times> job list \<Rightarrow> ingestor \<times> job list \<Rightarrow> bool" for rt where
  job_moves: "k < length js \<Longrightarrow> answer (jb_phase (js ! k)) = None \<Longrightarrow> ingest_move rt i (js ! k) = (i', j') \<Longrightarrow>
    ingest_step rt (i, js) (i', js[k := j'])"

inductive_cases ingest_stepE: "ingest_step rt (i, js) (i', js')"

abbreviation schedule :: "runtime \<Rightarrow> ingestor \<times> job list \<Rightarrow> ingestor \<times> job list \<Rightarrow> bool" where
  "schedule rt \<equiv> (ingest_step rt)\<^sup>*\<^sup>*"

definition all_arrived :: "job list \<Rightarrow> bool" where
  "all_arrived js \<longleftrightarrow> (\<forall>j \<in> set js. jb_phase j = Arrived)"

definition all_answered :: "job list \<Rightarrow> bool" where
  "all_answered js \<longleftrightarrow> (\<forall>j \<in> set js. answer (jb_phase j) \<noteq> None)"

definition past_guard :: "job \<Rightarrow> bool" where
  "past_guard j \<longleftrightarrow> (case jb_phase j of Arrived \<Rightarrow> False | Refused _ \<Rightarrow> False | _ \<Rightarrow> True)"

definition past_store :: "job \<Rightarrow> bool" where
  "past_store j \<longleftrightarrow> (case jb_phase j of Stored _ _ \<Rightarrow> True | Answered _ \<Rightarrow> True | _ \<Rightarrow> False)"

lemma phase_simps [simp]:
  "past_guard (j\<lparr>jb_phase := p\<rparr>) \<longleftrightarrow> (case p of Arrived \<Rightarrow> False | Refused _ \<Rightarrow> False | _ \<Rightarrow> True)"
  "past_store (j\<lparr>jb_phase := p\<rparr>) \<longleftrightarrow> (case p of Stored _ _ \<Rightarrow> True | Answered _ \<Rightarrow> True | _ \<Rightarrow> False)"
  by (simp_all add: past_guard_def past_store_def)

section \<open>The moves\<close>

definition same_request :: "job \<Rightarrow> job \<Rightarrow> bool" where
  "same_request j j' \<longleftrightarrow> j'\<lparr>jb_phase := jb_phase j\<rparr> = j"

lemma same_request_fields:
  "same_request j j' \<Longrightarrow> jb_peer j' = jb_peer j \<and> jb_record j' = jb_record j \<and> jb_proof j' = jb_proof j \<and>
     jb_clock j' = jb_clock j \<and> jb_writes j' = jb_writes j"
  unfolding same_request_def by (metis job.ext_inject job.surjective job.update_convs(6))

lemma same_request_phase [simp]: "same_request j (j\<lparr>jb_phase := p\<rparr>)"
  by (simp add: same_request_def)

lemma same_request_refl [simp]: "same_request j j"
  by (simp add: same_request_def)

lemma ingest_move_request: "ingest_move rt i j = (i', j') \<Longrightarrow> same_request j j'"
  by (auto simp: ingest_move_def Let_def split: phase.splits sum.splits prod.splits)

definition job_alone :: "runtime \<Rightarrow> ingestor \<Rightarrow> job \<Rightarrow> ingestor \<times> job" where
  "job_alone rt i j = move_times 4 rt (i, j)"

lemma move_done: "answer (jb_phase j) \<noteq> None \<Longrightarrow> ingest_move rt i j = (i, j)"
  by (cases "jb_phase j") (simp_all add: ingest_move_def)

lemma moves_done [simp]: "answer (jb_phase j) \<noteq> None \<Longrightarrow> move_times n rt (i, j) = (i, j)"
  by (induction n) (simp_all add: move_done)

lemma move_arrived:
  "ingest_move rt i (j\<lparr>jb_phase := Arrived\<rparr>) =
     (case validate_providers (in_providers i) of
        Inl e \<Rightarrow> (i, j\<lparr>jb_phase := Refused e\<rparr>)
      | Inr _ \<Rightarrow>
      case verify_signed_record rt (jb_peer j) (jb_record j) (jb_proof j) of
        Inl e \<Rightarrow> (i, j\<lparr>jb_phase := Refused e\<rparr>)
      | Inr _ \<Rightarrow>
      case replay_accept (in_replay i) (in_replay_disk i) (jb_peer j) (jb_record j) (wo_replay (jb_writes j)) of
        (Inl e, g, d) \<Rightarrow> (i\<lparr>in_replay := g, in_replay_disk := d\<rparr>, j\<lparr>jb_phase := Refused e\<rparr>)
      | (Inr _, g, d) \<Rightarrow> (i\<lparr>in_replay := g, in_replay_disk := d\<rparr>, j\<lparr>jb_phase := Admitted\<rparr>))"
  by (simp add: ingest_move_def Let_def cong: sum.case_cong prod.case_cong option.case_cong)

lemma move_admitted:
  "ingest_move rt i (j\<lparr>jb_phase := Admitted\<rparr>) =
     (case the (dp_privacy (in_providers i)) (jb_record j) (jb_peer j) of
        Inl e \<Rightarrow> (i, j\<lparr>jb_phase := Refused e\<rparr>)
      | Inr v \<Rightarrow>
      case the (dp_trust (in_providers i)) (jb_record j) (jb_peer j) of
        Inl e \<Rightarrow> (i, j\<lparr>jb_phase := Refused e\<rparr>)
      | Inr t \<Rightarrow> (i, j\<lparr>jb_phase := Decided v t\<rparr>))"
  by (simp add: ingest_move_def Let_def cong: sum.case_cong prod.case_cong option.case_cong)

lemma move_decided:
  "ingest_move rt i (j\<lparr>jb_phase := Decided v t\<rparr>) =
     (let now = (case in_now i of None \<Rightarrow> jb_clock j | Some t \<Rightarrow> t) in
      case dispatch (jb_record j) (jb_peer j) v t now (jb_clock j) (wo_store (jb_writes j)) i of
        (Inl e, i') \<Rightarrow> (i', j\<lparr>jb_phase := Refused e\<rparr>)
      | (Inr ev, i') \<Rightarrow> (i', j\<lparr>jb_phase := Stored ev now\<rparr>))"
  by (simp add: ingest_move_def Let_def cong: sum.case_cong prod.case_cong option.case_cong)

lemma move_stored:
  "ingest_move rt i (j\<lparr>jb_phase := Stored ev now\<rparr>) =
     (case acknowledge rt i (jb_peer j) (jb_record j) ev now (jb_clock j) (wo_receipt (jb_writes j)) of
        (r, i') \<Rightarrow> (i', j\<lparr>jb_phase := Answered r\<rparr>))"
  by (simp add: ingest_move_def cong: sum.case_cong prod.case_cong option.case_cong)

lemma moves_Suc: "move_times (Suc n) rt (i, j) = move_times n rt (ingest_move rt i j)"
  by simp

lemma moves_stored:
  "move_times (Suc n) rt (i, j\<lparr>jb_phase := Stored ev now\<rparr>) =
     (case acknowledge rt i (jb_peer j) (jb_record j) ev now (jb_clock j) (wo_receipt (jb_writes j)) of
        (r, i') \<Rightarrow> (i', j\<lparr>jb_phase := Answered r\<rparr>))"
  unfolding moves_Suc move_stored by (simp split: prod.splits)

lemma moves_decided:
  "move_times (Suc (Suc n)) rt (i, j\<lparr>jb_phase := Decided v t\<rparr>) =
     (let now = (case in_now i of None \<Rightarrow> jb_clock j | Some t \<Rightarrow> t) in
      case dispatch (jb_record j) (jb_peer j) v t now (jb_clock j) (wo_store (jb_writes j)) i of
        (Inl e, i') \<Rightarrow> (i', j\<lparr>jb_phase := Refused e\<rparr>)
      | (Inr ev, i') \<Rightarrow>
          (case acknowledge rt i' (jb_peer j) (jb_record j) ev now (jb_clock j) (wo_receipt (jb_writes j)) of
             (r, i'') \<Rightarrow> (i'', j\<lparr>jb_phase := Answered r\<rparr>)))"
  unfolding moves_Suc [of "Suc n"] move_decided
  by (simp add: Let_def del: move_times.simps(2) split: prod.split sum.split)
     (simp add: move_stored)

lemma moves_admitted:
  "move_times (Suc (Suc (Suc n))) rt (i, j\<lparr>jb_phase := Admitted\<rparr>) =
     (case the (dp_privacy (in_providers i)) (jb_record j) (jb_peer j) of
        Inl e \<Rightarrow> (i, j\<lparr>jb_phase := Refused e\<rparr>)
      | Inr v \<Rightarrow>
      case the (dp_trust (in_providers i)) (jb_record j) (jb_peer j) of
        Inl e \<Rightarrow> (i, j\<lparr>jb_phase := Refused e\<rparr>)
      | Inr t \<Rightarrow> move_times (Suc (Suc n)) rt (i, j\<lparr>jb_phase := Decided v t\<rparr>))"
  unfolding moves_Suc [of "Suc (Suc n)"] move_admitted
  by (simp del: move_times.simps(2) split: sum.split)

lemma moves_arrived:
  "move_times (Suc (Suc (Suc (Suc n)))) rt (i, j\<lparr>jb_phase := Arrived\<rparr>) =
     (case validate_providers (in_providers i) of
        Inl e \<Rightarrow> (i, j\<lparr>jb_phase := Refused e\<rparr>)
      | Inr _ \<Rightarrow>
      case verify_signed_record rt (jb_peer j) (jb_record j) (jb_proof j) of
        Inl e \<Rightarrow> (i, j\<lparr>jb_phase := Refused e\<rparr>)
      | Inr _ \<Rightarrow>
      case replay_accept (in_replay i) (in_replay_disk i) (jb_peer j) (jb_record j) (wo_replay (jb_writes j)) of
        (Inl e, g, d) \<Rightarrow> (i\<lparr>in_replay := g, in_replay_disk := d\<rparr>, j\<lparr>jb_phase := Refused e\<rparr>)
      | (Inr _, g, d) \<Rightarrow> move_times (Suc (Suc (Suc n))) rt (i\<lparr>in_replay := g, in_replay_disk := d\<rparr>, j\<lparr>jb_phase := Admitted\<rparr>))"
  unfolding moves_Suc [of "Suc (Suc (Suc n))"] move_arrived
  by (simp del: move_times.simps(2) split: sum.split prod.split)

text \<open>
  An ingestion whose moves are not interleaved with another's is the sequential \<open>Ingest\<close>: after
  four moves it has its answer, and answer and state are those of the function.
\<close>

theorem uninterrupted_moves_are_ingest:
  "case job_alone rt i (j\<lparr>jb_phase := Arrived\<rparr>) of
     (i', j') \<Rightarrow> \<exists>res. answer (jb_phase j') = Some res \<and>
       ingest rt i (jb_peer j) (jb_record j) (jb_proof j) (jb_clock j) (jb_writes j) = (res, i')"
  unfolding job_alone_def numeral_eq_Suc pred_numeral_simps BitM.simps moves_arrived moves_admitted moves_decided
  by (simp add: ingest_def Let_def split: sum.split prod.split)

section \<open>What a move does to the shared state\<close>

definition providers_decide :: "ingestor \<Rightarrow> job \<Rightarrow> privacy_decision \<Rightarrow> trust_evidence \<Rightarrow> bool" where
  "providers_decide i j v t \<longleftrightarrow> (\<exists>f g. dp_privacy (in_providers i) = Some f \<and> dp_trust (in_providers i) = Some g \<and>
     f (jb_record j) (jb_peer j) = Inr v \<and> g (jb_record j) (jb_peer j) = Inr t)"

definition signed :: "runtime \<Rightarrow> job \<Rightarrow> bool" where
  "signed rt j \<longleftrightarrow> verify_signed_record rt (jb_peer j) (jb_record j) (jb_proof j) = Inr ()"

definition cleared :: "runtime \<Rightarrow> ingestor \<Rightarrow> job \<Rightarrow> bool" where
  "cleared rt i j \<longleftrightarrow> signed rt j \<and>
     (\<exists>v t. providers_decide i j v t \<and> record_authorized (jb_record j) (jb_peer j) v t)"

definition held_from :: "ingestor \<Rightarrow> record_envelope \<Rightarrow> bool" where
  "held_from i e \<longleftrightarrow> (\<exists>c. held i (env_dataset e) (env_id e) = Some c \<and> conflict_key e \<le> conflict_key (pr_envelope c))"

definition receipted :: "runtime \<Rightarrow> ingestor \<Rightarrow> record_envelope \<Rightarrow> bool" where
  "receipted rt i e \<longleftrightarrow> (\<forall>d. in_receipts i = Some d \<longrightarrow>
     (\<exists>r \<in> receipts_in d. receipt_matches rt e r \<and> or_observer r = env_origin e))"

definition grows :: "ingestor \<Rightarrow> ingestor \<Rightarrow> bool" where
  "grows i i' \<longleftrightarrow> in_providers i' = in_providers i \<and>
     (\<forall>ds rid c. held i ds rid = Some c \<longrightarrow>
        (\<exists>c'. held i' ds rid = Some c' \<and> conflict_key (pr_envelope c) \<le> conflict_key (pr_envelope c'))) \<and>
     (\<forall>d'. in_receipts i' = Some d' \<longrightarrow> (\<exists>d. in_receipts i = Some d \<and> receipts_in d \<subseteq> receipts_in d'))"

lemma grows_same: "in_providers i' = in_providers i \<Longrightarrow> held i' = held i \<Longrightarrow> in_receipts i' = in_receipts i \<Longrightarrow> grows i i'"
  by (simp add: grows_def)

lemma grows_refl [simp]: "grows i i"
  by (simp add: grows_same)

lemma grows_keeps:
  assumes "grows i i'"
  shows "held_from i e \<Longrightarrow> held_from i' e" and "receipted rt i e \<Longrightarrow> receipted rt i' e"
    and "providers_decide i' = providers_decide i" and "cleared rt i' = cleared rt i"
    and "in_providers i' = in_providers i"
  using assms by (fastforce simp: grows_def held_from_def receipted_def providers_decide_def cleared_def fun_eq_iff)+

lemma grows_dispatch:
  assumes "dispatch e p v t now clock ok i = (Inr ev, i')"
  shows "grows i i'" and "held_from i' e" and "record_authorized e p v t"
    and "held i' ds rid \<noteq> held i ds rid \<Longrightarrow> ds = env_dataset e \<and> rid = env_id e"
    and "held i' (env_dataset e) (env_id e) = Some c \<Longrightarrow>
      conflict_key (pr_envelope c) = conflict_key e \<or>
      (\<exists>c0. held i (env_dataset e) (env_id e) = Some c0 \<and> conflict_key (pr_envelope c) = conflict_key (pr_envelope c0))"
proof -
  note eff = dispatch_effect [OF assms]
  show "record_authorized e p v t" using eff by blast
  show "held i' ds rid \<noteq> held i ds rid \<Longrightarrow> ds = env_dataset e \<and> rid = env_id e"
    using eff [of ds rid] by (auto split: if_splits)
  show "held_from i' e"
    using eff [of "env_dataset e" "env_id e"] by (auto simp: held_from_def winner_not_below)
  show "grows i i'"
    unfolding grows_def
  proof (intro conjI allI impI)
    show "in_providers i' = in_providers i" using dispatch_others [OF assms] by simp
    show "\<exists>c'. held i' ds rid = Some c' \<and> conflict_key (pr_envelope c) \<le> conflict_key (pr_envelope c')"
      if "held i ds rid = Some c" for ds rid c
      using that eff [of ds rid] by (cases "ds = env_dataset e \<and> rid = env_id e") (auto simp: winner_key)
    show "\<exists>d. in_receipts i = Some d \<and> receipts_in d \<subseteq> receipts_in d'" if "in_receipts i' = Some d'" for d'
      using that dispatch_others [OF assms] by auto
  qed
  show "conflict_key (pr_envelope c) = conflict_key e \<or>
      (\<exists>c0. held i (env_dataset e) (env_id e) = Some c0 \<and> conflict_key (pr_envelope c) = conflict_key (pr_envelope c0))"
    if "held i' (env_dataset e) (env_id e) = Some c"
    using that eff [of "env_dataset e" "env_id e"]
    by (cases "held i (env_dataset e) (env_id e)") (auto simp: winner_key max_def winner_def)
qed

lemma grows_acknowledge:
  assumes "acknowledge rt i peer e ev now clock ok = (r, i')"
  shows "grows i i'" and "held i' = held i"
proof -
  show held: "held i' = held i"
    using assms by (auto simp: acknowledge_def split: sum.splits option.splits prod.splits)
  have "in_providers i' = in_providers i"
    using assms by (auto simp: acknowledge_def split: sum.splits option.splits prod.splits)
  moreover have "\<exists>d. in_receipts i = Some d \<and> receipts_in d \<subseteq> receipts_in d'" if "in_receipts i' = Some d'" for d'
    using assms that
    by (auto simp: acknowledge_def split: sum.splits option.splits prod.splits
        dest: append_receipt_effect [THEN conjunct1, THEN subsetD] append_receipt_failed)
  ultimately show "grows i i'" by (simp add: grows_def held)
qed

lemma acknowledge_receipted:
  assumes run: "acknowledge rt i peer e ev now clock ok = (Inr x, i')"
    and auth: "record_authorized e peer v t" and origin: "env_origin e = ap_device peer"
  shows "receipted rt i' e"
proof -
  obtain r where r: "new_observation_receipt rt e peer now clock = Inr r" "or_observer r = env_origin e"
    "receipt_matches rt e r"
    by (rule authorized_receipt [OF auth origin, of rt now clock]) (rule that, auto simp: receipt_matches_def)
  have "\<exists>q \<in> receipts_in d'. receipt_matches rt e q \<and> or_observer q = env_origin e" if "in_receipts i' = Some d'" for d'
  proof -
    have "\<exists>d. append_receipt d r ok = (Inr (), d')"
      using run that r(1) by (auto simp: acknowledge_def split: option.splits sum.splits prod.splits)
    then obtain d where "append_receipt d r ok = (Inr (), d')" by blast
    from append_receipt_effect [OF this] obtain q where "q \<in> receipts_in d'" "same_receipt q r" by blast
    then show ?thesis using same_receipt_matches [of q r rt e] r by auto
  qed
  then show ?thesis by (simp add: receipted_def)
qed

fun job_ok :: "runtime \<Rightarrow> ingestor \<Rightarrow> job \<Rightarrow> phase \<Rightarrow> bool" where
  "job_ok rt i j Arrived = True"
| "job_ok rt i j Admitted = (signed rt j \<and> validate_providers (in_providers i) = Inr ())"
| "job_ok rt i j (Decided v t) = (signed rt j \<and> providers_decide i j v t)"
| "job_ok rt i j (Stored _ _) = (cleared rt i j \<and> held_from i (jb_record j))"
| "job_ok rt i j (Refused _) = True"
| "job_ok rt i j (Answered r) = (cleared rt i j \<and> held_from i (jb_record j) \<and> (is_ok r \<longrightarrow> receipted rt i (jb_record j)))"

lemma job_ok_grows: "grows i i' \<Longrightarrow> job_ok rt i j p \<Longrightarrow> job_ok rt i' j p"
  using grows_keeps [of i i'] by (cases p) auto

lemma job_ok_request:
  assumes "same_request j j'"
  shows "job_ok rt i j' p = job_ok rt i j p"
  using same_request_fields [OF assms]
  by (cases p) (simp_all add: signed_def providers_decide_def cleared_def)

lemma signed_origin: "signed rt j \<Longrightarrow> env_origin (jb_record j) = ap_device (jb_peer j)"
  by (simp add: signed_def result_iff)

lemma move_keeps:
  assumes run: "ingest_move rt i j = (i', j')" and ok: "job_ok rt i j (jb_phase j)"
  shows "grows i i' \<and> job_ok rt i' j (jb_phase j') \<and> (past_store j \<longrightarrow> past_store j') \<and>
    (\<forall>ds rid. held i' ds rid \<noteq> held i ds rid \<longrightarrow>
       ds = env_dataset (jb_record j) \<and> rid = env_id (jb_record j) \<and> past_store j')"
proof (cases "jb_phase j")
  case Arrived
  have grow: "grows i (i\<lparr>in_replay := g, in_replay_disk := d\<rparr>)" for g d
    by (rule grows_same) simp_all
  show ?thesis
    using run Arrived grow
    by (auto simp: ingest_move_def Let_def signed_def past_store_def split: sum.splits prod.splits)
next
  case Admitted
  then show ?thesis
    using run ok
    by (auto simp: ingest_move_def Let_def providers_decide_def result_iff past_store_def split: sum.splits)
next
  case (Decided v t)
  let ?now = "case in_now i of None \<Rightarrow> jb_clock j | Some t \<Rightarrow> t"
  obtain q i2 where disp: "dispatch (jb_record j) (jb_peer j) v t ?now (jb_clock j) (wo_store (jb_writes j)) i = (q, i2)"
    by fastforce
  show ?thesis
  proof (cases q)
    case (Inl x)
    have "i2 = i" using disp Inl dispatch_failed by blast
    then show ?thesis using run Decided disp Inl by (auto simp: ingest_move_def Let_def past_store_def)
  next
    case (Inr ev)
    note facts = grows_dispatch [OF disp [unfolded Inr]]
    have j': "i' = i2" "j' = j\<lparr>jb_phase := Stored ev ?now\<rparr>"
      using run Decided disp Inr by (auto simp: ingest_move_def Let_def)
    have "cleared rt i j" using ok Decided facts(3) by (auto simp: cleared_def)
    then show ?thesis
      using facts(1,2,4) grows_keeps(4) [OF facts(1)] j' by (auto simp: past_store_def)
  qed
next
  case (Stored ev now)
  obtain r i2 where ack: "acknowledge rt i (jb_peer j) (jb_record j) ev now (jb_clock j) (wo_receipt (jb_writes j)) = (r, i2)"
    by fastforce
  have j': "i' = i2" "j' = j\<lparr>jb_phase := Answered r\<rparr>"
    using run Stored ack by (auto simp: ingest_move_def Let_def)
  note grow = grows_acknowledge [OF ack]
  have clear: "cleared rt i j" and hf: "held_from i (jb_record j)" using ok Stored by simp_all
  from clear obtain v t where auth: "record_authorized (jb_record j) (jb_peer j) v t"
    and origin: "env_origin (jb_record j) = ap_device (jb_peer j)"
    using signed_origin by (auto simp: cleared_def)
  have "is_ok r \<longrightarrow> receipted rt i2 (jb_record j)"
    using acknowledge_receipted [OF _ auth origin] ack by (auto simp: is_ok_iff)
  then show ?thesis
    using grow grows_keeps(1,4) [OF grow(1)] clear hf j' Stored by (auto simp: past_store_def)
qed (use run ok in \<open>auto simp: ingest_move_def Let_def past_store_def\<close>)

lemma move_held:
  assumes run: "ingest_move rt i j = (i', j')"
  shows "held i' = held i \<or> (\<exists>v t now ev. jb_phase j = Decided v t \<and> past_store j' \<and>
    dispatch (jb_record j) (jb_peer j) v t now (jb_clock j) (wo_store (jb_writes j)) i = (Inr ev, i'))"
proof (cases "jb_phase j")
  case (Decided v t)
  then show ?thesis
    using run dispatch_failed by (fastforce simp: ingest_move_def Let_def past_store_def split: sum.splits prod.splits)
next
  case (Stored ev now)
  then show ?thesis using run grows_acknowledge(2) by (auto simp: ingest_move_def split: prod.splits)
qed (use run in \<open>auto simp: ingest_move_def Let_def split: sum.splits prod.splits\<close>)

lemma move_changes:
  assumes run: "ingest_move rt i j = (i', j')" and changed: "held i' ds rid \<noteq> held i ds rid"
  shows "\<not> past_store j \<and> past_store j' \<and> ds = env_dataset (jb_record j) \<and> rid = env_id (jb_record j)"
proof -
  have "held i' \<noteq> held i" using changed by auto
  then obtain v t now ev where d: "jb_phase j = Decided v t" "past_store j'"
    "dispatch (jb_record j) (jb_peer j) v t now (jb_clock j) (wo_store (jb_writes j)) i = (Inr ev, i')"
    using move_held [OF run] by blast
  then show ?thesis using grows_dispatch(4) [OF d(3) changed] by (simp add: past_store_def)
qed

lemma move_past_store: "ingest_move rt i j = (i', j') \<Longrightarrow> past_store j \<Longrightarrow> past_store j'"
  by (cases "jb_phase j") (auto simp: ingest_move_def past_store_def split: prod.splits)

definition interleaving_ok :: "runtime \<Rightarrow> ingestor \<Rightarrow> ingestor \<times> job list \<Rightarrow> bool" where
  "interleaving_ok rt i0 s \<longleftrightarrow> grows i0 (fst s) \<and>
     (\<forall>n < length (snd s). job_ok rt (fst s) (snd s ! n) (jb_phase (snd s ! n))) \<and>
     (\<forall>ds rid. held (fst s) ds rid \<noteq> held i0 ds rid \<longrightarrow>
        (\<exists>n < length (snd s). past_store (snd s ! n) \<and>
           ds = env_dataset (jb_record (snd s ! n)) \<and> rid = env_id (jb_record (snd s ! n))))"

lemma grows_trans: "grows i i' \<Longrightarrow> grows i' i'' \<Longrightarrow> grows i i''"
proof -
  assume a: "grows i i'" and b: "grows i' i''"
  have "\<exists>c'. held i'' ds rid = Some c' \<and> conflict_key (pr_envelope c) \<le> conflict_key (pr_envelope c')"
    if held: "held i ds rid = Some c" for ds rid c
  proof -
    obtain c' where c': "held i' ds rid = Some c'" "conflict_key (pr_envelope c) \<le> conflict_key (pr_envelope c')"
      using a held unfolding grows_def by blast
    obtain c'' where "held i'' ds rid = Some c''" "conflict_key (pr_envelope c') \<le> conflict_key (pr_envelope c'')"
      using b c'(1) unfolding grows_def by blast
    with c'(2) show ?thesis using order_trans by blast
  qed
  moreover have "\<exists>d. in_receipts i = Some d \<and> receipts_in d \<subseteq> receipts_in d''" if "in_receipts i'' = Some d''" for d''
    using a b that unfolding grows_def by (meson subset_trans)
  ultimately show "grows i i''" using a b by (simp add: grows_def)
qed

lemma interleaving_changed:
  "interleaving_ok rt i0 (i, js) \<Longrightarrow> held i ds rid \<noteq> held i0 ds rid \<Longrightarrow>
     \<exists>n. n < length js \<and> past_store (js ! n) \<and> ds = env_dataset (jb_record (js ! n)) \<and>
       rid = env_id (jb_record (js ! n))"
  unfolding interleaving_ok_def by simp

lemma interleaving_step:
  assumes ok: "interleaving_ok rt i0 s" and move: "ingest_step rt s s'"
  shows "interleaving_ok rt i0 s'"
  using move
proof cases
  case (job_moves k js i i' j')
  note s = job_moves(1) and s' = job_moves(2) and k = job_moves(3) and run = job_moves(5)
  have jk: "job_ok rt i (js ! k) (jb_phase (js ! k))" using ok k by (simp add: interleaving_ok_def s)
  note facts = move_keeps [OF run jk]
  have same: "same_request (js ! k) j'" by (rule ingest_move_request [OF run])
  note fields = same_request_fields [OF same]
  have "job_ok rt i' (js[k := j'] ! n) (jb_phase (js[k := j'] ! n))" if "n < length js" for n
  proof (cases "n = k")
    case True
    then show ?thesis using facts job_ok_request [OF same] k by simp
  next
    case False
    have "job_ok rt i (js ! n) (jb_phase (js ! n))" using ok that by (simp add: interleaving_ok_def s)
    then show ?thesis using False job_ok_grows [OF conjunct1 [OF facts]] by simp
  qed
  moreover have "\<exists>n < length js. past_store (js[k := j'] ! n) \<and>
      ds = env_dataset (jb_record (js[k := j'] ! n)) \<and> rid = env_id (jb_record (js[k := j'] ! n))"
    if changed: "held i' ds rid \<noteq> held i0 ds rid" for ds rid
  proof (cases "held i' ds rid = held i ds rid")
    case False
    then show ?thesis using facts k fields by (intro exI [where x = k]) simp
  next
    case True
    then obtain n where n: "n < length js" "past_store (js ! n)" "ds = env_dataset (jb_record (js ! n))"
      "rid = env_id (jb_record (js ! n))"
      using interleaving_changed [OF ok [unfolded s], of ds rid] changed by metis
    then show ?thesis using facts fields k by (intro exI [where x = n]) (cases "n = k"; simp)
  qed
  moreover have "grows i0 i'" using ok facts grows_trans by (auto simp: interleaving_ok_def s)
  ultimately show ?thesis by (simp add: interleaving_ok_def s')
qed

lemma interleaving_start: "all_arrived js \<Longrightarrow> interleaving_ok rt i (i, js)"
  by (simp add: interleaving_ok_def all_arrived_def)

lemma interleaving_schedule: "schedule rt s s' \<Longrightarrow> interleaving_ok rt i0 s \<Longrightarrow> interleaving_ok rt i0 s'"
  by (induction rule: rtranclp_induct) (auto intro: interleaving_step)

lemma same_request_trans: "same_request j j' \<Longrightarrow> same_request j' j'' \<Longrightarrow> same_request j j''"
  unfolding same_request_def by (metis job.update_convs(6) job.surjective)

lemma schedule_requests:
  "schedule rt s s' \<Longrightarrow> list_all2 same_request (snd s) (snd s')"
proof (induction rule: rtranclp_induct)
  case base
  then show ?case by (simp add: list_all2_conv_all_nth)
next
  case (step s' s'')
  from step.hyps(2) show ?case
  proof cases
    case (job_moves k js i i' j')
    have moved: "same_request (js ! k) j'" by (rule ingest_move_request [OF job_moves(5)])
    have IH: "length (snd s) = length js" "\<And>n. n < length js \<Longrightarrow> same_request (snd s ! n) (js ! n)"
      using step.IH job_moves(1) by (simp_all add: list_all2_conv_all_nth)
    have "same_request (snd s ! n) (js[k := j'] ! n)" if "n < length js" for n
      using same_request_trans [OF IH(2) moved] IH(2) that by (cases "n = k") simp_all
    then show ?thesis using IH(1) job_moves(2) by (simp add: list_all2_conv_all_nth)
  qed
qed

lemma cleared_request: "same_request j j' \<Longrightarrow> cleared rt i j' = cleared rt i j"
  using same_request_fields [of j j'] by (simp add: cleared_def signed_def providers_decide_def)

text \<open>
  Concurrent ingestions fail closed. At every moment of every interleaving a stored record that
  differs from what was there at the start is the record of some ingestion that was signed by its
  peer and cleared by the providers and the policy; and an ingestion that has been answered with
  success was cleared, and has left a record that is not older than its own, and its receipt.
\<close>

theorem concurrent_ingest_fails_closed:
  assumes "all_arrived js" and "schedule rt (i, js) (i', js')"
  shows "(\<forall>ds rid. held i' ds rid \<noteq> held i ds rid \<longrightarrow>
       (\<exists>j \<in> set js. ds = env_dataset (jb_record j) \<and> rid = env_id (jb_record j) \<and> cleared rt i j)) \<and>
    (\<forall>n < length js. \<forall>x. answer (jb_phase (js' ! n)) = Some (Inr x) \<longrightarrow>
       cleared rt i (js ! n) \<and> held_from i' (jb_record (js ! n)) \<and> receipted rt i' (jb_record (js ! n)))"
proof -
  have inv: "interleaving_ok rt i (i', js')"
    by (rule interleaving_schedule [OF assms(2) interleaving_start [OF assms(1)]])
  have req: "list_all2 same_request js js'" using schedule_requests [OF assms(2)] by simp
  then have len: "length js' = length js" by (simp add: list_all2_conv_all_nth)
  have same: "jb_record (js' ! n) = jb_record (js ! n)" "cleared rt i (js' ! n) = cleared rt i (js ! n)"
    if "n < length js" for n
    using req that same_request_fields cleared_request by (auto simp: list_all2_conv_all_nth)
  have clear: "cleared rt i' = cleared rt i" using inv grows_keeps(4) by (simp add: interleaving_ok_def)
  have ok: "job_ok rt i' (js' ! n) (jb_phase (js' ! n))" if "n < length js" for n
    using inv that len by (simp add: interleaving_ok_def)
  have finished: "cleared rt i (js ! n) \<and> held_from i' (jb_record (js ! n)) \<and> receipted rt i' (jb_record (js ! n))"
    if "n < length js" "answer (jb_phase (js' ! n)) = Some (Inr x)" for n x
    using ok [OF that(1)] that(2) clear same [OF that(1)]
    by (cases "jb_phase (js' ! n)") (auto simp: is_ok_def)
  have changed: "\<exists>j \<in> set js. ds = env_dataset (jb_record j) \<and> rid = env_id (jb_record j) \<and> cleared rt i j"
    if differs: "held i' ds rid \<noteq> held i ds rid" for ds rid
  proof -
    obtain n where n: "n < length js" "past_store (js' ! n)" "ds = env_dataset (jb_record (js' ! n))"
      "rid = env_id (jb_record (js' ! n))"
      using interleaving_changed [OF inv differs] len by metis
    have "cleared rt i (js ! n)"
      using ok [OF n(1)] n(2) clear same [OF n(1)] by (cases "jb_phase (js' ! n)") (auto simp: past_store_def)
    then show ?thesis using n same [OF n(1)] by (intro bexI [of _ "js ! n"]) simp_all
  qed
  show ?thesis using changed finished by blast
qed

section \<open>The guard under concurrency\<close>

definition job_key :: "job \<Rightarrow> replay_key" where
  "job_key j = replay_key_of (jb_peer j) (jb_record j)"

abbreviation job_revision :: "job \<Rightarrow> u64" where
  "job_revision j \<equiv> env_revision (jb_record j)"

definition mark_of :: "ingestor \<Rightarrow> replay_key \<Rightarrow> u64 option" where
  "mark_of i k = (case in_replay i of None \<Rightarrow> None | Some g \<Rightarrow> map_of (rg_revision g) k)"

lemma job_key_request: "same_request j j' \<Longrightarrow> job_key j' = job_key j \<and> job_revision j' = job_revision j"
  using same_request_fields [of j j'] by (simp add: job_key_def)

lemma acknowledge_guard: "acknowledge rt i peer e ev now clock ok = (r, i') \<Longrightarrow> in_replay i' = in_replay i"
  by (auto simp: acknowledge_def split: sum.splits option.splits prod.splits)

lemma guard_move:
  assumes run: "replay_accept (in_replay i) d peer e True = (r, g', d')" and g: "in_replay i = Some g"
  shows "\<exists>h. g' = Some h \<and>
    (case r of
       Inr _ \<Rightarrow> map_of (rg_revision h) = (map_of (rg_revision g))(replay_key_of peer e \<mapsto> env_revision e) \<and>
         (\<forall>m. map_of (rg_revision g) (replay_key_of peer e) = Some m \<longrightarrow> m < env_revision e)
     | Inl _ \<Rightarrow> h = g \<and> (\<exists>m. map_of (rg_revision g) (replay_key_of peer e) = Some m \<and> env_revision e \<le> m))"
  using run unfolding g replay_accept_cases
  by (auto simp: Let_def gomap_simps not_le split: if_splits)

definition admits :: "ingestor \<Rightarrow> job \<Rightarrow> ingestor \<Rightarrow> job \<Rightarrow> bool" where
  "admits i j i' j' \<longleftrightarrow> jb_phase j = Arrived \<and> past_guard j' \<and>
     mark_of i' = (mark_of i)(job_key j \<mapsto> job_revision j) \<and>
     (\<forall>m. mark_of i (job_key j) = Some m \<longrightarrow> m < job_revision j)"

lemma move_guard:
  assumes run: "ingest_move rt i j = (i', j')" and g: "in_replay i \<noteq> None" and ok: "wo_replay (jb_writes j)"
  shows "in_replay i' \<noteq> None \<and>
    (admits i j i' j' \<or> mark_of i' = mark_of i \<and> (past_guard j' \<longrightarrow> past_guard j))"
proof (cases "jb_phase j = Arrived")
  case True
  obtain h where h: "in_replay i = Some h" using g by blast
  obtain r g' d' where acc: "replay_accept (in_replay i) (in_replay_disk i) (jb_peer j) (jb_record j) True = (r, g', d')"
    by (cases "replay_accept (in_replay i) (in_replay_disk i) (jb_peer j) (jb_record j) True") auto
  obtain h' where h': "g' = Some h'"
    and marks: "case r of
       Inr _ \<Rightarrow> map_of (rg_revision h') = (map_of (rg_revision h))(job_key j \<mapsto> job_revision j) \<and>
         (\<forall>m. map_of (rg_revision h) (job_key j) = Some m \<longrightarrow> m < job_revision j)
     | Inl _ \<Rightarrow> h' = h"
    using guard_move [OF acc h] by (cases r) (auto simp: job_key_def)
  consider "i' = i" "\<not> past_guard j'" | e where "r = Inl e" "i' = i\<lparr>in_replay := g', in_replay_disk := d'\<rparr>" "\<not> past_guard j'"
    | "r = Inr ()" "i' = i\<lparr>in_replay := g', in_replay_disk := d'\<rparr>" "past_guard j'"
    using run True acc ok by (auto simp: ingest_move_def Let_def split: sum.splits)
  then show ?thesis
    by cases (use h h' marks True in \<open>auto simp: admits_def mark_of_def fun_eq_iff\<close>)
next
  case False
  then have "in_replay i' = in_replay i" and "past_guard j' \<longrightarrow> past_guard j"
    using run
    by (auto simp: ingest_move_def Let_def past_guard_def split: phase.splits sum.splits prod.splits
        dest!: dispatch_others acknowledge_guard)
  moreover from this have "mark_of i' = mark_of i" by (simp add: mark_of_def [abs_def])
  ultimately show ?thesis using g by simp
qed

definition marks_grow :: "ingestor \<Rightarrow> ingestor \<Rightarrow> bool" where
  "marks_grow i i' \<longleftrightarrow> (\<forall>k m. mark_of i k = Some m \<longrightarrow> (\<exists>m'. mark_of i' k = Some m' \<and> m \<le> m'))"

lemma marks_growD: "marks_grow i i' \<Longrightarrow> \<exists>m. mark_of i k = Some m \<and> r \<le> m \<Longrightarrow> \<exists>m. mark_of i' k = Some m \<and> r \<le> m"
  unfolding marks_grow_def using order_trans by blast

text \<open>What an ingestion of another record does, saved or not, leaves the mark of a key alone.\<close>

lemma accept_other_key:
  assumes "replay_accept (Some g) d peer e ok = (r, g', d')" and "replay_key_of peer e \<noteq> K"
  shows "\<exists>h. g' = Some h \<and> map_of (rg_revision h) K = map_of (rg_revision g) K"
  using assms by (auto simp: replay_accept_cases Let_def gomap_simps split: if_splits)

lemma move_other_key:
  assumes run: "ingest_move rt i j = (i', j')" and g: "in_replay i \<noteq> None" and other: "job_key j \<noteq> K"
  shows "in_replay i' \<noteq> None \<and> mark_of i' K = mark_of i K"
proof (cases "jb_phase j = Arrived")
  case True
  obtain h where h: "in_replay i = Some h" using g by blast
  obtain r g' d' where acc: "replay_accept (in_replay i) (in_replay_disk i) (jb_peer j) (jb_record j) (wo_replay (jb_writes j)) = (r, g', d')"
    by (cases "replay_accept (in_replay i) (in_replay_disk i) (jb_peer j) (jb_record j) (wo_replay (jb_writes j))") auto
  have "i' = i \<or> i' = i\<lparr>in_replay := g', in_replay_disk := d'\<rparr>"
    using run True acc by (auto simp: ingest_move_def Let_def split: sum.splits)
  moreover obtain h' where "g' = Some h'" "map_of (rg_revision h') K = map_of (rg_revision h) K"
    using accept_other_key [OF acc [unfolded h], of K] other by (auto simp: job_key_def)
  ultimately show ?thesis using h by (auto simp: mark_of_def)
next
  case False
  then have "in_replay i' = in_replay i"
    using run
    by (auto simp: ingest_move_def Let_def split: phase.splits sum.splits prod.splits
        dest!: dispatch_others acknowledge_guard)
  then show ?thesis using g by (simp add: mark_of_def)
qed

text \<open>
  The mark of a key is at least every revision of it that passed the guard, and they all differ,
  as long as the guard's writes for this key succeed.
\<close>

definition admissions_ok :: "replay_key \<Rightarrow> ingestor \<times> job list \<Rightarrow> bool" where
  "admissions_ok K s \<longleftrightarrow> in_replay (fst s) \<noteq> None \<and>
     (\<forall>n < length (snd s). job_key (snd s ! n) = K \<longrightarrow> wo_replay (jb_writes (snd s ! n))) \<and>
     (\<forall>n < length (snd s). job_key (snd s ! n) = K \<longrightarrow> past_guard (snd s ! n) \<longrightarrow>
        (\<exists>m. mark_of (fst s) K = Some m \<and> job_revision (snd s ! n) \<le> m)) \<and>
     (\<forall>n m. n < length (snd s) \<longrightarrow> m < length (snd s) \<longrightarrow> n \<noteq> m \<longrightarrow> job_key (snd s ! n) = K \<longrightarrow> job_key (snd s ! m) = K \<longrightarrow>
        past_guard (snd s ! n) \<longrightarrow> past_guard (snd s ! m) \<longrightarrow> job_revision (snd s ! n) \<noteq> job_revision (snd s ! m))"

lemma admissionsD:
  assumes "admissions_ok K (i, js)"
  shows "in_replay i \<noteq> None" and "n < length js \<Longrightarrow> job_key (js ! n) = K \<Longrightarrow> wo_replay (jb_writes (js ! n))"
    and "n < length js \<Longrightarrow> job_key (js ! n) = K \<Longrightarrow> past_guard (js ! n) \<Longrightarrow> \<exists>m. mark_of i K = Some m \<and> job_revision (js ! n) \<le> m"
    and "n < length js \<Longrightarrow> m < length js \<Longrightarrow> n \<noteq> m \<Longrightarrow> job_key (js ! n) = K \<Longrightarrow> job_key (js ! m) = K \<Longrightarrow>
        past_guard (js ! n) \<Longrightarrow> past_guard (js ! m) \<Longrightarrow> job_revision (js ! n) \<noteq> job_revision (js ! m)"
  using assms unfolding admissions_ok_def by simp_all

lemma admissionsI:
  assumes "in_replay i \<noteq> None" and "\<And>n. n < length js \<Longrightarrow> job_key (js ! n) = K \<Longrightarrow> wo_replay (jb_writes (js ! n))"
    and "\<And>n. n < length js \<Longrightarrow> job_key (js ! n) = K \<Longrightarrow> past_guard (js ! n) \<Longrightarrow> \<exists>m. mark_of i K = Some m \<and> job_revision (js ! n) \<le> m"
    and "\<And>n m. n < length js \<Longrightarrow> m < length js \<Longrightarrow> n \<noteq> m \<Longrightarrow> job_key (js ! n) = K \<Longrightarrow> job_key (js ! m) = K \<Longrightarrow>
        past_guard (js ! n) \<Longrightarrow> past_guard (js ! m) \<Longrightarrow> job_revision (js ! n) \<noteq> job_revision (js ! m)"
  shows "admissions_ok K (i, js)"
  using assms unfolding admissions_ok_def by simp

lemma admissions_step:
  assumes inv: "admissions_ok K s" and move: "ingest_step rt s s'"
  shows "admissions_ok K s'"
  using move
proof cases
  case (job_moves k js i i' j')
  note inv' = inv [unfolded job_moves(1)] and k = job_moves(3)
  note D = admissionsD [OF inv']
  let ?new = "job_key (js ! k) = K \<and> admits i (js ! k) i' j'"
  have guard: "in_replay i' \<noteq> None"
    "?new \<or> mark_of i' K = mark_of i K \<and> (job_key (js ! k) = K \<longrightarrow> past_guard j' \<longrightarrow> past_guard (js ! k))"
    using move_guard [OF job_moves(5) D(1) D(2) [OF k]] move_other_key [OF job_moves(5) D(1), of K]
    by (cases "job_key (js ! k) = K"; auto)+
  have same: "same_request (js ! k) j'" by (rule ingest_move_request [OF job_moves(5)])
  have key: "job_key (js[k := j'] ! n) = job_key (js ! n)" "job_revision (js[k := j'] ! n) = job_revision (js ! n)"
    "jb_writes (js[k := j'] ! n) = jb_writes (js ! n)" if "n < length js" for n
    using job_key_request [OF same] same_request_fields [OF same] that by (cases "n = k"; simp)+
  have past: "past_guard (js ! n)"
    if "past_guard (js[k := j'] ! n)" "n < length js" "job_key (js ! n) = K" "\<not> (n = k \<and> ?new)" for n
    using that guard(2) by (cases "n = k") auto
  have fresh: "job_revision (js ! n) < job_revision (js ! k)"
    if "?new" "n < length js" "past_guard (js ! n)" "job_key (js ! n) = K" for n
    using that D(3) [OF that(2,4,3)] by (auto simp: admits_def)
  have "admissions_ok K (i', js[k := j'])"
  proof (rule admissionsI)
    fix n assume n: "n < length (js[k := j'])" and K: "job_key (js[k := j'] ! n) = K"
    then show "wo_replay (jb_writes (js[k := j'] ! n))" using D(2) key by simp
    assume p: "past_guard (js[k := j'] ! n)"
    show "\<exists>m. mark_of i' K = Some m \<and> job_revision (js[k := j'] ! n) \<le> m"
    proof (cases "n = k \<and> ?new")
      case True
      then show ?thesis using job_key_request [OF same] k by (auto simp: admits_def)
    next
      case False
      then have "past_guard (js ! n)" using past p n K key by simp
      then show ?thesis
        using D(3) [of n] guard(2) fresh [of n] key n K by (auto simp: admits_def less_imp_le)
    qed
  next
    fix n m
    assume n: "n < length (js[k := j'])" "m < length (js[k := j'])" "n \<noteq> m"
      and K: "job_key (js[k := j'] ! n) = K" "job_key (js[k := j'] ! m) = K"
      and p: "past_guard (js[k := j'] ! n)" "past_guard (js[k := j'] ! m)"
    show "job_revision (js[k := j'] ! n) \<noteq> job_revision (js[k := j'] ! m)"
    proof (cases "?new \<and> (n = k \<or> m = k)")
      case True
      then show ?thesis using fresh [of n] fresh [of m] past [of n] past [of m] n p K key by auto
    next
      case False
      then show ?thesis using D(4) [of n m] past [of n] past [of m] n p K key by auto
    qed
  qed (use guard in simp)
  then show ?thesis by (simp add: job_moves(2))
qed

lemma admissions_schedule: "schedule rt s s' \<Longrightarrow> admissions_ok K s \<Longrightarrow> admissions_ok K s'"
  by (induction rule: rtranclp_induct) (auto intro: admissions_step)

lemma admissions_start:
  assumes "all_arrived js" and "in_replay i \<noteq> None" and "\<forall>j \<in> set js. job_key j = K \<longrightarrow> wo_replay (jb_writes j)"
  shows "admissions_ok K (i, js)"
  by (rule admissionsI) (use assms in \<open>auto simp: all_arrived_def past_guard_def\<close>)

text \<open>
  C29. Of several ingestions of the same revision of a record from the same device that run
  concurrently, at most one passes the replay guard, whatever the interleaving, as long as the
  guard's writes for this record and device succeed: those for others may fail.
\<close>

theorem concurrent_duplicates_admitted_once:
  assumes "all_arrived js" and "in_replay i \<noteq> None"
    and "\<forall>j \<in> set js. job_key j = job_key (js ! n) \<longrightarrow> wo_replay (jb_writes j)"
    and "schedule rt (i, js) (i', js')"
    and "n < length js" and "m < length js" and "n \<noteq> m"
    and "job_key (js ! n) = job_key (js ! m)" and "job_revision (js ! n) = job_revision (js ! m)"
  shows "\<not> (past_guard (js' ! n) \<and> past_guard (js' ! m))"
proof -
  have inv: "admissions_ok (job_key (js ! n)) (i', js')"
    by (rule admissions_schedule [OF assms(4) admissions_start [OF assms(1-3)]])
  have req: "list_all2 same_request js js'" using schedule_requests [OF assms(4)] by simp
  then have len: "length js' = length js" by (simp add: list_all2_conv_all_nth)
  have key: "job_key (js' ! l) = job_key (js ! l) \<and> job_revision (js' ! l) = job_revision (js ! l)" if "l < length js" for l
    using req that job_key_request by (simp add: list_all2_conv_all_nth)
  show ?thesis
    using admissionsD(4) [OF inv, of n m] key [OF assms(5)] key [OF assms(6)] assms(5-9) len by auto
qed

section \<open>All schedules agree\<close>

text \<open>A dataset has a store that can be read.\<close>

definition store_open :: "ingestor \<Rightarrow> bytes \<Rightarrow> bool" where
  "store_open i ds \<longleftrightarrow>
     (if ds = ''search.history'' then \<exists>d. in_history i = Some d \<and> is_ok (load_records d)
      else if ds = ''bookmarks.items'' then \<exists>d. in_bookmarks i = Some d \<and> is_ok (load_records d)
      else if ds = ''browser.tabs'' then
        \<exists>s. in_browser_tabs i = Some s \<and> bs_dataset s = ''browser.tabs'' \<and> is_ok (load_records (bs_disk s))
      else if ds = ''browser.history'' then
        \<exists>s. in_browser_history i = Some s \<and> bs_dataset s = ''browser.history'' \<and> is_ok (load_records (bs_disk s))
      else False)"

lemma accept_succeeds:
  assumes "record_authorized e p v t" and "env_dataset e = ds" and "is_ok (load_records d)"
  shows "\<exists>ev d'. accept_and_persist ds err e p v t now clock d True = (Inr ev, d')"
proof -
  obtain ev where "authorize_record e p v t now clock = Inr ev"
    using assms(1) by (auto simp: authorize_record_Inr)
  then show ?thesis
    using assms by (auto simp: accept_and_persist_def Let_def save_records_def is_ok_iff split: option.splits resolution.splits)
qed

lemma browser_accept_succeeds:
  assumes "record_authorized e p v t" and "env_dataset e = bs_dataset s" and "is_ok (load_records (bs_disk s))"
  shows "\<exists>ev s'. browser_accept e p v t now clock s True = (Inr ev, s')"
  using accept_succeeds [OF assms, of ErrBrowserDatasetMismatch now clock] by (auto simp: browser_accept_def)

lemma browser_accept_open:
  assumes "browser_accept e p v t now clock s ok = (Inr ev, s')"
  shows "bs_dataset s' = bs_dataset s \<and> is_ok (load_records (bs_disk s'))"
  using assms accept_loads by (auto simp: browser_accept_def split: prod.splits)

lemma dispatch_succeeds:
  assumes auth: "record_authorized e p v t" and open_store: "store_open i (env_dataset e)"
  shows "\<exists>ev i'. dispatch e p v t now clock True i = (Inr ev, i')"
proof -
  consider d where "env_dataset e = ''search.history''" "in_history i = Some d" "is_ok (load_records d)"
    | d where "env_dataset e = ''bookmarks.items''" "in_bookmarks i = Some d" "is_ok (load_records d)"
    | s where "env_dataset e = ''browser.tabs''" "in_browser_tabs i = Some s" "bs_dataset s = ''browser.tabs''"
        "is_ok (load_records (bs_disk s))"
    | s where "env_dataset e = ''browser.history''" "in_browser_history i = Some s" "bs_dataset s = ''browser.history''"
        "is_ok (load_records (bs_disk s))"
    using open_store by (auto simp: store_open_def split: if_splits)
  then show ?thesis
  proof cases
    case 1
    then show ?thesis
      using accept_succeeds [OF auth 1(1,3), of ErrSearchHistoryOnly now clock] by (auto simp: dispatch_def search_accept_def)
  next
    case 2
    then show ?thesis
      using accept_succeeds [OF auth 2(1,3), of ErrBookmarkItemsOnly now clock] by (auto simp: dispatch_def bookmark_accept_def)
  next
    case (3 s)
    then show ?thesis using browser_accept_succeeds [OF auth _ 3(4), of now clock] by (auto simp: dispatch_def)
  next
    case (4 s)
    then show ?thesis using browser_accept_succeeds [OF auth _ 4(4), of now clock] by (auto simp: dispatch_def)
  qed
qed

lemma dispatch_keeps_open:
  assumes run: "dispatch e p v t now clock ok i = (Inr ev, i')" and open_store: "store_open i ds"
  shows "store_open i' ds"
proof -
  consider d d' where "in_history i = Some d" "i' = i\<lparr>in_history := Some d'\<rparr>" "is_ok (load_records d')"
    | d d' where "in_bookmarks i = Some d" "i' = i\<lparr>in_bookmarks := Some d'\<rparr>" "is_ok (load_records d')"
    | d d' where "in_browser_tabs i = Some d" "i' = i\<lparr>in_browser_tabs := Some d'\<rparr>"
        "bs_dataset d' = bs_dataset d \<and> is_ok (load_records (bs_disk d'))"
    | d d' where "in_browser_history i = Some d" "i' = i\<lparr>in_browser_history := Some d'\<rparr>"
        "bs_dataset d' = bs_dataset d \<and> is_ok (load_records (bs_disk d'))"
    using run
    by (auto simp: dispatch_def search_accept_def bookmark_accept_def
        split: if_splits option.splits prod.splits dest: accept_loads browser_accept_open)
  then show ?thesis by cases (use open_store in \<open>auto simp: store_open_def split: if_splits\<close>)
qed

lemma store_open_receipts: "store_open (i\<lparr>in_receipts := x\<rparr>) ds = store_open i ds"
  by (simp add: store_open_def)

lemma acknowledge_state:
  assumes "acknowledge rt i peer e ev now clock ok = (r, i')"
  shows "i' = i \<or> (\<exists>x. i' = i\<lparr>in_receipts := x\<rparr>)"
  using assms unfolding acknowledge_def by (auto split: sum.splits option.splits prod.splits)

lemma acknowledge_keeps_open:
  "acknowledge rt i peer e ev now clock ok = (r, i') \<Longrightarrow> store_open i' ds = store_open i ds"
  using acknowledge_state [of rt i peer e ev now clock ok r i'] store_open_receipts by auto

text \<open>
  Where every ingestion is cleared, its store can be read and the writes succeed, the guard is the
  only thing that can turn one away before its store.
\<close>

definition servable :: "runtime \<Rightarrow> ingestor \<Rightarrow> job \<Rightarrow> bool" where
  "servable rt i j \<longleftrightarrow> cleared rt i j \<and> store_open i (env_dataset (jb_record j)) \<and>
     wo_replay (jb_writes j) \<and> wo_store (jb_writes j)"

definition outdated :: "ingestor \<Rightarrow> job \<Rightarrow> bool" where
  "outdated i j \<longleftrightarrow> (\<exists>m. mark_of i (job_key j) = Some m \<and> job_revision j \<le> m)"

lemma servable_request: "same_request j j' \<Longrightarrow> servable rt i j' = servable rt i j"
  using same_request_fields [of j j'] cleared_request [of j j' rt i] by (simp add: servable_def)

lemma move_serves:
  assumes run: "ingest_move rt i j = (i', j')" and srv: "servable rt i j" and ok: "job_ok rt i j (jb_phase j)"
    and g: "in_replay i \<noteq> None"
  shows "(\<forall>ds. store_open i ds \<longrightarrow> store_open i' ds) \<and>
    ((\<exists>x. jb_phase j' = Refused x) \<longrightarrow> jb_phase j = Arrived \<and> outdated i j \<or> (\<exists>x. jb_phase j = Refused x)) \<and>
    (jb_phase j \<noteq> Arrived \<longrightarrow> past_guard j \<longrightarrow> past_guard j')"
proof (cases "jb_phase j")
  case Arrived
  obtain h where h: "in_replay i = Some h" using g by blast
  have signed: "verify_signed_record rt (jb_peer j) (jb_record j) (jb_proof j) = Inr ()"
    and prov: "validate_providers (in_providers i) = Inr ()" and wr: "wo_replay (jb_writes j)"
    using srv by (auto simp: servable_def cleared_def signed_def providers_decide_def validate_providers_def)
  obtain r g' d' where acc: "replay_accept (in_replay i) (in_replay_disk i) (jb_peer j) (jb_record j) True = (r, g', d')"
    by (cases "replay_accept (in_replay i) (in_replay_disk i) (jb_peer j) (jb_record j) True") auto
  have i': "i' = i\<lparr>in_replay := g', in_replay_disk := d'\<rparr>"
    and j': "j' = j\<lparr>jb_phase := (case r of Inl x \<Rightarrow> Refused x | Inr _ \<Rightarrow> Admitted)\<rparr>"
    using run Arrived signed prov acc wr by (auto simp: ingest_move_def Let_def split: sum.splits)
  have "outdated i j" if "r = Inl x" for x
    using guard_move [OF acc h] that h by (auto simp: outdated_def mark_of_def job_key_def)
  moreover have "store_open i' ds = store_open i ds" for ds by (simp add: i' store_open_def)
  ultimately show ?thesis using Arrived j' by (auto split: sum.splits)
next
  case Admitted
  obtain v t where "providers_decide i j v t" using srv by (auto simp: servable_def cleared_def)
  then show ?thesis using run Admitted by (auto simp: ingest_move_def Let_def providers_decide_def)
next
  case (Decided v t)
  let ?now = "case in_now i of None \<Rightarrow> jb_clock j | Some t \<Rightarrow> t"
  have "record_authorized (jb_record j) (jb_peer j) v t"
    using srv ok Decided by (auto simp: servable_def cleared_def providers_decide_def)
  then obtain ev i2 where disp: "dispatch (jb_record j) (jb_peer j) v t ?now (jb_clock j) (wo_store (jb_writes j)) i = (Inr ev, i2)"
    using dispatch_succeeds [of "jb_record j" "jb_peer j" v t i ?now "jb_clock j"] srv by (auto simp: servable_def)
  then have "i' = i2" "j' = j\<lparr>jb_phase := Stored ev ?now\<rparr>"
    using run Decided by (auto simp: ingest_move_def Let_def)
  then show ?thesis using dispatch_keeps_open [OF disp] Decided by (simp add: past_guard_def)
next
  case (Stored ev now)
  then show ?thesis
    using run by (auto simp: ingest_move_def Let_def past_guard_def acknowledge_keeps_open split: prod.splits)
qed (use run in \<open>auto simp: ingest_move_def Let_def past_guard_def\<close>)

lemma move_provenance:
  assumes run: "ingest_move rt i j = (i', j')" and c: "held i' ds rid = Some c"
  shows "(\<exists>c0. held i ds rid = Some c0 \<and> conflict_key (pr_envelope c) = conflict_key (pr_envelope c0)) \<or>
    past_guard j \<and> conflict_key (pr_envelope c) = conflict_key (jb_record j) \<and>
    ds = env_dataset (jb_record j) \<and> rid = env_id (jb_record j)"
proof (cases "held i' ds rid = held i ds rid")
  case True
  then have "held i ds rid = Some c" using c by simp
  then show ?thesis by blast
next
  case False
  then have "held i' \<noteq> held i" by auto
  then obtain v t now ev where disp: "jb_phase j = Decided v t"
    "dispatch (jb_record j) (jb_peer j) v t now (jb_clock j) (wo_store (jb_writes j)) i = (Inr ev, i')"
    using move_held [OF run] by blast
  have "past_guard j" using disp(1) by (simp add: past_guard_def)
  with grows_dispatch(4) [OF disp(2) False] grows_dispatch(5) [OF disp(2)] c show ?thesis by auto
qed

definition supersedes :: "job list \<Rightarrow> replay_key \<Rightarrow> u64 \<Rightarrow> bool" where
  "supersedes js k r \<longleftrightarrow> (\<exists>m < length js. past_guard (js ! m) \<and> job_key (js ! m) = k \<and> r \<le> job_revision (js ! m))"

lemma supersedes_le: "supersedes js k r \<Longrightarrow> r' \<le> r \<Longrightarrow> supersedes js k r'"
  unfolding supersedes_def using order_trans by blast

definition converging :: "runtime \<Rightarrow> ingestor \<Rightarrow> ingestor \<times> job list \<Rightarrow> bool" where
  "converging rt i0 s \<longleftrightarrow> interleaving_ok rt i0 s \<and> in_replay (fst s) \<noteq> None \<and>
     (\<forall>n < length (snd s). servable rt (fst s) (snd s ! n)) \<and>
     (\<forall>k r. mark_of (fst s) k = Some r \<longrightarrow> supersedes (snd s) k r \<or> (\<exists>m. mark_of i0 k = Some m \<and> r \<le> m)) \<and>
     (\<forall>n < length (snd s). (\<exists>x. jb_phase (snd s ! n) = Refused x) \<longrightarrow>
        supersedes (snd s) (job_key (snd s ! n)) (job_revision (snd s ! n)) \<or> outdated i0 (snd s ! n)) \<and>
     (\<forall>ds rid c. held (fst s) ds rid = Some c \<longrightarrow>
        (\<exists>c0. held i0 ds rid = Some c0 \<and> conflict_key (pr_envelope c) = conflict_key (pr_envelope c0)) \<or>
        (\<exists>n < length (snd s). \<not> outdated i0 (snd s ! n) \<and> conflict_key (pr_envelope c) = conflict_key (jb_record (snd s ! n)) \<and>
           ds = env_dataset (jb_record (snd s ! n)) \<and> rid = env_id (jb_record (snd s ! n)))) \<and>
     marks_grow i0 (fst s) \<and>
     (\<forall>n < length (snd s). past_guard (snd s ! n) \<longrightarrow> \<not> outdated i0 (snd s ! n))"

lemma convergingD:
  assumes "converging rt i0 (i, js)"
  shows "interleaving_ok rt i0 (i, js)" and "in_replay i \<noteq> None"
    and "n < length js \<Longrightarrow> servable rt i (js ! n)"
    and "mark_of i k = Some r \<Longrightarrow> supersedes js k r \<or> (\<exists>m. mark_of i0 k = Some m \<and> r \<le> m)"
    and "n < length js \<Longrightarrow> jb_phase (js ! n) = Refused x \<Longrightarrow>
        supersedes js (job_key (js ! n)) (job_revision (js ! n)) \<or> outdated i0 (js ! n)"
    and "held i ds rid = Some c \<Longrightarrow>
        (\<exists>c0. held i0 ds rid = Some c0 \<and> conflict_key (pr_envelope c) = conflict_key (pr_envelope c0)) \<or>
        (\<exists>n < length js. \<not> outdated i0 (js ! n) \<and> conflict_key (pr_envelope c) = conflict_key (jb_record (js ! n)) \<and>
           ds = env_dataset (jb_record (js ! n)) \<and> rid = env_id (jb_record (js ! n)))"
    and "marks_grow i0 i" and "n < length js \<Longrightarrow> past_guard (js ! n) \<Longrightarrow> \<not> outdated i0 (js ! n)"
  using assms unfolding converging_def fst_conv snd_conv by blast+

lemma convergingI:
  assumes "interleaving_ok rt i0 (i, js)" and "in_replay i \<noteq> None"
    and "\<And>n. n < length js \<Longrightarrow> servable rt i (js ! n)"
    and "\<And>k r. mark_of i k = Some r \<Longrightarrow> supersedes js k r \<or> (\<exists>m. mark_of i0 k = Some m \<and> r \<le> m)"
    and "\<And>n x. n < length js \<Longrightarrow> jb_phase (js ! n) = Refused x \<Longrightarrow>
        supersedes js (job_key (js ! n)) (job_revision (js ! n)) \<or> outdated i0 (js ! n)"
    and "\<And>ds rid c. held i ds rid = Some c \<Longrightarrow>
        (\<exists>c0. held i0 ds rid = Some c0 \<and> conflict_key (pr_envelope c) = conflict_key (pr_envelope c0)) \<or>
        (\<exists>n < length js. \<not> outdated i0 (js ! n) \<and> conflict_key (pr_envelope c) = conflict_key (jb_record (js ! n)) \<and>
           ds = env_dataset (jb_record (js ! n)) \<and> rid = env_id (jb_record (js ! n)))"
    and "marks_grow i0 i" and "\<And>n. n < length js \<Longrightarrow> past_guard (js ! n) \<Longrightarrow> \<not> outdated i0 (js ! n)"
  shows "converging rt i0 (i, js)"
  using assms unfolding converging_def fst_conv snd_conv by blast

lemma outdated_le: "marks_grow i0 i \<Longrightarrow> outdated i0 j \<Longrightarrow> outdated i j"
  unfolding outdated_def by (rule marks_growD)

lemma outdated_request: "same_request j j' \<Longrightarrow> outdated i j' = outdated i j"
  using job_key_request [of j j'] by (simp add: outdated_def)

lemma converging_step:
  assumes inv: "converging rt i0 s" and move: "ingest_step rt s s'"
  shows "converging rt i0 s'"
  using move
proof cases
  case (job_moves k js i i' j')
  note inv' = inv [unfolded job_moves(1)] and k = job_moves(3) and run = job_moves(5)
  note D = convergingD [OF inv']
  have jk: "job_ok rt i (js ! k) (jb_phase (js ! k))" using D(1) k by (simp add: interleaving_ok_def)
  have wr: "wo_replay (jb_writes (js ! k))" using D(3) [OF k] by (simp add: servable_def)
  note keeps = move_keeps [OF run jk] and serves = move_serves [OF run D(3) [OF k] jk D(2)]
    and guard = move_guard [OF run D(2) wr]
  have same: "same_request (js ! k) j'" by (rule ingest_move_request [OF run])
  have field: "job_key (js[k := j'] ! n) = job_key (js ! n)" "job_revision (js[k := j'] ! n) = job_revision (js ! n)"
    "jb_record (js[k := j'] ! n) = jb_record (js ! n)" "outdated i0 (js[k := j'] ! n) = outdated i0 (js ! n)" for n
    using job_key_request [OF same] same_request_fields [OF same] outdated_request [OF same] k by (cases "n = k"; simp)+
  have past: "past_guard (js[k := j'] ! n)" if "past_guard (js ! n)" for n
  proof (cases "n = k")
    case True
    then have "jb_phase (js ! k) \<noteq> Arrived" using that by (auto simp: past_guard_def)
    then show ?thesis using serves that True k by simp
  qed (use that in simp)
  have super: "supersedes (js[k := j']) key r" if "supersedes js key r" for key r
    using that past field by (auto simp: supersedes_def)
  have "converging rt i0 (i', js[k := j'])"
  proof (rule convergingI)
    show "interleaving_ok rt i0 (i', js[k := j'])"
      using interleaving_step [OF D(1)] move by (simp add: job_moves(1,2))
    show "in_replay i' \<noteq> None" using guard by blast
    show "servable rt i' (js[k := j'] ! n)" if "n < length (js[k := j'])" for n
    proof -
      have "servable rt i (js[k := j'] ! n)"
        using D(3) [of n] D(3) [OF k] servable_request [OF same] that by (cases "n = k") simp_all
      then show ?thesis using serves grows_keeps(4) [OF conjunct1 [OF keeps]] by (simp add: servable_def)
    qed
    show "supersedes (js[k := j']) key r \<or> (\<exists>m. mark_of i0 key = Some m \<and> r \<le> m)" if mark: "mark_of i' key = Some r" for key r
    proof (cases "mark_of i key = Some r")
      case False
      then have "admits i (js ! k) i' j'" "key = job_key (js ! k)" "r = job_revision (js ! k)"
        using guard mark by (auto simp: admits_def split: if_splits)
      then show ?thesis using k job_key_request [OF same] by (auto simp: supersedes_def admits_def)
    qed (use super D(4) in blast)
    show "supersedes (js[k := j']) (job_key (js[k := j'] ! n)) (job_revision (js[k := j'] ! n)) \<or> outdated i0 (js[k := j'] ! n)"
      if n: "n < length (js[k := j'])" and ref: "jb_phase (js[k := j'] ! n) = Refused x" for n x
    proof (cases "n = k")
      case True
      then have "outdated i (js ! k) \<or> (\<exists>x. jb_phase (js ! k) = Refused x)" using ref k serves by auto
      then have "supersedes js (job_key (js ! k)) (job_revision (js ! k)) \<or> outdated i0 (js ! k)"
      proof
        assume "outdated i (js ! k)"
        then obtain m where m: "mark_of i (job_key (js ! k)) = Some m" "job_revision (js ! k) \<le> m"
          by (auto simp: outdated_def)
        from D(4) [OF m(1)] show ?thesis
          using supersedes_le [OF _ m(2)] order_trans [OF m(2)] by (auto simp: outdated_def)
      qed (use D(5) [OF k] in blast)
      then show ?thesis using super field True by auto
    next
      case False
      then show ?thesis using super D(5) [of n x] n ref field by auto
    qed
    show "(\<exists>c0. held i0 ds rid = Some c0 \<and> conflict_key (pr_envelope c) = conflict_key (pr_envelope c0)) \<or>
        (\<exists>n < length (js[k := j']). \<not> outdated i0 (js[k := j'] ! n) \<and> conflict_key (pr_envelope c) = conflict_key (jb_record (js[k := j'] ! n)) \<and>
           ds = env_dataset (jb_record (js[k := j'] ! n)) \<and> rid = env_id (jb_record (js[k := j'] ! n)))"
      if c: "held i' ds rid = Some c" for ds rid c
      using move_provenance [OF run c]
    proof
      assume "\<exists>c0. held i ds rid = Some c0 \<and> conflict_key (pr_envelope c) = conflict_key (pr_envelope c0)"
      then obtain c0 where "held i ds rid = Some c0" "conflict_key (pr_envelope c) = conflict_key (pr_envelope c0)"
        by blast
      then show ?thesis using D(6) [of ds rid c0] unfolding field length_list_update by simp
    qed (use k field D(8) [OF k] in auto)
    show "marks_grow i0 i'"
      using D(7) guard marks_growD by (fastforce simp: marks_grow_def admits_def less_imp_le)
    show "\<not> outdated i0 (js[k := j'] ! n)" if n: "n < length (js[k := j'])" and p: "past_guard (js[k := j'] ! n)" for n
    proof (cases "n = k \<and> admits i (js ! k) i' j'")
      case True
      then have "\<not> outdated i (js ! k)" by (auto simp: outdated_def admits_def)
      then show ?thesis using outdated_le [OF D(7)] field True by auto
    next
      case False
      then have "past_guard (js ! n)" using guard p n by (cases "n = k") auto
      then show ?thesis using D(8) n field by simp
    qed
  qed
  then show ?thesis by (simp add: job_moves(2))
qed

lemma converging_start:
  assumes "all_arrived js" and "in_replay i \<noteq> None" and "\<forall>j \<in> set js. servable rt i j"
  shows "converging rt i (i, js)"
  by (rule convergingI)
    (use assms interleaving_start in \<open>auto simp: all_arrived_def marks_grow_def past_guard_def\<close>)

lemma converging_schedule: "schedule rt s s' \<Longrightarrow> converging rt i s \<Longrightarrow> converging rt i s'"
  by (induction rule: rtranclp_induct) (auto intro: converging_step)

definition same_revision_same_key :: "job list \<Rightarrow> bool" where
  "same_revision_same_key js \<longleftrightarrow> (\<forall>j \<in> set js. \<forall>j' \<in> set js. job_key j = job_key j' \<longrightarrow>
     job_revision j = job_revision j' \<longrightarrow> conflict_key (jb_record j) = conflict_key (jb_record j'))"

lemma job_key_fields:
  "job_key j = job_key j' \<Longrightarrow> env_dataset (jb_record j) = env_dataset (jb_record j') \<and> env_id (jb_record j) = env_id (jb_record j')"
  by (simp add: job_key_def replay_key_of_def)

lemma converged_above:
  assumes inv: "converging rt i (i', js')" and same: "list_all2 same_request js js'" and finished: "all_answered js'"
    and keys: "same_revision_same_key js" and j: "j \<in> set js" and current: "\<not> outdated i j"
  shows "held_from i' (jb_record j)"
proof -
  note D = convergingD [OF inv]
  have len: "length js' = length js" using same by (simp add: list_all2_conv_all_nth)
  have field: "jb_record (js' ! n) = jb_record (js ! n)" "job_key (js' ! n) = job_key (js ! n)" if "n < length js" for n
    using same that same_request_fields job_key_request by (auto simp: list_all2_conv_all_nth)
  have answered: "held_from i' (jb_record (js ! n))" if "n < length js" "jb_phase (js' ! n) = Answered r" for n r
  proof -
    have "job_ok rt i' (js' ! n) (jb_phase (js' ! n))" using D(1) that(1) len by (simp add: interleaving_ok_def)
    then show ?thesis using that(2) field [OF that(1)] by simp
  qed
  have final: "(\<exists>r. jb_phase (js' ! n) = Answered r) \<or> (\<exists>x. jb_phase (js' ! n) = Refused x)" if "n < length js" for n
    using finished that len unfolding all_answered_def
    by (cases "jb_phase (js' ! n)") (metis answer.simps nth_mem)+
  obtain n where n: "n < length js" "j = js ! n" using j by (auto simp: in_set_conv_nth)
  show ?thesis
  proof (cases "\<exists>r. jb_phase (js' ! n) = Answered r")
    case True
    then show ?thesis using answered n by blast
  next
    case False
    then obtain x where "jb_phase (js' ! n) = Refused x" using final [OF n(1)] by blast
    then have "supersedes js' (job_key (js ! n)) (job_revision (js ! n))"
      using D(5) [of n x] n len field current by (auto simp: outdated_def)
    then obtain m where m: "m < length js" "past_guard (js' ! m)" "job_key (js ! m) = job_key (js ! n)"
      "job_revision (js ! n) \<le> job_revision (js ! m)"
      using field len by (auto simp: supersedes_def)
    then have "held_from i' (jb_record (js ! m))"
      using answered final [OF m(1)] by (auto simp: past_guard_def)
    moreover have "conflict_key (jb_record (js ! n)) \<le> conflict_key (jb_record (js ! m))"
    proof (cases "job_revision (js ! n) = job_revision (js ! m)")
      case True
      then show ?thesis using keys m n by (metis nth_mem order_refl same_revision_same_key_def)
    next
      case False
      then have "job_revision (js ! n) < job_revision (js ! m)" using m(4) by simp
      then show ?thesis by (simp add: conflict_key_def less_eq_prod_def)
    qed
    ultimately show ?thesis using job_key_fields [OF m(3)] n(2) order_trans by (auto simp: held_from_def)
  qed
qed

lemma converged_compare:
  assumes inv: "converging rt i (i1, js1)" "list_all2 same_request js js1"
    and other: "converging rt i (i2, js2)" "list_all2 same_request js js2" "all_answered js2"
    and keys: "same_revision_same_key js" and c1: "held i1 ds rid = Some c1"
  shows "\<exists>c2. held i2 ds rid = Some c2 \<and> conflict_key (pr_envelope c1) \<le> conflict_key (pr_envelope c2)"
  using convergingD(6) [OF inv(1) c1]
proof
  assume "\<exists>c0. held i ds rid = Some c0 \<and> conflict_key (pr_envelope c1) = conflict_key (pr_envelope c0)"
  moreover have "grows i i2" using convergingD(1) [OF other(1)] by (simp add: interleaving_ok_def)
  ultimately show ?thesis unfolding grows_def by metis
next
  assume "\<exists>n < length js1. \<not> outdated i (js1 ! n) \<and> conflict_key (pr_envelope c1) = conflict_key (jb_record (js1 ! n)) \<and>
      ds = env_dataset (jb_record (js1 ! n)) \<and> rid = env_id (jb_record (js1 ! n))"
  then obtain n where n: "n < length js1" "conflict_key (pr_envelope c1) = conflict_key (jb_record (js1 ! n))"
    "ds = env_dataset (jb_record (js1 ! n))" "rid = env_id (jb_record (js1 ! n))" "\<not> outdated i (js1 ! n)" by blast
  have len: "n < length js" and same: "same_request (js ! n) (js1 ! n)"
    using inv(2) n(1) by (auto simp: list_all2_conv_all_nth)
  have rec: "jb_record (js1 ! n) = jb_record (js ! n)" and current: "\<not> outdated i (js ! n)"
    using same_request_fields [OF same] outdated_request [OF same] n(5) by simp_all
  have "held_from i2 (jb_record (js ! n))"
    by (rule converged_above [OF other keys _ current]) (use len in simp)
  then show ?thesis using n rec by (simp add: held_from_def)
qed

text \<open>
  C10. All schedules agree. Let ingestions be cleared by signature, providers and policy, their stores
  readable and the writes of guard and stores successful, and let a device use a revision of a
  record for one envelope only. Then, whatever the guard had marked and the stores held before, when
  all have been answered each store holds of each record an envelope with the same conflict key
  in every interleaving: although the guard turns away different ingestions in different
  interleavings, what is held is no older than anything presented that the marks of the start allowed.
\<close>

theorem schedules_agree:
  assumes "all_arrived js" and "in_replay i \<noteq> None"
    and "\<forall>j \<in> set js. servable rt i j" and "same_revision_same_key js"
    and "schedule rt (i, js) (i1, js1)" and "all_answered js1"
    and "schedule rt (i, js) (i2, js2)" and "all_answered js2"
  shows "(\<forall>ds rid. map_option (\<lambda>c. conflict_key (pr_envelope c)) (held i1 ds rid) =
      map_option (\<lambda>c. conflict_key (pr_envelope c)) (held i2 ds rid)) \<and>
    (\<forall>j \<in> set js. \<not> outdated i j \<longrightarrow> (\<exists>c. held i1 (env_dataset (jb_record j)) (env_id (jb_record j)) = Some c \<and>
       conflict_key (jb_record j) \<le> conflict_key (pr_envelope c)))"
proof (intro conjI allI ballI impI)
  note start = converging_start [OF assms(1-3)]
  note one = converging_schedule [OF assms(5) start] and two = converging_schedule [OF assms(7) start]
  have same1: "list_all2 same_request js js1" and same2: "list_all2 same_request js js2"
    using schedule_requests [OF assms(5)] schedule_requests [OF assms(7)] by simp_all
  note to2 = converged_compare [OF one same1 two same2 assms(8,4)]
    and to1 = converged_compare [OF two same2 one same1 assms(6,4)]
  fix ds rid
  show "map_option (\<lambda>c. conflict_key (pr_envelope c)) (held i1 ds rid) =
      map_option (\<lambda>c. conflict_key (pr_envelope c)) (held i2 ds rid)"
  proof (cases "held i1 ds rid")
    case None
    then have "held i2 ds rid = None" using to1 [of ds rid] by (cases "held i2 ds rid") auto
    then show ?thesis using None by simp
  next
    case (Some c1)
    obtain c2 where c2: "held i2 ds rid = Some c2" "conflict_key (pr_envelope c1) \<le> conflict_key (pr_envelope c2)"
      using to2 [OF Some] by blast
    then have "conflict_key (pr_envelope c2) \<le> conflict_key (pr_envelope c1)" using to1 [OF c2(1)] Some by auto
    then show ?thesis using Some c2 by simp
  qed
next
  note start = converging_start [OF assms(1-3)]
  have same: "list_all2 same_request js js1" using schedule_requests [OF assms(5)] by simp
  fix j assume "j \<in> set js" "\<not> outdated i j"
  from converged_above [OF converging_schedule [OF assms(5) start] same assms(6,4) this]
  show "\<exists>c. held i1 (env_dataset (jb_record j)) (env_id (jb_record j)) = Some c \<and>
       conflict_key (jb_record j) \<le> conflict_key (pr_envelope c)"
    by (simp add: held_from_def)
qed

section \<open>Every schedule ends\<close>

fun moves_left :: "phase \<Rightarrow> nat" where
  "moves_left Arrived = 4"
| "moves_left Admitted = 3"
| "moves_left (Decided _ _) = 2"
| "moves_left (Stored _ _) = 1"
| "moves_left (Refused _) = 0"
| "moves_left (Answered _) = 0"

definition work_left :: "job list \<Rightarrow> nat" where
  "work_left js = sum_list (map (\<lambda>j. moves_left (jb_phase j)) js)"

lemma moves_left_answer: "moves_left p = 0 \<longleftrightarrow> answer p \<noteq> None"
  by (cases p) simp_all

lemma move_works:
  "ingest_move rt i j = (i', j') \<Longrightarrow> answer (jb_phase j) = None \<Longrightarrow> moves_left (jb_phase j') < moves_left (jb_phase j)"
  by (auto simp: ingest_move_def Let_def split: phase.splits sum.splits prod.splits)

lemma work_left_update:
  "k < length js \<Longrightarrow> work_left (js[k := j']) + moves_left (jb_phase (js ! k)) = work_left js + moves_left (jb_phase j')"
  unfolding work_left_def by (induction js arbitrary: k) (auto simp: nth_Cons split: nat.splits)

lemma work_left_step: "ingest_step rt s s' \<Longrightarrow> work_left (snd s') < work_left (snd s)"
proof (induction rule: ingest_step.induct)
  case (job_moves k js i i' j')
  then show ?case using move_works [OF job_moves(3,2)] work_left_update [OF job_moves(1), of j'] by simp
qed

lemma work_left_answered: "work_left js = 0 \<longleftrightarrow> all_answered js"
  by (auto simp: work_left_def all_answered_def moves_left_answer)

lemma step_possible:
  assumes "\<not> all_answered js"
  shows "\<exists>s'. ingest_step rt (i, js) s'"
proof -
  obtain k where k: "k < length js" "answer (jb_phase (js ! k)) = None"
    using assms by (auto simp: all_answered_def in_set_conv_nth)
  then show ?thesis using job_moves [OF k, of rt i] by (cases "ingest_move rt i (js ! k)") blast
qed

lemma completion_exists: "\<exists>i' js'. schedule rt (i, js) (i', js') \<and> all_answered js'"
proof (induction "work_left js" arbitrary: i js rule: less_induct)
  case less
  show ?case
  proof (cases "all_answered js")
    case False
    then obtain i1 js1 where step: "ingest_step rt (i, js) (i1, js1)" using step_possible by fastforce
    then show ?thesis
      using less [of js1 i1] work_left_step [OF step] by (auto intro: converse_rtranclp_into_rtranclp)
  qed auto
qed

section \<open>Concrete inputs\<close>

text \<open>The same signed record delivered twice at once.\<close>

definition sample_job :: job where
  "sample_job = \<lparr>jb_peer = sample_peer, jb_record = sample_record, jb_proof = sample_proof, jb_clock = 0,
     jb_writes = writes_ok, jb_phase = Arrived\<rparr>"

lemma sample_job_servable: "servable sample_runtime sample_ingestor sample_job"
  using sample_proof_verifies sample_record_authorized
  by (auto simp: servable_def cleared_def signed_def providers_decide_def sample_job_def sample_ingestor_def
      sample_providers_def store_open_def writes_ok_def is_ok_def sample_record_def)

lemma sample_jobs:
  "all_arrived [sample_job, sample_job]" "in_replay sample_ingestor \<noteq> None" "mark_of sample_ingestor = Map.empty"
  "\<forall>j \<in> set [sample_job, sample_job]. servable sample_runtime sample_ingestor j"
  "\<forall>j \<in> set [sample_job, sample_job]. wo_replay (jb_writes j)"
  "same_revision_same_key [sample_job, sample_job]" "sample_job \<in> set [sample_job, sample_job]"
  using sample_job_servable
  by (simp_all add: all_arrived_def sample_job_def sample_ingestor_def mark_of_def [abs_def] new_replay_guard_def
      writes_ok_def same_revision_same_key_def)

lemma concurrent_ingest_fails_closed_witness:
  "\<exists>i' js'. schedule sample_runtime (sample_ingestor, [sample_job, sample_job]) (i', js') \<and> all_answered js' \<and>
     held i' ''search.history'' ''h2'' = None"
proof -
  obtain i' js' where run: "schedule sample_runtime (sample_ingestor, [sample_job, sample_job]) (i', js')"
    "all_answered js'" using completion_exists by blast
  have "held sample_ingestor ''search.history'' ''h2'' = None" by (simp add: held_def sample_ingestor_def)
  moreover have "env_id (jb_record sample_job) \<noteq> ''h2''" by (simp add: sample_job_def sample_record_def)
  ultimately have "held i' ''search.history'' ''h2'' = None"
    using spec [OF spec [OF conjunct1 [OF concurrent_ingest_fails_closed [OF sample_jobs(1) run(1)]],
        of "''search.history''"], of "''h2''"] by auto
  then show ?thesis using run by blast
qed

lemma concurrent_duplicates_admitted_once_witness:
  "\<exists>i' js'. schedule sample_runtime (sample_ingestor, [sample_job, sample_job]) (i', js') \<and> all_answered js' \<and>
     \<not> (past_guard (js' ! 0) \<and> past_guard (js' ! 1))"
proof -
  obtain i' js' where run: "schedule sample_runtime (sample_ingestor, [sample_job, sample_job]) (i', js')"
    "all_answered js'" using completion_exists by blast
  show ?thesis
    using run concurrent_duplicates_admitted_once [OF sample_jobs(1,2) _ run(1), of 0 1] sample_jobs(5) by auto
qed

lemma schedules_agree_witness:
  "\<exists>i1 js1. schedule sample_runtime (sample_ingestor, [sample_job, sample_job]) (i1, js1) \<and> all_answered js1 \<and>
     (\<exists>c. held i1 ''search.history'' ''h1'' = Some c \<and> conflict_key sample_record \<le> conflict_key (pr_envelope c))"
proof -
  obtain i1 js1 where one: "schedule sample_runtime (sample_ingestor, [sample_job, sample_job]) (i1, js1)"
    "all_answered js1" using completion_exists by blast
  have "env_dataset (jb_record sample_job) = ''search.history''" "env_id (jb_record sample_job) = ''h1''"
    "jb_record sample_job = sample_record" "\<not> outdated sample_ingestor sample_job"
    using sample_jobs(3) by (simp_all add: sample_job_def sample_record_def outdated_def)
  then show ?thesis
    using one bspec [OF conjunct2 [OF schedules_agree [OF sample_jobs(1,2,4,6) one one]] sample_jobs(7)] by auto
qed

end
