(* ===== verification/Delivery.thy ===== *)
theory Delivery
  imports Http_Api Concurrent_Ingest
begin

text \<open>
  From ingestion to retrieval over HTTP: what a device that reads a dataset gets after another
  device's record was answered with success, and while records of other devices are being
  ingested. The client that follows the cursors stands here.
\<close>

section \<open>A client that reads a dataset\<close>

text \<open>
  Each request of the client is handled in some state of the server, at some clock reading, with
  the two resolvers of the service; the next one finds the server in some later state. \<open>lk_write\<close>
  says whether the session file can be written.
\<close>

record look =
  lk_clock :: time
  lk_write :: bool
  lk_server :: "session_resolver trusted_resolver server"

fun http_fetch ::
  "runtime \<Rightarrow> (bytes \<times> persisted_record) list \<Rightarrow> look list \<Rightarrow> http_request \<Rightarrow> bytes \<Rightarrow> record_envelope list option" where
  "http_fetch rt readable [] q ds = None"
| "http_fetch rt readable (l # ls) q ds =
     (case handle_dataset_retrieve (trusted_resolve_peer rt (session_resolve_peer rt (lk_clock l) (lk_write l))) readable
         (lk_server l) q ds of
        (rs, _) \<Rightarrow>
          if rs_status rs \<noteq> 200 then None
          else case rs_body rs of
            Page _ _ page next_after \<Rightarrow>
              if next_after = [] then Some page
              else map_option ((@) page) (http_fetch rt readable ls (q\<lparr>rq_after := next_after\<rparr>) ds)
          | _ \<Rightarrow> None)"

text \<open>
  The client is admitted when it looks: its token has a session that has not expired at the clock
  reading, and the key of the session's peer is trusted for the account.
\<close>

definition admits_look :: "runtime \<Rightarrow> http_request \<Rightarrow> authenticated_peer \<Rightarrow> look \<Rightarrow> bool" where
  "admits_look rt q peer l \<longleftrightarrow> (\<exists>r. sv_resolver (lk_server l) = Some r \<and> tr_account r \<noteq> [] \<and>
     trusted_admits rt (session_admits rt (lk_clock l)) r q peer)"

lemma bearer_trimmed: "bearer_token q = Inr token \<Longrightarrow> trim_space token = token \<and> token \<noteq> []"
  by (auto simp: bearer_token_def Let_def split: if_splits)

lemma session_open_resolves:
  assumes "session_admits rt clock r q peer"
  shows "session_resolve_peer rt clock ok r (Some (q\<lparr>rq_after := cursor\<rparr>)) = (Inr peer, r)"
proof -
  obtain d token s where r: "sr_sessions r = Some d" and token: "bearer_token q = Inr token"
    and s: "session_at d (token_hash rt (trim_space token)) = Some s" "ps_peer s = peer"
      "let now = (case sr_now r of None \<Rightarrow> clock | Some t \<Rightarrow> t) in (if time_is_zero now then clock else now) < ps_expires s"
    using assms by (auto simp: session_admits_def)
  let ?now = "case sr_now r of None \<Rightarrow> clock | Some t \<Rightarrow> t"
  have "resolve_session rt d token ?now clock ok = (Inr peer, d)"
    using s bearer_trimmed [OF token] by (simp add: resolve_session_Inr Let_def)
  moreover have "bearer_token (q\<lparr>rq_after := cursor\<rparr>) = Inr token"
    using token by (simp add: bearer_token_def)
  moreover have "r\<lparr>sr_sessions := Some d\<rparr> = r" using r by (cases r) simp
  ultimately show ?thesis by (simp add: session_resolve_peer_def r)
qed

lemma admitted_resolves:
  assumes "trusted_admits rt (session_admits rt clock) r q peer" and "tr_account r \<noteq> []"
  shows "trusted_resolve_peer rt (session_resolve_peer rt clock ok) r (Some (q\<lparr>rq_after := cursor\<rparr>)) = (Inr peer, r)"
proof -
  obtain inner trust where r: "tr_inner r = Some inner" "tr_trust r = Some trust"
    "is_trusted rt trust (tr_account r) (ap_device peer) (ap_fingerprint peer) = Inr True"
    and open_: "session_admits rt clock inner q peer"
    using assms(1) by (auto simp: trusted_admits_def)
  have "r\<lparr>tr_inner := Some inner\<rparr> = r" using r(1) by (cases r) simp
  then show ?thesis
    using r assms(2) session_open_resolves [OF open_] by (simp add: trusted_resolve_peer_def)
qed

lemma retrieval_page_cursor:
  "retrieval_page q = Inr (limit, s) \<Longrightarrow> length cursor \<le> max_record_id_bytes \<Longrightarrow>
     retrieval_page (q\<lparr>rq_after := cursor\<rparr>) = Inr (limit, cursor)"
  by (auto simp: retrieval_page_def result_iff split: if_splits sum.splits)

lemma served_cursor:
  assumes "validated_persisted_page readable d cap cursor limit = Inr (page, next_after)" and "next_after \<noteq> []"
  shows "length next_after \<le> max_record_id_bytes"
proof -
  note served = page_served [OF assms(1)]
  then have "page \<noteq> []" "next_after = env_id (last page)" using assms(2) by auto
  then show ?thesis using served by (auto simp: max_record_id_bytes_def dest: validate_record_bounds)
qed

lemma retrieve_once:
  assumes "sv_ingestor (lk_server l) = Some i" and "admits_look rt q peer l"
    and "peer_read_capability peer ds = Some c"
    and "retrieval_page q = Inr (limit, s)" and "store_for i ds = Some (Some d)"
    and "length cursor \<le> max_record_id_bytes"
    and "validated_persisted_page readable d (c\<lparr>cap_write := True, cap_delete := True\<rparr>) cursor limit = Inr (page, next_after)"
  shows "fst (handle_dataset_retrieve (trusted_resolve_peer rt (session_resolve_peer rt (lk_clock l) (lk_write l))) readable
      (lk_server l) (q\<lparr>rq_after := cursor\<rparr>) ds) = http_json 200 (Page ds (length page) page next_after)"
proof -
  obtain r where "sv_resolver (lk_server l) = Some r"
    "trusted_resolve_peer rt (session_resolve_peer rt (lk_clock l) (lk_write l)) r (Some (q\<lparr>rq_after := cursor\<rparr>)) = (Inr peer, r)"
    using assms(2) admitted_resolves by (auto simp: admits_look_def)
  then show ?thesis
    using assms retrieval_page_cursor [OF assms(4,6)]
    by (simp add: handle_dataset_retrieve_def Let_def)
qed

section \<open>The store a dataset is read from is the one it was written to\<close>

lemma dispatch_store:
  assumes "dispatch e p v t now clock ok i = (Inr ev, i')"
  shows "\<exists>d d' err. store_for i (env_dataset e) = Some (Some d) \<and> store_for i' (env_dataset e) = Some (Some d') \<and>
    accept_and_persist (env_dataset e) err e p v t now clock d ok = (Inr ev, d')"
proof -
  have browser: "\<exists>err. accept_and_persist (env_dataset e) err e p v t now clock (bs_disk s) ok = (Inr ev, bs_disk s')"
    if "browser_accept e p v t now clock s ok = (Inr ev, s')" for s s'
  proof -
    have "env_dataset e = bs_dataset s" using browser.same_dataset [OF that] by simp
    then show ?thesis using that by (auto simp: browser_accept_def split: prod.splits)
  qed
  show ?thesis
    using assms
    by (auto simp: dispatch_def store_for_def search_accept_def bookmark_accept_def
        split: if_splits option.splits prod.splits dest!: browser)
qed

lemma store_for_replay: "store_for (after_guard i peer e ok) ds = store_for i ds"
  by (simp add: after_guard_def store_for_def split: prod.splits)

lemma store_for_receipts: "store_for (i\<lparr>in_receipts := x\<rparr>) ds = store_for i ds"
  by (simp add: store_for_def)

lemma store_for_acknowledge:
  "acknowledge rt i peer e ev now clock ok = (r, i') \<Longrightarrow> store_for i' ds = store_for i ds"
  using acknowledge_state [of rt i peer e ev now clock ok r i'] store_for_receipts by auto

lemma held_store: "store_for i ds = Some (Some d) \<Longrightarrow> held i ds rid = stored_at d rid"
  by (auto simp: store_for_def held_def split: if_splits option.splits)

lemma ingested_store:
  assumes run: "ingest rt i peer e proof clock w = (Inr x, i')" and d: "store_for i (env_dataset e) = Some (Some d)"
    and cap: "retrievable cap d" "survives_file e" "\<And>c. validate_record e c = Inr () \<Longrightarrow> validate_record e cap = Inr ()"
  shows "\<exists>d' c. store_for i' (env_dataset e) = Some (Some d') \<and> retrievable cap d' \<and>
    stored_at d' (env_id e) = Some c \<and> conflict_key e \<le> conflict_key (pr_envelope c)"
  using run
proof (cases rule: ingest_cases)
  case (written v t now ev i2)
  obtain d1 d2 err where store: "store_for (after_guard i peer e (wo_replay w)) (env_dataset e) = Some (Some d1)"
    "store_for i2 (env_dataset e) = Some (Some d2)"
    and acc: "accept_and_persist (env_dataset e) err e peer v t now clock d1 (wo_store w) = (Inr ev, d2)"
    using dispatch_store [OF written(2)] by blast
  have d1: "d1 = d" using store(1) d by (simp add: store_for_replay)
  have "retrievable cap d2"
    by (rule accept_retrievable [OF acc]) (use cap d1 in auto)
  moreover have "store_for i' (env_dataset e) = Some (Some d2)"
    using store(2) store_for_acknowledge [OF written(3)] by simp
  moreover have "held_from i2 e" by (rule grows_dispatch(2) [OF written(2)])
  ultimately show ?thesis using held_store [OF store(2)] by (auto simp: held_from_def)
qed simp

lemma stored_in_page:
  assumes cap: "retrievable cap d" and c: "stored_at d rid = Some c"
  shows "\<exists>ms rs. disk_file d = Holds ms \<and> (\<forall>p \<in> set ms. member_ok cap p) \<and> sorted_records d = Inr rs \<and>
    pr_envelope c \<in> set rs \<and> env_id (pr_envelope c) = rid"
proof -
  obtain ms where ms: "disk_file d = Holds ms" "\<forall>p \<in> set ms. member_ok cap p \<and> stored_form (snd p) = snd p"
    using cap c by (auto simp: retrievable_def stored_at_def load_records_def split: content.splits)
  obtain r where r: "map_of (map_from ms) rid = Some r" "c = stored_form r"
    using c ms(1) by (auto simp: stored_at_def load_records_def)
  have mem: "(rid, r) \<in> set (map_from ms)" using r(1) by (rule map_of_SomeD)
  then have "(rid, r) \<in> set ms" using set_map_from [of ms] by blast
  then have "member_ok cap (rid, r)" and same: "c = r" using ms(2) r(2) by (auto dest: bspec)
  then have "env_id (pr_envelope c) = rid" by (simp add: member_ok_def)
  moreover have "pr_envelope c \<in> set (sort_key env_id (map (pr_envelope \<circ> snd) (map_from ms)))"
    using mem same by force
  ultimately show ?thesis using ms by (simp add: sorted_records_def load_records_def)
qed

section \<open>Reading while others write\<close>

text \<open>
  A reader's requests fall between the writes of others, so each page is read from a later state
  of the store. Ingestion only ever adds records and moves them up in the conflict order.
\<close>

definition evolves :: "record_disk \<Rightarrow> record_disk \<Rightarrow> bool" where
  "evolves d d' \<longleftrightarrow> (\<forall>rid c. stored_at d rid = Some c \<longrightarrow>
     (\<exists>c'. stored_at d' rid = Some c' \<and> conflict_key (pr_envelope c) \<le> conflict_key (pr_envelope c')))"

fun fetch_moving ::
  "(bytes \<times> persisted_record) list \<Rightarrow> record_disk list \<Rightarrow> capability \<Rightarrow> int \<Rightarrow> bytes \<Rightarrow> record_envelope list option" where
  "fetch_moving readable [] cap limit cursor = None"
| "fetch_moving readable (d # ds) cap limit cursor =
     (case validated_persisted_page readable d cap cursor limit of
        Inl _ \<Rightarrow> None
      | Inr (page, next_cursor) \<Rightarrow>
          if next_cursor = [] then Some page
          else map_option ((@) page) (fetch_moving readable ds cap limit next_cursor))"

lemma page_complete:
  assumes cap: "retrievable cap d" and page: "validated_persisted_page readable d cap cursor limit = Inr (page, next_after)"
    and c: "stored_at d rid = Some c" "cursor < rid" "next_after = [] \<or> rid \<le> next_after"
  shows "\<exists>e \<in> set page. env_id e = rid \<and> e = pr_envelope c"
proof -
  obtain ms rs where ms: "disk_file d = Holds ms" "\<forall>p \<in> set ms. member_ok cap p"
    and rs: "sorted_records d = Inr rs" "pr_envelope c \<in> set rs" "env_id (pr_envelope c) = rid"
    using stored_in_page [OF cap c(1)] by blast
  have limit: "1 \<le> limit" using page_served [OF page] by simp
  let ?S = "after_cursor cursor rs"
  have p: "(page, next_after) = page_of (nat limit) ?S"
    using page_holds [OF ms(1) limit rs(1)] ms(2) page by simp
  have mem: "pr_envelope c \<in> set ?S" using rs(2,3) c(2) by (simp add: after_cursor_def)
  have "pr_envelope c \<in> set page"
  proof (cases "length ?S \<le> nat limit")
    case True
    then show ?thesis using p mem by (simp add: page_of_def)
  next
    case False
    then have pg: "page = take (nat limit) ?S" "next_after = env_id (last page)" using p by (simp_all add: page_of_def Let_def)
    have ne: "page \<noteq> []" using pg(1) False limit by auto
    then have "last page \<in> set page" by simp
    then have "last page \<in> set rs" using pg(1) set_take_subset [of "nat limit" ?S] by (auto simp: after_cursor_def)
    then have "env_id (last page) \<noteq> []"
      using sorted_records_mem [OF ms(1) rs(1)] ms(2) member_id_nonempty by metis
    then have below: "rid \<le> env_id (last page)" using c(3) pg(2) by simp
    have "map_wf (keyed rs)" using sorted_records_wf [OF ms(1) _ rs(1)] ms(2) by (auto simp: member_ok_def)
    then have sorted: "sorted_wrt (\<lambda>x y. env_id x < env_id y) ?S"
      by (simp add: map_wf_def sorted_wrt_map after_cursor_def sorted_wrt_filter)
    then have split: "\<forall>x \<in> set (take (nat limit) ?S). \<forall>y \<in> set (drop (nat limit) ?S). env_id x < env_id y"
      by (metis append_take_drop_id sorted_wrt_append)
    show ?thesis
    proof (rule ccontr)
      assume "pr_envelope c \<notin> set page"
      then have "pr_envelope c \<in> set (drop (nat limit) ?S)"
        using mem pg(1) by (metis Un_iff append_take_drop_id set_append)
      then show False using split pg(1) \<open>last page \<in> set page\<close> below rs(3) by fastforce
    qed
  qed
  then show ?thesis using rs(3) by blast
qed

lemma moving_pages:
  assumes "\<forall>d \<in> set ds. retrievable cap d" and "successively evolves ds"
    and "fetch_moving readable ds cap limit cursor = Some rs"
  shows "sorted_wrt (<) (map env_id rs) \<and> (\<forall>e \<in> set rs. cursor < env_id e) \<and>
    (\<forall>rid c. stored_at (hd ds) rid = Some c \<longrightarrow> cursor < rid \<longrightarrow>
       (\<exists>e \<in> set rs. env_id e = rid \<and> conflict_key (pr_envelope c) \<le> conflict_key e))"
  using assms
proof (induction ds arbitrary: cursor rs)
  case (Cons d ds)
  obtain page next_after where page: "validated_persisted_page readable d cap cursor limit = Inr (page, next_after)"
    using Cons.prems(3) by (auto split: sum.splits)
  note served = page_served [OF page]
  have cap: "retrievable cap d" using Cons.prems(1) by simp
  show ?case
  proof (cases "next_after = []")
    case True
    then have "rs = page" using Cons.prems(3) page by simp
    then show ?thesis using served page_complete [OF cap page] True by auto
  next
    case False
    then obtain more where more: "fetch_moving readable ds cap limit next_after = Some more" "rs = page @ more"
      using Cons.prems(3) page by auto
    then obtain d' ds' where ds: "ds = d' # ds'" by (cases ds) auto
    have evo: "evolves d d'" and later: "successively evolves ds" using Cons.prems(2) ds by simp_all
    have IH: "sorted_wrt (<) (map env_id more)" "\<forall>e \<in> set more. next_after < env_id e"
      "\<forall>rid c. stored_at d' rid = Some c \<longrightarrow> next_after < rid \<longrightarrow>
         (\<exists>e \<in> set more. env_id e = rid \<and> conflict_key (pr_envelope c) \<le> conflict_key e)"
      using Cons.IH [OF _ later more(1)] Cons.prems(1) ds by auto
    have last: "next_after = env_id (last page)" "page \<noteq> []" using served False by auto
    have upto: "env_id e \<le> next_after" if "e \<in> set page" for e
      using served that last by (cases page rule: rev_cases) (auto simp: sorted_wrt_append less_imp_le)
    have "cursor < next_after" using served last by auto
    then have "\<forall>e \<in> set rs. cursor < env_id e" using served IH(2) more(2) by auto
    moreover have "sorted_wrt (<) (map env_id rs)"
      using served IH(1,2) upto more(2) by (auto simp: sorted_wrt_append intro: le_less_trans)
    moreover have "\<exists>e \<in> set rs. env_id e = rid \<and> conflict_key (pr_envelope c) \<le> conflict_key e"
      if c: "stored_at d rid = Some c" "cursor < rid" for rid c
    proof (cases "rid \<le> next_after")
      case True
      then show ?thesis using page_complete [OF cap page c] more(2) by auto
    next
      case above: False
      obtain c' where "stored_at d' rid = Some c'" and le: "conflict_key (pr_envelope c) \<le> conflict_key (pr_envelope c')"
        using evo c(1) by (auto simp: evolves_def)
      moreover have "next_after < rid" using above by (simp add: not_le)
      ultimately obtain e where "e \<in> set more" "env_id e = rid" "conflict_key (pr_envelope c') \<le> conflict_key e"
        using IH(3) by blast
      moreover from this(3) have "conflict_key (pr_envelope c) \<le> conflict_key e" by (rule order_trans [OF le])
      ultimately show ?thesis using more(2) by (intro bexI [of _ e]) simp_all
    qed
    ultimately show ?thesis by simp
  qed
qed simp

lemma page_held:
  assumes page: "validated_persisted_page readable d cap cursor limit = Inr (page, next_after)"
    and cap: "retrievable cap d" and e: "e \<in> set page"
  shows "stored_at d (env_id e) \<noteq> None"
proof -
  have "\<exists>m. load_records d = Inr m \<and> env_id e \<in> fst ` set m"
  proof (cases "disk_file d")
    case (Holds ms)
    obtain rs where rs: "sorted_records d = Inr rs" using Holds by (simp add: sorted_records_def load_records_def)
    have limit: "1 \<le> limit" using page_served [OF page] by simp
    have ms: "\<forall>p \<in> set ms. member_ok cap p" using cap Holds by (simp add: retrievable_def)
    have "e \<in> set rs"
      using page_holds [OF Holds limit rs] ms page e
      by (auto simp: page_of_def after_cursor_def Let_def split: if_splits dest: in_set_takeD)
    then obtain p where p: "p \<in> set (map_from ms)" "e = pr_envelope (snd p)"
      using rs Holds by (auto simp: sorted_records_def load_records_def)
    then have "fst p = env_id e" using ms set_map_from [of ms] by (auto simp: member_ok_def)
    then show ?thesis using p Holds by (force simp: load_records_def)
  qed (use page cap e in \<open>auto simp: validated_persisted_page_def retrievable_def split: if_splits\<close>)
  then obtain m where "load_records d = Inr m" "map_of m (env_id e) \<noteq> None"
    using map_of_eq_None_iff by metis
  then show ?thesis by (simp add: stored_at_def)
qed

text \<open>The reader ends when it gets as many looks at the store as there are records in it.\<close>

lemma moving_ends:
  assumes "\<forall>d \<in> set ds. retrievable cap d \<and> dom (stored_at d) \<subseteq> S" and "finite S" and "1 \<le> limit"
    and "card {r \<in> S. cursor < r} < length ds"
  shows "fetch_moving readable ds cap limit cursor \<noteq> None"
  using assms(1,4)
proof (induction ds arbitrary: cursor)
  case (Cons d ds)
  obtain page next_after where page: "validated_persisted_page readable d cap cursor limit = Inr (page, next_after)"
    using retrievable_page [of cap d limit readable cursor] Cons.prems(1) assms(3) by (auto simp: is_ok_iff)
  show ?case
  proof (cases "next_after = []")
    case False
    note served = page_served [OF page]
    have last: "next_after = env_id (last page)" "page \<noteq> []" using served False by auto
    then have "next_after \<in> S" "cursor < next_after"
      using page_held [OF page] served Cons.prems(1) by (auto dest!: last_in_set)
    then have "{r \<in> S. next_after < r} \<subset> {r \<in> S. cursor < r}" by auto
    then have "card {r \<in> S. next_after < r} < card {r \<in> S. cursor < r}"
      using assms(2) by (intro psubset_card_mono) auto
    then show ?thesis using Cons page False by simp
  qed (use page in simp)
qed simp

text \<open>Whatever moves an ingestion makes, the store stays one a reader can read.\<close>

lemma dispatch_other_store:
  assumes "dispatch e p v t now clock ok i = (Inr ev, i')" and "ds \<noteq> env_dataset e"
  shows "store_for i' ds = store_for i ds"
proof -
  consider x where "env_dataset e = ''search.history''" "i' = i\<lparr>in_history := x\<rparr>"
    | x where "env_dataset e = ''bookmarks.items''" "i' = i\<lparr>in_bookmarks := x\<rparr>"
    | x where "env_dataset e = ''browser.tabs''" "i' = i\<lparr>in_browser_tabs := x\<rparr>"
    | x where "env_dataset e = ''browser.history''" "i' = i\<lparr>in_browser_history := x\<rparr>"
    using assms(1) unfolding dispatch_def by (simp split: if_splits option.splits prod.splits) blast+
  then show ?thesis using assms(2) by cases (simp_all add: store_for_def)
qed

lemma store_for_guard [simp]: "store_for (i\<lparr>in_replay := g, in_replay_disk := d\<rparr>) ds = store_for i ds"
  by (simp add: store_for_def)

definition readable_store :: "capability \<Rightarrow> bytes \<Rightarrow> ingestor \<Rightarrow> bool" where
  "readable_store cap ds i \<longleftrightarrow> (\<exists>d. store_for i ds = Some (Some d) \<and> retrievable cap d)"

definition suits_reader :: "capability \<Rightarrow> job \<Rightarrow> bool" where
  "suits_reader cap j \<longleftrightarrow> (env_dataset (jb_record j) = cap_dataset cap \<longrightarrow>
     survives_file (jb_record j) \<and> env_schema (jb_record j) = cap_schema cap \<and> cap_write cap \<and> cap_delete cap)"

lemma dispatch_readable:
  assumes run: "dispatch (jb_record j) peer v t now clock ok i = (r, i')"
    and cap: "readable_store cap (cap_dataset cap) i" "suits_reader cap j"
  shows "readable_store cap (cap_dataset cap) i'"
proof (cases r)
  case (Inl x)
  then show ?thesis using run cap dispatch_failed by metis
next
  case (Inr ev)
  note run = run [unfolded Inr]
  show ?thesis
  proof (cases "cap_dataset cap = env_dataset (jb_record j)")
    case False
    then show ?thesis using cap dispatch_other_store [OF run] by (simp add: readable_store_def)
  next
    case True
    obtain d d' err where store: "store_for i (cap_dataset cap) = Some (Some d)" "store_for i' (cap_dataset cap) = Some (Some d')"
      and acc: "accept_and_persist (env_dataset (jb_record j)) err (jb_record j) peer v t now clock d ok = (Inr ev, d')"
      using dispatch_store [OF run] True by auto
    have "validate_record (jb_record j) cap = Inr ()" if "validate_record (jb_record j) c = Inr ()" for c
      using that cap(2) True by (auto simp: suits_reader_def validate_record_def payload_length_def split: if_splits)
    then have "retrievable cap d'"
      using accept_retrievable [OF acc] cap store(1) True by (auto simp: readable_store_def suits_reader_def)
    then show ?thesis using store(2) by (simp add: readable_store_def)
  qed
qed

lemma move_readable:
  assumes run: "ingest_move rt i j = (i', j')"
    and cap: "readable_store cap (cap_dataset cap) i" "suits_reader cap j"
  shows "readable_store cap (cap_dataset cap) i'"
proof (cases "jb_phase j")
  case Arrived
  then have "\<exists>g d. i' = i \<or> i' = i\<lparr>in_replay := g, in_replay_disk := d\<rparr>"
    using run by (auto simp: ingest_move_def Let_def split: sum.splits prod.splits)
  then show ?thesis using cap by (auto simp: readable_store_def)
next
  case (Decided v t)
  then show ?thesis
    using run cap dispatch_readable by (auto simp: ingest_move_def Let_def split: sum.splits prod.splits)
next
  case (Stored ev now)
  then show ?thesis
    using run cap store_for_acknowledge
    by (auto simp: ingest_move_def readable_store_def Let_def split: prod.splits)
qed (use run cap in \<open>auto simp: ingest_move_def Let_def split: sum.splits\<close>)

lemma suits_request: "same_request j j' \<Longrightarrow> suits_reader cap j' = suits_reader cap j"
  using same_request_fields [of j j'] by (simp add: suits_reader_def)

definition open_to :: "capability \<Rightarrow> ingestor \<times> job list \<Rightarrow> bool" where
  "open_to cap s \<longleftrightarrow> readable_store cap (cap_dataset cap) (fst s) \<and> (\<forall>j \<in> set (snd s). suits_reader cap j)"

lemma step_readable:
  assumes "ingest_step rt s s'" and ok: "open_to cap s"
  shows "open_to cap s'"
  using assms(1)
proof cases
  case (job_moves k js i i' j')
  have suits: "\<forall>j \<in> set js. suits_reader cap j" and old: "readable_store cap (cap_dataset cap) i"
    using ok job_moves(1) by (simp_all add: open_to_def)
  then have "readable_store cap (cap_dataset cap) i'"
    using move_readable [OF job_moves(5) old] job_moves(3) by simp
  moreover have "suits_reader cap j'"
    using suits_request [OF ingest_move_request [OF job_moves(5)]] suits job_moves(3) by simp
  ultimately show ?thesis
    using suits job_moves(2) by (auto simp: open_to_def dest!: set_update_subset_insert [THEN subsetD])
qed

lemma schedule_readable: "schedule rt s s' \<Longrightarrow> open_to cap s \<Longrightarrow> open_to cap s'"
  by (induction rule: rtranclp_induct) (auto intro: step_readable)

lemma schedule_grows:
  "schedule rt s s' \<Longrightarrow> interleaving_ok rt i0 s \<Longrightarrow> grows (fst s) (fst s')"
  using interleaving_schedule [of rt s s' "fst s"] by (simp add: interleaving_ok_def)

lemma grows_evolves:
  "grows i i' \<Longrightarrow> store_for i ds = Some (Some d) \<Longrightarrow> store_for i' ds = Some (Some d') \<Longrightarrow> evolves d d'"
  unfolding grows_def evolves_def by (simp add: held_store [symmetric])

definition disk_for :: "bytes \<Rightarrow> ingestor \<Rightarrow> record_disk" where
  "disk_for ds i = the (the (store_for i ds))"

lemma readable_disk:
  "readable_store cap ds i \<Longrightarrow> store_for i ds = Some (Some (disk_for ds i)) \<and> retrievable cap (disk_for ds i)"
  by (auto simp: readable_store_def disk_for_def)

text \<open>A look by an admitted client at the stores of an ingestor.\<close>

definition serves_look :: "runtime \<Rightarrow> http_request \<Rightarrow> authenticated_peer \<Rightarrow> ingestor \<Rightarrow> look \<Rightarrow> bool" where
  "serves_look rt q peer i l \<longleftrightarrow> sv_ingestor (lk_server l) = Some i \<and> admits_look rt q peer l"

lemma http_fetch_pages:
  assumes peer: "peer_read_capability peer ds = Some c"
    and limit: "retrieval_page q = Inr (limit, s)"
    and looks: "list_all2 (serves_look rt q peer) is ls"
    and cap: "\<forall>i \<in> set is. readable_store (c\<lparr>cap_write := True, cap_delete := True\<rparr>) ds i"
    and cursor: "length cursor \<le> max_record_id_bytes"
  shows "http_fetch rt readable ls (q\<lparr>rq_after := cursor\<rparr>) ds =
    fetch_moving readable (map (disk_for ds) is) (c\<lparr>cap_write := True, cap_delete := True\<rparr>) limit cursor"
  using looks cursor cap
proof (induction "is" ls arbitrary: cursor rule: list_all2_induct)
  case (Cons i "is" l ls)
  let ?cap = "c\<lparr>cap_write := True, cap_delete := True\<rparr>" and ?d = "disk_for ds i"
  have d: "store_for i ds = Some (Some ?d)" "retrievable ?cap ?d"
    using readable_disk [of ?cap ds i] Cons.prems(2) by simp_all
  have "1 \<le> limit" using retrieval_page_bounds [OF limit] by simp
  then obtain page next_after where page: "validated_persisted_page readable ?d ?cap cursor limit = Inr (page, next_after)"
    using retrievable_page [OF d(2), of limit readable cursor] by (auto simp: is_ok_iff)
  have run: "fst (handle_dataset_retrieve (trusted_resolve_peer rt (session_resolve_peer rt (lk_clock l) (lk_write l))) readable
      (lk_server l) (q\<lparr>rq_after := cursor\<rparr>) ds) = http_json 200 (Page ds (length page) page next_after)"
    using retrieve_once [OF _ _ peer limit d(1) Cons.prems(1) page] Cons.hyps(1) by (simp add: serves_look_def)
  have "http_fetch rt readable ls (q\<lparr>rq_after := next_after\<rparr>) ds =
      fetch_moving readable (map (disk_for ds) is) ?cap limit next_after" if "next_after \<noteq> []"
    using Cons.IH [of next_after] Cons.prems(2) served_cursor [OF page that] by simp
  moreover obtain sv' where "handle_dataset_retrieve (trusted_resolve_peer rt (session_resolve_peer rt (lk_clock l) (lk_write l))) readable
      (lk_server l) (q\<lparr>rq_after := cursor\<rparr>) ds = (http_json 200 (Page ds (length page) page next_after), sv')"
    using run by (metis prod.collapse)
  ultimately show ?case by (simp add: page http_json_def)
qed simp

lemma fetch_moving_still: "fetch_moving readable (replicate n d) cap limit cursor = fetch_all n readable d cap limit cursor"
  by (induction n arbitrary: cursor) (auto split: sum.splits prod.splits)

section \<open>What is answered with success is served\<close>

text \<open>
  C15. A record that was ingested with success over HTTP is served over HTTP. Let the store of the
  dataset be retrievable for a reader before, and the record be one that comes back from the file
  as it went in (its payload is not empty) in the schema the reader has negotiated. A reader that
  follows the cursors from the start, with any page size the route takes, its session open and
  its key trusted at each request and the stores as the ingestion left them, gets after a number of requests not above the number of
  records every record of the store, in order, and among them, under the identifier of the
  ingested record, an envelope that is not older than it.
\<close>

theorem ingested_record_served:
  assumes ingest: "handle_dataset_ingest rt resolve bd clock w sv q ds = (rs, sv')" "rs_status rs = 202"
    and body: "fst (bd_request bd (max_bytes_reader (rq_body q) max_ingest_body_bytes)) = Inr req"
    and before: "sv_ingestor sv = Some i" "store_for i ds = Some (Some d)" and after: "sv_ingestor sv' = Some i'"
    and reader: "peer_read_capability peer ds = Some c" "retrieval_page qr = Inr (limit, s)"
    and cap: "retrievable (c\<lparr>cap_write := True, cap_delete := True\<rparr>) d" "survives_file (iq_record req)"
      "env_schema (iq_record req) = cap_schema c"
  shows "\<exists>page. (\<forall>ls. (\<forall>l \<in> set ls. serves_look rt qr peer i' l) \<longrightarrow> length page < length ls \<longrightarrow>
       http_fetch rt readable ls (qr\<lparr>rq_after := []\<rparr>) ds = Some page) \<and>
     sorted_wrt (<) (map env_id page) \<and>
     (\<exists>x \<in> set page. env_id x = env_id (iq_record req) \<and> conflict_key (iq_record req) \<le> conflict_key x)"
proof -
  let ?cap = "c\<lparr>cap_write := True, cap_delete := True\<rparr>" and ?e = "iq_record req"
  obtain peer0 res where ds: "env_dataset ?e = ds"
    and run: "ingest rt i peer0 ?e (iq_proof req) clock w = (res, i')" "is_ok res"
    using any_resolver.ingest_admitted [OF ingest(1)] ingest(2) body before(1) after by auto
  obtain x where run': "ingest rt i peer0 ?e (iq_proof req) clock w = (Inr x, i')"
    using run by (auto simp: is_ok_iff)
  have "cap_dataset c = ds" using reader(1) by (auto simp: peer_read_capability_def find_Some_iff)
  then have valid: "validate_record ?e ?cap = Inr ()" if "validate_record ?e c' = Inr ()" for c'
    using that cap(3) ds by (auto simp: validate_record_def payload_length_def split: if_splits)
  obtain d' st where d': "store_for i' ds = Some (Some d')" "retrievable ?cap d'"
    and st: "stored_at d' (env_id ?e) = Some st" "conflict_key ?e \<le> conflict_key (pr_envelope st)"
    using ingested_store [OF run' _ cap(1,2)] valid before(2) ds by metis
  obtain ms page where ms: "disk_file d' = Holds ms" "\<forall>p \<in> set ms. member_ok ?cap p"
    and page: "sorted_records d' = Inr page" "pr_envelope st \<in> set page" "env_id (pr_envelope st) = env_id ?e"
    using stored_in_page [OF d'(2) st(1)] by blast
  have limit: "1 \<le> limit" using retrieval_page_bounds [OF reader(2)] by simp
  have "\<forall>e \<in> set page. env_id e \<noteq> []"
    using sorted_records_mem [OF ms(1) page(1)] ms(2) member_id_nonempty by blast
  then have all: "after_cursor [] page = page"
    by (auto simp: after_cursor_def filter_id_conv neq_Nil_conv)
  have disk: "disk_for ds i' = d'" "readable_store ?cap ds i'" using d' by (auto simp: disk_for_def readable_store_def)
  have "http_fetch rt readable ls (qr\<lparr>rq_after := []\<rparr>) ds = Some page"
    if "\<forall>l \<in> set ls. serves_look rt qr peer i' l" "length page < length ls" for ls
  proof -
    have "list_all2 (serves_look rt qr peer) (replicate (length ls) i') ls"
      using that(1) by (simp add: list_all2_conv_all_nth)
    from http_fetch_pages [OF reader this, of "[]" readable] disk
    have "http_fetch rt readable ls (qr\<lparr>rq_after := []\<rparr>) ds = fetch_all (length ls) readable d' ?cap limit []"
      by (simp add: fetch_moving_still)
    then show ?thesis using fetch_from [OF ms(1) limit page(1) ms(2), of "[]" "length ls" readable] that(2) all by simp
  qed
  moreover have "sorted_wrt (<) (map env_id page)"
    using sorted_records_wf [OF ms(1) _ page(1)] ms(2) by (auto simp: map_wf_def member_ok_def)
  ultimately show ?thesis using page(2,3) st(2) by blast
qed

text \<open>A service with an open session and a trusted device, for concrete runs.\<close>

lemma sample_reader:
  obtains r :: "session_resolver trusted_resolver"
  where "tr_account r \<noteq> []" "trusted_admits sample_runtime (session_admits sample_runtime 5) r sample_http sample_peer"
proof (rule sample_session)
  fix d assume d: "\<And>ok. resolve_session sample_runtime d ''secret'' 5 5 ok = (Inr sample_peer, d)"
  obtain s where s: "trust_trace sample_runtime [Authorized ''acct'' sample_verified] s"
    using sample_trust_trace by blast
  obtain ds where ds: "registry_ok sample_runtime s ds"
    "\<forall>a v. trusted_key ds a v = history_key a v [Authorized ''acct'' sample_verified]"
    using trust_trace_view [OF s] by blast
  let ?r = "\<lparr>tr_inner = Some \<lparr>sr_sessions = Some d, sr_now = None\<rparr>, tr_account = ''acct'', tr_trust = Some s\<rparr>"
  have "is_trusted sample_runtime s ''acct'' (ap_device sample_peer) (ap_fingerprint sample_peer) = Inr True"
    by (simp add: is_trusted_key [OF ds(1)] ds(2) sample_verified_def sample_peer_def)
  then have "trusted_admits sample_runtime (session_admits sample_runtime 5) ?r sample_http sample_peer"
    using d [of True] by (auto simp: trusted_admits_def session_admits_def sample_token resolve_session_Inr)
  then show thesis using that [of ?r] by simp
qed

lemma sample_looks:
  assumes "tr_account r \<noteq> []" "trusted_admits sample_runtime (session_admits sample_runtime 5) r sample_http sample_peer"
  shows "serves_look sample_runtime sample_http sample_peer i
    \<lparr>lk_clock = 5, lk_write = True, lk_server = \<lparr>sv_ingestor = Some i, sv_resolver = Some r\<rparr>\<rparr>"
  using assms by (simp add: serves_look_def admits_look_def)

theorem ingested_record_served_witness:
  "\<exists>r rs i' page. let resolve = trusted_resolve_peer sample_runtime (session_resolve_peer sample_runtime 5 True);
      look = \<lparr>lk_clock = 5, lk_write = True, lk_server = \<lparr>sv_ingestor = Some i', sv_resolver = Some r\<rparr>\<rparr> in
    handle_dataset_ingest sample_runtime resolve sample_decoder 0 writes_ok
      \<lparr>sv_ingestor = Some sample_ingestor, sv_resolver = Some r\<rparr> sample_http ''search.history'' =
      (rs, \<lparr>sv_ingestor = Some i', sv_resolver = Some r\<rparr>) \<and> rs_status rs = 202 \<and>
    http_fetch sample_runtime [] (replicate (Suc (length page)) look) (sample_http\<lparr>rq_after := []\<rparr>) ''search.history'' = Some page \<and>
    (\<exists>x \<in> set page. env_id x = ''h1'' \<and> conflict_key sample_record \<le> conflict_key x)"
proof (rule sample_reader)
  fix r :: "session_resolver trusted_resolver"
  assume r: "tr_account r \<noteq> []" "trusted_admits sample_runtime (session_admits sample_runtime 5) r sample_http sample_peer"
  let ?resolve = "trusted_resolve_peer sample_runtime (session_resolve_peer sample_runtime 5 True)"
  let ?sv = "\<lparr>sv_ingestor = Some sample_ingestor, sv_resolver = Some r\<rparr>"
  obtain x i' where x: "ingest sample_runtime sample_ingestor sample_peer sample_record sample_proof 0 writes_ok = (Inr x, i')"
    using sample_ingest by blast
  have rec: "env_dataset sample_record = ''search.history''" "env_id sample_record = ''h1''" "env_schema sample_record = 1"
    by (simp_all add: sample_record_def)
  have "sample_http\<lparr>rq_after := []\<rparr> = sample_http" by (simp add: sample_http_def)
  then have resolved: "?resolve r (Some sample_http) = (Inr sample_peer, r)" using admitted_resolves [OF r(2,1), of True "[]"] by simp
  obtain rs where run: "handle_dataset_ingest sample_runtime ?resolve sample_decoder 0 writes_ok ?sv sample_http ''search.history'' =
      (rs, \<lparr>sv_ingestor = Some i', sv_resolver = Some r\<rparr>)" and status: "rs_status rs = 202"
    using x rec resolved
    by (cases x) (simp add: handle_dataset_ingest_def sample_decoder_def ensure_json_eof_def http_json_def Let_def)
  let ?req = "\<lparr>iq_record = sample_record, iq_proof = sample_proof\<rparr>"
  have body: "fst (bd_request sample_decoder (max_bytes_reader (rq_body sample_http) max_ingest_body_bytes)) = Inr ?req"
    by (simp add: sample_decoder_def)
  have before: "sv_ingestor ?sv = Some sample_ingestor" "store_for sample_ingestor ''search.history'' = Some (Some empty_disk)"
    and after: "sv_ingestor \<lparr>sv_ingestor = Some i', sv_resolver = Some r\<rparr> = Some i'"
    by (simp_all add: store_for_def sample_ingestor_def)
  have limit: "retrieval_page sample_http = Inr (2, [])" by code_simp
  have cap: "retrievable (history_capability\<lparr>cap_write := True, cap_delete := True\<rparr>) empty_disk"
    "survives_file (iq_record ?req)" "env_schema (iq_record ?req) = cap_schema history_capability"
    using rec(3) by (simp_all add: retrievable_def empty_disk_def survives_file_def sample_record_def history_capability_def)
  let ?look = "\<lparr>lk_clock = 5, lk_write = True, lk_server = \<lparr>sv_ingestor = Some i', sv_resolver = Some r\<rparr>\<rparr>"
  obtain page where page: "\<And>ls. (\<forall>l \<in> set ls. serves_look sample_runtime sample_http sample_peer i' l) \<Longrightarrow> length page < length ls \<Longrightarrow>
      http_fetch sample_runtime [] ls (sample_http\<lparr>rq_after := []\<rparr>) ''search.history'' = Some page"
    "\<exists>x \<in> set page. env_id x = ''h1'' \<and> conflict_key sample_record \<le> conflict_key x"
    using ingested_record_served [OF run status body before after sample_read_capability limit cap, of "[]"] rec(2) by auto
  have "http_fetch sample_runtime [] (replicate (Suc (length page)) ?look) (sample_http\<lparr>rq_after := []\<rparr>) ''search.history'' = Some page"
    by (rule page(1)) (use sample_looks [OF r] in auto)
  then show ?thesis using run status page(2) unfolding Let_def by blast
qed

section \<open>Reading while others write, over HTTP\<close>

text \<open>The states in which the client is served, one after the other on a schedule.\<close>

fun looks :: "runtime \<Rightarrow> ingestor \<times> job list \<Rightarrow> (ingestor \<times> job list) list \<Rightarrow> bool" where
  "looks rt s [] \<longleftrightarrow> True"
| "looks rt s (t # ts) \<longleftrightarrow> schedule rt s t \<and> looks rt t ts"

lemma looks_follow:
  assumes "looks rt s ts" and "interleaving_ok rt i0 s" and "open_to cap s"
  shows "(\<forall>t \<in> set (s # ts). open_to cap t \<and> grows (fst t) (fst (last (s # ts)))) \<and>
    successively grows (map fst (s # ts))"
  using assms
proof (induction ts arbitrary: s)
  case (Cons t ts)
  have step: "schedule rt s t" and rest: "looks rt t ts" using Cons.prems(1) by simp_all
  have t: "interleaving_ok rt i0 t" "open_to cap t"
    using interleaving_schedule [OF step] schedule_readable [OF step] Cons.prems(2,3) by simp_all
  have g: "grows (fst s) (fst t)" by (rule schedule_grows [OF step Cons.prems(2)])
  note IH = Cons.IH [OF rest t]
  then have "grows (fst t) (fst (last (t # ts)))" by simp
  then have "grows (fst s) (fst (last (t # ts)))" by (rule grows_trans [OF g])
  then show ?case using IH g Cons.prems(3) by simp
qed simp

lemma evolves_dom: "evolves d d' \<Longrightarrow> dom (stored_at d) \<subseteq> dom (stored_at d')"
  by (fastforce simp: evolves_def)

lemma finite_stored: "finite (dom (stored_at d))"
proof (cases "load_records d")
  case (Inr m)
  have "dom (stored_at d) \<subseteq> dom (map_of m)" by (auto simp: stored_at_def Inr)
  then show ?thesis using finite_dom_map_of finite_subset by blast
qed (simp add: stored_at_def [abs_def] dom_def)

lemma stored_id_nonempty: "retrievable cap d \<Longrightarrow> stored_at d rid = Some c \<Longrightarrow> rid \<noteq> []"
  using stored_in_page [of cap d rid c] sorted_records_mem member_id_nonempty by metis

text \<open>A schedule of looks as the stores of the dataset: each readable, growing, and all within the last.\<close>

lemma looks_stores:
  assumes looks: "looks rt (i, js) ss" "ss \<noteq> []" and start: "all_arrived js" and open_: "open_to cap (i, js)" and cap: "cap_dataset cap = ds"
  shows "\<forall>t \<in> set ss. store_for (fst t) ds = Some (Some (disk_for ds (fst t))) \<and> retrievable cap (disk_for ds (fst t)) \<and>
      dom (stored_at (disk_for ds (fst t))) \<subseteq> dom (held (fst (last ss)) ds)"
    and "successively evolves (map (disk_for ds) (map fst ss))"
    and "grows i (fst (hd ss))" and "finite (dom (held (fst (last ss)) ds))"
proof -
  note follow = looks_follow [OF looks(1) interleaving_start [OF start] open_]
  obtain s ts where ss: "ss = s # ts" using looks(2) by (cases ss) auto
  have stores: "store_for (fst t) ds = Some (Some (disk_for ds (fst t))) \<and> retrievable cap (disk_for ds (fst t))"
    if "t \<in> set ss" for t
    using follow that cap readable_disk [of cap ds "fst t"] by (auto simp: open_to_def)
  have evo: "evolves (disk_for ds (fst t)) (disk_for ds (fst t'))" if "t \<in> set ss" "t' \<in> set ss" "grows (fst t) (fst t')" for t t'
    using grows_evolves [OF that(3)] stores that(1,2) by blast
  have "successively grows (map fst ss)" using follow ss by simp
  then show "successively evolves (map (disk_for ds) (map fst ss))"
    using evo by (auto simp: successively_map intro: successively_mono)
  have last: "held (fst (last ss)) ds = stored_at (disk_for ds (fst (last ss)))"
    using held_store stores [of "last ss"] ss by (auto simp: fun_eq_iff)
  have "evolves (disk_for ds (fst t)) (disk_for ds (fst (last ss)))" if "t \<in> set ss" for t
  proof (rule evo [OF that])
    show "last ss \<in> set ss" using ss by simp
    show "grows (fst t) (fst (last ss))" using follow ss that by auto
  qed
  then show "\<forall>t \<in> set ss. store_for (fst t) ds = Some (Some (disk_for ds (fst t))) \<and> retrievable cap (disk_for ds (fst t)) \<and>
      dom (stored_at (disk_for ds (fst t))) \<subseteq> dom (held (fst (last ss)) ds)"
    using stores last evolves_dom by simp
  show "grows i (fst (hd ss))" using follow ss by simp
  show "finite (dom (held (fst (last ss)) ds))" using last finite_stored by simp
qed

text \<open>
  C16. Reading while others write misses nothing and ends. Let the store of the dataset be
  retrievable for a reader, and let any ingestions run concurrently, those into the dataset
  carrying records that come back from the file as they went in, in the schema the reader has
  negotiated. A reader that follows the cursors over HTTP, each of its requests served in some
  later state of a schedule of their moves in which its session is open and its key trusted,
  gets the dataset in ascending order without duplicates; every record held when it began is among
  what it gets, under its identifier, in the revision held then or a greater one, although the
  requests see different states of the store; and it needs no more requests than one above the
  number of records in the store at its last look.
\<close>

theorem concurrent_reader_misses_nothing:
  assumes start: "all_arrived js" "store_for i ds = Some (Some d)"
      "retrievable (c\<lparr>cap_write := True, cap_delete := True\<rparr>) d"
    and jobs: "\<forall>j \<in> set js. env_dataset (jb_record j) = ds \<longrightarrow>
      survives_file (jb_record j) \<and> env_schema (jb_record j) = cap_schema c"
    and looks: "looks rt (i, js) ss" "card (dom (held (fst (last ss)) ds)) < length ss"
      "list_all2 (serves_look rt q peer) (map fst ss) ls"
    and reader: "peer_read_capability peer ds = Some c" "retrieval_page q = Inr (limit, cursor)"
  shows "\<exists>page. http_fetch rt readable ls (q\<lparr>rq_after := []\<rparr>) ds = Some page \<and>
    sorted_wrt (<) (map env_id page) \<and>
    (\<forall>rid r. held i ds rid = Some r \<longrightarrow>
       (\<exists>x \<in> set page. env_id x = rid \<and> conflict_key (pr_envelope r) \<le> conflict_key x))"
proof -
  let ?cap = "c\<lparr>cap_write := True, cap_delete := True\<rparr>" and ?S = "dom (held (fst (last ss)) ds)"
  let ?ds = "map (disk_for ds) (map fst ss)"
  have cap: "cap_dataset ?cap = ds" using reader(1) by (auto simp: peer_read_capability_def find_Some_iff)
  have "open_to ?cap (i, js)"
    using start(2,3) jobs cap by (auto simp: open_to_def readable_store_def suits_reader_def)
  moreover have ne: "ss \<noteq> []" using looks(2) by auto
  ultimately have stores: "\<forall>t \<in> set ss. store_for (fst t) ds = Some (Some (disk_for ds (fst t))) \<and>
        retrievable ?cap (disk_for ds (fst t)) \<and> dom (stored_at (disk_for ds (fst t))) \<subseteq> ?S"
    and moving: "successively evolves ?ds" and grown: "grows i (fst (hd ss))" and S: "finite ?S"
    using looks_stores [OF looks(1) _ start(1) _ cap] by blast+
  have limit: "1 \<le> limit" using retrieval_page_bounds [OF reader(2)] by simp
  have "card {r \<in> ?S. [] < r} \<le> card ?S" using S by (intro card_mono) auto
  then have few: "card {r \<in> ?S. [] < r} < length ?ds" using looks(2) by simp
  have "\<forall>d \<in> set ?ds. retrievable ?cap d \<and> dom (stored_at d) \<subseteq> ?S" using stores by simp
  then have all: "\<forall>d \<in> set ?ds. retrievable ?cap d"
    and "fetch_moving readable ?ds ?cap limit [] \<noteq> None" using moving_ends [OF _ S limit few] by simp_all
  then obtain page where page: "fetch_moving readable ?ds ?cap limit [] = Some page" by blast
  note pages = moving_pages [OF all moving page]
  have "\<exists>x \<in> set page. env_id x = rid \<and> conflict_key (pr_envelope r) \<le> conflict_key x"
    if r: "held i ds rid = Some r" for rid r
  proof -
    obtain r' where "held (fst (hd ss)) ds rid = Some r'" and le: "conflict_key (pr_envelope r) \<le> conflict_key (pr_envelope r')"
      using r grown unfolding grows_def by blast
    then have "stored_at (hd ?ds) rid = Some r'" using held_store stores ne by (simp add: hd_map)
    moreover have "rid \<noteq> []" using stored_id_nonempty [of ?cap "hd ?ds"] all calculation ne by (simp add: hd_map)
    then have "[] < rid" by (cases rid) simp_all
    ultimately obtain x where x: "x \<in> set page" "env_id x = rid" "conflict_key (pr_envelope r') \<le> conflict_key x"
      using pages by blast
    from le x(3) have "conflict_key (pr_envelope r) \<le> conflict_key x" by (rule order_trans)
    then show ?thesis using x(1,2) by blast
  qed
  moreover have "http_fetch rt readable ls (q\<lparr>rq_after := []\<rparr>) ds = Some page"
    using http_fetch_pages [OF reader looks(3), of "[]" readable] stores page by (auto simp: readable_store_def)
  ultimately show ?thesis using pages by blast
qed

theorem concurrent_reader_misses_nothing_witness:
  "\<exists>r i' js' n page. let look = (\<lambda>i. \<lparr>lk_clock = 5, lk_write = True, lk_server = \<lparr>sv_ingestor = Some i, sv_resolver = Some r\<rparr>\<rparr>) in
     schedule sample_runtime (sample_ingestor\<lparr>in_history := Some sample_store\<rparr>, [sample_job, sample_job]) (i', js') \<and>
     all_answered js' \<and>
     http_fetch sample_runtime [] (look (sample_ingestor\<lparr>in_history := Some sample_store\<rparr>) # replicate n (look i'))
       (sample_http\<lparr>rq_after := []\<rparr>) ''search.history'' = Some page \<and>
     (\<exists>x \<in> set page. env_id x = ''b'')"
proof (rule sample_reader)
  fix r :: "session_resolver trusted_resolver"
  assume r: "tr_account r \<noteq> []" "trusted_admits sample_runtime (session_admits sample_runtime 5) r sample_http sample_peer"
  let ?i = "sample_ingestor\<lparr>in_history := Some sample_store\<rparr>" and ?js = "[sample_job, sample_job]"
  let ?look = "\<lambda>i. \<lparr>lk_clock = 5, lk_write = True, lk_server = \<lparr>sv_ingestor = Some i, sv_resolver = Some r\<rparr>\<rparr>"
  obtain i' js' where run: "schedule sample_runtime (?i, ?js) (i', js')" "all_answered js'"
    using completion_exists by blast
  let ?n = "card (dom (held i' ''search.history''))"
  let ?ss = "(?i, ?js) # replicate (Suc ?n) (i', js')" and ?ls = "?look ?i # replicate (Suc ?n) (?look i')"
  have stay: "looks sample_runtime (i', js') (replicate n (i', js'))" for n by (induction n) simp_all
  have looks: "looks sample_runtime (?i, ?js) ?ss" using run(1) stay by simp
  have few: "card (dom (held (fst (last ?ss)) ''search.history'')) < length ?ss" by simp
  have serves: "list_all2 (serves_look sample_runtime sample_http sample_peer) (map fst ?ss) ?ls"
    using sample_looks [OF r] by (simp add: list_all2_conv_all_nth nth_Cons')
  have start: "store_for ?i ''search.history'' = Some (Some sample_store)"
    "retrievable (history_capability\<lparr>cap_write := True, cap_delete := True\<rparr>) sample_store"
    using sample_store_retrievable by (simp_all add: store_for_def history_capability_def)
  have jobs: "\<forall>j \<in> set ?js. env_dataset (jb_record j) = ''search.history'' \<longrightarrow>
      survives_file (jb_record j) \<and> env_schema (jb_record j) = cap_schema history_capability"
    by (simp add: sample_job_def survives_file_def sample_record_def history_capability_def)
  have limit: "retrieval_page sample_http = Inr (2, [])" by code_simp
  have held: "\<exists>r. held ?i ''search.history'' ''b'' = Some r"
    by (simp add: held_def stored_at_def load_records_def sample_store_def sample_persisted_def map_from_def)
  obtain page where page: "http_fetch sample_runtime [] ?ls (sample_http\<lparr>rq_after := []\<rparr>) ''search.history'' = Some page"
    "\<exists>x \<in> set page. env_id x = ''b''"
    using concurrent_reader_misses_nothing [OF sample_jobs(1) start jobs looks few serves sample_read_capability limit]
      held by (simp del: http_fetch.simps) blast
  with run show ?thesis unfolding Let_def by blast
qed

end
