(* ===== verification/Command.thy ===== *)
theory Command
  imports Http_Api
begin

text \<open>
  The command line (\<open>cmd/goreecloud-sync/main.go\<close>): the choice of the command, the one flag of
  \<open>serve\<close>, which is the parser of package \<open>flag\<close> for a set with one string flag, the exit code, and
  the server that \<open>serve\<close> makes. Texts that package prints about a bad flag are left out.
\<close>

section \<open>The flags of serve\<close>

abbreviation ErrHelp :: go_error where
  "ErrHelp \<equiv> Sentinel ''flag: help requested''"

definition default_listen :: bytes where
  "default_listen = ''127.0.0.1:8787''"

text \<open>The name of a flag and the value after its first equals sign, if it has one.\<close>

definition flag_value :: "bytes \<Rightarrow> bytes \<times> bytes option" where
  "flag_value s =
     (let name = takeWhile (\<lambda>c. c \<noteq> CHR ''='') s; after = drop (length name) s in
      (name, if after = [] then None else Some (tl after)))"

fun parse_listen :: "bytes \<Rightarrow> bytes list \<Rightarrow> bytes result" where
  "parse_listen addr [] = Inr addr"
| "parse_listen addr (s # args) =
     (if length s < 2 \<or> hd s \<noteq> CHR ''-'' \<or> s = ''--'' then Inr addr
      else let name = (if s ! 1 = CHR ''-'' then drop 2 s else drop 1 s) in
      if name = [] \<or> hd name \<in> {CHR ''-'', CHR ''=''} then Inl (Msg ''bad flag syntax'')
      else case flag_value name of
        (flag, value) \<Rightarrow>
          if flag \<in> {''help'', ''h''} then Inl ErrHelp
          else if flag \<noteq> ''listen'' then Inl (Msg ''flag provided but not defined'')
          else case value of
            Some v \<Rightarrow> parse_listen v args
          | None \<Rightarrow>
              (case args of
                 [] \<Rightarrow> Inl (Msg ''flag needs an argument'')
               | v # rest \<Rightarrow> parse_listen v rest))"

section \<open>Commands\<close>

datatype command_output = UsageText | VersionText bytes bytes

text \<open>What a command printed, the server it ran with its address and routes, and its error.\<close>

record command_run =
  cr_output :: "command_output list"
  cr_server :: "(bytes \<times> unit server \<times> (http_method \<times> bytes \<times> endpoint) list) option"
  cr_result :: "unit result"

definition print_usage :: command_run where
  "print_usage = \<lparr>cr_output = [UsageText], cr_server = None, cr_result = Inr ()\<rparr>"

definition run_serve :: "bytes list \<Rightarrow> run_event \<Rightarrow> command_run" where
  "run_serve args event =
     (case parse_listen default_listen args of
        Inl e \<Rightarrow> \<lparr>cr_output = [], cr_server = None, cr_result = Inl e\<rparr>
      | Inr addr \<Rightarrow>
          (case new_server of
             (sv, table) \<Rightarrow> \<lparr>cr_output = [], cr_server = Some (addr, sv, table), cr_result = server_run event\<rparr>))"

definition run_command :: "bytes \<times> bytes \<Rightarrow> bytes list \<Rightarrow> run_event \<Rightarrow> command_run" where
  "run_command build args event =
     (case args of
        [] \<Rightarrow> print_usage
      | command # rest \<Rightarrow>
          if command = ''serve'' then run_serve rest event
          else if command \<in> {''version'', ''--version'', ''-version''}
          then \<lparr>cr_output = [VersionText (fst build) (snd build)], cr_server = None, cr_result = Inr ()\<rparr>
          else if command \<in> {''help'', ''--help'', ''-h''} then print_usage
          else \<lparr>cr_output = [], cr_server = None, cr_result = Inl (Msg ''unknown command'')\<rparr>)"

definition exit_code :: "command_run \<Rightarrow> nat" where
  "exit_code r = (if is_ok (cr_result r) then 0 else 1)"

section \<open>Properties\<close>

lemma run_command_server:
  assumes "cr_server (run_command build args event) = Some (addr, sv, table)"
  shows "new_server = (sv, table) \<and> cr_output (run_command build args event) = [] \<and>
    cr_result (run_command build args event) = server_run event \<and>
    (\<exists>rest. args = ''serve'' # rest \<and> parse_listen default_listen rest = Inr addr)"
  using assms
  by (auto simp: run_command_def run_serve_def print_usage_def split: list.splits if_splits sum.splits prod.splits)

lemma parse_listen_forms:
  assumes "v \<noteq> []"
  shows "parse_listen addr [] = Inr addr" "parse_listen addr [''--listen'', v] = Inr v"
    "parse_listen addr [''-listen'', v] = Inr v" "parse_listen addr [''--listen='' @ v] = Inr v"
    "parse_listen addr (''--'' # args) = Inr addr" "parse_listen addr [''--listen''] = Inl (Msg ''flag needs an argument'')"
  by (simp_all add: flag_value_def Let_def)

text \<open>
  Whatever its arguments, the command serves no synchronization: at most it runs a server
  whose every response carries the security headers, that answers with success only to reading
  health and status, and that no request changes. It runs one only for \<open>serve\<close>, on the address
  that the flag names or the loopback default, and its exit code is zero exactly if that server
  ended as a closed server does.
\<close>

theorem command_serves_shell_only:
  assumes "cr_server (run_command build args event) = Some (addr, sv, table)"
    and "serve rt resolve env table sv m path q = (rs, sv')"
  shows "sv' = sv \<and> (rs_status rs < 400 \<longleftrightarrow> m \<in> {GET, HEAD} \<and> path \<in> {''/healthz'', ''/api/v1/status''}) \<and>
    header rs ''X-Frame-Options'' = Some ''DENY'' \<and> header rs ''Cache-Control'' = Some ''no-store'' \<and>
    (\<exists>rest. args = ''serve'' # rest \<and> parse_listen default_listen rest = Inr addr) \<and>
    (exit_code (run_command build args event) = 0 \<longleftrightarrow> is_ok (server_run event))"
proof -
  note run = run_command_server [OF assms(1)]
  have bare: "sv_ingestor sv = None" "table = routes sv"
    using conjunct1 [OF run] by (auto simp: new_server_def new_server_with_options_def Let_def)
  note hardened = responses_hardened [OF assms(2) [unfolded bare(2)]]
  show ?thesis using run hardened bare(1) by (simp add: exit_code_def)
qed

theorem command_serves_shell_only_witness:
  "\<exists>sv table rs sv'. cr_server (run_command (''0.0.0-dev'', ''unknown'') [''serve'', ''--listen'', ''127.0.0.1:9000'']
       (ListenEnded ErrServerClosed)) = Some (''127.0.0.1:9000'', sv, table) \<and>
     serve sample_runtime (\<lambda>(r :: unit) q. (Inl ErrPeerResolutionFailed, r)) sample_serve table sv POST
       ''/api/v1/sync/search/history'' sample_http = (rs, sv') \<and> \<not> rs_status rs < 400 \<and> sv' = sv"
proof -
  let ?args = "[''serve'', ''--listen'', ''127.0.0.1:9000'']"
  obtain sv :: "unit server" and table where made: "new_server = (sv, table)" by fastforce
  have "parse_listen default_listen [''--listen'', ''127.0.0.1:9000''] = Inr ''127.0.0.1:9000''"
    by (rule parse_listen_forms) simp
  then have server: "cr_server (run_command (''0.0.0-dev'', ''unknown'') ?args (ListenEnded ErrServerClosed)) =
      Some (''127.0.0.1:9000'', sv, table)"
    using made by (simp del: parse_listen.simps add: run_command_def run_serve_def)
  obtain rs sv' where run: "serve sample_runtime (\<lambda>(r :: unit) q. (Inl ErrPeerResolutionFailed, r)) sample_serve table sv
      POST ''/api/v1/sync/search/history'' sample_http = (rs, sv')" by fastforce
  from command_serves_shell_only [OF server run] server run show ?thesis by simp
qed

end
