(* ===== verification/Concurrent_Requests.thy ===== *)
theory Concurrent_Requests
  imports Http_Api Concurrent_Ingest
begin

text \<open>
  The service at work: requests to the dataset routes are handled by concurrent goroutines while
  devices are authorized and revoked and sessions are opened. A request takes the lock of the
  session store, then that of the trust registry, decodes its body, and then goes through the moves
  of an ingestion or reads one page; between any two of these points other requests and the
  administration may come in. The session store and the registry are one object each, shared by
  the resolvers and the administration.
\<close>

section \<open>A request in progress\<close>

text \<open>
  \<open>Replied\<close> carries with the response the peer the request was admitted for, if any; the response
  of an ingestion follows from its job (\<open>reply\<close>).
\<close>

datatype request_phase =
    Received
  | Identified authenticated_peer
  | Checked authenticated_peer
  | Running job
  | Replied "authenticated_peer option" http_response

datatype dataset_route = Ingests bytes | Retrieves bytes

record active_request =
  ar_http :: http_request
  ar_route :: dataset_route
  ar_env :: serve_env
  ar_clock :: time
  ar_session_write :: bool
  ar_phase :: request_phase

type_synonym service = "session_resolver trusted_resolver server"

definition unauthorized :: http_response where
  "unauthorized = http_error 401 ''authenticated sync peer could not be resolved''"

text \<open>The start of both handlers and of \<open>TrustedPeerResolver.ResolvePeer\<close>, up to the registry.\<close>

definition identify :: "runtime \<Rightarrow> service \<Rightarrow> active_request \<Rightarrow> service \<times> request_phase" where
  "identify rt sv q =
     (case (sv_ingestor sv, sv_resolver sv) of
        (Some i, Some r) \<Rightarrow>
          (case (tr_inner r, tr_trust r) of
             (Some inner, Some trust) \<Rightarrow>
               if tr_account r = [] then (sv, Replied None unauthorized)
               else (case session_resolve_peer rt (ar_clock q) (ar_session_write q) inner (Some (ar_http q)) of
                   (res, inner') \<Rightarrow>
                     (sv\<lparr>sv_resolver := Some (r\<lparr>tr_inner := Some inner'\<rparr>)\<rparr>,
                      case res of Inl _ \<Rightarrow> Replied None unauthorized | Inr peer \<Rightarrow> Identified peer))
           | _ \<Rightarrow> (sv, Replied None unauthorized))
      | _ \<Rightarrow> (sv, Replied None (http_error 503
          (case ar_route q of Ingests _ \<Rightarrow> ''sync ingestion unavailable'' | Retrieves _ \<Rightarrow> read_unavailable))))"

text \<open>The rest of it: the registry is asked.\<close>

definition check_trust :: "runtime \<Rightarrow> service \<Rightarrow> authenticated_peer \<Rightarrow> request_phase" where
  "check_trust rt sv peer =
     (case Option.bind (sv_resolver sv) (\<lambda>r. map_option (\<lambda>trust. (r, trust)) (tr_trust r)) of
        None \<Rightarrow> Replied None unauthorized
      | Some (r, trust) \<Rightarrow>
          (case is_trusted rt trust (tr_account r) (ap_device peer) (ap_fingerprint peer) of
             Inl _ \<Rightarrow> Replied None unauthorized
           | Inr trusted \<Rightarrow> if \<not> trusted then Replied None unauthorized else Checked peer))"

text \<open>\<open>handleDatasetIngest\<close> between resolving the peer and calling \<open>Ingest\<close>.\<close>

definition read_body :: "active_request \<Rightarrow> authenticated_peer \<Rightarrow> bytes \<Rightarrow> request_phase" where
  "read_body q peer expected =
     (let bd = se_decoder (ar_env q);
          body = max_bytes_reader (rq_body (ar_http q)) max_ingest_body_bytes in
      case bd_request bd body of
        (Inl _, _) \<Rightarrow> Replied (Some peer) (http_error 400 ''invalid ingestion request'')
      | (Inr req, left_over) \<Rightarrow>
          if \<not> is_ok (ensure_json_eof bd left_over)
          then Replied (Some peer) (http_error 400 ''invalid ingestion request'')
          else if env_dataset (iq_record req) \<noteq> expected
          then Replied (Some peer) (http_error 400 ''dataset does not match ingestion route'')
          else Running \<lparr>jb_peer = peer, jb_record = iq_record req, jb_proof = iq_proof req,
            jb_clock = se_clock (ar_env q), jb_writes = se_writes (ar_env q), jb_phase = Arrived\<rparr>)"

text \<open>\<open>handleDatasetRetrieve\<close> after resolving the peer: the one page it reads.\<close>

definition read_page :: "service \<Rightarrow> active_request \<Rightarrow> authenticated_peer \<Rightarrow> bytes \<Rightarrow> request_phase" where
  "read_page sv q peer dataset =
     Replied (Some peer) (fst (handle_dataset_retrieve (\<lambda>r _. (Inr peer, r)) (se_readable (ar_env q)) sv (ar_http q) dataset))"

definition request_move :: "runtime \<Rightarrow> service \<Rightarrow> active_request \<Rightarrow> service \<times> active_request" where
  "request_move rt sv q =
     (case ar_phase q of
        Received \<Rightarrow> (case identify rt sv q of (sv', p) \<Rightarrow> (sv', q\<lparr>ar_phase := p\<rparr>))
      | Identified peer \<Rightarrow> (sv, q\<lparr>ar_phase := check_trust rt sv peer\<rparr>)
      | Checked peer \<Rightarrow>
          (sv, q\<lparr>ar_phase :=
             (case ar_route q of Ingests ds \<Rightarrow> read_body q peer ds | Retrieves ds \<Rightarrow> read_page sv q peer ds)\<rparr>)
      | Running j \<Rightarrow>
          (case sv_ingestor sv of
             None \<Rightarrow> (sv, q)
           | Some i \<Rightarrow> (case ingest_move rt i j of
               (i', j') \<Rightarrow> (sv\<lparr>sv_ingestor := Some i'\<rparr>, q\<lparr>ar_phase := Running j'\<rparr>)))
      | Replied _ _ \<Rightarrow> (sv, q))"

text \<open>The response, once there is one.\<close>

definition ingest_reply :: "(acceptance_evidence \<times> observation_receipt) result \<Rightarrow> http_response" where
  "ingest_reply r =
     (case r of
        Inl _ \<Rightarrow> http_error 403 ''record rejected''
      | Inr (evidence, receipt) \<Rightarrow> http_json 202 (Accepted evidence receipt))"

fun reply :: "request_phase \<Rightarrow> http_response option" where
  "reply (Replied _ rs) = Some rs"
| "reply (Running j) = map_option ingest_reply (answer (jb_phase j))"
| "reply _ = None"

fun request_times :: "nat \<Rightarrow> runtime \<Rightarrow> service \<times> active_request \<Rightarrow> service \<times> active_request" where
  "request_times 0 rt s = s"
| "request_times (Suc n) rt s = request_times n rt (request_move rt (fst s) (snd s))"

section \<open>One request alone\<close>

text \<open>The handler of a route, with its resolver: what the moves are the parts of.\<close>

definition handle_route :: "runtime \<Rightarrow> service \<Rightarrow> active_request \<Rightarrow> http_response \<times> service" where
  "handle_route rt sv q =
     (let resolve = trusted_resolve_peer rt (session_resolve_peer rt (ar_clock q) (ar_session_write q)) in
      case ar_route q of
        Ingests ds \<Rightarrow> handle_dataset_ingest rt resolve (se_decoder (ar_env q)) (se_clock (ar_env q)) (se_writes (ar_env q)) sv (ar_http q) ds
      | Retrieves ds \<Rightarrow> handle_dataset_retrieve resolve (se_readable (ar_env q)) sv (ar_http q) ds)"

lemma request_stays: "reply (ar_phase q) \<noteq> None \<Longrightarrow> request_move rt sv q = (sv, q)"
  by (cases "ar_phase q") (auto simp: request_move_def move_done split: option.splits)

lemma requests_stay [simp]: "reply (ar_phase q) \<noteq> None \<Longrightarrow> request_times n rt (sv, q) = (sv, q)"
  by (induction n) (simp_all add: request_stays)

lemma requests_running:
  assumes "sv_ingestor sv = Some i"
  shows "request_times n rt (sv, q\<lparr>ar_phase := Running j\<rparr>) =
    (case move_times n rt (i, j) of (i', j') \<Rightarrow> (sv\<lparr>sv_ingestor := Some i'\<rparr>, q\<lparr>ar_phase := Running j'\<rparr>))"
  using assms
proof (induction n arbitrary: sv i j)
  case (Suc n)
  obtain i' j' where move: "ingest_move rt i j = (i', j')" by fastforce
  have "request_times n rt (sv\<lparr>sv_ingestor := Some i'\<rparr>, q\<lparr>ar_phase := Running j'\<rparr>) =
      (case move_times n rt (i', j') of (i', j') \<Rightarrow> (sv\<lparr>sv_ingestor := Some i'\<rparr>, q\<lparr>ar_phase := Running j'\<rparr>))"
    using Suc.IH [of "sv\<lparr>sv_ingestor := Some i'\<rparr>" i' j'] by (simp split: prod.splits)
  then show ?case by (simp add: request_move_def Suc.prems move)
qed simp

definition request_alone :: "runtime \<Rightarrow> service \<Rightarrow> active_request \<Rightarrow> service \<times> active_request" where
  "request_alone rt sv q = request_times 7 rt (sv, q\<lparr>ar_phase := Received\<rparr>)"

lemma request_fields:
  "ar_http (q\<lparr>ar_phase := p\<rparr>) = ar_http q" "ar_route (q\<lparr>ar_phase := p\<rparr>) = ar_route q"
  "ar_env (q\<lparr>ar_phase := p\<rparr>) = ar_env q" "ar_clock (q\<lparr>ar_phase := p\<rparr>) = ar_clock q"
  "ar_session_write (q\<lparr>ar_phase := p\<rparr>) = ar_session_write q"
  by simp_all

lemma parts_ignore_phase [simp]:
  "identify rt sv (q\<lparr>ar_phase := p\<rparr>) = identify rt sv q"
  "read_body (q\<lparr>ar_phase := p\<rparr>) peer ds = read_body q peer ds"
  "read_page sv (q\<lparr>ar_phase := p\<rparr>) peer ds = read_page sv q peer ds"
  unfolding identify_def read_body_def read_page_def request_fields by (rule refl)+

lemma request_first:
  "request_alone rt sv q = request_times 6 rt (case identify rt sv q of (sv', p) \<Rightarrow> (sv', q\<lparr>ar_phase := p\<rparr>))"
  using request_times.simps(2) [of 6 rt "(sv, q\<lparr>ar_phase := Received\<rparr>)"]
  by (simp add: request_alone_def request_move_def split: prod.splits)

lemma request_replied: "request_times n rt (sv, q\<lparr>ar_phase := Replied p rs\<rparr>) = (sv, q\<lparr>ar_phase := Replied p rs\<rparr>)"
  by simp

lemma request_identified:
  "request_times (Suc n) rt (sv, q\<lparr>ar_phase := Identified peer\<rparr>) =
     request_times n rt (sv, q\<lparr>ar_phase := check_trust rt sv peer\<rparr>)"
  by (simp add: request_move_def)

lemma request_checked:
  "request_times (Suc n) rt (sv, q\<lparr>ar_phase := Checked peer\<rparr>) =
     request_times n rt (sv, q\<lparr>ar_phase := (case ar_route q of Ingests ds \<Rightarrow> read_body q peer ds | Retrieves ds \<Rightarrow> read_page sv q peer ds)\<rparr>)"
  by (simp add: request_move_def cong: dataset_route.case_cong)

lemma request_running:
  assumes "sv_ingestor sv = Some i"
  shows "\<exists>i' j' res. request_times 4 rt (sv, q\<lparr>ar_phase := Running (j\<lparr>jb_phase := Arrived\<rparr>)\<rparr>) =
      (sv\<lparr>sv_ingestor := Some i'\<rparr>, q\<lparr>ar_phase := Running j'\<rparr>) \<and> answer (jb_phase j') = Some res \<and>
    ingest rt i (jb_peer j) (jb_record j) (jb_proof j) (jb_clock j) (jb_writes j) = (res, i')"
  using uninterrupted_moves_are_ingest [of rt i j] requests_running [OF assms, where n = 4 and rt = rt and q = q and j = "j\<lparr>jb_phase := Arrived\<rparr>"]
  by (fastforce simp: job_alone_def split: prod.splits)

lemma request_admitted:
  assumes i: "sv_ingestor sv = Some i" and sv0: "sv_ingestor sv0 = Some i" "sv_resolver sv0 = Some r"
    and resolved: "trusted_resolve_peer rt (session_resolve_peer rt (ar_clock q) (ar_session_write q)) r (Some (ar_http q)) = (Inr peer, r')"
    and sv: "sv = sv0\<lparr>sv_resolver := Some r'\<rparr>"
  shows "case request_times 5 rt (sv, q\<lparr>ar_phase := Checked peer\<rparr>) of
     (sv', q') \<Rightarrow> \<exists>rs. reply (ar_phase q') = Some rs \<and> handle_route rt sv0 q = (rs, sv')"
proof -
  have five: "request_times 5 rt (sv, q\<lparr>ar_phase := Checked peer\<rparr>) =
      request_times 4 rt (sv, q\<lparr>ar_phase := (case ar_route q of Ingests ds \<Rightarrow> read_body q peer ds | Retrieves ds \<Rightarrow> read_page sv q peer ds)\<rparr>)"
    using request_checked [of 4] by simp
  show ?thesis
  proof (cases "ar_route q")
    case (Retrieves ds)
    then show ?thesis
      using five sv0 sv resolved
      by (simp add: read_page_def handle_route_def handle_dataset_retrieve_def)
  next
    case (Ingests ds)
    let ?body = "max_bytes_reader (rq_body (ar_http q)) max_ingest_body_bytes"
    obtain dec left_over where dec: "bd_request (se_decoder (ar_env q)) ?body = (dec, left_over)" by fastforce
    show ?thesis
    proof (cases "\<exists>req. dec = Inr req \<and> is_ok (ensure_json_eof (se_decoder (ar_env q)) left_over) \<and> env_dataset (iq_record req) = ds")
      case False
      then show ?thesis
        using five Ingests sv0 sv resolved dec
        by (cases dec) (auto simp: read_body_def handle_route_def handle_dataset_ingest_def Let_def)
    next
      case True
      then obtain req where req: "dec = Inr req" "is_ok (ensure_json_eof (se_decoder (ar_env q)) left_over)"
        "env_dataset (iq_record req) = ds" by blast
      let ?j = "\<lparr>jb_peer = peer, jb_record = iq_record req, jb_proof = iq_proof req,
            jb_clock = se_clock (ar_env q), jb_writes = se_writes (ar_env q), jb_phase = Arrived\<rparr>"
      obtain i' j' res where run: "request_times 4 rt (sv, q\<lparr>ar_phase := Running ?j\<rparr>) =
          (sv\<lparr>sv_ingestor := Some i'\<rparr>, q\<lparr>ar_phase := Running j'\<rparr>)" "answer (jb_phase j') = Some res"
        "ingest rt i peer (iq_record req) (iq_proof req) (se_clock (ar_env q)) (se_writes (ar_env q)) = (res, i')"
        using request_running [OF i, of rt ?j q] by auto
      have "read_body q peer ds = Running ?j" using dec req by (simp add: read_body_def)
      then show ?thesis
        using five Ingests sv0 sv resolved dec req run
        by (cases res) (auto simp: handle_route_def handle_dataset_ingest_def ingest_reply_def Let_def)
    qed
  qed
qed

text \<open>
  The moves are the parts of the handlers: a request that is not interrupted has its response after
  seven of them, and response and server are those of its handler with the two resolvers.
\<close>

lemma request_alone_handled:
  "case request_alone rt sv q of
     (sv', q') \<Rightarrow> \<exists>rs. reply (ar_phase q') = Some rs \<and> handle_route rt sv q = (rs, sv')"
proof (cases "sv_ingestor sv = None \<or> sv_resolver sv = None \<or> tr_inner (the (sv_resolver sv)) = None \<or>
    tr_trust (the (sv_resolver sv)) = None \<or> tr_account (the (sv_resolver sv)) = []")
  case True
  then show ?thesis
    by (auto simp: request_first identify_def handle_route_def handle_dataset_ingest_def handle_dataset_retrieve_def
        trusted_resolve_peer_def unauthorized_def Let_def split: option.splits dataset_route.splits)
next
  case False
  then obtain i r inner trust where sv: "sv_ingestor sv = Some i" "sv_resolver sv = Some r" "tr_inner r = Some inner"
    "tr_trust r = Some trust" "tr_account r \<noteq> []" by auto
  obtain res inner' where res: "session_resolve_peer rt (ar_clock q) (ar_session_write q) inner (Some (ar_http q)) = (res, inner')"
    by fastforce
  let ?r = "r\<lparr>tr_inner := Some inner'\<rparr>" and ?sv = "sv\<lparr>sv_resolver := Some (r\<lparr>tr_inner := Some inner'\<rparr>)\<rparr>"
  show ?thesis
  proof (cases "\<exists>peer. res = Inr peer \<and> is_trusted rt trust (tr_account r) (ap_device peer) (ap_fingerprint peer) = Inr True")
    case False
    then show ?thesis
      using sv res
      by (cases res) (auto simp: request_first identify_def request_identified [of 5, simplified] check_trust_def handle_route_def
          handle_dataset_ingest_def handle_dataset_retrieve_def trusted_resolve_peer_def unauthorized_def Let_def
          split: sum.splits dataset_route.splits)
  next
    case True
    then obtain peer where peer: "res = Inr peer"
      "is_trusted rt trust (tr_account r) (ap_device peer) (ap_fingerprint peer) = Inr True" by blast
    then have resolved: "trusted_resolve_peer rt (session_resolve_peer rt (ar_clock q) (ar_session_write q)) r (Some (ar_http q)) =
        (Inr peer, ?r)"
      using sv res by (simp add: trusted_resolve_peer_def)
    have "request_alone rt sv q = request_times 5 rt (?sv, q\<lparr>ar_phase := Checked peer\<rparr>)"
      using sv res peer request_identified [of 5 rt ?sv peer q]
      by (simp add: request_first identify_def check_trust_def)
    then show ?thesis using request_admitted [of ?sv i sv r, OF _ sv(1,2) resolved] sv(1) by simp
  qed
qed

section \<open>The service in motion\<close>

text \<open>
  What happens next: a request moves, or the administration authorizes or revokes a device or
  opens a session. The last argument says whether the write succeeds.
\<close>

datatype service_event =
    Moves nat
  | Authorizes bytes verified_pairing time bool
  | Revokes bytes bytes time bool
  | Opens bytes authenticated_peer time bool

fun administer :: "runtime \<Rightarrow> service_event \<Rightarrow> session_resolver trusted_resolver \<Rightarrow> session_resolver trusted_resolver" where
  "administer rt (Authorizes a p now ok) r =
     r\<lparr>tr_trust := map_option (\<lambda>s. snd (authorize_device rt s a p now ok)) (tr_trust r)\<rparr>"
| "administer rt (Revokes a v now ok) r =
     r\<lparr>tr_trust := map_option (\<lambda>s. snd (revoke_device rt s a v now ok)) (tr_trust r)\<rparr>"
| "administer rt (Opens token peer expires ok) r =
     r\<lparr>tr_inner := map_option (\<lambda>inner. inner\<lparr>sr_sessions :=
        map_option (\<lambda>d. snd (put_session rt d token peer expires ok)) (sr_sessions inner)\<rparr>) (tr_inner r)\<rparr>"
| "administer rt (Moves k) r = r"

inductive service_step :: "runtime \<Rightarrow> service_event \<Rightarrow> service \<times> active_request list \<Rightarrow> service \<times> active_request list \<Rightarrow> bool" for rt where
  request_moves: "k < length qs \<Longrightarrow> reply (ar_phase (qs ! k)) = None \<Longrightarrow> request_move rt sv (qs ! k) = (sv', q') \<Longrightarrow>
    service_step rt (Moves k) (sv, qs) (sv', qs[k := q'])"
| administered: "\<forall>k. e \<noteq> Moves k \<Longrightarrow>
    service_step rt e (sv, qs) (sv\<lparr>sv_resolver := map_option (administer rt e) (sv_resolver sv)\<rparr>, qs)"

inductive_cases service_stepE: "service_step rt e (sv, qs) (sv', qs')"

inductive service_run :: "runtime \<Rightarrow> service_event list \<Rightarrow> service \<times> active_request list \<Rightarrow> service \<times> active_request list \<Rightarrow> bool" for rt where
  rests: "service_run rt [] s s"
| goes_on: "service_run rt es s s' \<Longrightarrow> service_step rt e s' s'' \<Longrightarrow> service_run rt (es @ [e]) s s''"

definition all_received :: "active_request list \<Rightarrow> bool" where
  "all_received qs \<longleftrightarrow> (\<forall>q \<in> set qs. ar_phase q = Received)"

text \<open>The peer a request was traced to, and the one it was admitted for.\<close>

fun identified :: "request_phase \<Rightarrow> authenticated_peer option" where
  "identified (Identified peer) = Some peer"
| "identified (Checked peer) = Some peer"
| "identified (Running j) = Some (jb_peer j)"
| "identified (Replied p _) = p"
| "identified Received = None"

fun admitted :: "request_phase \<Rightarrow> authenticated_peer option" where
  "admitted (Identified peer) = None"
| "admitted p = identified p"

definition session_seen :: "runtime \<Rightarrow> active_request \<Rightarrow> authenticated_peer \<Rightarrow> service \<Rightarrow> bool" where
  "session_seen rt q peer sv \<longleftrightarrow> (\<exists>r inner. sv_resolver sv = Some r \<and> tr_inner r = Some inner \<and>
     session_admits rt (ar_clock q) inner (ar_http q) peer)"

definition trust_seen :: "runtime \<Rightarrow> authenticated_peer \<Rightarrow> service \<Rightarrow> bool" where
  "trust_seen rt peer sv \<longleftrightarrow> (\<exists>r trust. sv_resolver sv = Some r \<and> tr_trust r = Some trust \<and>
     is_trusted rt trust (tr_account r) (ap_device peer) (ap_fingerprint peer) = Inr True)"

text \<open>A request keeps what it was sent with.\<close>

definition same_query :: "active_request \<Rightarrow> active_request \<Rightarrow> bool" where
  "same_query q q' \<longleftrightarrow> q'\<lparr>ar_phase := ar_phase q\<rparr> = q"

lemma same_query_fields:
  "same_query q q' \<Longrightarrow> ar_http q' = ar_http q \<and> ar_route q' = ar_route q \<and> ar_env q' = ar_env q \<and>
     ar_clock q' = ar_clock q \<and> ar_session_write q' = ar_session_write q"
  unfolding same_query_def by (metis request_fields)

lemma same_query_simps [simp]: "same_query q q" "same_query q (q\<lparr>ar_phase := p\<rparr>)"
  by (simp_all add: same_query_def)

lemma same_query_trans: "same_query q q' \<Longrightarrow> same_query q' q'' \<Longrightarrow> same_query q q''"
  unfolding same_query_def by (metis active_request.update_convs(6) active_request.surjective)

lemma request_move_query: "request_move rt sv q = (sv', q') \<Longrightarrow> same_query q q'"
  by (auto simp: request_move_def split: request_phase.splits option.splits prod.splits)

text \<open>What a move does to the peer of a request.\<close>

lemma session_seen_identify:
  "identify rt sv q = (sv', Identified peer) \<Longrightarrow> session_seen rt q peer sv"
  unfolding identify_def session_seen_def
  by (auto split: option.splits prod.splits sum.splits if_splits dest: sessions.resolved)

lemma identify_cases: "identify rt sv q = (sv', p) \<Longrightarrow> (\<exists>peer. p = Identified peer) \<or> (\<exists>rs. p = Replied None rs)"
  unfolding identify_def by (auto split: option.splits prod.splits sum.splits if_splits)

lemma check_trust_cases:
  "check_trust rt sv peer = Replied None unauthorized \<or> check_trust rt sv peer = Checked peer \<and>
     trust_seen rt peer sv"
  unfolding check_trust_def trust_seen_def
  by (cases "sv_resolver sv") (auto split: option.splits sum.splits)

lemma checked_admitted [simp]:
  "admitted (read_body q peer ds) = Some peer" "admitted (read_page sv q peer ds) = Some peer"
  "identified (read_body q peer ds) = Some peer" "identified (read_page sv q peer ds) = Some peer"
  by (auto simp: read_body_def read_page_def Let_def split: sum.splits prod.splits)

text \<open>
  A move keeps the peer, or finds it: in the session store it looks into, and then only admits it
  by the registry as it is.
\<close>

lemma move_identifies:
  assumes move: "request_move rt sv q = (sv', q')" and peer: "identified (ar_phase q') = Some peer"
  shows "identified (ar_phase q) = Some peer \<or> session_seen rt q peer sv"
proof (cases "ar_phase q")
  case Received
  then obtain p where p: "identify rt sv q = (sv', p)" "ar_phase q' = p"
    using move by (auto simp: request_move_def split: prod.splits)
  then have "p = Identified peer" using identify_cases [OF p(1)] peer by auto
  then show ?thesis using session_seen_identify p by blast
next
  case (Identified peer')
  then show ?thesis using move peer check_trust_cases [of rt sv peer'] by (auto simp: request_move_def)
next
  case (Checked peer')
  then show ?thesis
    using move peer by (auto simp: request_move_def split: dataset_route.splits)
next
  case (Running j)
  then show ?thesis
    using move peer same_request_fields [OF ingest_move_request]
    by (auto simp: request_move_def split: option.splits prod.splits)
qed (use move peer in \<open>auto simp: request_move_def\<close>)

lemma move_admits:
  assumes move: "request_move rt sv q = (sv', q')" and peer: "admitted (ar_phase q') = Some peer"
  shows "admitted (ar_phase q) = Some peer \<or> identified (ar_phase q) = Some peer \<and> trust_seen rt peer sv"
proof (cases "ar_phase q")
  case Received
  then obtain p where p: "identify rt sv q = (sv', p)" "ar_phase q' = p"
    using move by (auto simp: request_move_def split: prod.splits)
  then show ?thesis using identify_cases [OF p(1)] peer by auto
next
  case (Identified peer')
  then show ?thesis using move peer check_trust_cases [of rt sv peer'] by (auto simp: request_move_def)
next
  case (Checked peer')
  then show ?thesis
    using move peer by (auto simp: request_move_def split: dataset_route.splits)
next
  case (Running j)
  then show ?thesis
    using move peer same_request_fields [OF ingest_move_request]
    by (auto simp: request_move_def split: option.splits prod.splits)
qed (use move peer in \<open>auto simp: request_move_def\<close>)

lemma admitted_identified: "admitted p = Some peer \<Longrightarrow> identified p = Some peer"
  by (cases p) simp_all

section \<open>Every admission has been seen\<close>

text \<open>On the way, first the session of the peer was open, and later, or then, the peer was trusted.\<close>

definition session_along ::
  "runtime \<Rightarrow> active_request \<Rightarrow> authenticated_peer \<Rightarrow> service_event list \<Rightarrow> service \<times> active_request list \<Rightarrow> service \<times> active_request list \<Rightarrow> bool" where
  "session_along rt q peer es s s' \<longleftrightarrow> (\<exists>es1 s1 es2. es = es1 @ es2 \<and> service_run rt es1 s s1 \<and>
     session_seen rt q peer (fst s1) \<and> service_run rt es2 s1 s')"

definition admission_along ::
  "runtime \<Rightarrow> active_request \<Rightarrow> authenticated_peer \<Rightarrow> service_event list \<Rightarrow> service \<times> active_request list \<Rightarrow> service \<times> active_request list \<Rightarrow> bool" where
  "admission_along rt q peer es s s' \<longleftrightarrow> (\<exists>es1 s1 es2. es = es1 @ es2 \<and> session_along rt q peer es1 s s1 \<and>
     trust_seen rt peer (fst s1) \<and> service_run rt es2 s1 s')"

lemma session_along_goes_on:
  assumes "session_along rt q peer es s s'" and "service_step rt e s' s''"
  shows "session_along rt q peer (es @ [e]) s s''"
proof -
  obtain es1 s1 es2 where parts: "es = es1 @ es2" "service_run rt es1 s s1" "session_seen rt q peer (fst s1)"
    "service_run rt es2 s1 s'" using assms(1) unfolding session_along_def by blast
  from goes_on [OF parts(4) assms(2)] parts(1-3) show ?thesis
    unfolding session_along_def by (intro exI [of _ es1] exI [of _ s1] exI [of _ "es2 @ [e]"]) simp
qed

lemma admission_along_goes_on:
  assumes "admission_along rt q peer es s s'" and "service_step rt e s' s''"
  shows "admission_along rt q peer (es @ [e]) s s''"
proof -
  obtain es1 s1 es2 where parts: "es = es1 @ es2" "session_along rt q peer es1 s s1" "trust_seen rt peer (fst s1)"
    "service_run rt es2 s1 s'" using assms(1) unfolding admission_along_def by blast
  from goes_on [OF parts(4) assms(2)] parts(1-3) show ?thesis
    unfolding admission_along_def by (intro exI [of _ es1] exI [of _ s1] exI [of _ "es2 @ [e]"]) simp
qed

lemmas along_goes_on = session_along_goes_on admission_along_goes_on

lemma session_along_now:
  "service_run rt es s s' \<Longrightarrow> session_seen rt q peer (fst s') \<Longrightarrow> session_along rt q peer es s s'"
  unfolding session_along_def by (intro exI [of _ es] exI [of _ s'] exI [of _ "[]"]) (simp add: rests)

lemma admission_along_now:
  "session_along rt q peer es s s' \<Longrightarrow> trust_seen rt peer (fst s') \<Longrightarrow> admission_along rt q peer es s s'"
  unfolding admission_along_def by (intro exI [of _ es] exI [of _ s'] exI [of _ "[]"]) (simp add: rests)

lemma session_seen_query: "same_query q q' \<Longrightarrow> session_seen rt q' peer sv = session_seen rt q peer sv"
  using same_query_fields [of q q'] by (simp add: session_seen_def)

lemma run_trans: "service_run rt es' s' s'' \<Longrightarrow> service_run rt es s s' \<Longrightarrow> service_run rt (es @ es') s s''"
  by (induction rule: service_run.induct) (auto simp flip: append_assoc intro: goes_on)

lemma run_admissions:
  assumes "service_run rt es s s'" and "all_received (snd s)"
  shows "length (snd s') = length (snd s) \<and> (\<forall>k < length (snd s). same_query (snd s ! k) (snd s' ! k) \<and>
    (\<forall>peer. (identified (ar_phase (snd s' ! k)) = Some peer \<longrightarrow> session_along rt (snd s ! k) peer es s s') \<and>
       (admitted (ar_phase (snd s' ! k)) = Some peer \<longrightarrow> admission_along rt (snd s ! k) peer es s s')))"
  using assms
proof induction
  case (rests s)
  then have "ar_phase (snd s ! k) = Received" if "k < length (snd s)" for k
    using that by (simp add: all_received_def)
  then show ?case by simp
next
  case (goes_on es s s' e s'')
  note run = goes_on.hyps(1) and step = goes_on.hyps(2) and IH = goes_on.IH [OF goes_on.prems]
  note further = along_goes_on [OF _ step]
  from step show ?case
  proof cases
    case (administered sv qs)
    then show ?thesis using IH further by auto
  next
    case (request_moves k qs sv sv' q')
    have len: "length qs = length (snd s)" using IH request_moves(2) by simp
    have "same_query (snd s ! n) (qs[k := q'] ! n) \<and>
        (\<forall>peer. (identified (ar_phase (qs[k := q'] ! n)) = Some peer \<longrightarrow> session_along rt (snd s ! n) peer (es @ [e]) s s'') \<and>
          (admitted (ar_phase (qs[k := q'] ! n)) = Some peer \<longrightarrow> admission_along rt (snd s ! n) peer (es @ [e]) s s''))"
      if n: "n < length (snd s)" for n
    proof (cases "n = k")
      case False
      then show ?thesis using IH further n request_moves(2) by auto
    next
      case True
      have old: "same_query (snd s ! k) (qs ! k)" using IH n True request_moves(2) by simp
      note seen = session_seen_query [OF old, of rt _ sv]
      have before: "identified (ar_phase (qs ! k)) = Some peer \<Longrightarrow> session_along rt (snd s ! k) peer es s s'"
        "admitted (ar_phase (qs ! k)) = Some peer \<Longrightarrow> admission_along rt (snd s ! k) peer es s s'" for peer
        using IH n True request_moves(2) by simp_all
      have now: "session_seen rt (snd s ! k) peer sv \<Longrightarrow> session_along rt (snd s ! k) peer es s s'"
        "session_along rt (snd s ! k) peer es s s' \<Longrightarrow> trust_seen rt peer sv \<Longrightarrow> admission_along rt (snd s ! k) peer es s s'" for peer
        using session_along_now [OF run] admission_along_now request_moves(2) by simp_all
      have "session_along rt (snd s ! k) peer (es @ [e]) s s''" if "identified (ar_phase q') = Some peer" for peer
        using move_identifies [OF request_moves(6) that] before(1) now(1) further(1) seen by blast
      moreover have "admission_along rt (snd s ! k) peer (es @ [e]) s s''" if "admitted (ar_phase q') = Some peer" for peer
        using move_admits [OF request_moves(6) that] before now(2) further(2) by blast
      ultimately show ?thesis
        using True n len same_query_trans [OF old request_move_query [OF request_moves(6)]] by simp
    qed
    then show ?thesis using len request_moves(3) by simp
  qed
qed

section \<open>For the stores a run is a schedule of ingestions\<close>

definition running_job :: "active_request \<Rightarrow> job list" where
  "running_job q = (case ar_phase q of Running j \<Rightarrow> [j] | _ \<Rightarrow> [])"

definition running :: "active_request list \<Rightarrow> job list" where
  "running qs = concat (map running_job qs)"

text \<open>A job that has not moved may have been there from the start.\<close>

lemma step_beside:
  assumes "ingest_step rt (i, a @ b) (i', js')"
  shows "\<exists>a' b'. js' = a' @ b' \<and> length a' = length a \<and> ingest_step rt (i, a @ c @ b) (i', a' @ c @ b')"
  using assms
proof cases
  case (job_moves k j')
  show ?thesis
  proof (cases "k < length a")
    case True
    then have "ingest_step rt (i, a @ c @ b) (i', (a @ c @ b)[k := j'])"
      using job_moves by (intro ingest_step.job_moves) (simp_all add: nth_append)
    then show ?thesis
      using True job_moves(1) by (intro exI [of _ "a[k := j']"] exI [of _ b]) (simp add: list_update_append)
  next
    case False
    let ?m = "k - length a"
    have "ingest_step rt (i, a @ c @ b) (i', (a @ c @ b)[length a + (length c + ?m) := j'])"
      using job_moves False by (intro ingest_step.job_moves) (auto simp: nth_append)
    moreover have "(a @ c @ b)[length a + (length c + ?m) := j'] = a @ c @ b[?m := j']"
      by (simp add: list_update_append)
    ultimately show ?thesis
      using False job_moves(1) by (intro exI [of _ a] exI [of _ "b[?m := j']"]) (simp add: list_update_append)
  qed
qed

lemma schedule_beside:
  assumes "schedule rt (i, a @ b) (i', js')"
  shows "\<exists>a' b'. js' = a' @ b' \<and> length a' = length a \<and> schedule rt (i, a @ c @ b) (i', a' @ c @ b')"
  using assms
proof (induction "(i', js')" arbitrary: i' js' rule: rtranclp_induct)
  case base
  then show ?case by blast
next
  case (step s)
  obtain i1 js1 where s: "s = (i1, js1)" by fastforce
  obtain a1 b1 where one: "js1 = a1 @ b1" "length a1 = length a" "schedule rt (i, a @ c @ b) (i1, a1 @ c @ b1)"
    using step.hyps(3) [OF s] by blast
  obtain a' b' where "js' = a' @ b'" "length a' = length a1" "ingest_step rt (i1, a1 @ c @ b1) (i', a' @ c @ b')"
    using step_beside [of rt i1 a1 b1 i' js' c] step.hyps(2) s one(1) by blast
  then show ?case using one by (metis rtranclp.rtrancl_into_rtrancl)
qed

lemma running_job_simps [simp]:
  "running_job (q\<lparr>ar_phase := p\<rparr>) = (case p of Running j \<Rightarrow> [j] | _ \<Rightarrow> [])"
  by (simp add: running_job_def)

lemma all_arrived_simps [simp]:
  "all_arrived []" "all_arrived (j # js) \<longleftrightarrow> jb_phase j = Arrived \<and> all_arrived js"
  "all_arrived (js @ ks) \<longleftrightarrow> all_arrived js \<and> all_arrived ks"
  by (auto simp: all_arrived_def)

lemma other_moves:
  assumes move: "request_move rt sv q = (sv', q')" and idle: "running_job q = []"
  shows "sv_ingestor sv' = sv_ingestor sv \<and> all_arrived (running_job q')"
proof (cases "ar_phase q")
  case Received
  then obtain p where p: "identify rt sv q = (sv', p)" "q' = q\<lparr>ar_phase := p\<rparr>"
    using move by (auto simp: request_move_def split: prod.splits)
  have "sv_ingestor sv' = sv_ingestor sv"
    using p(1) unfolding identify_def by (auto split: option.splits prod.splits if_splits)
  then show ?thesis using identify_cases [OF p(1)] p(2) by auto
next
  case (Identified peer)
  then show ?thesis using move check_trust_cases [of rt sv peer] by (auto simp: request_move_def)
next
  case (Checked peer)
  have "all_arrived (case read_body q peer ds of Running j \<Rightarrow> [j] | _ \<Rightarrow> [])" for ds
    by (simp add: read_body_def Let_def split: sum.splits prod.splits)
  then show ?thesis using move Checked by (auto simp: request_move_def read_page_def split: dataset_route.splits)
qed (use move idle in \<open>auto simp: request_move_def running_job_def\<close>)

lemma running_split: "k < length qs \<Longrightarrow> running qs = running (take k qs) @ running_job (qs ! k) @ running (drop (Suc k) qs)"
  by (subst id_take_nth_drop [of k qs]) (simp_all add: running_def)

lemma running_update:
  "k < length qs \<Longrightarrow> running (qs[k := q']) = running (take k qs) @ running_job q' @ running (drop (Suc k) qs)"
  by (simp add: running_def upd_conv_take_nth_drop)

lemma run_schedule_from:
  assumes "service_run rt es s s'" and "sv_ingestor (fst s) = Some i0"
  shows "\<exists>i js. sv_ingestor (fst s') = Some i \<and> schedule rt (i0, js) (i, running (snd s')) \<and>
    (\<forall>j \<in> set js. jb_phase j = Arrived \<or> j \<in> set (running (snd s)))"
  using assms
proof induction
  case (rests s)
  then show ?case by (intro exI [of _ i0] exI [of _ "running (snd s)"]) simp
next
  case (goes_on es s s' e s'')
  obtain i js where i: "sv_ingestor (fst s') = Some i" and js: "schedule rt (i0, js) (i, running (snd s'))"
    "\<forall>j \<in> set js. jb_phase j = Arrived \<or> j \<in> set (running (snd s))"
    using goes_on.IH [OF goes_on.prems] by blast
  from goes_on.hyps(2) show ?case
  proof cases
    case (administered sv qs)
    then show ?thesis using i js by auto
  next
    case (request_moves k qs sv sv' q')
    let ?a = "running (take k qs)" and ?b = "running (drop (Suc k) qs)"
    have before: "running (snd s') = ?a @ running_job (qs ! k) @ ?b" and s'': "running (snd s'') = ?a @ running_job q' @ ?b"
      using running_split running_update request_moves by simp_all
    show ?thesis
    proof (cases "running_job (qs ! k) = []")
      case True
      note moved = other_moves [OF request_moves(6) True]
      have "list_all2 same_request js (?a @ ?b)" using schedule_requests [OF js(1)] before True by simp
      then have len: "length js = length ?a + length ?b" by (simp add: list_all2_lengthD)
      define a where "a = take (length ?a) js"
      define b where "b = drop (length ?a) js"
      have ab: "js = a @ b" "length a = length ?a" using len by (simp_all add: a_def b_def)
      have "schedule rt (i0, a @ b) (i, ?a @ ?b)" using js(1) before True ab by simp
      from schedule_beside [OF this, of "running_job q'"] ab(2)
      have "schedule rt (i0, a @ running_job q' @ b) (i, running (snd s''))" using s'' by auto
      then show ?thesis
        using moved i js(2) ab(1) request_moves
        by (intro exI [of _ i] exI [of _ "a @ running_job q' @ b"]) (auto simp: all_arrived_def)
    next
      case False
      then obtain j where j: "ar_phase (qs ! k) = Running j" "running_job (qs ! k) = [j]"
        by (auto simp: running_job_def split: request_phase.splits)
      obtain i' j' where move: "ingest_move rt i j = (i', j')" by fastforce
      have q': "sv_ingestor sv' = Some i'" "running_job q' = [j']"
        using request_moves(2,6) i j(1) move by (auto simp: request_move_def)
      have "answer (jb_phase j) = None" using request_moves(5) j(1) by simp
      then have "ingest_step rt (i, ?a @ [j] @ ?b) (i', (?a @ [j] @ ?b)[length ?a := j'])"
        using move by (intro ingest_step.job_moves) (simp_all add: nth_append)
      then have "ingest_step rt (i, running (snd s')) (i', running (snd s''))"
        using before s'' j(2) q'(2) by (simp add: list_update_append)
      then show ?thesis using js q'(1) request_moves(3) by (auto intro: rtranclp.rtrancl_into_rtrancl)
    qed
  qed
qed

lemma run_schedule:
  assumes "service_run rt es s s'" and "all_received (snd s)" and "sv_ingestor (fst s) = Some i0"
  shows "\<exists>i js. sv_ingestor (fst s') = Some i \<and> all_arrived js \<and> schedule rt (i0, js) (i, running (snd s'))"
proof -
  have "running (snd s) = []" using assms(2) by (auto simp: running_def running_job_def all_received_def)
  then show ?thesis using run_schedule_from [OF assms(1,3)] by (fastforce simp: all_arrived_def)
qed

text \<open>
  C9. The service is a refinement of concurrent ingestion. Whatever requests are handled at once,
  reading and writing, and whatever the administration does meanwhile, the stores, the replay
  guard and the receipts go through a schedule of ingestions: of those requests that came to
  \<open>Ingest\<close>, in the state they have reached, each begun from its start.
\<close>

theorem service_runs_are_schedules:
  assumes "service_run rt es (sv, qs) (sv', qs')" and "all_received qs" and "sv_ingestor sv = Some i"
  shows "\<exists>i' js. sv_ingestor sv' = Some i' \<and> all_arrived js \<and> list_all2 same_request js (running qs') \<and>
    schedule rt (i, js) (i', running qs')"
proof -
  obtain i' js where "sv_ingestor sv' = Some i'" "all_arrived js" "schedule rt (i, js) (i', running qs')"
    using run_schedule [OF assms(1)] assms(2,3) by auto
  then show ?thesis using schedule_requests [of rt "(i, js)" "(i', running qs')"] by auto
qed

section \<open>What the service does is admitted\<close>

fun phase_ok :: "active_request \<Rightarrow> request_phase \<Rightarrow> bool" where
  "phase_ok q (Replied None rs) = (400 \<le> rs_status rs)"
| "phase_ok q (Running j) = (ar_route q = Ingests (env_dataset (jb_record j)) \<and>
     (\<exists>req. fst (bd_request (se_decoder (ar_env q)) (max_bytes_reader (rq_body (ar_http q)) max_ingest_body_bytes)) = Inr req \<and>
       iq_record req = jb_record j \<and> iq_proof req = jb_proof j))"
| "phase_ok q _ = True"

lemma identify_phase: "identify rt sv q = (sv', p) \<Longrightarrow> phase_ok q p"
  unfolding identify_def unauthorized_def http_error_def by (auto split: option.splits prod.splits sum.splits if_splits)

lemma read_body_phase: "ar_route q = Ingests ds \<Longrightarrow> phase_ok q (read_body q peer ds)"
  by (auto simp: read_body_def Let_def split: sum.splits prod.splits)

lemma phase_ok_query: "same_query q q' \<Longrightarrow> phase_ok q' p = phase_ok q p"
  using same_query_fields [of q q'] by (cases "(q, p)" rule: phase_ok.cases) simp_all

lemma move_phase:
  assumes move: "request_move rt sv q = (sv', q')" and ok: "phase_ok q (ar_phase q)"
  shows "phase_ok q (ar_phase q')"
proof (cases "ar_phase q")
  case Received
  then show ?thesis using move identify_phase by (auto simp: request_move_def split: prod.splits)
next
  case (Identified peer)
  have "phase_ok q (Replied None unauthorized)" by (simp add: unauthorized_def http_error_def)
  then show ?thesis using Identified move check_trust_cases [of rt sv peer] by (auto simp: request_move_def)
next
  case (Checked peer)
  then show ?thesis using move read_body_phase by (auto simp: request_move_def read_page_def split: dataset_route.splits)
next
  case (Running j)
  then show ?thesis
    using move ok same_request_fields [OF ingest_move_request]
    by (auto simp: request_move_def split: option.splits prod.splits)
qed (use move ok in \<open>auto simp: request_move_def\<close>)

lemma run_phases:
  assumes "service_run rt es s s'" and "all_received (snd s)"
  shows "\<forall>q \<in> set (snd s'). phase_ok q (ar_phase q)"
  using assms
proof induction
  case (goes_on es s s' e s'')
  from goes_on.hyps(2) show ?case
  proof cases
    case (request_moves k qs sv sv' q')
    have "phase_ok (qs ! k) (ar_phase q')"
      using move_phase [OF request_moves(6)] goes_on request_moves(2,4) by simp
    then have "phase_ok q' (ar_phase q')" using phase_ok_query [OF request_move_query [OF request_moves(6)]] by simp
    then show ?thesis
      using goes_on request_moves(2,3) by (auto dest!: set_update_subset_insert [THEN subsetD])
  qed (use goes_on in auto)
qed (simp add: all_received_def)

lemma running_request: "j \<in> set (running qs) \<Longrightarrow> \<exists>k < length qs. ar_phase (qs ! k) = Running j"
  by (fastforce simp: running_def running_job_def in_set_conv_nth split: request_phase.splits)

lemma reply_admitted: "reply p = Some rs \<Longrightarrow> rs_status rs < 400 \<Longrightarrow> phase_ok q p \<Longrightarrow> \<exists>peer. admitted p = Some peer"
  by (cases "(q, p)" rule: phase_ok.cases) auto

lemma run_changes:
  assumes run: "service_run rt es (sv, qs) (sv', qs')" and start: "all_received qs" "sv_ingestor sv = Some i"
    and i': "sv_ingestor sv' = Some i'" and changed: "held i' ds rid \<noteq> held i ds rid"
  shows "\<exists>k < length qs. \<exists>j. ar_phase (qs' ! k) = Running j \<and> ds = env_dataset (jb_record j) \<and> rid = env_id (jb_record j) \<and>
    env_origin (jb_record j) = ap_device (jb_peer j) \<and> cleared rt i j"
proof -
  obtain js where js: "all_arrived js" "schedule rt (i, js) (i', running qs')"
    using run_schedule [OF run] start i' by auto
  have inv: "interleaving_ok rt i (i', running qs')"
    by (rule interleaving_schedule [OF js(2) interleaving_start [OF js(1)]])
  obtain n where n: "n < length (running qs')" "past_store (running qs' ! n)" "ds = env_dataset (jb_record (running qs' ! n))"
    "rid = env_id (jb_record (running qs' ! n))"
    using interleaving_changed [OF inv changed] by blast
  let ?j = "running qs' ! n"
  have "job_ok rt i' ?j (jb_phase ?j)" and same: "cleared rt i' = cleared rt i"
    using inv n(1) grows_keeps(4) by (simp_all add: interleaving_ok_def)
  then have clear: "cleared rt i ?j" using n(2) by (cases "jb_phase ?j") (auto simp: past_store_def)
  then have "env_origin (jb_record ?j) = ap_device (jb_peer ?j)" unfolding cleared_def using signed_origin by blast
  moreover obtain k where "k < length qs'" "ar_phase (qs' ! k) = Running ?j"
    using running_request [OF nth_mem [OF n(1)]] by blast
  moreover have "length qs' = length qs" using run_admissions [OF run] start by simp
  ultimately show ?thesis using n clear by auto
qed

text \<open>
  C7. The service fails closed while requests and administration interleave. A stored record that
  has changed is one that a request to the route of its dataset carried, with the device it was
  admitted for as its origin and signed by that device, and cleared by the providers and the policy;
  and this request, as any other that has been answered with success, first found an unexpired
  session of its token for the peer, and then found the key of the peer trusted for the account,
  each in a state that the service went through since the request came in.
\<close>

theorem service_changes_traced:
  assumes run: "service_run rt es (sv, qs) (sv', qs')" and start: "all_received qs" "sv_ingestor sv = Some i"
    and i': "sv_ingestor sv' = Some i'"
  shows "(\<forall>ds rid. held i' ds rid \<noteq> held i ds rid \<longrightarrow> (\<exists>k < length qs. \<exists>j.
       ar_route (qs ! k) = Ingests ds \<and> env_dataset (jb_record j) = ds \<and> env_id (jb_record j) = rid \<and>
       (\<exists>req. fst (bd_request (se_decoder (ar_env (qs ! k))) (max_bytes_reader (rq_body (ar_http (qs ! k))) max_ingest_body_bytes)) = Inr req \<and>
          iq_record req = jb_record j \<and> iq_proof req = jb_proof j) \<and>
       env_origin (jb_record j) = ap_device (jb_peer j) \<and> cleared rt i j \<and>
       admission_along rt (qs ! k) (jb_peer j) es (sv, qs) (sv', qs'))) \<and>
    (\<forall>k < length qs. \<forall>rs. reply (ar_phase (qs' ! k)) = Some rs \<longrightarrow> rs_status rs < 400 \<longrightarrow>
       (\<exists>peer. admission_along rt (qs ! k) peer es (sv, qs) (sv', qs')))"
proof (intro conjI allI impI)
  note adm = run_admissions [OF run, unfolded snd_conv, OF start(1)]
  have ok: "phase_ok (qs ! k) (ar_phase (qs' ! k))" if "k < length qs" for k
    using bspec [OF run_phases [OF run, unfolded snd_conv, OF start(1)], of "qs' ! k"] adm that
      phase_ok_query [of "qs ! k" "qs' ! k"] by simp
  fix ds rid assume "held i' ds rid \<noteq> held i ds rid"
  from run_changes [OF run start i' this] obtain k j where kj: "k < length qs" "ar_phase (qs' ! k) = Running j"
    "ds = env_dataset (jb_record j)" "rid = env_id (jb_record j)" "env_origin (jb_record j) = ap_device (jb_peer j)" "cleared rt i j"
    by blast
  then show "\<exists>k < length qs. \<exists>j. ar_route (qs ! k) = Ingests ds \<and> env_dataset (jb_record j) = ds \<and> env_id (jb_record j) = rid \<and>
       (\<exists>req. fst (bd_request (se_decoder (ar_env (qs ! k))) (max_bytes_reader (rq_body (ar_http (qs ! k))) max_ingest_body_bytes)) = Inr req \<and>
          iq_record req = jb_record j \<and> iq_proof req = jb_proof j) \<and>
       env_origin (jb_record j) = ap_device (jb_peer j) \<and> cleared rt i j \<and>
       admission_along rt (qs ! k) (jb_peer j) es (sv, qs) (sv', qs')"
    using ok [OF kj(1)] adm by (intro exI [of _ k] exI [of _ j] conjI) auto
next
  note adm = run_admissions [OF run, unfolded snd_conv, OF start(1)]
  fix k rs assume k: "k < length qs" and rs: "reply (ar_phase (qs' ! k)) = Some rs" "rs_status rs < 400"
  have "phase_ok (qs' ! k) (ar_phase (qs' ! k))"
    using run_phases [OF run, unfolded snd_conv, OF start(1)] adm k by simp
  then show "\<exists>peer. admission_along rt (qs ! k) peer es (sv, qs) (sv', qs')"
    using reply_admitted [OF rs] adm k by blast
qed

section \<open>Revocation and the requests in flight\<close>

lemma trusted_entry:
  "is_trusted rt (Some d) a v fp = Inr True \<longleftrightarrow> a \<noteq> [] \<and> valid_device_id v \<and> fp \<noteq> [] \<and>
     (\<exists>st t. load_trusted rt d = Inr st \<and> device_at a v (tf_devices st) = Some t \<and> td_revoked_at t = None \<and> td_fingerprint t = fp)"
  by (auto simp: is_trusted_def device_at_def result_iff Let_def split: option.splits if_splits)

text \<open>A registry whose entry of one device was written anew.\<close>

definition entry_written :: "runtime \<Rightarrow> trusted_device \<Rightarrow> trusted_device_file disk \<Rightarrow> trusted_device_file disk \<Rightarrow> bool" where
  "entry_written rt t d d' \<longleftrightarrow> (\<exists>st st'. load_trusted rt d = Inr st \<and> disk_file d' = Holds st' \<and>
     (\<forall>b w. device_at b w (tf_devices st') =
        (if b = td_account t \<and> w = td_device t then Some t else device_at b w (tf_devices st))))"

lemma load_written: "disk_file d = Holds st \<Longrightarrow> load_trusted rt d = Inr st' \<Longrightarrow> st' = st"
  by (auto simp: load_trusted_def result_iff split: if_splits)

lemma written_entry:
  assumes "load_trusted rt d = Inr st"
    and "\<forall>b w. device_at b w ds = (if b = td_account t \<and> w = td_device t then Some t else device_at b w (tf_devices st))"
  shows "snd (write_trusted ok (st\<lparr>tf_devices := ds\<rparr>) d) = d \<or> entry_written rt t d (snd (write_trusted ok (st\<lparr>tf_devices := ds\<rparr>) d))"
  using assms by (simp add: write_trusted_def disk_save_def entry_written_def)

lemma authorize_writes:
  "snd (authorize_device rt (Some d) a p now ok) = Some d \<or>
     (\<exists>d'. snd (authorize_device rt (Some d) a p now ok) = Some d' \<and>
       entry_written rt (trusted_device_from_pairing a p now) d d')"
proof (cases "load_trusted rt d")
  case (Inr st)
  let ?t = "trusted_device_from_pairing a p now"
  have t: "td_account ?t = a" "td_device ?t = vp_device p" by (simp_all add: trusted_device_from_pairing_def)
  show ?thesis
  proof (cases "device_index a (vp_device p) (tf_devices st)")
    case None
    then have "\<forall>b w. device_at b w (tf_devices st @ [?t]) =
        (if b = td_account ?t \<and> w = td_device ?t then Some ?t else device_at b w (tf_devices st))"
      using t by (auto simp: device_at_append device_index_at split: option.splits)
    from written_entry [OF Inr this, of ok] show ?thesis
      using Inr None by (auto simp: authorize_device_def Let_def split: prod.splits sum.splits)
  next
    case (Some k)
    then have "\<forall>b w. device_at b w ((tf_devices st)[k := ?t]) =
        (if b = td_account ?t \<and> w = td_device ?t then Some ?t else device_at b w (tf_devices st))"
      using t by (simp add: device_at_update)
    from written_entry [OF Inr this, of ok] show ?thesis
      using Inr Some by (auto simp: authorize_device_def Let_def split: prod.splits sum.splits)
  qed
qed (simp add: authorize_device_def)

lemma revoke_writes:
  "snd (revoke_device rt (Some d) a v now ok) = Some d \<or>
     (\<exists>d' t. snd (revoke_device rt (Some d) a v now ok) = Some d' \<and> td_revoked_at t \<noteq> None \<and> entry_written rt t d d')"
proof (cases "load_trusted rt d")
  case (Inr st)
  show ?thesis
  proof (cases "device_index a v (tf_devices st)")
    case (Some k)
    let ?t = "(tf_devices st ! k)\<lparr>td_revoked_at := Some now\<rparr>"
    have at: "td_account ?t = a" "td_device ?t = v" using device_index_Some [OF Some] by simp_all
    have "\<forall>b w. device_at b w ((tf_devices st)[k := ?t]) =
        (if b = td_account ?t \<and> w = td_device ?t then Some ?t else device_at b w (tf_devices st))"
      using device_at_update [OF Some at] at by simp
    note written = written_entry [OF Inr this, of ok]
    obtain r d' where w: "write_trusted ok (st\<lparr>tf_devices := (tf_devices st)[k := ?t]\<rparr>) d = (r, d')" by fastforce
    then have "snd (revoke_device rt (Some d) a v now ok) \<in> {Some d, Some d'}"
      using Inr Some by (simp add: revoke_device_def Let_def split: sum.splits)
    moreover have "d' = d \<or> entry_written rt ?t d d'" using written w by simp
    moreover have "td_revoked_at ?t \<noteq> None" by simp
    ultimately show ?thesis by blast
  qed (simp add: Inr revoke_device_def)
qed (simp add: revoke_device_def)

definition shut_out :: "runtime \<Rightarrow> bytes \<Rightarrow> bytes \<Rightarrow> trusted_device_store \<Rightarrow> bool" where
  "shut_out rt a v s \<longleftrightarrow> (\<forall>fp. is_trusted rt s a v fp \<noteq> Inr True)"

lemma entry_written_shut_out:
  assumes "entry_written rt t d d'" and "shut_out rt a v (Some d)"
    and "td_revoked_at t \<noteq> None \<or> (a, v) \<noteq> (td_account t, td_device t)"
  shows "shut_out rt a v (Some d')"
  unfolding shut_out_def
proof (intro allI notI)
  fix fp assume "is_trusted rt (Some d') a v fp = Inr True"
  then obtain new u where valid: "a \<noteq> []" "valid_device_id v" "fp \<noteq> []" and new: "load_trusted rt d' = Inr new"
    and u: "device_at a v (tf_devices new) = Some u" "td_revoked_at u = None" "td_fingerprint u = fp"
    by (auto simp: trusted_entry)
  obtain st st' where st: "load_trusted rt d = Inr st" "disk_file d' = Holds st'"
    "\<forall>b w. device_at b w (tf_devices st') =
        (if b = td_account t \<and> w = td_device t then Some t else device_at b w (tf_devices st))"
    using assms(1) unfolding entry_written_def by blast
  have "new = st'" by (rule load_written [OF st(2) new])
  then have "device_at a v (tf_devices st) = Some u" using u st(3) assms(3) by (auto split: if_splits)
  then have "is_trusted rt (Some d) a v fp = Inr True" using valid st(1) u(2,3) by (auto simp: trusted_entry)
  then show False using assms(2) by (simp add: shut_out_def)
qed

lemma administer_shut_out:
  assumes "shut_out rt a v s" and "(a, v) \<noteq> (b, vp_device p)"
  shows "shut_out rt a v (snd (authorize_device rt s b p now ok))"
proof (cases s)
  case (Some d)
  then show ?thesis
    using authorize_writes [of rt d b p now ok] entry_written_shut_out assms
    by (auto simp: trusted_device_from_pairing_def)
qed (use assms in \<open>simp add: authorize_device_def\<close>)

lemma revoke_shut_out: "shut_out rt a v s \<Longrightarrow> shut_out rt a v (snd (revoke_device rt s b w now ok))"
proof (cases s)
  case (Some d)
  assume "shut_out rt a v s"
  then show ?thesis using revoke_writes [of rt d b w now ok] entry_written_shut_out Some by auto
qed (simp add: revoke_device_def)

lemma revoked_shut_out: "revoke_device rt s a v now ok = (Inr t, s') \<Longrightarrow> shut_out rt a v s'"
proof (cases s)
  case (Some d)
  assume run: "revoke_device rt s a v now ok = (Inr t, s')"
  obtain st k where st: "load_trusted rt d = Inr st" and k: "device_index a v (tf_devices st) = Some k"
    using run Some by (auto simp: revoke_device_def split: if_splits sum.splits option.splits)
  show ?thesis
  proof (cases "td_revoked_at (tf_devices st ! k) = None")
    case False
    then have "s' = Some d" using run Some st k by (auto simp: revoke_device_def Let_def split: if_splits)
    then show ?thesis using False st k by (auto simp: shut_out_def trusted_entry device_at_def)
  next
    case True
    let ?t = "(tf_devices st ! k)\<lparr>td_revoked_at := Some now\<rparr>"
    have at: "td_account ?t = a" "td_device ?t = v" using device_index_Some [OF k] by simp_all
    obtain d' where d': "s' = Some d'" "disk_file d' = Holds (st\<lparr>tf_devices := (tf_devices st)[k := ?t], tf_version := 1\<rparr>)"
      using run Some st k True by (auto simp: revoke_device_def Let_def write_trusted_def disk_save_def split: if_splits)
    have "device_at a v ((tf_devices st)[k := ?t]) = Some ?t" using device_at_update [OF k at] at by simp
    then show ?thesis using d' load_written [OF d'(2)] by (fastforce simp: shut_out_def trusted_entry)
  qed
qed (simp add: revoke_device_def)

text \<open>What no event of a run may be, for a device to stay out.\<close>

definition readmits :: "bytes \<Rightarrow> bytes \<Rightarrow> service_event \<Rightarrow> bool" where
  "readmits a v e \<longleftrightarrow> (\<exists>p now ok. e = Authorizes a p now ok \<and> vp_device p = v)"

text \<open>
  The device is out, but for the requests that had been admitted for it in the list \<open>qs0\<close>.
\<close>

definition out_of_service :: "runtime \<Rightarrow> bytes \<Rightarrow> bytes \<Rightarrow> active_request list \<Rightarrow> service \<times> active_request list \<Rightarrow> bool" where
  "out_of_service rt a v qs0 s \<longleftrightarrow>
     (\<forall>r. sv_resolver (fst s) = Some r \<longrightarrow> tr_account r = a \<and> (\<forall>t. tr_trust r = Some t \<longrightarrow> shut_out rt a v t)) \<and>
     (\<forall>k < length (snd s). \<forall>peer. admitted (ar_phase (snd s ! k)) = Some peer \<longrightarrow> ap_device peer = v \<longrightarrow>
        admitted (ar_phase (qs0 ! k)) = Some peer)"

lemma request_move_resolver:
  assumes "request_move rt sv q = (sv', q')"
  shows "sv_resolver sv' = sv_resolver sv \<or> (\<exists>r x. sv_resolver sv = Some r \<and> sv_resolver sv' = Some (r\<lparr>tr_inner := x\<rparr>))"
  using assms unfolding request_move_def identify_def
  by (auto split: request_phase.splits option.splits prod.splits if_splits)

lemma step_out_of_service:
  assumes "service_step rt e s s'" and "out_of_service rt a v qs0 s" and "\<not> readmits a v e"
  shows "out_of_service rt a v qs0 s'"
  using assms(1)
proof cases
  case (request_moves k qs sv sv' q')
  have old: "\<And>r. sv_resolver sv = Some r \<Longrightarrow> tr_account r = a \<and> (\<forall>t. tr_trust r = Some t \<longrightarrow> shut_out rt a v t)"
    using assms(2) request_moves(2) by (simp add: out_of_service_def)
  have "tr_account r = a \<and> (\<forall>t. tr_trust r = Some t \<longrightarrow> shut_out rt a v t)" if r: "sv_resolver sv' = Some r" for r
  proof -
    have "\<exists>r0 x. sv_resolver sv = Some r0 \<and> (r = r0 \<or> r = r0\<lparr>tr_inner := x\<rparr>)"
      using request_move_resolver [OF request_moves(6)] r by (metis option.inject)
    then obtain r0 x where "sv_resolver sv = Some r0" "r = r0 \<or> r = r0\<lparr>tr_inner := x\<rparr>" by blast
    then show ?thesis using old [of r0] by auto
  qed
  moreover have "admitted (ar_phase (qs0 ! k)) = Some peer"
    if "admitted (ar_phase q') = Some peer" "ap_device peer = v" for peer
    using move_admits [OF request_moves(6) that(1)] assms(2) request_moves(2,4) that(2)
    by (auto simp: out_of_service_def trust_seen_def shut_out_def)
  ultimately show ?thesis
    using assms(2) request_moves by (auto simp: out_of_service_def nth_list_update)
next
  case (administered sv qs)
  have "tr_account (administer rt e r) = a \<and> (\<forall>t. tr_trust (administer rt e r) = Some t \<longrightarrow> shut_out rt a v t)"
    if "sv_resolver sv = Some r" for r
    using assms(2,3) administered(1,3) that administer_shut_out revoke_shut_out
    by (cases e) (auto simp: out_of_service_def readmits_def)
  then show ?thesis using assms(2) administered by (auto simp: out_of_service_def)
qed

lemma run_out_of_service:
  "service_run rt es s s' \<Longrightarrow> out_of_service rt a v qs0 s \<Longrightarrow> \<forall>e \<in> set es. \<not> readmits a v e \<Longrightarrow>
     out_of_service rt a v qs0 s'"
  by (induction rule: service_run.induct) (auto intro: step_out_of_service)

lemma run_jobs_ok:
  assumes run: "service_run rt es (sv, qs) (sv', qs')" and start: "all_received qs" "sv_ingestor sv = Some i"
    and i': "sv_ingestor sv' = Some i'" and j: "j \<in> set (running qs')"
  shows "job_ok rt i' j (jb_phase j)"
proof -
  obtain js where js: "all_arrived js" "schedule rt (i, js) (i', running qs')"
    using run_schedule [OF run] start i' by auto
  have "interleaving_ok rt i (i', running qs')"
    by (rule interleaving_schedule [OF js(2) interleaving_start [OF js(1)]])
  then show ?thesis using j by (auto simp: interleaving_ok_def in_set_conv_nth)
qed

text \<open>A request that has been answered stays as it is, and one that has stored its record keeps it.\<close>

definition stored_job :: "active_request \<Rightarrow> job option" where
  "stored_job q = (case ar_phase q of Running j \<Rightarrow> if past_store j then Some j else None | _ \<Rightarrow> None)"

lemma move_stored_job:
  assumes "request_move rt sv q = (sv', q')" and "stored_job q = Some j"
  shows "\<exists>j'. stored_job q' = Some j' \<and> same_request j j'"
proof -
  have q: "ar_phase q = Running j" "past_store j"
    using assms(2) by (auto simp: stored_job_def split: request_phase.splits if_splits)
  show ?thesis
    using assms(1) q move_past_store ingest_move_request
    by (fastforce simp: request_move_def stored_job_def split: option.splits prod.splits)
qed

lemma move_stores:
  assumes "request_move rt sv q = (sv', q')" and "sv_ingestor sv = Some i" "sv_ingestor sv' = Some i'"
    and changed: "held i' ds rid \<noteq> held i ds rid"
  shows "stored_job q = None \<and>
    (\<exists>j. stored_job q' = Some j \<and> env_dataset (jb_record j) = ds \<and> env_id (jb_record j) = rid)"
proof (cases "running_job q = []")
  case True
  then show ?thesis using other_moves [OF assms(1)] assms(2-4) by simp
next
  case False
  then obtain j where j: "ar_phase q = Running j" by (auto simp: running_job_def split: request_phase.splits)
  obtain i1 j' where move: "ingest_move rt i j = (i1, j')" by fastforce
  have q': "i1 = i'" "q' = q\<lparr>ar_phase := Running j'\<rparr>"
    using assms(1-3) j move by (auto simp: request_move_def)
  note same_request_fields [OF ingest_move_request [OF move]]
  with move_changes [OF move, of ds rid] changed q' j show ?thesis by (simp add: stored_job_def)
qed

lemma step_ingestor:
  assumes "service_step rt e (sv, qs) (sv', qs')" and "sv_ingestor sv = Some i"
  shows "\<exists>i'. sv_ingestor sv' = Some i'"
  using run_schedule_from [OF goes_on [OF rests assms(1)]] assms(2) by auto

lemma run_stores:
  assumes "service_run rt es s s'" and "sv_ingestor (fst s) = Some i"
  shows "length (snd s') = length (snd s) \<and>
    (\<forall>k < length (snd s). (reply (ar_phase (snd s ! k)) \<noteq> None \<longrightarrow> snd s' ! k = snd s ! k) \<and>
      (\<forall>j. stored_job (snd s ! k) = Some j \<longrightarrow> (\<exists>j'. stored_job (snd s' ! k) = Some j' \<and> same_request j j'))) \<and>
    (\<exists>i'. sv_ingestor (fst s') = Some i' \<and> (\<forall>ds rid. held i' ds rid \<noteq> held i ds rid \<longrightarrow>
      (\<exists>k < length (snd s). stored_job (snd s ! k) = None \<and> (\<exists>j. stored_job (snd s' ! k) = Some j \<and>
         env_dataset (jb_record j) = ds \<and> env_id (jb_record j) = rid))))"
  using assms
proof induction
  case (rests s)
  then show ?case by (auto intro: same_request_refl)
next
  case (goes_on es s s' e s'')
  note IH = goes_on.IH [OF goes_on.prems]
  from goes_on.hyps(2) show ?case
  proof cases
    case (administered sv qs)
    then show ?thesis using IH by simp
  next
    case (request_moves k qs sv sv' q')
    note eqs = request_moves(2,3)
    have len: "length qs = length (snd s)" using IH eqs by simp
    obtain i1 where i1: "sv_ingestor sv = Some i1" using IH eqs by auto
    obtain i2 where i2: "sv_ingestor sv' = Some i2"
      using step_ingestor goes_on.hyps(2) eqs i1 by metis
    have stay: "qs ! n = snd s ! n" if "n < length (snd s)" "reply (ar_phase (snd s ! n)) \<noteq> None" for n
      using IH that eqs by simp
    have keep: "\<exists>j'. stored_job (qs ! n) = Some j' \<and> same_request j j'"
      if "n < length (snd s)" "stored_job (snd s ! n) = Some j" for n j
      using IH that eqs by simp
    have moved: "\<exists>j'. stored_job (qs[k := q'] ! n) = Some j' \<and> same_request j j'"
      if "n < length (snd s)" "stored_job (qs ! n) = Some j" for n j
      using move_stored_job [OF request_moves(6)] that len by (cases "n = k") auto
    have kept: "\<exists>j'. stored_job (qs[k := q'] ! n) = Some j' \<and> same_request j j'"
      if "n < length (snd s)" "stored_job (snd s ! n) = Some j" for n j
      using keep [OF that] moved [OF that(1)] same_request_trans by blast
    have "qs[k := q'] ! n = snd s ! n" if "n < length (snd s)" "reply (ar_phase (snd s ! n)) \<noteq> None" for n
      using stay [OF that] that(2) request_moves(5) by (cases "n = k") auto
    moreover have "\<exists>n < length (snd s). stored_job (snd s ! n) = None \<and> (\<exists>j. stored_job (qs[k := q'] ! n) = Some j \<and>
         env_dataset (jb_record j) = ds \<and> env_id (jb_record j) = rid)"
      if changed: "held i2 ds rid \<noteq> held i ds rid" for ds rid
    proof (cases "held i2 ds rid = held i1 ds rid")
      case True
      then have "\<exists>n < length (snd s). stored_job (snd s ! n) = None \<and> (\<exists>j. stored_job (qs ! n) = Some j \<and>
           env_dataset (jb_record j) = ds \<and> env_id (jb_record j) = rid)"
        using IH changed i1 eqs by simp
      then obtain n j where n: "n < length (snd s)" "stored_job (snd s ! n) = None" "stored_job (qs ! n) = Some j"
        "env_dataset (jb_record j) = ds" "env_id (jb_record j) = rid" by blast
      obtain j' where "stored_job (qs[k := q'] ! n) = Some j'" "same_request j j'"
        using moved [OF n(1,3)] by blast
      then show ?thesis using n same_request_fields by (intro exI [of _ n]) fastforce
    next
      case False
      note stored = move_stores [OF request_moves(6) i1 i2 False]
      have "stored_job (snd s ! k) = None"
        using keep [of k] request_moves(4) len stored by (cases "stored_job (snd s ! k)") auto
      then show ?thesis using stored request_moves(4) len by (intro exI [of _ k]) auto
    qed
    ultimately show ?thesis using len eqs i2 kept by simp
  qed
qed

text \<open>A request in flight for a device: admitted for it and not answered yet.\<close>

definition in_flight :: "bytes \<Rightarrow> active_request \<Rightarrow> bool" where
  "in_flight v q \<longleftrightarrow> reply (ar_phase q) = None \<and> (\<exists>peer. admitted (ar_phase q) = Some peer \<and> ap_device peer = v)"

text \<open>
  C8. A revoked device is shut out. From a revocation on that has returned without error, no request,
  received before or after, is admitted for the device any more, whatever sessions it has and
  whatever else happens, as long as the device is not authorized anew: a request that is admitted
  for it then was so before, and if it had been answered nothing about it changes. A stored record
  that changes is one of another device, or of a request that was in flight when the device was
  revoked, admitted for it and not yet answered; so once there is none, or when there was none,
  what is stored from the device is fixed.
\<close>

theorem revoked_device_shut_out:
  assumes before: "service_run rt es0 (sv0, qs0) (sv, qs)" "all_received qs0" "sv_ingestor sv0 = Some i0"
    and revoked: "sv_resolver sv = Some r" "tr_trust r = Some s" "revoke_device rt s (tr_account r) v now ok = (Inr t, s')"
    and run: "service_run rt es (sv\<lparr>sv_resolver := Some (r\<lparr>tr_trust := Some s'\<rparr>)\<rparr>, qs) (sv', qs')"
    and later: "\<forall>e \<in> set es. \<not> readmits (tr_account r) v e"
    and ingestors: "sv_ingestor sv = Some i" "sv_ingestor sv' = Some i'"
  shows "(\<forall>k < length qs'. \<forall>peer. admitted (ar_phase (qs' ! k)) = Some peer \<longrightarrow> ap_device peer = v \<longrightarrow>
      admitted (ar_phase (qs ! k)) = Some peer \<and> (in_flight v (qs ! k) \<or> qs' ! k = qs ! k)) \<and>
    (\<forall>ds rid. held i' ds rid \<noteq> held i ds rid \<longrightarrow> (\<exists>k < length qs'. \<exists>j. ar_phase (qs' ! k) = Running j \<and>
       env_dataset (jb_record j) = ds \<and> env_id (jb_record j) = rid \<and>
       (env_origin (jb_record j) \<noteq> v \<or> in_flight v (qs ! k))))"
proof -
  let ?sv = "sv\<lparr>sv_resolver := Some (r\<lparr>tr_trust := Some s'\<rparr>)\<rparr>"
  have "out_of_service rt (tr_account r) v qs (?sv, qs)"
    using revoked_shut_out [OF revoked(3)] by (simp add: out_of_service_def)
  from run_out_of_service [OF run this later]
  have out: "admitted (ar_phase (qs ! k)) = Some peer"
    if "k < length qs'" "admitted (ar_phase (qs' ! k)) = Some peer" "ap_device peer = v" for k peer
    using that by (simp add: out_of_service_def)
  note stores = run_stores [OF run, unfolded fst_conv snd_conv, of i]
  have len: "length qs' = length qs" using stores ingestors(1) by simp
  have "\<exists>k < length qs'. \<exists>j. ar_phase (qs' ! k) = Running j \<and>
       env_dataset (jb_record j) = ds \<and> env_id (jb_record j) = rid \<and> (env_origin (jb_record j) \<noteq> v \<or> in_flight v (qs ! k))"
    if changed: "held i' ds rid \<noteq> held i ds rid" for ds rid
  proof -
    have "\<exists>k < length qs. stored_job (qs ! k) = None \<and> (\<exists>j. stored_job (qs' ! k) = Some j \<and>
         env_dataset (jb_record j) = ds \<and> env_id (jb_record j) = rid)"
      using stores ingestors changed by simp
    then obtain k j where k: "k < length qs" "stored_job (qs ! k) = None" and sj: "stored_job (qs' ! k) = Some j"
      and keys: "env_dataset (jb_record j) = ds" "env_id (jb_record j) = rid" by blast
    then have j: "ar_phase (qs' ! k) = Running j" "past_store j"
      by (auto simp: stored_job_def split: request_phase.splits if_splits)
    have "service_step rt (Revokes (tr_account r) v now ok) (sv, qs) (?sv, qs)"
      using administered [of "Revokes (tr_account r) v now ok" rt sv qs] revoked by simp
    from run_trans [OF run goes_on [OF before(1) this]]
    have whole: "service_run rt ((es0 @ [Revokes (tr_account r) v now ok]) @ es) (sv0, qs0) (sv', qs')" .
    have "j \<in> set (running qs')" using j(1) k(1) len by (auto simp: running_def running_job_def intro!: bexI [of _ "qs' ! k"])
    from run_jobs_ok [OF whole before(2,3) ingestors(2) this] have "cleared rt i' j"
      using j(2) by (cases "jb_phase j") (auto simp: past_store_def)
    then have origin: "env_origin (jb_record j) = ap_device (jb_peer j)" unfolding cleared_def using signed_origin by blast
    have "in_flight v (qs ! k)" if "env_origin (jb_record j) = v"
    proof -
      have "reply (ar_phase (qs ! k)) = None"
      proof (rule ccontr)
        assume "reply (ar_phase (qs ! k)) \<noteq> None"
        then have "qs' ! k = qs ! k" using stores ingestors(1) k(1) by simp
        then show False using k(2) sj by simp
      qed
      moreover have "admitted (ar_phase (qs ! k)) = Some (jb_peer j)" using out [of k "jb_peer j"] j(1) k(1) len that origin by simp
      ultimately show ?thesis using that origin by (simp add: in_flight_def)
    qed
    then show ?thesis using k(1) len j(1) keys by (intro exI [of _ k] conjI exI [of _ j]) auto
  qed
  moreover have "in_flight v (qs ! k) \<or> qs' ! k = qs ! k"
    if "k < length qs'" "admitted (ar_phase (qs' ! k)) = Some peer" "ap_device peer = v" for k peer
    using out [OF that] stores ingestors(1) that len by (auto simp: in_flight_def)
  ultimately show ?thesis using out by blast
qed

section \<open>Concrete runs\<close>

lemma run_once: "service_step rt e s s' \<Longrightarrow> service_run rt [e] s s'"
  using goes_on [OF rests] by simp

lemma run_times: "\<exists>es. set es \<subseteq> {Moves 0} \<and> service_run rt es (sv, [q]) (case request_times n rt (sv, q) of (sv', q') \<Rightarrow> (sv', [q']))"
proof (induction n arbitrary: sv q)
  case 0
  then show ?case by (intro exI [of _ "[]"]) (simp add: rests)
next
  case (Suc n)
  show ?case
  proof (cases "reply (ar_phase q) = None")
    case True
    obtain sv1 q1 where one: "request_move rt sv q = (sv1, q1)" by fastforce
    then have "service_step rt (Moves 0) (sv, [q]) (sv1, [q1])"
      using True request_moves [of 0 "[q]" rt sv sv1 q1] by simp
    then have first: "service_run rt [Moves 0] (sv, [q]) (sv1, [q1])" by (rule run_once)
    obtain es where es: "set es \<subseteq> {Moves 0}"
      "service_run rt es (sv1, [q1]) (case request_times n rt (sv1, q1) of (sv', q') \<Rightarrow> (sv', [q']))"
      using Suc.IH by blast
    from run_trans [OF es(2) first] es(1) one show ?thesis by (intro exI [of _ "Moves 0 # es"]) simp
  next
    case False
    then show ?thesis by (intro exI [of _ "[]"]) (simp add: rests request_stays)
  qed
qed

definition sample_request :: active_request where
  "sample_request = \<lparr>ar_http = sample_http, ar_route = Ingests ''search.history'', ar_env = sample_serve, ar_clock = 5,
     ar_session_write = True, ar_phase = Received\<rparr>"

lemma sample_service:
  obtains r s where "tr_account r = ''acct''" "tr_trust r = Some s"
    "is_trusted sample_runtime s ''acct'' sample_device (ap_fingerprint sample_peer) = Inr True"
    "trusted_resolve_peer sample_runtime (session_resolve_peer sample_runtime 5 True) r (Some sample_http) = (Inr sample_peer, r)"
proof (rule sample_session)
  fix d assume d: "\<And>ok. resolve_session sample_runtime d ''secret'' 5 5 ok = (Inr sample_peer, d)"
  obtain s where s: "trust_trace sample_runtime [Authorized ''acct'' sample_verified] s"
    using sample_trust_trace by blast
  obtain ds where ds: "registry_ok sample_runtime s ds"
    "\<forall>a v. trusted_key ds a v = history_key a v [Authorized ''acct'' sample_verified]"
    using trust_trace_view [OF s] by blast
  let ?r = "\<lparr>tr_inner = Some \<lparr>sr_sessions = Some d, sr_now = None\<rparr>, tr_account = ''acct'', tr_trust = Some s\<rparr>"
  have trusted: "is_trusted sample_runtime s ''acct'' sample_device (ap_fingerprint sample_peer) = Inr True"
    by (simp add: is_trusted_key [OF ds(1)] ds(2) sample_verified_def sample_peer_def)
  then have "trusted_resolve_peer sample_runtime (session_resolve_peer sample_runtime 5 True) ?r (Some sample_http) = (Inr sample_peer, ?r)"
    by (simp add: trusted_resolve_peer_def session_resolve_peer_def sample_token d Let_def)
      (simp add: sample_peer_def)
  with trusted show thesis using that [of ?r s] by simp
qed

lemma trusted_revocable:
  assumes "is_trusted rt s a v fp = Inr True"
  shows "\<exists>t s'. revoke_device rt s a v now True = (Inr t, s')"
proof (cases s)
  case (Some d)
  then show ?thesis
    using assms [unfolded Some trusted_entry]
    by (auto simp: revoke_device_def device_at_def write_trusted_def disk_save_def Let_def)
qed (use assms in \<open>simp add: is_trusted_def\<close>)

lemma sample_handled:
  assumes "trusted_resolve_peer sample_runtime (session_resolve_peer sample_runtime 5 True) r (Some sample_http) = (Inr sample_peer, r)"
  shows "\<exists>rs i'. handle_route sample_runtime \<lparr>sv_ingestor = Some sample_ingestor, sv_resolver = Some r\<rparr> sample_request =
      (rs, \<lparr>sv_ingestor = Some i', sv_resolver = Some r\<rparr>) \<and> rs_status rs = 202"
proof -
  obtain x i' where x: "ingest sample_runtime sample_ingestor sample_peer sample_record sample_proof 0 writes_ok = (Inr x, i')"
    using sample_ingest by blast
  have "env_dataset sample_record = ''search.history''" by (simp add: sample_record_def)
  then show ?thesis
    using x assms
    by (cases x) (simp add: handle_route_def sample_request_def handle_dataset_ingest_def sample_serve_def sample_decoder_def
        ensure_json_eof_def http_json_def Let_def)
qed

lemma sample_run:
  obtains r es sv' q' rs i' where
    "sv_resolver sv' = Some r" "sv_ingestor sv' = Some i'"
    "service_run sample_runtime es (\<lparr>sv_ingestor = Some sample_ingestor, sv_resolver = Some r\<rparr>, [sample_request]) (sv', [q'])"
    "reply (ar_phase q') = Some rs" "rs_status rs = 202"
proof (rule sample_service)
  fix r s
  assume r: "trusted_resolve_peer sample_runtime (session_resolve_peer sample_runtime 5 True) r (Some sample_http) = (Inr sample_peer, r)"
  let ?sv = "\<lparr>sv_ingestor = Some sample_ingestor, sv_resolver = Some r\<rparr>"
  obtain rs i' where handled: "handle_route sample_runtime ?sv sample_request = (rs, \<lparr>sv_ingestor = Some i', sv_resolver = Some r\<rparr>)"
    "rs_status rs = 202" using sample_handled [OF r] by blast
  have received: "sample_request\<lparr>ar_phase := Received\<rparr> = sample_request" by (simp add: sample_request_def)
  obtain sv' q' where alone: "request_times 7 sample_runtime (?sv, sample_request) = (sv', q')" by fastforce
  then have "\<exists>rs'. reply (ar_phase q') = Some rs' \<and> handle_route sample_runtime ?sv sample_request = (rs', sv')"
    using request_alone_handled [of sample_runtime ?sv sample_request] received by (simp add: request_alone_def)
  with handled have done_: "reply (ar_phase q') = Some rs" "sv' = \<lparr>sv_ingestor = Some i', sv_resolver = Some r\<rparr>" by auto
  obtain es where "service_run sample_runtime es (?sv, [sample_request]) (sv', [q'])"
    using run_times [of sample_runtime ?sv sample_request 7] alone by auto
  then show thesis using that [of sv' r i' es q' rs] done_ handled(2) by simp
qed

lemma sample_received: "all_received [sample_request]"
  by (simp add: all_received_def sample_request_def)

theorem service_runs_are_schedules_witness:
  "\<exists>r es sv' q' i' js. service_run sample_runtime es (\<lparr>sv_ingestor = Some sample_ingestor, sv_resolver = Some r\<rparr>, [sample_request]) (sv', [q']) \<and>
     reply (ar_phase q') \<noteq> None \<and> sv_ingestor sv' = Some i' \<and> schedule sample_runtime (sample_ingestor, js) (i', running [q'])"
proof (rule sample_run)
  fix r es sv' q' rs i'
  assume run: "service_run sample_runtime es (\<lparr>sv_ingestor = Some sample_ingestor, sv_resolver = Some r\<rparr>, [sample_request]) (sv', [q'])"
    and rs: "reply (ar_phase q') = Some rs"
  have "reply (ar_phase q') \<noteq> None" using rs by simp
  then show ?thesis using service_runs_are_schedules [OF run sample_received, of sample_ingestor] run by (simp del: not_None_eq) blast
qed

theorem service_changes_traced_witness:
  "\<exists>r es sv' q' peer. service_run sample_runtime es (\<lparr>sv_ingestor = Some sample_ingestor, sv_resolver = Some r\<rparr>, [sample_request]) (sv', [q']) \<and>
     admission_along sample_runtime sample_request peer es
       (\<lparr>sv_ingestor = Some sample_ingestor, sv_resolver = Some r\<rparr>, [sample_request]) (sv', [q'])"
proof (rule sample_run)
  fix r es sv' q' rs i'
  assume run: "service_run sample_runtime es (\<lparr>sv_ingestor = Some sample_ingestor, sv_resolver = Some r\<rparr>, [sample_request]) (sv', [q'])"
    and end_: "sv_ingestor sv' = Some i'" "reply (ar_phase q') = Some rs" "rs_status rs = 202"
  note traced = service_changes_traced [OF run sample_received, of sample_ingestor i']
  have "\<exists>peer. admission_along sample_runtime sample_request peer es
       (\<lparr>sv_ingestor = Some sample_ingestor, sv_resolver = Some r\<rparr>, [sample_request]) (sv', [q'])"
    using conjunct2 [OF traced] end_ by fastforce
  with run show ?thesis by blast
qed

text \<open>
  The provision is needed: a request that had passed the registry when its device was revoked is
  handled to its end, and its record is stored.
\<close>

lemma checked_request_alone:
  assumes "sv_ingestor sv = Some sample_ingestor"
  shows "\<exists>i' q' rs. request_times 5 sample_runtime (sv, sample_request\<lparr>ar_phase := Checked sample_peer\<rparr>) = (sv\<lparr>sv_ingestor := Some i'\<rparr>, q') \<and>
    reply (ar_phase q') = Some rs \<and> rs_status rs = 202 \<and> held i' ''search.history'' ''h1'' \<noteq> None"
proof -
  let ?j = "\<lparr>jb_peer = sample_peer, jb_record = sample_record, jb_proof = sample_proof, jb_clock = 0,
     jb_writes = writes_ok, jb_phase = Arrived\<rparr>"
  obtain x i' where x: "ingest sample_runtime sample_ingestor sample_peer sample_record sample_proof 0 writes_ok = (Inr x, i')"
    using sample_ingest by blast
  have body: "read_body sample_request sample_peer ''search.history'' = Running ?j"
    by (simp add: read_body_def sample_request_def sample_serve_def sample_decoder_def ensure_json_eof_def sample_record_def)
  obtain i2 j' res where run: "request_times 4 sample_runtime (sv, sample_request\<lparr>ar_phase := Running ?j\<rparr>) =
      (sv\<lparr>sv_ingestor := Some i2\<rparr>, sample_request\<lparr>ar_phase := Running j'\<rparr>)" "answer (jb_phase j') = Some res"
      "ingest sample_runtime sample_ingestor sample_peer sample_record sample_proof 0 writes_ok = (res, i2)"
    using request_running [OF assms, of sample_runtime ?j sample_request] by auto
  have res: "res = Inr x" "i2 = i'" using run(3) x by simp_all
  have "held i' ''search.history'' ''h1'' \<noteq> None"
    using x
  proof (cases rule: ingest_cases)
    case (written v t now ev i1)
    have "held_from i1 sample_record" by (rule grows_dispatch(2) [OF written(2)])
    then show ?thesis
      using grows_acknowledge(2) [OF written(3)] by (auto simp: held_from_def sample_record_def)
  qed simp
  moreover have "request_times 5 sample_runtime (sv, sample_request\<lparr>ar_phase := Checked sample_peer\<rparr>) =
      request_times 4 sample_runtime (sv, sample_request\<lparr>ar_phase := Running ?j\<rparr>)"
    using request_checked [of 4 sample_runtime sv sample_peer sample_request] body by (simp add: sample_request_def)
  ultimately show ?thesis
    using run(1,2) res by (cases x) (auto simp: ingest_reply_def http_json_def)
qed

theorem revocation_spares_requests_in_flight:
  "\<exists>sv r s t s' sv1 q1 es sv' q' rs i'.
     service_run sample_runtime [Moves 0, Moves 0] (sv, [sample_request]) (sv1, [q1]) \<and>
     sv_resolver sv1 = Some r \<and> tr_trust r = Some s \<and> revoke_device sample_runtime s (tr_account r) sample_device 7 True = (Inr t, s') \<and>
     service_run sample_runtime es (sv1\<lparr>sv_resolver := Some (r\<lparr>tr_trust := Some s'\<rparr>)\<rparr>, [q1]) (sv', [q']) \<and>
     reply (ar_phase q') = Some rs \<and> rs_status rs = 202 \<and> sv_ingestor sv' = Some i' \<and> held i' ''search.history'' ''h1'' \<noteq> None"
proof (rule sample_service)
  fix r s
  assume r: "tr_account r = ''acct''" "tr_trust r = Some s"
      "is_trusted sample_runtime s ''acct'' sample_device (ap_fingerprint sample_peer) = Inr True"
      "trusted_resolve_peer sample_runtime (session_resolve_peer sample_runtime 5 True) r (Some sample_http) = (Inr sample_peer, r)"
  let ?sv = "\<lparr>sv_ingestor = Some sample_ingestor, sv_resolver = Some r\<rparr>"
  obtain inner where inner: "tr_inner r = Some inner"
    "session_resolve_peer sample_runtime 5 True inner (Some sample_http) = (Inr sample_peer, inner)"
    using r by (cases "tr_inner r") (auto simp: trusted_resolve_peer_def split: sum.splits prod.splits if_splits dest: arg_cong [where f = tr_inner])
  let ?q1 = "sample_request\<lparr>ar_phase := Identified sample_peer\<rparr>" and ?q2 = "sample_request\<lparr>ar_phase := Checked sample_peer\<rparr>"
  have same: "r\<lparr>tr_inner := Some inner\<rparr> = r" using inner(1) by (cases r) simp
  have one: "request_move sample_runtime ?sv sample_request = (?sv, ?q1)"
    using r inner same by (simp add: request_move_def identify_def) (simp add: sample_request_def identify_def)
  have two: "request_move sample_runtime ?sv ?q1 = (?sv, ?q2)"
    using r by (simp add: request_move_def check_trust_def sample_peer_def)
  have "service_step sample_runtime (Moves 0) (?sv, [sample_request]) (?sv, [?q1])"
    using request_moves [of 0 "[sample_request]" sample_runtime ?sv ?sv ?q1] one by (simp add: sample_request_def)
  moreover have "service_step sample_runtime (Moves 0) (?sv, [?q1]) (?sv, [?q2])"
    using request_moves [of 0 "[?q1]" sample_runtime ?sv ?sv ?q2] two by simp
  ultimately have start: "service_run sample_runtime [Moves 0, Moves 0] (?sv, [sample_request]) (?sv, [?q2])"
    using run_trans [OF run_once run_once] by force
  obtain t s' where revoked: "revoke_device sample_runtime s (tr_account r) sample_device 7 True = (Inr t, s')"
    using trusted_revocable r(1,3) by metis
  let ?sv1 = "?sv\<lparr>sv_resolver := Some (r\<lparr>tr_trust := Some s'\<rparr>)\<rparr>"
  obtain i' q' rs where rest: "request_times 5 sample_runtime (?sv1, ?q2) = (?sv1\<lparr>sv_ingestor := Some i'\<rparr>, q')"
    "reply (ar_phase q') = Some rs" "rs_status rs = 202" "held i' ''search.history'' ''h1'' \<noteq> None"
    using checked_request_alone [of ?sv1] by auto
  obtain es where "service_run sample_runtime es (?sv1, [?q2]) (?sv1\<lparr>sv_ingestor := Some i'\<rparr>, [q'])"
    using run_times [of sample_runtime ?sv1 ?q2 5] rest(1) by auto
  then show ?thesis
    using start revoked rest(2,3,4) r(2)
    by (intro exI [of _ ?sv] exI [of _ r] exI [of _ s] exI [of _ t] exI [of _ s'] exI [of _ ?q2] exI [of _ es]
        exI [of _ "?sv1\<lparr>sv_ingestor := Some i'\<rparr>"] exI [of _ q'] exI [of _ rs] exI [of _ i']) simp
qed

theorem revoked_device_shut_out_witness:
  "\<exists>(sv :: service) r s s' t es sv' q'. tr_trust r = Some s \<and> is_trusted sample_runtime s (tr_account r) sample_device (ap_fingerprint sample_peer) = Inr True \<and>
     revoke_device sample_runtime s (tr_account r) sample_device 7 True = (Inr t, s') \<and>
     service_run sample_runtime es (sv\<lparr>sv_resolver := Some (r\<lparr>tr_trust := Some s'\<rparr>)\<rparr>, [sample_request]) (sv', [q']) \<and>
     reply (ar_phase q') \<noteq> None \<and> admitted (ar_phase q') \<noteq> Some sample_peer"
proof (rule sample_service)
  fix r :: "session_resolver trusted_resolver" and s
  assume r: "tr_account r = ''acct''" "tr_trust r = Some s"
      "is_trusted sample_runtime s ''acct'' sample_device (ap_fingerprint sample_peer) = Inr True"
  let ?sv = "\<lparr>sv_ingestor = Some sample_ingestor, sv_resolver = Some r\<rparr>"
  obtain t s' where revoked: "revoke_device sample_runtime s (tr_account r) sample_device 7 True = (Inr t, s')"
    using trusted_revocable r(1,3) by metis
  let ?sv1 = "?sv\<lparr>sv_resolver := Some (r\<lparr>tr_trust := Some s'\<rparr>)\<rparr>"
  have received: "sample_request\<lparr>ar_phase := Received\<rparr> = sample_request" by (simp add: sample_request_def)
  obtain sv' q' where alone: "request_times 7 sample_runtime (?sv1, sample_request) = (sv', q')" by fastforce
  obtain es where es: "set es \<subseteq> {Moves 0}" "service_run sample_runtime es (?sv1, [sample_request]) (sv', [q'])"
    using run_times [of sample_runtime ?sv1 sample_request 7] alone by auto
  have answered: "reply (ar_phase q') \<noteq> None"
    using request_alone_handled [of sample_runtime ?sv1 sample_request] alone received by (auto simp: request_alone_def)
  obtain i' where i': "sv_ingestor sv' = Some i'"
    using run_schedule_from [OF es(2), of sample_ingestor] by auto
  have quiet: "\<forall>e \<in> set es. \<not> readmits (tr_account r) sample_device e" using es(1) by (auto simp: readmits_def)
  have "\<forall>k < length [q']. \<forall>peer. admitted (ar_phase ([q'] ! k)) = Some peer \<longrightarrow> ap_device peer = sample_device \<longrightarrow>
      admitted (ar_phase ([sample_request] ! k)) = Some peer \<and> (in_flight sample_device ([sample_request] ! k) \<or> [q'] ! k = [sample_request] ! k)"
    by (rule conjunct1, rule revoked_device_shut_out [OF rests [of _ "(?sv, [sample_request])"] sample_received _ _ r(2) revoked es(2) quiet _ i'])
      simp_all
  then have "admitted (ar_phase q') \<noteq> Some sample_peer" by (auto simp: sample_peer_def sample_request_def)
  then show ?thesis using r revoked es(2) answered
    by (intro exI [of _ ?sv] exI [of _ r] exI [of _ s] exI [of _ s'] exI [of _ t] exI [of _ es] exI [of _ sv'] exI [of _ q']) simp
qed

end
