(* ===== verification/Tombstones.thy ===== *)
theory Tombstones
  imports Concurrent_Ingest
begin

text \<open>
  Compaction beside concurrent ingestion (\<open>tombstone_compaction.go\<close> with \<open>ingest.go\<close> and
  \<open>replay_guard.go\<close>): a compaction forgets a deletion for good, so it is the replay guard that
  keeps the deleted record from coming back, except from an ingestion that has passed it already.
  A compaction holds the lock of its store to its end; the receipts are read as they are at one
  moment of it.
\<close>

section \<open>Compaction among the moves\<close>

inductive upkeep_step :: "runtime \<Rightarrow> ingestor \<times> job list \<Rightarrow> ingestor \<times> job list \<Rightarrow> bool" for rt where
  works: "ingest_step rt s s' \<Longrightarrow> upkeep_step rt s s'"
| compacts_history: "in_history i = Some d \<Longrightarrow>
    compact_tombstones_with_receipts rt now clock retention peers (in_receipts i) d ok = (r, d') \<Longrightarrow>
    upkeep_step rt (i, js) (i\<lparr>in_history := Some d'\<rparr>, js)"
| compacts_bookmarks: "in_bookmarks i = Some d \<Longrightarrow>
    bookmark_compact_with_receipts rt now clock retention peers (in_receipts i) d ok = (r, d') \<Longrightarrow>
    upkeep_step rt (i, js) (i\<lparr>in_bookmarks := Some d'\<rparr>, js)"
| compacts_confirmed: "in_history i = Some d \<Longrightarrow> compact_tombstones now clock policy d ok = (r, d') \<Longrightarrow>
    upkeep_step rt (i, js) (i\<lparr>in_history := Some d'\<rparr>, js)"

abbreviation upkeep :: "runtime \<Rightarrow> ingestor \<times> job list \<Rightarrow> ingestor \<times> job list \<Rightarrow> bool" where
  "upkeep rt \<equiv> (upkeep_step rt)\<^sup>*\<^sup>*"

lemma finish_shrinks:
  assumes "load_records d = Inr m" and "finish_compaction ok (filter (\<lambda>p. \<not> P (snd p)) m) (length (filter (\<lambda>p. P (snd p)) m)) d = (r, d')"
    and "\<And>r. P (stored_form r) = P r"
  shows "stored_at d' i \<in> {None, stored_at d i}"
proof (cases r)
  case (Inl e)
  then show ?thesis using finish_compaction_failed [OF assms(2) [unfolded Inl]] by simp
next
  case (Inr n)
  show ?thesis
    using finish_compaction_effect [OF assms(1) assms(2) [unfolded Inr] assms(3), of i]
    by (auto split: option.splits if_splits)
qed

lemma compaction_shrinks:
  assumes "compact_tombstones_with_receipts rt now clock retention peers receipts d ok = (r, d')"
  shows "stored_at d' i \<in> {None, stored_at d i}"
proof (cases "d' = d")
  case False
  let ?cutoff = "(if time_is_zero now then clock else now) - retention"
  obtain store m kept k where m: "load_records d = Inr m"
    and sweep: "sweep_confirmed rt ?cutoff peers store m = Inr (kept, k)"
    and fin: "finish_compaction ok kept k d = (r, d')"
    using assms False
    by (auto simp: compact_tombstones_with_receipts_def Let_def split: if_splits option.splits sum.splits)
  have "finish_compaction ok (filter (\<lambda>p. \<not> sweep_confirms rt ?cutoff peers (receipts_in store) (snd p)) m)
      (length (filter (\<lambda>p. sweep_confirms rt ?cutoff peers (receipts_in store) (snd p)) m)) d = (r, d')"
    using fin sweep_confirmed_filter [OF sweep] by simp
  from finish_shrinks [OF m this sweep_confirms_stored] show ?thesis .
qed simp

lemma confirmed_compaction_shrinks:
  assumes "compact_tombstones now clock policy d ok = (r, d')"
  shows "stored_at d' i \<in> {None, stored_at d i}"
proof (cases "d' = d")
  case False
  let ?cutoff = "(if time_is_zero now then clock else now) - cp_minimum_retention policy"
  obtain m kept k where m: "load_records d = Inr m" and sweep: "sweep_expired ?cutoff m = (kept, k)"
    and fin: "finish_compaction ok kept k d = (r, d')"
    using assms False by (auto simp: compact_tombstones_def Let_def split: if_splits sum.splits prod.splits)
  have "finish_compaction ok (filter (\<lambda>p. \<not> sweepable ?cutoff (snd p)) m)
      (length (filter (\<lambda>p. sweepable ?cutoff (snd p)) m)) d = (r, d')"
    using fin sweep sweep_expired_filter [of ?cutoff m] by simp
  from finish_shrinks [OF m this sweepable_stored] show ?thesis .
qed simp

text \<open>Of what is held a compaction only takes away; the guard it leaves alone.\<close>

definition only_takes :: "ingestor \<Rightarrow> ingestor \<Rightarrow> bool" where
  "only_takes i i' \<longleftrightarrow> in_replay i' = in_replay i \<and> (\<forall>ds rid. held i' ds rid \<in> {None, held i ds rid})"

lemma upkeep_cases:
  assumes "upkeep_step rt (i, js) (i', js')"
  obtains "ingest_step rt (i, js) (i', js')" | "only_takes i i'" "js' = js"
  using assms
proof cases
  case (compacts_history d now clock retention peers ok r d')
  then have "only_takes i i'"
    using compaction_shrinks [OF compacts_history(4)] by (auto simp: only_takes_def held_def)
  with compacts_history that show thesis by blast
next
  case (compacts_bookmarks d now clock retention peers ok r d')
  then have "only_takes i i'"
    using compaction_shrinks [OF compacts_bookmarks(4) [unfolded bookmark_compact_with_receipts_def]]
    by (auto simp: only_takes_def held_def)
  with compacts_bookmarks that show thesis by blast
next
  case (compacts_confirmed d now clock policy ok r d')
  then have "only_takes i i'"
    using confirmed_compaction_shrinks [OF compacts_confirmed(4)] by (auto simp: only_takes_def held_def)
  with compacts_confirmed that show thesis by blast
qed (rule that)

section \<open>What the guard remembers\<close>

abbreviation record_key :: "record_envelope \<Rightarrow> replay_key" where
  "record_key e \<equiv> ReplayKey (env_origin e) (env_dataset e) (env_id e)"

lemma dispatch_holds:
  assumes run: "dispatch e p v t now clock ok i = (Inr ev, i')" and c: "held i' ds rid = Some c"
  shows "(\<exists>c0. held i ds rid = Some c0 \<and> env_origin (pr_envelope c) = env_origin (pr_envelope c0) \<and>
       env_revision (pr_envelope c) = env_revision (pr_envelope c0)) \<or>
    ds = env_dataset e \<and> rid = env_id e \<and>
    env_origin (pr_envelope c) = env_origin e \<and> env_revision (pr_envelope c) = env_revision e"
proof (cases "ds = env_dataset e \<and> rid = env_id e")
  case True
  obtain ev' where "c = stored_form (winner (held i ds rid) \<lparr>pr_envelope = e, pr_evidence = ev'\<rparr>)"
    using dispatch_effect [OF run, of ds rid] c True by auto
  then show ?thesis using True by (auto simp: winner_def split: option.splits)
next
  case False
  then have "held i' ds rid = held i ds rid" using grows_dispatch(4) [OF run] by blast
  with c have "held i ds rid = Some c" by (rule trans [OF sym, rotated])
  then show ?thesis by blast
qed

text \<open>
  For one key, a device and a record: what is held of the record from the device is marked, and so is
  every revision past the guard. Ingestions past the guard were signed, whatever their key.
\<close>

definition marked :: "replay_key \<Rightarrow> ingestor \<Rightarrow> bool" where
  "marked K i \<longleftrightarrow> (\<forall>c. held i (rk_dataset K) (rk_record K) = Some c \<longrightarrow> env_origin (pr_envelope c) = rk_device K \<longrightarrow>
     (\<exists>m. mark_of i K = Some m \<and> env_revision (pr_envelope c) \<le> m))"

definition job_marked :: "runtime \<Rightarrow> replay_key \<Rightarrow> ingestor \<Rightarrow> job \<Rightarrow> bool" where
  "job_marked rt K i j \<longleftrightarrow> (past_guard j \<longrightarrow> signed rt j) \<and>
     (job_key j = K \<longrightarrow> wo_replay (jb_writes j) \<and>
        (past_guard j \<longrightarrow> (\<exists>m. mark_of i K = Some m \<and> job_revision j \<le> m)))"

definition guarded :: "runtime \<Rightarrow> replay_key \<Rightarrow> ingestor \<times> job list \<Rightarrow> bool" where
  "guarded rt K s \<longleftrightarrow> in_replay (fst s) \<noteq> None \<and> marked K (fst s) \<and> (\<forall>j \<in> set (snd s). job_marked rt K (fst s) j)"

definition mark_grows :: "replay_key \<Rightarrow> ingestor \<Rightarrow> ingestor \<Rightarrow> bool" where
  "mark_grows K i i' \<longleftrightarrow> (\<forall>r. (\<exists>m. mark_of i K = Some m \<and> r \<le> m) \<longrightarrow> (\<exists>m. mark_of i' K = Some m \<and> r \<le> m))"

lemma move_signed:
  "ingest_move rt i j = (i', j') \<Longrightarrow> past_guard j' \<Longrightarrow> past_guard j \<or> signed rt j"
  by (auto simp: ingest_move_def Let_def past_guard_def signed_def split: phase.splits sum.splits prod.splits)

lemma signed_request: "same_request j j' \<Longrightarrow> signed rt j' = signed rt j"
  using same_request_fields [of j j'] by (simp add: signed_def)

lemma move_marks:
  assumes run: "ingest_move rt i j = (i', j')" and ok: "in_replay i \<noteq> None" "job_marked rt K i j"
  shows "in_replay i' \<noteq> None"
    and "job_key j = K \<and> admits i j i' j' \<or> mark_of i' K = mark_of i K \<and> (job_key j = K \<longrightarrow> past_guard j' \<longrightarrow> past_guard j)"
  using move_guard [OF run ok(1)] move_other_key [OF run ok(1), of K] ok(2)
  by (cases "job_key j = K"; auto simp: job_marked_def)+

lemma move_grows:
  assumes "ingest_move rt i j = (i', j')" and "in_replay i \<noteq> None" "job_marked rt K i j"
  shows "mark_grows K i i'"
  using move_marks(2) [OF assms] by (auto simp: mark_grows_def admits_def intro: less_imp_le dest: order.strict_trans1)

lemma move_marked:
  assumes run: "ingest_move rt i j = (i', j')" and ok: "in_replay i \<noteq> None" "job_marked rt K i j"
  shows "job_marked rt K i' j'"
proof -
  have same: "same_request j j'" by (rule ingest_move_request [OF run])
  note key = job_key_request [OF same] and fields = same_request_fields [OF same]
  have "signed rt j'" if "past_guard j'"
    using move_signed [OF run that] ok(2) signed_request [OF same] by (auto simp: job_marked_def)
  moreover have "\<exists>m. mark_of i' K = Some m \<and> job_revision j' \<le> m" if past: "past_guard j'" "job_key j' = K"
  proof (cases "admits i j i' j'")
    case True
    then show ?thesis using key past(2) by (simp add: admits_def)
  next
    case False
    then have "mark_of i' K = mark_of i K" "past_guard j" using move_marks(2) [OF run ok] past key by auto
    then show ?thesis using ok(2) key past(2) by (simp add: job_marked_def)
  qed
  ultimately show ?thesis using ok(2) key fields by (simp add: job_marked_def)
qed

lemma decided_key:
  assumes "jb_phase j = Decided v t" and "job_marked rt K i j"
  shows "job_key j = record_key (jb_record j)"
proof -
  have "signed rt j" using assms by (simp add: job_marked_def past_guard_def)
  then show ?thesis using signed_origin by (simp add: job_key_def replay_key_of_def)
qed

text \<open>
  What is held of the key after a move was held before, in the same revision, or is the record of
  the ingestion that moved, which was between guard and store.
\<close>

definition in_store_phase :: "job \<Rightarrow> bool" where
  "in_store_phase j \<longleftrightarrow> past_guard j \<and> \<not> past_store j"

lemma move_holds:
  assumes run: "ingest_move rt i j = (i', j')" and ok: "job_marked rt K i j"
    and c: "held i' (rk_dataset K) (rk_record K) = Some c" "env_origin (pr_envelope c) = rk_device K"
  shows "(\<exists>c0. held i (rk_dataset K) (rk_record K) = Some c0 \<and> env_origin (pr_envelope c0) = rk_device K \<and>
       env_revision (pr_envelope c0) = env_revision (pr_envelope c)) \<or>
    job_key j = K \<and> in_store_phase j \<and> job_revision j = env_revision (pr_envelope c)"
  using move_held [OF run]
proof
  assume "held i' = held i"
  then show ?thesis using c by auto
next
  assume "\<exists>v t now ev. jb_phase j = Decided v t \<and> past_store j' \<and>
    dispatch (jb_record j) (jb_peer j) v t now (jb_clock j) (wo_store (jb_writes j)) i = (Inr ev, i')"
  then obtain v t now ev where d: "jb_phase j = Decided v t"
    "dispatch (jb_record j) (jb_peer j) v t now (jb_clock j) (wo_store (jb_writes j)) i = (Inr ev, i')" by blast
  have "in_store_phase j" using d(1) by (simp add: in_store_phase_def past_guard_def past_store_def)
  then show ?thesis using dispatch_holds [OF d(2) c(1)] decided_key [OF d(1) ok] c(2) by (cases K) auto
qed

lemma move_guarded:
  assumes run: "ingest_move rt i j = (i', j')" and ok: "in_replay i \<noteq> None" "job_marked rt K i j" "marked K i"
  shows "marked K i'"
  unfolding marked_def
proof (intro allI impI)
  fix c assume c: "held i' (rk_dataset K) (rk_record K) = Some c" "env_origin (pr_envelope c) = rk_device K"
  have "\<exists>m. mark_of i K = Some m \<and> env_revision (pr_envelope c) \<le> m"
    using move_holds [OF run ok(2) c] ok(2,3) by (auto simp: marked_def job_marked_def in_store_phase_def)
  then show "\<exists>m. mark_of i' K = Some m \<and> env_revision (pr_envelope c) \<le> m"
    using move_grows [OF run ok(1,2)] by (simp add: mark_grows_def)
qed

lemma job_marked_grow: "mark_grows K i i' \<Longrightarrow> job_marked rt K i j \<Longrightarrow> job_marked rt K i' j"
  by (simp add: job_marked_def mark_grows_def)

lemma takes_marks: "only_takes i i' \<Longrightarrow> mark_of i' = mark_of i"
  by (simp add: only_takes_def mark_of_def [abs_def])

lemma takes_held: "only_takes i i' \<Longrightarrow> held i' ds rid = Some c \<Longrightarrow> held i ds rid = Some c"
  unfolding only_takes_def by (metis insertE option.distinct(1) singletonD)

lemma upkeep_guarded:
  assumes "upkeep_step rt s s'" and ok: "guarded rt K s"
  shows "guarded rt K s' \<and> mark_grows K (fst s) (fst s')"
proof -
  obtain i js i' js' where s: "s = (i, js)" "s' = (i', js')" by (cases s, cases s')
  from assms(1) [unfolded s] show ?thesis
  proof (cases rule: upkeep_cases)
    case 1
    then show ?thesis
    proof cases
      case (job_moves k j')
      have jk: "job_marked rt K i (js ! k)" and g: "in_replay i \<noteq> None" "marked K i"
        using ok job_moves(2) by (simp_all add: guarded_def s)
      note grow = move_grows [OF job_moves(4) g(1) jk]
      have "job_marked rt K i' j" if "j \<in> set js" for j
        using ok that job_marked_grow [OF grow] by (simp add: guarded_def s)
      then show ?thesis
        using grow move_marks(1) [OF job_moves(4) g(1) jk] move_marked [OF job_moves(4) g(1) jk]
          move_guarded [OF job_moves(4) g(1) jk g(2)] job_moves(1)
        by (auto simp: guarded_def s dest!: set_update_subset_insert [THEN subsetD])
    qed
  next
    case 2
    have "marked K i'"
      using ok takes_held [OF 2(1)] unfolding marked_def takes_marks [OF 2(1)] by (auto simp: guarded_def marked_def s)
    then show ?thesis
      using ok 2 takes_marks [OF 2(1)] by (simp add: guarded_def s job_marked_def only_takes_def mark_grows_def)
  qed
qed

section \<open>What has been compacted\<close>

text \<open>
  From the device only revisions above \<open>n\<close> of the record are held, or can still come to be held by an
  ingestion in progress, but for the revisions \<open>R\<close>.
\<close>

definition only_above :: "replay_key \<Rightarrow> u64 \<Rightarrow> u64 set \<Rightarrow> ingestor \<times> job list \<Rightarrow> bool" where
  "only_above K n R s \<longleftrightarrow>
     (\<exists>m. mark_of (fst s) K = Some m \<and> n \<le> m) \<and>
     (\<forall>c. held (fst s) (rk_dataset K) (rk_record K) = Some c \<longrightarrow> env_origin (pr_envelope c) = rk_device K \<longrightarrow>
        n < env_revision (pr_envelope c) \<or> env_revision (pr_envelope c) \<in> R) \<and>
     (\<forall>j \<in> set (snd s). in_store_phase j \<longrightarrow> job_key j = K \<longrightarrow> n < job_revision j \<or> job_revision j \<in> R)"

lemma move_only_above:
  assumes run: "ingest_move rt i j = (i', j')" and g: "in_replay i \<noteq> None" "job_marked rt K i j"
    and mark: "\<exists>m. mark_of i K = Some m \<and> n \<le> m"
    and above: "in_store_phase j \<longrightarrow> job_key j = K \<longrightarrow> n < job_revision j \<or> job_revision j \<in> R"
  shows "in_store_phase j' \<longrightarrow> job_key j' = K \<longrightarrow> n < job_revision j' \<or> job_revision j' \<in> R"
proof (intro impI)
  assume j': "in_store_phase j'" "job_key j' = K"
  have key: "job_key j' = job_key j" "job_revision j' = job_revision j"
    using job_key_request [OF ingest_move_request [OF run]] by simp_all
  show "n < job_revision j' \<or> job_revision j' \<in> R"
  proof (cases "admits i j i' j'")
    case True
    then show ?thesis using mark j'(2) key by (auto simp: admits_def intro: le_less_trans)
  next
    case False
    then have "past_guard j" using move_marks(2) [OF run g] j' key by (auto simp: in_store_phase_def)
    moreover have "\<not> past_store j" using move_past_store [OF run] j'(1) by (auto simp: in_store_phase_def)
    ultimately show ?thesis using above j'(2) key by (simp add: in_store_phase_def)
  qed
qed

lemma upkeep_only_above:
  assumes step: "upkeep_step rt s s'" and ok: "guarded rt K s" and above: "only_above K n R s"
  shows "only_above K n R s'"
proof -
  obtain i js i' js' where s: "s = (i, js)" "s' = (i', js')" by (cases s, cases s')
  have mark: "\<exists>m. mark_of i K = Some m \<and> n \<le> m"
    and old: "\<And>c. held i (rk_dataset K) (rk_record K) = Some c \<Longrightarrow> env_origin (pr_envelope c) = rk_device K \<Longrightarrow>
      n < env_revision (pr_envelope c) \<or> env_revision (pr_envelope c) \<in> R"
    and jobs: "\<forall>j \<in> set js. in_store_phase j \<longrightarrow> job_key j = K \<longrightarrow> n < job_revision j \<or> job_revision j \<in> R"
    using above by (simp_all add: only_above_def s)
  have mark': "\<exists>m. mark_of i' K = Some m \<and> n \<le> m"
    using mark upkeep_guarded [OF step ok] by (simp add: mark_grows_def s)
  from step [unfolded s] show ?thesis
  proof (cases rule: upkeep_cases)
    case 2
    then show ?thesis using mark' old jobs takes_held [OF 2(1)] by (simp add: only_above_def s)
  next
    case 1
    then show ?thesis
    proof cases
      case (job_moves k j')
      have jk: "job_marked rt K i (js ! k)" and g: "in_replay i \<noteq> None" and here: "js ! k \<in> set js"
        using ok job_moves(2) by (simp_all add: guarded_def s)
      have "n < env_revision (pr_envelope c) \<or> env_revision (pr_envelope c) \<in> R"
        if "held i' (rk_dataset K) (rk_record K) = Some c" "env_origin (pr_envelope c) = rk_device K" for c
        using move_holds [OF job_moves(4) jk that] old jobs here by metis
      moreover have "\<forall>j \<in> set js'. in_store_phase j \<longrightarrow> job_key j = K \<longrightarrow> n < job_revision j \<or> job_revision j \<in> R"
        using jobs move_only_above [OF job_moves(4) g jk mark] here job_moves(1)
        by (auto dest!: set_update_subset_insert [THEN subsetD])
      ultimately show ?thesis using mark' by (simp add: only_above_def s)
    qed
  qed
qed

lemma upkeep_guarded_all: "upkeep rt s s' \<Longrightarrow> guarded rt K s \<Longrightarrow> guarded rt K s'"
  by (induction rule: rtranclp_induct) (auto dest: upkeep_guarded)

lemma upkeep_only_above_all: "upkeep rt s s' \<Longrightarrow> guarded rt K s \<Longrightarrow> only_above K n R s \<Longrightarrow> only_above K n R s'"
  by (induction rule: rtranclp_induct) (auto intro: upkeep_only_above upkeep_guarded_all)

text \<open>
  C11. A compacted deletion is undone by its own device only through an ingestion that was in flight.
  Let what is stored of a record from a device be marked by the guard at the start, and the
  guard's writes for this record and device succeed. Then what is ever held of the record from
  this device after a compaction has taken it away has a higher revision, or the very revision
  of an ingestion that was between the guard and the store when the compaction ran, whatever
  ingestions and compactions follow and however they interleave; when none was there, no such
  revision comes back.
\<close>

theorem compacted_revision_stays_gone:
  assumes key: "K = ReplayKey (env_origin (pr_envelope c)) ds rid"
    and start: "in_replay i0 \<noteq> None" "marked K i0" "all_arrived js0"
      "\<forall>j \<in> set js0. job_key j = K \<longrightarrow> wo_replay (jb_writes j)"
    and before: "upkeep rt (i0, js0) (i, js)"
    and compacted: "upkeep_step rt (i, js) (i', js)" "held i ds rid = Some c" "held i' ds rid = None"
    and later: "upkeep rt (i', js) (i2, js2)"
  shows "\<forall>c2. held i2 ds rid = Some c2 \<longrightarrow> env_origin (pr_envelope c2) = env_origin (pr_envelope c) \<longrightarrow>
    env_revision (pr_envelope c) < env_revision (pr_envelope c2) \<or>
    (\<exists>j \<in> set js. in_store_phase j \<and> job_key j = K \<and> job_revision j = env_revision (pr_envelope c2))"
proof -
  let ?n = "env_revision (pr_envelope c)"
    and ?R = "{job_revision j | j. j \<in> set js \<and> in_store_phase j \<and> job_key j = K}"
  have "guarded rt K (i0, js0)"
    using start by (auto simp: guarded_def job_marked_def all_arrived_def past_guard_def)
  then have ok: "guarded rt K (i, js)" by (rule upkeep_guarded_all [OF before])
  then have ok': "guarded rt K (i', js)" and grow: "mark_grows K i i'" using upkeep_guarded [OF compacted(1)] by simp_all
  have "\<exists>m. mark_of i K = Some m \<and> ?n \<le> m" using ok compacted(2) key by (simp add: guarded_def marked_def)
  then have "\<exists>m. mark_of i' K = Some m \<and> ?n \<le> m" using grow by (simp add: mark_grows_def)
  then have "only_above K ?n ?R (i', js)" using compacted(3) key by (auto simp: only_above_def)
  note above = upkeep_only_above_all [OF later ok' this]
  show ?thesis
  proof (intro allI impI)
    fix c2 assume "held i2 ds rid = Some c2" "env_origin (pr_envelope c2) = env_origin (pr_envelope c)"
    then have "?n < env_revision (pr_envelope c2) \<or> env_revision (pr_envelope c2) \<in> ?R"
      using above key by (simp add: only_above_def)
    then show "?n < env_revision (pr_envelope c2) \<or>
        (\<exists>j \<in> set js. in_store_phase j \<and> job_key j = K \<and> job_revision j = env_revision (pr_envelope c2))"
      unfolding mem_Collect_eq by metis
  qed
qed

definition compacting_ingestor :: ingestor where
  "compacting_ingestor = sample_ingestor\<lparr>in_history := Some tombstone_store, in_receipts := Some sample_receipts,
     in_replay := Some \<lparr>rg_path = [], rg_revision = [(ReplayKey sample_device ''search.history'' ''h1'', 3)]\<rparr>\<rparr>"

theorem compacted_revision_stays_gone_witness:
  "\<exists>i' i2 js2 c. upkeep_step sample_runtime (compacting_ingestor, [sample_job]) (i', [sample_job]) \<and>
     held compacting_ingestor ''search.history'' ''h1'' = Some c \<and> held i' ''search.history'' ''h1'' = None \<and>
     upkeep sample_runtime (i', [sample_job]) (i2, js2) \<and> all_answered js2 \<and>
     (\<forall>c2. held i2 ''search.history'' ''h1'' = Some c2 \<longrightarrow> env_origin (pr_envelope c2) = sample_device \<longrightarrow>
        3 < env_revision (pr_envelope c2))"
proof -
  obtain d' where run: "compact_tombstones_with_receipts sample_runtime 100 0 5 [''peer'']
      (Some sample_receipts) tombstone_store True = (Inr 1, d')" and gone: "stored_at d' ''h1'' = None"
    by (simp add: compact_tombstones_with_receipts_def time_is_zero_def load_records_def
        tombstone_store_def map_from_def receipts_for_record_def load_receipts_def sample_receipts_def
        convergence_confirmed_iff receipt_matches_def finish_compaction_def save_records_def
        disk_save_def stored_at_def Let_def)
  let ?i' = "compacting_ingestor\<lparr>in_history := Some d'\<rparr>"
  have stores: "in_history compacting_ingestor = Some tombstone_store" "in_receipts compacting_ingestor = Some sample_receipts"
    by (simp_all add: compacting_ingestor_def)
  have step: "upkeep_step sample_runtime (compacting_ingestor, [sample_job]) (?i', [sample_job])"
    using compacts_history [OF stores(1)] run stores(2) by simp
  have held: "held compacting_ingestor ds rid = (if ds = ''search.history'' then stored_at tombstone_store rid else None)" for ds rid
    by (simp add: held_def compacting_ingestor_def sample_ingestor_def)
  obtain c where c: "stored_at tombstone_store ''h1'' = Some c" "env_origin (pr_envelope c) = sample_device"
    "env_revision (pr_envelope c) = 3" "\<And>rid. rid \<noteq> ''h1'' \<Longrightarrow> stored_at tombstone_store rid = None"
    by (simp add: stored_at_def load_records_def tombstone_store_def map_from_def)
  let ?K = "ReplayKey (env_origin (pr_envelope c)) ''search.history'' ''h1''"
  have marked: "marked ?K compacting_ingestor"
    using c(1-3) by (simp add: marked_def held) (simp add: mark_of_def compacting_ingestor_def)
  have now: "held compacting_ingestor ''search.history'' ''h1'' = Some c" "held ?i' ''search.history'' ''h1'' = None"
    by (simp add: held c(1), simp add: held_def gone)
  obtain i2 js2 where later: "schedule sample_runtime (?i', [sample_job]) (i2, js2)" "all_answered js2"
    using completion_exists by blast
  then have upkeep: "upkeep sample_runtime (?i', [sample_job]) (i2, js2)"
    by (metis (no_types, lifting) mono_rtranclp works)
  have start: "in_replay compacting_ingestor \<noteq> None" "all_arrived [sample_job]"
    "\<forall>j \<in> set [sample_job]. job_key j = ?K \<longrightarrow> wo_replay (jb_writes j)"
    using sample_jobs by (simp_all add: compacting_ingestor_def all_arrived_def)
  have "\<not> in_store_phase sample_job"
    by (simp add: in_store_phase_def past_guard_def sample_job_def)
  with compacted_revision_stays_gone [OF refl start(1) marked start(2,3) rtranclp.rtrancl_refl step now upkeep]
  show ?thesis using step now upkeep later(2) c(2,3) by auto
qed

section \<open>The race is real\<close>

lemma moves_schedule:
  "k < length js \<Longrightarrow> move_times n rt (i, js ! k) = (i', j') \<Longrightarrow> schedule rt (i, js) (i', js[k := j'])"
proof (induction n arbitrary: i js)
  case (Suc n)
  show ?case
  proof (cases "answer (jb_phase (js ! k)) = None")
    case True
    obtain i1 j1 where one: "ingest_move rt i (js ! k) = (i1, j1)" by fastforce
    have "ingest_step rt (i, js) (i1, js[k := j1])" using Suc.prems(1) True one by (rule job_moves)
    moreover have "schedule rt (i1, js[k := j1]) (i', js[k := j1, k := j'])"
      using Suc.IH [of "js[k := j1]" i1] Suc.prems one by simp
    ultimately show ?thesis by (simp add: converse_rtranclp_into_rtranclp)
  next
    case False
    then have "i' = i \<and> j' = js ! k" using Suc.prems(2) moves_done [OF False, of "Suc n" rt i] by simp
    then show ?thesis by simp
  qed
qed (auto simp: list_update_same_conv)

text \<open>
  Two revisions of one record from one device: the older passes the guard first, the newer deletes
  the record.
\<close>

definition signed_job :: "record_envelope \<Rightarrow> job" where
  "signed_job e = sample_job\<lparr>jb_record := e, jb_proof := \<lparr>rp_device = sample_device, rp_public = b64_encode sample_public,
     rp_signature = b64_encode (rt_sign sample_runtime sample_private (record_proof_message sample_runtime e))\<rparr>\<rparr>"

definition older_record :: record_envelope where
  "older_record = history_record ''h1'' 2 9 (Some [])"

lemma signed_job_verifies:
  "env_origin e = sample_device \<Longrightarrow>
     verify_signed_record sample_runtime sample_peer e (jb_proof (signed_job e)) = Inr ()"
  using sample_keypair
  by (auto simp: signed_job_def result_iff sample_peer_def
      verify_record_proof_Inr keypair_ok_def key_sizes sample_key_sizes [unfolded key_sizes]
      valid_device_id_nonempty)

lemma older_authorized: "record_authorized older_record sample_peer sample_privacy sample_trust"
  unfolding older_record_def by (rule history_record_authorized) (simp_all add: printable_def)

lemma tombstone_authorized: "record_authorized sample_tombstone sample_peer sample_privacy sample_trust"
proof -
  have "validate_record (history_record ''h1'' 3 10 (Some [])) history_capability = Inr ()"
    by (rule history_record_valid) (simp_all add: printable_def)
  then have "validate_record sample_tombstone history_capability = Inr ()"
    by (simp add: validate_record_def sample_tombstone_def history_capability_def payload_length_def split: if_splits)
  moreover have "negotiated_capability sample_peer (env_dataset sample_tombstone) = Some history_capability"
    by (simp add: sample_negotiated)
  moreover have "record_authorized (history_record ''h1'' 3 10 (Some [])) sample_peer sample_privacy sample_trust"
    by (rule history_record_authorized) (simp_all add: printable_def)
  ultimately show ?thesis by (simp add: record_authorized_def)
qed

definition half_done :: ingestor where
  "half_done = sample_ingestor\<lparr>in_replay := Some \<lparr>rg_path = [], rg_revision = [(ReplayKey sample_device ''search.history'' ''h1'', 2)]\<rparr>\<rparr>"

definition tombstone_ack :: observation_receipt where
  "tombstone_ack = sample_ack\<lparr>or_digest := record_digest sample_runtime sample_tombstone\<rparr>"

lemma older_passes:
  "ingest_move sample_runtime sample_ingestor (signed_job older_record) = (half_done, (signed_job older_record)\<lparr>jb_phase := Admitted\<rparr>)"
  "ingest_move sample_runtime half_done ((signed_job older_record)\<lparr>jb_phase := Admitted\<rparr>) =
     (half_done, (signed_job older_record)\<lparr>jb_phase := Decided sample_privacy sample_trust\<rparr>)"
proof -
  have o: "env_origin older_record = sample_device" by (simp add: older_record_def)
  have f: "jb_peer (signed_job older_record) = sample_peer" "jb_record (signed_job older_record) = older_record"
    "jb_phase (signed_job older_record) = Arrived"
    by (simp_all add: signed_job_def sample_job_def)
  have k: "replay_key_of sample_peer older_record = ReplayKey sample_device ''search.history'' ''h1''" "env_revision older_record = 2"
    by (simp_all add: replay_key_of_def sample_peer_def older_record_def)
  show "ingest_move sample_runtime sample_ingestor (signed_job older_record) = (half_done, (signed_job older_record)\<lparr>jb_phase := Admitted\<rparr>)"
    using signed_job_verifies [OF o]
    by (simp add: ingest_move_def f k Let_def sample_ingestor_def sample_providers_def validate_providers_def half_done_def
        replay_accept_cases new_replay_guard_def)
  show "ingest_move sample_runtime half_done ((signed_job older_record)\<lparr>jb_phase := Admitted\<rparr>) =
     (half_done, (signed_job older_record)\<lparr>jb_phase := Decided sample_privacy sample_trust\<rparr>)"
    by (simp add: ingest_move_def f Let_def half_done_def sample_ingestor_def sample_providers_def)
qed

lemma tombstone_ingested:
  "\<exists>x i' ev. ingest sample_runtime half_done sample_peer sample_tombstone (jb_proof (signed_job sample_tombstone)) 0 writes_ok = (Inr x, i') \<and>
     in_history i' = Some \<lparr>disk_file = Holds [(''h1'', stored_form \<lparr>pr_envelope = sample_tombstone, pr_evidence = ev\<rparr>)], disk_mode = 384\<rparr> \<and>
     in_receipts i' = Some \<lparr>disk_file = Holds [tombstone_ack], disk_mode = 384\<rparr>"
proof -
  obtain ev where ev: "authorize_record sample_tombstone sample_peer sample_privacy sample_trust 50 0 = Inr ev"
    using tombstone_authorized by (auto simp: authorize_record_Inr)
  have o: "env_origin sample_tombstone = sample_device" by simp
  have r: "new_observation_receipt sample_runtime sample_tombstone sample_peer 50 0 = Inr tombstone_ack"
    by (simp add: new_observation_receipt_Inr sample_peer_def not_blank_sample sample_ack_def tombstone_ack_def)
  have append: "append_receipt empty_disk tombstone_ack True =
      (Inr (), \<lparr>disk_file = Holds [tombstone_ack], disk_mode = 384\<rparr>)"
    using record_digest_nonempty [OF sample_runtime_ok(1)] valid_device_id_nonempty [OF sample_device_valid]
    by (simp add: append_receipt_def time_is_zero_def load_receipts_def empty_disk_def
        sample_ack_def tombstone_ack_def)
  have k: "replay_key_of sample_peer sample_tombstone = ReplayKey sample_device ''search.history'' ''h1''"
    by (simp add: replay_key_of_def sample_peer_def)
  show ?thesis
    using ev r append signed_job_verifies [OF o]
    by (simp add: ingest_def half_done_def sample_ingestor_def sample_providers_def validate_providers_def writes_ok_def
        replay_accept_cases new_replay_guard_def Let_def dispatch_def search_accept_def k
        accept_and_persist_def save_records_def acknowledge_def) blast
qed

lemma tombstone_compacted:
  assumes "d = \<lparr>disk_file = Holds [(''h1'', stored_form \<lparr>pr_envelope = sample_tombstone, pr_evidence = ev\<rparr>)], disk_mode = 384\<rparr>"
  shows "\<exists>d'. compact_tombstones_with_receipts sample_runtime 100 0 5 [sample_device]
      (Some \<lparr>disk_file = Holds [tombstone_ack], disk_mode = 384\<rparr>) d True = (Inr 1, d') \<and>
    stored_at d' ''h1'' = None \<and> is_ok (load_records d')"
proof -
  have "stored_envelope sample_tombstone = sample_tombstone"
    by (simp add: stored_envelope_def sample_tombstone_def payload_length_def)
  then show ?thesis
    by (simp add: assms compact_tombstones_with_receipts_def time_is_zero_def load_records_def
        map_from_def receipts_for_record_def load_receipts_def sample_ack_def tombstone_ack_def record_digest_text
        convergence_confirmed_iff receipt_matches_def finish_compaction_def save_records_def
        disk_save_def Let_def stored_at_def is_ok_def)
qed

text \<open>
  C40. The race brings a deleted record back. A device's revision 2 passes the guard and is decided on;
  its revision 3, which deletes the record, is ingested to its end and compacted, its receipt being
  there; then revision 2 reaches the store, where nothing is left to stop it: an older revision of
  the record is held again, live.
\<close>

theorem compaction_race_restores_deleted:
  "\<exists>i js i' i2 js2 c c2. upkeep sample_runtime (sample_ingestor, [signed_job older_record, signed_job sample_tombstone]) (i, js) \<and>
     held i ''search.history'' ''h1'' = Some c \<and> env_deleted (pr_envelope c) \<and> env_revision (pr_envelope c) = 3 \<and>
     upkeep_step sample_runtime (i, js) (i', js) \<and> held i' ''search.history'' ''h1'' = None \<and>
     upkeep sample_runtime (i', js) (i2, js2) \<and> held i2 ''search.history'' ''h1'' = Some c2 \<and>
     \<not> env_deleted (pr_envelope c2) \<and> env_revision (pr_envelope c2) = 2"
proof -
  let ?old = "signed_job older_record" and ?new = "signed_job sample_tombstone"
  let ?dec = "?old\<lparr>jb_phase := Decided sample_privacy sample_trust\<rparr>"
  have f: "jb_peer ?old = sample_peer" "jb_record ?old = older_record" "jb_writes ?old = writes_ok" "jb_clock ?old = 0"
    "jb_phase ?old = Arrived" "?new\<lparr>jb_phase := Arrived\<rparr> = ?new"
    "jb_peer ?new = sample_peer" "jb_record ?new = sample_tombstone" "jb_writes ?new = writes_ok" "jb_clock ?new = 0"
    by (simp_all add: signed_job_def sample_job_def)
  have "move_times 2 sample_runtime (sample_ingestor, [?old, ?new] ! 0) = (half_done, ?dec)"
    using older_passes by (simp add: numeral_2_eq_2)
  from moves_schedule [OF _ this] have one: "schedule sample_runtime (sample_ingestor, [?old, ?new]) (half_done, [?dec, ?new])"
    by simp
  obtain x i ev where ing: "ingest sample_runtime half_done sample_peer sample_tombstone (jb_proof ?new) 0 writes_ok = (Inr x, i)"
    and i: "in_history i = Some \<lparr>disk_file = Holds [(''h1'', stored_form \<lparr>pr_envelope = sample_tombstone, pr_evidence = ev\<rparr>)], disk_mode = 384\<rparr>"
      "in_receipts i = Some \<lparr>disk_file = Holds [tombstone_ack], disk_mode = 384\<rparr>"
    using tombstone_ingested by blast
  obtain i' new' where "job_alone sample_runtime half_done ?new = (i', new')" by fastforce
  then have "move_times 4 sample_runtime (half_done, [?dec, ?new] ! 1) = (i, new')"
    using uninterrupted_moves_are_ingest [of sample_runtime half_done ?new] ing f by (auto simp: job_alone_def)
  from moves_schedule [OF _ this] have two: "schedule sample_runtime (half_done, [?dec, ?new]) (i, [?dec, new'])"
    by simp
  have before: "upkeep sample_runtime (sample_ingestor, [?old, ?new]) (i, [?dec, new'])"
    using rtranclp_trans [OF one two] by (metis (no_types, lifting) mono_rtranclp works)
  obtain d' where d': "compact_tombstones_with_receipts sample_runtime 100 0 5 [sample_device] (in_receipts i) (the (in_history i)) True = (Inr 1, d')"
    "stored_at d' ''h1'' = None" "is_ok (load_records d')"
    using tombstone_compacted [OF refl, of ev] i by auto
  let ?i = "i\<lparr>in_history := Some d'\<rparr>"
  have step: "upkeep_step sample_runtime (i, [?dec, new']) (?i, [?dec, new'])"
    using compacts_history [of i "the (in_history i)"] d'(1) i(1) by simp
  have gone: "held ?i ''search.history'' ''h1'' = None" by (simp add: held_def d'(2))
  have rec: "env_dataset older_record = ''search.history''" "env_id older_record = ''h1''" by (simp_all add: older_record_def)
  have "store_open ?i (env_dataset older_record)" using d'(3) by (simp add: store_open_def rec)
  then obtain ev2 i2 where disp: "dispatch older_record sample_peer sample_privacy sample_trust
      (case in_now ?i of None \<Rightarrow> 0 | Some t \<Rightarrow> t) 0 True ?i = (Inr ev2, i2)"
    using dispatch_succeeds [OF older_authorized] by blast
  have "ingest_move sample_runtime ?i ?dec = (i2, ?old\<lparr>jb_phase := Stored ev2 (case in_now ?i of None \<Rightarrow> 0 | Some t \<Rightarrow> t)\<rparr>)"
    unfolding move_decided Let_def f using disp by (simp add: writes_ok_def)
  then have after: "upkeep sample_runtime (?i, [?dec, new']) (i2, [?dec, new'][0 := ?old\<lparr>jb_phase := Stored ev2 (case in_now ?i of None \<Rightarrow> 0 | Some t \<Rightarrow> t)\<rparr>])"
    by (intro r_into_rtranclp works job_moves) simp_all
  obtain ev3 where "held i2 ''search.history'' ''h1'' = Some (stored_form \<lparr>pr_envelope = older_record, pr_evidence = ev3\<rparr>)"
    using dispatch_effect [OF disp, of "''search.history''" "''h1''"] gone by (auto simp: rec winner_def)
  moreover have "held i ''search.history'' ''h1'' = Some (stored_form \<lparr>pr_envelope = sample_tombstone, pr_evidence = ev\<rparr>)"
    using i(1) by (simp add: held_def stored_at_def load_records_def map_from_def)
  ultimately show ?thesis
    using before step gone after by (intro exI conjI) (assumption | simp add: older_record_def)+
qed

end
