(* ===== verification/Registry_Files.thy ===== *)
theory Registry_Files
  imports Store_Files
begin

text \<open>
  The trust registry on the file system: its operations as sequences of system calls, each of
  which can fail, in a service that can be killed after any of them and lose power at any moment.
  They implement the operations on the abstract disk, and what a restart finds is the registry of
  an earlier moment.
\<close>

section \<open>The operations on the file\<close>

text \<open>
  The codec of the file, with the strings it keeps (of \<open>encoding/json\<close>, those that are valid UTF-8),
  and the outcomes of the system calls of one operation.
\<close>

record registry_codec =
  gc_enc :: "trusted_device_file \<Rightarrow> bytes result"
  gc_dec :: "bytes \<Rightarrow> trusted_device_file option"
  gc_text :: "bytes \<Rightarrow> bool"

record call_env =
  ce_read :: "unit result"
  ce_stat :: "unit result"
  ce_save :: save_env

definition load_locked :: "runtime \<Rightarrow> registry_codec \<Rightarrow> bytes \<Rightarrow> call_env \<Rightarrow> fs \<Rightarrow> trusted_device_file result" where
  "load_locked rt gc path env fs =
     (case read_file path (ce_read env) fs of
        Inl e \<Rightarrow>
          if e = ErrNotExist then Inr \<lparr>tf_version = 1, tf_devices = []\<rparr>
          else Inl (Wrap ''read trusted device store'' e)
      | Inr data \<Rightarrow>
      (case (ce_stat env, node_at fs path) of
        (Inl e, _) \<Rightarrow> Inl (Wrap ''inspect trusted device store'' e)
      | (Inr _, None) \<Rightarrow> Inl (Wrap ''inspect trusted device store'' ErrNotExist)
      | (Inr _, Some info) \<Rightarrow>
          if nd_mode info AND 63 \<noteq> 0
          then Inl (Wrap ''permissions must not grant group or other access'' ErrInvalidTrustedDeviceStore)
          else if data = [] then Inl (Wrap ''decode'' ErrInvalidTrustedDeviceStore)
          else (case gc_dec gc data of
              None \<Rightarrow> Inl (Wrap ''decode'' ErrInvalidTrustedDeviceStore)
            | Some state \<Rightarrow>
                if tf_version state \<noteq> 1 then Inl (Wrap ''unsupported version'' ErrInvalidTrustedDeviceStore)
                else and_then (validate_trusted_devices rt (tf_devices state)) (\<lambda>_. Inr state))))"

text \<open>A nil receiver has no path.\<close>

definition authorize_on_file ::
  "runtime \<Rightarrow> registry_codec \<Rightarrow> bytes option \<Rightarrow> call_env \<Rightarrow> bytes \<Rightarrow> verified_pairing \<Rightarrow> time \<Rightarrow> trusted_device io" where
  "authorize_on_file rt gc store env account pairing now =
     (case store of
        None \<Rightarrow> io_lift (Inl ErrInvalidTrustedDeviceStore)
      | Some path \<Rightarrow>
          if account = [] \<or> vp_device pairing = [] \<or> vp_public pairing = [] \<or> vp_fingerprint pairing = []
          then io_lift (Inl ErrInvalidTrustedDeviceStore)
          else io_bind (\<lambda>fs. io_lift (load_locked rt gc path env fs) fs) (\<lambda>state.
            let device = trusted_device_from_pairing account pairing now in
            case device_index account (vp_device pairing) (tf_devices state) of
              Some i \<Rightarrow>
                let existing = tf_devices state ! i in
                if td_revoked_at existing = None then
                  (if td_fingerprint existing \<noteq> vp_fingerprint pairing \<or> td_public existing \<noteq> vp_public pairing
                   then io_lift (Inl ErrTrustedDeviceKeyMismatch)
                   else io_lift (Inr existing))
                else io_bind (trusted_write (gc_enc gc) path (ce_save env) (state\<lparr>tf_devices := (tf_devices state)[i := device]\<rparr>))
                  (\<lambda>_. io_lift (Inr device))
            | None \<Rightarrow>
                io_bind (trusted_write (gc_enc gc) path (ce_save env) (state\<lparr>tf_devices := tf_devices state @ [device]\<rparr>))
                  (\<lambda>_. io_lift (Inr device))))"

definition revoke_on_file ::
  "runtime \<Rightarrow> registry_codec \<Rightarrow> bytes option \<Rightarrow> call_env \<Rightarrow> bytes \<Rightarrow> bytes \<Rightarrow> time \<Rightarrow> trusted_device io" where
  "revoke_on_file rt gc store env account device now =
     (case store of
        None \<Rightarrow> io_lift (Inl ErrTrustedDeviceNotFound)
      | Some path \<Rightarrow>
          if account = [] \<or> \<not> valid_device_id device then io_lift (Inl ErrTrustedDeviceNotFound)
          else io_bind (\<lambda>fs. io_lift (load_locked rt gc path env fs) fs) (\<lambda>state.
            case device_index account device (tf_devices state) of
              None \<Rightarrow> io_lift (Inl ErrTrustedDeviceNotFound)
            | Some i \<Rightarrow>
                let t = tf_devices state ! i in
                if td_revoked_at t \<noteq> None then io_lift (Inr t)
                else
                  let t' = t\<lparr>td_revoked_at := Some now\<rparr> in
                  io_bind (trusted_write (gc_enc gc) path (ce_save env) (state\<lparr>tf_devices := (tf_devices state)[i := t']\<rparr>))
                    (\<lambda>_. io_lift (Inr t'))))"

definition is_trusted_on_file ::
  "runtime \<Rightarrow> registry_codec \<Rightarrow> bytes option \<Rightarrow> call_env \<Rightarrow> bytes \<Rightarrow> bytes \<Rightarrow> bytes \<Rightarrow> fs \<Rightarrow> bool result" where
  "is_trusted_on_file rt gc store env account device fp fs =
     (case store of
        None \<Rightarrow> Inr False
      | Some path \<Rightarrow>
          if account = [] \<or> \<not> valid_device_id device \<or> fp = [] then Inr False
          else and_then (load_locked rt gc path env fs) (\<lambda>state.
            case device_index account device (tf_devices state) of
              None \<Rightarrow> Inr False
            | Some i \<Rightarrow> let t = tf_devices state ! i in
                Inr (td_revoked_at t = None \<and> td_fingerprint t = fp)))"

section \<open>Loading\<close>

text \<open>\<open>ErrNotExist\<close> is the error of an absent file only.\<close>

definition reads_truly :: "call_env \<Rightarrow> bool" where
  "reads_truly env \<longleftrightarrow> ce_read env \<noteq> Inl ErrNotExist"

definition reads_well :: "call_env \<Rightarrow> bool" where
  "reads_well env \<longleftrightarrow> is_ok (ce_read env) \<and> is_ok (ce_stat env)"

lemma reads_wellD: "reads_well env \<Longrightarrow> ce_read env = Inr () \<and> ce_stat env = Inr ()"
  by (simp add: reads_well_def is_ok_iff)

lemma load_locked_Inr:
  "reads_truly env \<Longrightarrow> load_locked rt gc path env fs = Inr st \<Longrightarrow> load_trusted rt (view (gc_dec gc) path fs) = Inr st"
  by (auto simp: load_locked_def read_file_def load_trusted_def view_def reads_truly_def
      split: sum.splits option.splits if_splits)

lemma load_locked_well: "reads_well env \<Longrightarrow> load_locked rt gc path env fs = load_trusted rt (view (gc_dec gc) path fs)"
  by (auto dest!: reads_wellD simp: load_locked_def read_file_def load_trusted_def view_def split: option.splits)

lemma is_trusted_on_file_well:
  "reads_well env \<Longrightarrow> is_trusted_on_file rt gc (Some path) env a v fp fs =
     is_trusted rt (Some (view (gc_dec gc) path fs)) a v fp"
  by (simp add: is_trusted_on_file_def is_trusted_def load_locked_well)

section \<open>What an operation does to the file\<close>

text \<open>A registry whose strings the codec keeps is read back as it was written, and what is read has such strings.\<close>

definition keeps_text :: "registry_codec \<Rightarrow> trusted_device \<Rightarrow> bool" where
  "keeps_text gc t \<longleftrightarrow> (\<forall>f \<in> {td_account, td_device, td_public, td_fingerprint}. gc_text gc (f t))"

definition codec_ok :: "registry_codec \<Rightarrow> bool" where
  "codec_ok gc \<longleftrightarrow>
     (\<forall>state. list_all (keeps_text gc) (tf_devices state) \<longrightarrow> encodes (gc_dec gc) (gc_enc gc state) state) \<and>
     (\<forall>data state. gc_dec gc data = Some state \<longrightarrow> list_all (keeps_text gc) (tf_devices state))"

lemma loaded_text:
  "codec_ok gc \<Longrightarrow> load_trusted rt (view (gc_dec gc) path fs) = Inr st \<Longrightarrow> list_all (keeps_text gc) (tf_devices st)"
  by (auto simp: codec_ok_def load_trusted_def view_def and_then_def split: sum.splits option.splits if_splits)

lemma keeps_text_kept:
  "list_all (keeps_text gc) ds \<Longrightarrow> keeps_text gc t \<Longrightarrow> list_all (keeps_text gc) (ds[i := t])"
  "list_all (keeps_text gc) ds \<Longrightarrow> keeps_text gc t \<Longrightarrow> list_all (keeps_text gc) (ds @ [t])"
  "keeps_text gc (t\<lparr>td_revoked_at := r\<rparr>) = keeps_text gc t"
  by (auto simp: list_all_iff keeps_text_def dest: set_update_subset_insert [THEN subsetD])

text \<open>
  It fails and leaves its path alone, or answers from the file as it is, or replaces the file in its last
  call; \<open>a\<close> is the operation on the abstract disk, given whether its write succeeds.
\<close>

inductive outcome ::
  "registry_codec \<Rightarrow> bytes \<Rightarrow> call_env \<Rightarrow> fs \<Rightarrow> (bool \<Rightarrow> 'a result \<times> trusted_device_store) \<Rightarrow> 'a result \<Rightarrow> fs \<Rightarrow> fs list \<Rightarrow> bool"
  for gc path env fs a where
  refused: "\<forall>t \<in> set (s # ts). aside fs (temp_of (ce_save env)) t \<Longrightarrow>
    reads_well env \<longrightarrow> (\<exists>ok e'. a ok = (Inl e', Some (view (gc_dec gc) path fs))) \<Longrightarrow>
    outcome gc path env fs a (Inl e) s ts"
| answered: "a True = (Inr x, Some (view (gc_dec gc) path fs)) \<Longrightarrow> outcome gc path env fs a (Inr x) fs []"
| written: "\<forall>t \<in> set us. aside fs (temp_of (ce_save env)) t \<Longrightarrow>
    s = replaced fs (temp_of (ce_save env)) path data \<Longrightarrow> encodes (gc_dec gc) (Inr data) state \<Longrightarrow>
    a True = (Inr x, Some \<lparr>disk_file = Holds state, disk_mode = 384\<rparr>) \<Longrightarrow>
    outcome gc path env fs a (Inr x) s (us @ [s])"

lemma outcome_write:
  assumes codec: "codec_ok gc" and strings: "list_all (keeps_text gc) (tf_devices state)"
    and run: "io_bind (trusted_write (gc_enc gc) path (ce_save env) state) (\<lambda>_. io_lift (Inr x)) fs = (r, s, ts)"
    and a: "\<And>ok. a ok = (case write_trusted ok state (view (gc_dec gc) path fs) of
        (Inl e, d) \<Rightarrow> (Inl e, Some d) | (Inr _, d) \<Rightarrow> (Inr x, Some d))"
  shows "outcome gc path env fs a r s ts"
proof -
  obtain w b c where sv: "synced_save trusted_step_error path (ce_save env) (gc_enc gc (state\<lparr>tf_version := 1\<rparr>)) fs = (w, b, c)"
    by (cases "synced_save trusted_step_error path (ce_save env) (gc_enc gc (state\<lparr>tf_version := 1\<rparr>)) fs") auto
  have run': "(r, s, ts) = (case w of Inl e \<Rightarrow> Inl e | Inr _ \<Rightarrow> Inr x, b, c)"
    using run sv by (auto simp: trusted_write_def io_bind_def io_lift_def split: sum.splits)
  from synced_save_cases [OF sv] show ?thesis
  proof (elim disjE exE conjE)
    fix e assume "w = Inl e" "aside fs (temp_of (ce_save env)) b" "\<forall>t \<in> set c. aside fs (temp_of (ce_save env)) t"
    moreover have "a False = (Inl ErrWrite, Some (view (gc_dec gc) path fs))" by (simp add: a write_trusted_def)
    ultimately show ?thesis using run' by (auto intro!: refused)
  next
    fix data us assume done_: "gc_enc gc (state\<lparr>tf_version := 1\<rparr>) = Inr data" "w = Inr ()" "c = us @ [b]"
      "\<forall>t \<in> set us. aside fs (temp_of (ce_save env)) t" "b = replaced fs (temp_of (ce_save env)) path data"
    have "list_all (keeps_text gc) (tf_devices (state\<lparr>tf_version := 1\<rparr>))" using strings by simp
    then have "encodes (gc_dec gc) (Inr data) (state\<lparr>tf_version := 1\<rparr>)" using codec done_(1) by (metis codec_ok_def)
    moreover have "a True = (Inr x, Some \<lparr>disk_file = Holds (state\<lparr>tf_version := 1\<rparr>), disk_mode = 384\<rparr>)"
      by (simp add: a write_trusted_def)
    ultimately show ?thesis using run' done_ by (auto intro: written)
  qed
qed

lemma outcome_kept:
  "a True = (Inl e, Some (view (gc_dec gc) path fs)) \<Longrightarrow> io_lift (Inl e) fs = (r, s, ts) \<Longrightarrow> outcome gc path env fs a r s ts"
  "a True = (Inr x, Some (view (gc_dec gc) path fs)) \<Longrightarrow> io_lift (Inr x) fs = (r, s, ts) \<Longrightarrow> outcome gc path env fs a r s ts"
  by (auto simp: io_lift_def intro!: refused answered aside.intros)

lemma outcome_loaded:
  assumes truly: "reads_truly env"
    and run: "io_bind (\<lambda>fs. io_lift (load_locked rt gc path env fs) fs) k fs = (r, s, ts)"
    and failed: "\<And>e. load_trusted rt (view (gc_dec gc) path fs) = Inl e \<Longrightarrow> a True = (Inl e, Some (view (gc_dec gc) path fs))"
    and loaded: "\<And>state. load_trusted rt (view (gc_dec gc) path fs) = Inr state \<Longrightarrow> k state fs = (r, s, ts) \<Longrightarrow>
      outcome gc path env fs a r s ts"
  shows "outcome gc path env fs a r s ts"
proof (cases "load_locked rt gc path env fs")
  case (Inl e)
  then have kept: "r = Inl e" "s = fs" "ts = []" using run by (simp_all add: io_bind_def io_lift_def)
  have "reads_well env \<longrightarrow> a True = (Inl e, Some (view (gc_dec gc) path fs))"
    using failed [of e] load_locked_well [of env rt gc path fs] Inl by simp
  then show ?thesis unfolding kept by (intro refused) (auto intro: aside.intros)
next
  case (Inr state)
  then have "k state fs = (r, s, ts)" using run by (auto simp: io_bind_def io_lift_def split: prod.splits)
  with load_locked_Inr [OF truly Inr] show ?thesis by (rule loaded)
qed

lemma authorize_outcome:
  assumes codec: "codec_ok gc" and truly: "reads_truly env"
    and strings: "keeps_text gc (trusted_device_from_pairing a p now)"
    and run: "authorize_on_file rt gc (Some path) env a p now fs = (r, s, ts)"
  shows "outcome gc path env fs (authorize_device rt (Some (view (gc_dec gc) path fs)) a p now) r s ts"
proof (cases "a = [] \<or> vp_device p = [] \<or> vp_public p = [] \<or> vp_fingerprint p = []")
  case True
  then show ?thesis
    using run by (intro outcome_kept(1) [where e = ErrInvalidTrustedDeviceStore])
      (simp_all add: authorize_on_file_def authorize_device_def)
next
  case args: False
  let ?d = "trusted_device_from_pairing a p now"
  let ?load = "\<lambda>fs. io_lift (load_locked rt gc path env fs) fs"
  let ?a = "authorize_device rt (Some (view (gc_dec gc) path fs)) a p now"
  note run' = run [unfolded authorize_on_file_def Let_def, simplified args option.case if_False]
  show ?thesis
  proof (rule outcome_loaded [OF truly run'])
    show "?a True = (Inl e, Some (view (gc_dec gc) path fs))" if "load_trusted rt (view (gc_dec gc) path fs) = Inl e" for e
      using that args by (simp add: authorize_device_def)
    fix state assume load: "load_trusted rt (view (gc_dec gc) path fs) = Inr state"
    assume k: "(case device_index a (vp_device p) (tf_devices state) of
        None \<Rightarrow> io_bind (trusted_write (gc_enc gc) path (ce_save env) (state\<lparr>tf_devices := tf_devices state @ [?d]\<rparr>))
          (\<lambda>_. io_lift (Inr ?d))
      | Some i \<Rightarrow> if td_revoked_at (tf_devices state ! i) = None
          then if td_fingerprint (tf_devices state ! i) \<noteq> vp_fingerprint p \<or> td_public (tf_devices state ! i) \<noteq> vp_public p
            then io_lift (Inl ErrTrustedDeviceKeyMismatch) else io_lift (Inr (tf_devices state ! i))
          else io_bind (trusted_write (gc_enc gc) path (ce_save env) (state\<lparr>tf_devices := (tf_devices state)[i := ?d]\<rparr>))
          (\<lambda>_. io_lift (Inr ?d))) fs = (r, s, ts)"
    note abstract = authorize_device_def Let_def load
    note kept = keeps_text_kept(1,2) [OF loaded_text [OF codec load] strings] loaded_text [OF codec load] strings
    show "outcome gc path env fs ?a r s ts"
    proof (cases "device_index a (vp_device p) (tf_devices state)")
      case None
      then show ?thesis using k args by (intro outcome_write [OF codec]) (simp_all add: abstract kept)
    next
      case (Some i)
      show ?thesis
      proof (cases "td_revoked_at (tf_devices state ! i) = None")
        case True
        show ?thesis
        proof (cases "td_fingerprint (tf_devices state ! i) \<noteq> vp_fingerprint p \<or> td_public (tf_devices state ! i) \<noteq> vp_public p")
          case mismatch: True
          then show ?thesis
            using k args Some True by (intro outcome_kept(1) [where e = ErrTrustedDeviceKeyMismatch]) (simp_all add: abstract)
        next
          case False
          then show ?thesis
            using k args Some True by (intro outcome_kept(2) [where x = "tf_devices state ! i"]) (simp_all add: abstract)
        qed
      next
        case False
        then obtain y where "td_revoked_at (tf_devices state ! i) = Some y" by blast
        then show ?thesis
          using k args Some
          by (intro outcome_write [OF codec, where state = "state\<lparr>tf_devices := (tf_devices state)[i := ?d]\<rparr>" and x = ?d])
            (simp_all add: abstract kept)
      qed
    qed
  qed
qed

lemma revoke_outcome:
  assumes codec: "codec_ok gc" and truly: "reads_truly env"
    and run: "revoke_on_file rt gc (Some path) env a v now fs = (r, s, ts)"
  shows "outcome gc path env fs (revoke_device rt (Some (view (gc_dec gc) path fs)) a v now) r s ts"
proof (cases "a = [] \<or> \<not> valid_device_id v")
  case True
  then show ?thesis
    using run by (intro outcome_kept(1) [where e = ErrTrustedDeviceNotFound])
      (simp_all add: revoke_on_file_def revoke_device_def)
next
  case args: False
  let ?a = "revoke_device rt (Some (view (gc_dec gc) path fs)) a v now"
  note run' = run [unfolded revoke_on_file_def Let_def, simplified args option.case if_False]
  show ?thesis
  proof (rule outcome_loaded [OF truly run'])
    show "?a True = (Inl e, Some (view (gc_dec gc) path fs))" if "load_trusted rt (view (gc_dec gc) path fs) = Inl e" for e
      using that args by (simp add: revoke_device_def)
    fix state assume load: "load_trusted rt (view (gc_dec gc) path fs) = Inr state"
    assume k: "(case device_index a v (tf_devices state) of
        None \<Rightarrow> io_lift (Inl ErrTrustedDeviceNotFound)
      | Some i \<Rightarrow> if td_revoked_at (tf_devices state ! i) \<noteq> None then io_lift (Inr (tf_devices state ! i))
          else io_bind (trusted_write (gc_enc gc) path (ce_save env)
              (state\<lparr>tf_devices := (tf_devices state)[i := (tf_devices state ! i)\<lparr>td_revoked_at := Some now\<rparr>]\<rparr>))
          (\<lambda>_. io_lift (Inr ((tf_devices state ! i)\<lparr>td_revoked_at := Some now\<rparr>)))) fs = (r, s, ts)"
    note abstract = revoke_device_def Let_def load
    show "outcome gc path env fs ?a r s ts"
    proof (cases "device_index a v (tf_devices state)")
      case None
      then show ?thesis
        using k args by (intro outcome_kept(1) [where e = ErrTrustedDeviceNotFound]) (simp_all add: abstract)
    next
      case (Some i)
      let ?t = "(tf_devices state ! i)\<lparr>td_revoked_at := Some now\<rparr>"
      show ?thesis
      proof (cases "td_revoked_at (tf_devices state ! i) = None")
        case False
        then show ?thesis
          using k args Some by (intro outcome_kept(2) [where x = "tf_devices state ! i"]) (simp_all add: abstract)
      next
        case True
        have "keeps_text gc ?t"
          using loaded_text [OF codec load] device_index_Some [OF Some] by (simp add: keeps_text_kept(3) list_all_length)
        with True show ?thesis
          using k args Some
          by (intro outcome_write [OF codec, where state = "state\<lparr>tf_devices := (tf_devices state)[i := ?t]\<rparr>" and x = ?t])
            (simp_all add: abstract keeps_text_kept(1) [OF loaded_text [OF codec load]])
      qed
    qed
  qed
qed

lemma aside_view: "aside fs temp t \<Longrightarrow> fs_wf fs \<Longrightarrow> temp \<noteq> path \<Longrightarrow> view dec path t = view dec path fs"
  by (rule view_same, rule aside_nodes(2)) auto

lemma replaced_node:
  "node_at (replaced fs temp path data) path = Some \<lparr>nd_data = data, nd_mode = 384, nd_synced = True\<rparr>"
  using replaced_index [of fs temp path data] by (simp add: node_at_def nth_append)

lemma replaced_view:
  "encodes dec (Inr data) state \<Longrightarrow>
     view dec path (replaced fs temp path data) = \<lparr>disk_file = Holds state, disk_mode = 384\<rparr>"
  by (simp add: view_def replaced_node encodes_def)

definition implements_registry_op ::
  "registry_codec \<Rightarrow> bytes \<Rightarrow> call_env \<Rightarrow> fs \<Rightarrow> (trusted_device_store \<Rightarrow> bool \<Rightarrow> 'a result \<times> trusted_device_store) \<Rightarrow> 'a io \<Rightarrow> bool" where
  "implements_registry_op gc path env fs a m \<longleftrightarrow>
     (case m fs of (r, s, ts) \<Rightarrow> let disk = \<lambda>u. Some (view (gc_dec gc) path u) in
        (is_ok r \<longrightarrow> a (disk fs) True = (r, disk s)) \<and>
        (\<not> is_ok r \<longrightarrow> disk s = disk fs \<and> (reads_well env \<longrightarrow> (\<exists>ok e. a (disk fs) ok = (Inl e, disk fs)))) \<and>
        (\<forall>u \<in> set ts. disk u = disk fs \<or> disk u = disk s))"

lemma outcome_implements:
  assumes "outcome gc path env fs (a (Some (view (gc_dec gc) path fs))) r s ts" and "m fs = (r, s, ts)"
    and "fs_wf fs" and "temp_of (ce_save env) \<noteq> path"
  shows "implements_registry_op gc path env fs a m"
  using assms(1)
proof cases
  case (refused e)
  have "view (gc_dec gc) path t = view (gc_dec gc) path fs" if "t \<in> set (s # ts)" for t
    using refused(2) that aside_view [OF _ assms(3,4)] by blast
  then show ?thesis using refused assms(2) by (simp add: implements_registry_op_def Let_def is_ok_def)
next
  case (answered x)
  then show ?thesis using assms(2) by (simp add: implements_registry_op_def Let_def is_ok_def)
next
  case (written us data state x)
  have "view (gc_dec gc) path t = view (gc_dec gc) path fs" if "t \<in> set us" for t
    using written(3) that aside_view [OF _ assms(3,4)] by blast
  moreover have "view (gc_dec gc) path s = \<lparr>disk_file = Holds state, disk_mode = 384\<rparr>"
    unfolding written(4) by (rule replaced_view [OF written(5)])
  ultimately show ?thesis using written(1,2,6) assms(2) by (simp add: implements_registry_op_def Let_def is_ok_def)
qed

theorem registry_files_implement_registry:
  assumes "codec_ok gc" and "reads_truly env" and "fs_wf fs" and "temp_of (ce_save env) \<noteq> path"
    and "keeps_text gc (trusted_device_from_pairing a p now)"
  shows "implements_registry_op gc path env fs (\<lambda>d. authorize_device rt d a p now) (authorize_on_file rt gc (Some path) env a p now) \<and>
    implements_registry_op gc path env fs (\<lambda>d. revoke_device rt d a v now) (revoke_on_file rt gc (Some path) env a v now)"
proof
  obtain r s ts where "authorize_on_file rt gc (Some path) env a p now fs = (r, s, ts)"
    by (cases "authorize_on_file rt gc (Some path) env a p now fs") auto
  then show "implements_registry_op gc path env fs (\<lambda>d. authorize_device rt d a p now) (authorize_on_file rt gc (Some path) env a p now)"
    by (intro outcome_implements [OF _ _ assms(3,4)]) (rule authorize_outcome [OF assms(1,2,5)])
next
  obtain r s ts where "revoke_on_file rt gc (Some path) env a v now fs = (r, s, ts)"
    by (cases "revoke_on_file rt gc (Some path) env a v now fs") auto
  then show "implements_registry_op gc path env fs (\<lambda>d. revoke_device rt d a v now) (revoke_on_file rt gc (Some path) env a v now)"
    by (intro outcome_implements [OF _ _ assms(3,4)]) (rule revoke_outcome [OF assms(1,2)])
qed

section \<open>A life of the registry\<close>

text \<open>
  The states passed through since the last start, each with the history that has been completed by
  then, newest event first. An operation completes with its last call, or with its answer where it
  writes nothing; the process can be killed after any call. Power is lost at any
  moment: what is found then has the names of one of the states.
\<close>

type_synonym moment = "fs \<times> trust_event list"

definition moments :: "trust_event list \<Rightarrow> trust_event \<Rightarrow> 'a result \<Rightarrow> fs \<Rightarrow> fs list \<Rightarrow> moment list" where
  "moments es e r s ts =
     (case r of
        Inl _ \<Rightarrow> map (\<lambda>t. (t, es)) ts
      | Inr _ \<Rightarrow> map (\<lambda>t. (t, es)) (butlast ts) @ [(s, e # es)])"

inductive registry_life :: "runtime \<Rightarrow> registry_codec \<Rightarrow> bytes \<Rightarrow> moment list \<Rightarrow> bool" for rt gc path where
  founded: "fs_wf fs \<Longrightarrow> node_at fs path = None \<Longrightarrow> registry_life rt gc path [(fs, [])]"
| authorizes: "registry_life rt gc path hist \<Longrightarrow> last hist = (fs, es) \<Longrightarrow>
    reads_truly env \<Longrightarrow> temp_of (ce_save env) \<noteq> path \<Longrightarrow> pairing_genuine rt p \<Longrightarrow> now \<noteq> 0 \<Longrightarrow>
    keeps_text gc (trusted_device_from_pairing a p now) \<Longrightarrow>
    authorize_on_file rt gc (Some path) env a p now fs = (r, s, ts) \<Longrightarrow>
    registry_life rt gc path (hist @ take k (moments es (Authorized a p) r s ts))"
| revokes: "registry_life rt gc path hist \<Longrightarrow> last hist = (fs, es) \<Longrightarrow>
    reads_truly env \<Longrightarrow> temp_of (ce_save env) \<noteq> path \<Longrightarrow>
    revoke_on_file rt gc (Some path) env a v now fs = (r, s, ts) \<Longrightarrow>
    registry_life rt gc path (hist @ take k (moments es (Revoked a v) r s ts))"
| loses_power: "registry_life rt gc path hist \<Longrightarrow> survives (map fst hist) fs' \<Longrightarrow> fs_wf fs' \<Longrightarrow>
    (t, es) \<in> set hist \<Longrightarrow> fs_names fs' = fs_names t \<Longrightarrow>
    registry_life rt gc path [(fs', es)]"

text \<open>What every name of the path that may come back refers to: a synced file with the registry of its moment.\<close>

definition traced :: "runtime \<Rightarrow> registry_codec \<Rightarrow> trust_event list \<Rightarrow> file_node option \<Rightarrow> bool" where
  "traced rt gc es r \<longleftrightarrow> trust_trace rt es (Some (view_of (gc_dec gc) r))"

definition life_ok :: "runtime \<Rightarrow> registry_codec \<Rightarrow> bytes \<Rightarrow> moment list \<Rightarrow> bool" where
  "life_ok rt gc path hist \<longleftrightarrow> hist \<noteq> [] \<and> (\<forall>t es. (t, es) \<in> set hist \<longrightarrow> fs_wf t \<and>
     solid (traced rt gc es) (fs_nodes (fst (last hist))) (map_of (fs_names t) path))"

lemma life_now:
  assumes "life_ok rt gc path hist" and "last hist = (fs, es)"
  shows "fs_wf fs" and "solid (traced rt gc es) (fs_nodes fs) (map_of (fs_names fs) path)"
    and "trust_trace rt es (Some (view (gc_dec gc) path fs))"
proof -
  have "(fs, es) \<in> set hist" using assms by (metis last_in_set life_ok_def)
  then show "fs_wf fs" and now: "solid (traced rt gc es) (fs_nodes fs) (map_of (fs_names fs) path)"
    using assms by (simp_all add: life_ok_def)
  then show "trust_trace rt es (Some (view (gc_dec gc) path fs))"
    unfolding view_of_node by (auto simp: solid_def traced_def node_at_def split: option.splits)
qed

lemma life_append:
  assumes ok: "life_ok rt gc path hist" and last: "last hist = (fs, es)"
    and nodes: "\<And>i. ms \<noteq> [] \<Longrightarrow> i < length (fs_nodes fs) \<Longrightarrow>
      i < length (fs_nodes (fst (last ms))) \<and> fs_nodes (fst (last ms)) ! i = fs_nodes fs ! i"
    and new: "\<And>t es'. (t, es') \<in> set ms \<Longrightarrow> fs_wf t \<and>
      (es' = es \<and> map_of (fs_names t) path = map_of (fs_names fs) path \<or>
       solid (traced rt gc es') (fs_nodes (fst (last ms))) (map_of (fs_names t) path))"
  shows "life_ok rt gc path (hist @ ms)"
proof (cases "ms = []")
  case False
  have old: "solid P (fs_nodes (fst (last ms))) i" if "solid P (fs_nodes fs) i" for P i
    using solid_extends [OF that] nodes [OF False] by blast
  have "fs_wf t \<and> solid (traced rt gc es') (fs_nodes (fst (last ms))) (map_of (fs_names t) path)"
    if "(t, es') \<in> set hist" for t es'
    using ok that old last by (simp add: life_ok_def)
  moreover have "fs_wf t \<and> solid (traced rt gc es') (fs_nodes (fst (last ms))) (map_of (fs_names t) path)"
    if "(t, es') \<in> set ms" for t es'
    using new [OF that] old [OF life_now(2) [OF ok last]] by auto
  ultimately show ?thesis using False by (auto simp: life_ok_def)
qed (use ok in simp)

lemma life_aside:
  assumes ok: "life_ok rt gc path hist" and last: "last hist = (fs, es)" and temp: "temp \<noteq> path"
    and us: "\<forall>t \<in> set us. aside fs temp t"
  shows "life_ok rt gc path (hist @ map (\<lambda>t. (t, es)) us)"
proof (rule life_append [OF ok last])
  note wf = life_now(1) [OF ok last]
  show "i < length (fs_nodes (fst (last (map (\<lambda>t. (t, es)) us)))) \<and> fs_nodes (fst (last (map (\<lambda>t. (t, es)) us))) ! i = fs_nodes fs ! i"
    if "map (\<lambda>t. (t, es)) us \<noteq> []" "i < length (fs_nodes fs)" for i
  proof -
    have "us \<noteq> []" using that(1) by simp
    then have "aside fs temp (last us)" using us by simp
    then show ?thesis using aside_index(2,3) that(2) \<open>us \<noteq> []\<close> by (fastforce simp: last_map)
  qed
  show "fs_wf t \<and> (es' = es \<and> map_of (fs_names t) path = map_of (fs_names fs) path \<or>
      solid (traced rt gc es') (fs_nodes (fst (last (map (\<lambda>t. (t, es)) us)))) (map_of (fs_names t) path))"
    if "(t, es') \<in> set (map (\<lambda>t. (t, es)) us)" for t es'
    using that us temp aside_nodes(1) [OF _ wf] aside_index(1) by auto
qed

lemma life_done:
  assumes ok: "life_ok rt gc path hist" and last: "last hist = (fs, es)" and temp: "temp \<noteq> path"
    and us: "\<forall>t \<in> set us. aside fs temp t"
    and s: "fs_wf s" "solid (traced rt gc es') (fs_nodes s) (map_of (fs_names s) path)"
      "\<And>i. i < length (fs_nodes fs) \<Longrightarrow> i < length (fs_nodes s) \<and> fs_nodes s ! i = fs_nodes fs ! i"
  shows "life_ok rt gc path (hist @ map (\<lambda>t. (t, es)) us @ [(s, es')])"
proof (rule life_append [OF ok last])
  note wf = life_now(1) [OF ok last]
  show "fs_wf t \<and> (es2 = es \<and> map_of (fs_names t) path = map_of (fs_names fs) path \<or>
      solid (traced rt gc es2) (fs_nodes (fst (last (map (\<lambda>t. (t, es)) us @ [(s, es')])))) (map_of (fs_names t) path))"
    if "(t, es2) \<in> set (map (\<lambda>t. (t, es)) us @ [(s, es')])" for t es2
    using that us temp s(1,2) aside_nodes(1) [OF _ wf] aside_index(1) by auto
qed (use s(3) in simp)

lemma life_step:
  assumes ok: "life_ok rt gc path hist" and last: "last hist = (fs, es)" and temp: "temp_of (ce_save env) \<noteq> path"
    and run: "outcome gc path env fs a r s ts"
    and event: "\<And>x d. a True = (Inr x, Some d) \<Longrightarrow> trust_trace rt (e # es) (Some d)"
  shows "life_ok rt gc path (hist @ take k (moments es e r s ts))"
  using run
proof cases
  case (refused x)
  then have "\<forall>t \<in> set (take k ts). aside fs (temp_of (ce_save env)) t" by (meson in_set_takeD list.set_intros(2))
  from life_aside [OF ok last temp this] show ?thesis using refused(1) by (simp add: moments_def take_map)
next
  case (answered x)
  have "trust_trace rt (e # es) (Some (view (gc_dec gc) path fs))" using event answered(4) by blast
  then have "solid (traced rt gc (e # es)) (fs_nodes fs) (map_of (fs_names fs) path)"
    using life_now(2) [OF ok last] unfolding view_of_node by (auto simp: solid_def traced_def node_at_def split: option.splits)
  from life_done [OF ok last temp, of "[]", OF _ life_now(1) [OF ok last] this] ok
  show ?thesis using answered(1,2,3) by (cases k) (simp_all add: moments_def)
next
  case (written us data state x)
  note wf = life_now(1) [OF ok last]
  have moments: "moments es e r s ts = map (\<lambda>t. (t, es)) us @ [(s, e # es)]" using written(1,2) by (simp add: moments_def)
  show ?thesis
  proof (cases "k \<le> length us")
    case True
    have "\<forall>t \<in> set (take k us). aside fs (temp_of (ce_save env)) t" using written(3) by (meson in_set_takeD)
    from life_aside [OF ok last temp this] show ?thesis using True by (simp add: moments take_map)
  next
    case False
    have "view_of (gc_dec gc) (Some \<lparr>nd_data = data, nd_mode = 384, nd_synced = True\<rparr>) = \<lparr>disk_file = Holds state, disk_mode = 384\<rparr>"
      using written(5) by (simp add: view_of_def view_def node_at_def encodes_def)
    then have "traced rt gc (e # es) (Some \<lparr>nd_data = data, nd_mode = 384, nd_synced = True\<rparr>)"
      using event [OF written(6)] by (simp add: traced_def)
    then have "solid (traced rt gc (e # es)) (fs_nodes s) (map_of (fs_names s) path)"
      by (simp add: written(4) replaced_index solid_def)
    moreover have "fs_wf s" "\<And>i. i < length (fs_nodes fs) \<Longrightarrow> i < length (fs_nodes s) \<and> fs_nodes s ! i = fs_nodes fs ! i"
      using wf by (simp_all add: written(4) fs_wf_replaced replaced_index nth_append)
    ultimately have "life_ok rt gc path (hist @ map (\<lambda>t. (t, es)) us @ [(s, e # es)])"
      using life_done [OF ok last temp written(3)] by blast
    then show ?thesis using False by (simp add: moments)
  qed
qed

lemma registry_life_ok:
  assumes "registry_life rt gc path hist" and codec: "codec_ok gc"
  shows "life_ok rt gc path hist"
  using assms(1)
proof induction
  case (founded fs)
  then have "traced rt gc [] None"
    by (auto simp: traced_def view_of_def view_def node_at_def intro: trust_trace.created)
  then show ?case using founded by (auto simp: life_ok_def solid_def node_at_def)
next
  case (authorizes hist fs es env p now a r s ts k)
  show ?case
    by (rule life_step [OF authorizes.IH authorizes.hyps(2,4) authorize_outcome [OF codec authorizes.hyps(3,7,8)]])
      (rule trust_trace.authorized [OF life_now(3) [OF authorizes.IH authorizes.hyps(2)] authorizes.hyps(5,6)])
next
  case (revokes hist fs es env a v now r s ts k)
  show ?case
    by (rule life_step [OF revokes.IH revokes.hyps(2,4) revoke_outcome [OF codec revokes.hyps(3,5)]])
      (rule trust_trace.revoked [OF life_now(3) [OF revokes.IH revokes.hyps(2)]])
next
  case (loses_power hist fs' t es)
  have solid: "solid (traced rt gc es) (fs_nodes (fst (last hist))) (map_of (fs_names t) path)"
    and ne: "hist \<noteq> []" using loses_power.IH loses_power.hyps(4) by (auto simp: life_ok_def)
  have nodes: "list_all2 (\<lambda>n' n. nd_mode n' = nd_mode n \<and> nd_synced n' \<and> (nd_synced n \<longrightarrow> nd_data n' = nd_data n))
      (fs_nodes fs') (fs_nodes (fst (last hist)))"
    using loses_power.hyps(2) ne by (simp add: survives_def last_map)
  have content: "view_of (gc_dec gc) (Some n') = view_of (gc_dec gc) (Some n)"
    if "nd_data n' = nd_data n" "nd_mode n' = nd_mode n" for n n'
    using that by (simp add: view_of_def view_def node_at_def)
  have "solid (traced rt gc es) (fs_nodes fs') (map_of (fs_names fs') path)"
  proof (cases "map_of (fs_names t) path")
    case None
    then show ?thesis using solid by (simp add: solid_def loses_power.hyps(5))
  next
    case (Some i)
    then have i: "i < length (fs_nodes (fst (last hist)))" "nd_synced (fs_nodes (fst (last hist)) ! i)"
      "traced rt gc es (Some (fs_nodes (fst (last hist)) ! i))" using solid by (simp_all add: solid_def)
    note same = list_all2_nthD2 [OF nodes i(1)]
    have "traced rt gc es (Some (fs_nodes fs' ! i))"
      using i(2,3) same content [of "fs_nodes fs' ! i" "fs_nodes (fst (last hist)) ! i"] by (simp add: traced_def)
    then show ?thesis using Some same i(1) list_all2_lengthD [OF nodes] by (simp add: solid_def loses_power.hyps(5))
  qed
  then show ?case using loses_power.hyps(3) by (simp add: life_ok_def)
qed

section \<open>Properties\<close>

definition answers_history :: "runtime \<Rightarrow> registry_codec \<Rightarrow> bytes \<Rightarrow> call_env \<Rightarrow> trust_event list \<Rightarrow> fs \<Rightarrow> bool" where
  "answers_history rt gc path env es fs \<longleftrightarrow> (\<forall>a v fp. is_trusted_on_file rt gc (Some path) env a v fp fs =
     Inr (a \<noteq> [] \<and> valid_device_id v \<and> fp \<noteq> [] \<and> history_key a v es = Some fp))"

lemma life_answers:
  assumes "registry_life rt gc path hist" and "codec_ok gc" and "last hist = (fs, es)" and "reads_well env"
  shows "answers_history rt gc path env es fs"
proof -
  have "trust_trace rt es (Some (view (gc_dec gc) path fs))"
    by (rule life_now(3) [OF registry_life_ok [OF assms(1,2)] assms(3)])
  then obtain ds where "registry_ok rt (Some (view (gc_dec gc) path fs)) ds"
    "\<forall>a v. trusted_key ds a v = history_key a v es" using trust_trace_view by blast
  then show ?thesis by (simp add: answers_history_def is_trusted_on_file_well [OF assms(4)] is_trusted_key)
qed

text \<open>
  C12. The registry on the file system keeps its history through kills and losses of power. Over any
  number of authorizations, revocations, failed calls, kills in the middle of a write and losses
  of power, \<open>IsTrusted\<close> on the file answers as the history says: while the service is up, of all operations completed by
  then, and after a loss of power of those completed by one moment since the last start, with
  nothing torn or mixed. The registry always loads.
\<close>

theorem registry_survives_power_loss:
  assumes life: "registry_life rt gc path hist" and codec: "codec_ok gc" and reads: "reads_well env"
  shows "answers_history rt gc path env (snd (last hist)) (fst (last hist)) \<and>
    (\<forall>fs'. survives (map fst hist) fs' \<longrightarrow> fs_wf fs' \<longrightarrow>
       (\<exists>(t, es) \<in> set hist. fs_names fs' = fs_names t \<and> registry_life rt gc path [(fs', es)] \<and>
          answers_history rt gc path env es fs'))"
proof (intro conjI allI impI)
  show "answers_history rt gc path env (snd (last hist)) (fst (last hist))"
    by (rule life_answers [OF life codec _ reads]) simp
  fix fs' assume lost: "survives (map fst hist) fs'" "fs_wf fs'"
  then obtain t es where t: "(t, es) \<in> set hist" "fs_names fs' = fs_names t" by (auto simp: survives_def)
  have "registry_life rt gc path [(fs', es)]" by (rule loses_power [OF life lost t])
  then show "\<exists>(t, es) \<in> set hist. fs_names fs' = fs_names t \<and> registry_life rt gc path [(fs', es)] \<and>
      answers_history rt gc path env es fs'"
    using t life_answers [OF _ codec _ reads, of rt path "[(fs', es)]" fs' es] by auto
qed

text \<open>A registry that holds one device; the codec knows this one value.\<close>

definition sample_registry :: trusted_device_file where
  "sample_registry = \<lparr>tf_version = 1, tf_devices = [trusted_device_from_pairing ''acct'' sample_verified 7]\<rparr>"

definition sample_codec_of :: "trusted_device_file \<Rightarrow> registry_codec" where
  "sample_codec_of state = \<lparr>gc_enc = (\<lambda>st. if st = state then Inr ''{}'' else Inl ErrWrite),
     gc_dec = (\<lambda>data. if data = ''{}'' then Some state else None), gc_text = (\<lambda>t. True)\<rparr>"

definition sample_call_env :: call_env where
  "sample_call_env = \<lparr>ce_read = Inr (), ce_stat = Inr (), ce_save = sample_save_env\<rparr>"

lemma sample_call_env_ok:
  "codec_ok (sample_codec_of state)" "reads_well sample_call_env" "reads_truly sample_call_env"
  "temp_of (ce_save sample_call_env) \<noteq> ''/trust''" "keeps_text (sample_codec_of state) t"
  by (simp_all add: codec_ok_def keeps_text_def list_all_iff sample_codec_of_def encodes_def reads_well_def reads_truly_def sample_call_env_def
      temp_of_def sample_save_env_def)

lemma synced_sample_succeeds:
  "\<exists>s ts. synced_save wrap path sample_save_env (Inr data) fs = (Inr (), s, ts)"
  by (simp add: synced_save_def io_write_def io_defs sample_save_env_def Let_def)

lemma sample_authorized:
  "\<exists>t s ts. authorize_on_file sample_runtime (sample_codec_of sample_registry) (Some ''/trust'') sample_call_env
     ''acct'' sample_verified 7 empty_fs = (Inr t, s, ts)"
proof -
  obtain s ts where "synced_save trusted_step_error ''/trust'' sample_save_env (Inr ''{}'') empty_fs = (Inr (), s, ts)"
    using synced_sample_succeeds by blast
  then have "trusted_write (gc_enc (sample_codec_of sample_registry)) ''/trust'' sample_save_env
      \<lparr>tf_version = 1, tf_devices = [trusted_device_from_pairing ''acct'' sample_verified 7]\<rparr> empty_fs = (Inr (), s, ts)"
    by (simp add: trusted_write_def sample_codec_of_def sample_registry_def)
  then show ?thesis
    using valid_device_id_nonempty [OF sample_device_valid]
    by (simp add: authorize_on_file_def load_locked_def read_file_def sample_call_env_def io_bind_def io_lift_def
        sample_verified_def Let_def)
qed

theorem registry_survives_power_loss_witness:
  "\<exists>hist fs'. registry_life sample_runtime (sample_codec_of sample_registry) ''/trust'' hist \<and>
     snd (last hist) = [Authorized ''acct'' sample_verified] \<and> survives (map fst hist) fs' \<and> fs_wf fs' \<and>
     is_trusted_on_file sample_runtime (sample_codec_of sample_registry) (Some ''/trust'') sample_call_env
       ''acct'' sample_device (fingerprint sample_runtime sample_public) (fst (last hist)) = Inr True \<and>
     (\<exists>(t, es) \<in> set hist. answers_history sample_runtime (sample_codec_of sample_registry) ''/trust'' sample_call_env es fs')"
proof -
  let ?gc = "sample_codec_of sample_registry" and ?es = "[Authorized ''acct'' sample_verified]"
  obtain t s ts where run: "authorize_on_file sample_runtime ?gc (Some ''/trust'') sample_call_env ''acct'' sample_verified 7 empty_fs =
      (Inr t, s, ts)" using sample_authorized by blast
  let ?ms = "moments [] (Authorized ''acct'' sample_verified) (Inr t :: trusted_device result) s ts"
  have founded: "registry_life sample_runtime ?gc ''/trust'' [(empty_fs, [])]" by (intro founded) simp_all
  have life: "registry_life sample_runtime ?gc ''/trust'' ([(empty_fs, [])] @ take (length ?ms) ?ms)"
    by (rule authorizes [OF founded _ sample_call_env_ok(3,4) sample_verified_genuine _ sample_call_env_ok(5) run]) simp_all
  let ?hist = "[(empty_fs, [])] @ take (length ?ms) ?ms"
  have last: "last ?hist = (s, ?es)" by (simp add: moments_def)
  have wf: "fs_wf s" using life_now(1) [OF registry_life_ok [OF life sample_call_env_ok(1)] last] .
  have lost: "survives (map fst ?hist) (power_cut s s)"
    by (rule survives_power_cut) (simp_all add: moments_def)
  have wf': "fs_wf (power_cut s s)" using wf by (simp add: fs_wf_def power_cut_def)
  note survived = registry_survives_power_loss [OF life sample_call_env_ok(1,2)]
  have "is_trusted_on_file sample_runtime ?gc (Some ''/trust'') sample_call_env ''acct'' sample_device
      (fingerprint sample_runtime sample_public) (fst (last ?hist)) = Inr True"
    using conjunct1 [OF survived] unfolding answers_history_def last by (simp add: sample_verified_def)
  then show ?thesis
    using life last lost wf' conjunct2 [OF survived, rule_format, OF lost wf']
    by (intro exI [of _ ?hist] exI [of _ "power_cut s s"]) auto
qed

end
