(* ===== verification/Key_Files.thy ===== *)
theory Key_Files
  imports Registry_Files
begin

text \<open>
  The device key store on the file system: saving, loading and rotating the key as sequences of
  system calls. A rotation replaces the file twice, so it can be interrupted between the two; the
  lemmas show that the device has a working key whatever happens. Of the \<open>device_key_store\<close> only the
  path and the protector count here; its abstract disk is what the path holds.
\<close>

section \<open>The operations on the file\<close>

definition load_key_file ::
  "runtime \<Rightarrow> (bytes \<Rightarrow> stored_device_key option) \<Rightarrow> call_env \<Rightarrow> device_key_store option \<Rightarrow> fs \<Rightarrow>
     (stored_device_key \<times> bytes) result" where
  "load_key_file rt dec env store fs =
     (case store of
        None \<Rightarrow> Inl ErrInvalidDeviceKey
      | Some s \<Rightarrow>
          (case dk_protector s of
            None \<Rightarrow> Inl ErrInvalidDeviceKey
          | Some protector \<Rightarrow>
              if dk_path s = [] then Inl ErrInvalidDeviceKey
              else and_then (read_file (dk_path s) (ce_read env) fs) (\<lambda>data.
                (case (ce_stat env, node_at fs (dk_path s)) of
                  (Inl e, _) \<Rightarrow> Inl e
                | (Inr _, None) \<Rightarrow> Inl ErrNotExist
                | (Inr _, Some info) \<Rightarrow>
                    if nd_mode info AND 63 \<noteq> 0
                    then Inl (Wrap ''permissions must not grant group or other access'' ErrInvalidDeviceKey)
                    else (case (if data = [] then None else dec data) of
                        None \<Rightarrow> Inl (Wrap ''decode stored device key'' ErrInvalidDeviceKey)
                      | Some stored \<Rightarrow>
                          and_then (validate_stored_device_key rt stored) (\<lambda>public_key.
                            case b64_decode (sk_protected stored) of
                              None \<Rightarrow> Inl ErrInvalidDeviceKey
                            | Some sealed \<Rightarrow>
                                if sealed = [] then Inl ErrInvalidDeviceKey
                                else and_then (kp_open protector (key_label (sk_device stored)) sealed) (\<lambda>plain.
                                  if length plain \<noteq> private_key_size then Inl ErrInvalidDeviceKey
                                  else if public_of plain \<noteq> public_key then Inl ErrInvalidDeviceKey
                                  else Inr (stored, plain))))))))"

definition save_key_file ::
  "runtime \<Rightarrow> (stored_device_key \<Rightarrow> bytes result) \<Rightarrow> save_env \<Rightarrow> device_key_store option \<Rightarrow> bytes \<Rightarrow> bytes \<Rightarrow> bytes \<Rightarrow>
     time \<Rightarrow> stored_device_key io" where
  "save_key_file rt enc env store device_id public_key private_key now =
     (case store of
        None \<Rightarrow> io_lift (Inl ErrInvalidDeviceKey)
      | Some s \<Rightarrow>
          (case dk_protector s of
            None \<Rightarrow> io_lift (Inl ErrInvalidDeviceKey)
          | Some protector \<Rightarrow>
              if time_is_zero now \<or> \<not> valid_device_key_material device_id public_key private_key
              then io_lift (Inl ErrInvalidDeviceKey)
              else io_bind (io_lift (kp_seal protector (key_label device_id) private_key)) (\<lambda>sealed.
                if sealed = [] then io_lift (Inl ErrInvalidDeviceKey)
                else
                  let stored = \<lparr>sk_device = device_id, sk_public = b64_encode public_key,
                        sk_protected = b64_encode sealed, sk_created_at = now, sk_rotated_at = 0,
                        sk_fingerprint = fingerprint rt public_key\<rparr>
                  in io_bind (device_key_write rt enc env stored store) (\<lambda>_. io_lift (Inr stored)))))"

text \<open>The two writes of a rotation have an environment each.\<close>

definition rotate_key_file ::
  "runtime \<Rightarrow> (stored_device_key \<Rightarrow> bytes result) \<Rightarrow> (bytes \<Rightarrow> stored_device_key option) \<Rightarrow> call_env \<Rightarrow> save_env \<Rightarrow>
     device_key_store option \<Rightarrow> bytes \<Rightarrow> bytes \<Rightarrow> time \<Rightarrow> stored_device_key io" where
  "rotate_key_file rt enc dec env env2 store public_key private_key now =
     (if time_is_zero now then io_lift (Inl ErrInvalidDeviceKey)
      else io_bind (\<lambda>fs. io_lift (load_key_file rt dec env store fs) fs) (\<lambda>(current, _).
        if now < sk_created_at current \<or> \<not> valid_device_key_material (sk_device current) public_key private_key
        then io_lift (Inl ErrInvalidDeviceKey)
        else io_bind (save_key_file rt enc (ce_save env) store (sk_device current) public_key private_key
              (sk_created_at current)) (\<lambda>stored0.
          let stored = stored0\<lparr>sk_rotated_at := now\<rparr> in
          io_bind (device_key_write rt enc env2 stored store) (\<lambda>_. io_lift (Inr stored)))))"

section \<open>What is written loads\<close>

abbreviation holding :: "device_key_store \<Rightarrow> stored_device_key \<Rightarrow> device_key_store" where
  "holding store stored \<equiv> store\<lparr>dk_disk := \<lparr>disk_file = Holds stored, disk_mode = 384\<rparr>\<rparr>"

text \<open>
  What is asked of the codec: an entry with a valid identifier, base64 texts and a hexadecimal
  fingerprint, all of them ASCII, is decoded as it was encoded.
\<close>

definition key_codec_ok :: "runtime \<Rightarrow> (stored_device_key \<Rightarrow> bytes result) \<Rightarrow> (bytes \<Rightarrow> stored_device_key option) \<Rightarrow> bool" where
  "key_codec_ok rt enc dec \<longleftrightarrow> (\<forall>stored. is_ok (validate_stored_device_key rt stored) \<longrightarrow>
     b64_decode (sk_protected stored) \<noteq> None \<longrightarrow> encodes dec (enc stored) stored)"

lemma loaded_key_encodes:
  "key_codec_ok rt enc dec \<Longrightarrow> load_device_key rt (Some (holding store stored)) = Inr (x, p) \<Longrightarrow>
     encodes dec (enc stored) stored"
  by (auto simp: key_codec_ok_def load_device_key_def is_ok_iff result_iff split: option.splits sum.splits if_splits)

lemma load_key_file_well:
  "reads_well env \<Longrightarrow> load_key_file rt dec env (Some store) fs =
     load_device_key rt (Some (store\<lparr>dk_disk := view dec (dk_path store) fs\<rparr>))"
  by (auto dest!: reads_wellD simp: load_key_file_def load_device_key_def read_file_def view_def
      split: option.splits)

lemma load_key_file_Inr:
  "load_key_file rt dec env (Some store) fs = Inr x \<Longrightarrow>
     load_device_key rt (Some (store\<lparr>dk_disk := view dec (dk_path store) fs\<rparr>)) = Inr x"
  by (auto simp: load_key_file_def load_device_key_def read_file_def view_def result_iff
      split: option.splits sum.splits if_splits)

text \<open>A save that comes to its write has made up what the abstract one writes.\<close>

lemma save_key_file_cases:
  assumes "save_key_file rt enc env (Some store) v k p now fs = (r, s, ts)" and "good_protector (Some store)"
  shows "(\<exists>e. r = Inl e) \<and> s = fs \<and> ts = [] \<or>
    (\<exists>stored w. device_key_write rt enc env stored (Some store) fs = (w, s, ts) \<and>
       (w = Inr () \<and> r = Inr stored \<or> (\<exists>e. w = Inl e \<and> r = Inl e)) \<and>
       (dk_path store \<noteq> [] \<longrightarrow> is_ok (validate_stored_device_key rt stored) \<longrightarrow>
         load_device_key rt (Some (holding store stored)) = Inr (stored, p) \<and>
         save_device_key rt (Some (store\<lparr>dk_disk := d\<rparr>)) v k p now True = (Inr stored, Some (holding store stored))))"
proof (cases "\<exists>kp sealed. dk_protector store = Some kp \<and> now \<noteq> 0 \<and> valid_device_key_material v k p \<and>
    kp_seal kp (key_label v) p = Inr sealed \<and> sealed \<noteq> []")
  case False
  then show ?thesis
    using assms(1) by (auto simp: save_key_file_def time_is_zero_def io_bind_def io_lift_def split: option.splits sum.splits if_splits)
next
  case True
  then obtain kp sealed where *: "dk_protector store = Some kp" "now \<noteq> 0" "valid_device_key_material v k p"
    "kp_seal kp (key_label v) p = Inr sealed" "sealed \<noteq> []" by blast
  let ?stored = "\<lparr>sk_device = v, sk_public = b64_encode k, sk_protected = b64_encode sealed, sk_created_at = now,
    sk_rotated_at = 0, sk_fingerprint = fingerprint rt k\<rparr>"
  obtain w b c where wr: "device_key_write rt enc env ?stored (Some store) fs = (w, b, c)"
    by (cases "device_key_write rt enc env ?stored (Some store) fs") auto
  have "(w = Inr () \<and> r = Inr ?stored \<or> (\<exists>e. w = Inl e \<and> r = Inl e)) \<and> s = b \<and> ts = c"
    using assms(1) * wr
    by (cases w) (auto simp: save_key_file_def time_is_zero_def io_bind_def io_lift_def Let_def split: sum.splits)
  moreover have "load_device_key rt (Some (holding store ?stored)) = Inr (?stored, p) \<and>
      save_device_key rt (Some (store\<lparr>dk_disk := d\<rparr>)) v k p now True = (Inr ?stored, Some (holding store ?stored))"
    if ok: "dk_path store \<noteq> []" "is_ok (validate_stored_device_key rt ?stored)"
  proof -
    have sv: "save_device_key rt (Some (store\<lparr>dk_disk := d\<rparr>)) v k p now True = (Inr ?stored, Some (holding store ?stored))"
      using * ok by (auto simp: save_device_key_def time_is_zero_def Let_def write_device_key_def is_ok_iff)
    have "good_protector (Some (holding store ?stored))" using assms(2) by (simp add: good_protector_def)
    then show ?thesis using save_device_key_holds [OF sv] holds_key_load sv by blast
  qed
  ultimately show ?thesis using wr by blast
qed

section \<open>A life of the key\<close>

text \<open>
  The states passed through since the last start, beginning with one from which a key loads, and
  the private keys that the store was ever given.
\<close>

inductive key_life ::
  "runtime \<Rightarrow> (stored_device_key \<Rightarrow> bytes result) \<Rightarrow> (bytes \<Rightarrow> stored_device_key option) \<Rightarrow> device_key_store \<Rightarrow>
     bytes list \<Rightarrow> fs list \<Rightarrow> bool" for rt enc dec store where
  begins: "fs_wf fs \<Longrightarrow> path_synced (dk_path store) fs \<Longrightarrow> load_key_file rt dec env (Some store) fs = Inr (x, q) \<Longrightarrow>
    key_life rt enc dec store [q] [fs]"
| saves: "key_life rt enc dec store ks hist \<Longrightarrow> temp_of env \<noteq> dk_path store \<Longrightarrow>
    save_key_file rt enc env (Some store) v k p now (last hist) = (r, s, ts) \<Longrightarrow>
    key_life rt enc dec store (p # ks) (hist @ take n ts)"
| rotates: "key_life rt enc dec store ks hist \<Longrightarrow> temp_of (ce_save env) \<noteq> dk_path store \<Longrightarrow> temp_of env2 \<noteq> dk_path store \<Longrightarrow>
    rotate_key_file rt enc dec env env2 (Some store) k p now (last hist) = (r, s, ts) \<Longrightarrow>
    key_life rt enc dec store (p # ks) (hist @ take n ts)"
| loses_power: "key_life rt enc dec store ks hist \<Longrightarrow> survives hist fs' \<Longrightarrow> fs_wf fs' \<Longrightarrow>
    key_life rt enc dec store ks [fs']"

definition loads_one :: "runtime \<Rightarrow> (bytes \<Rightarrow> stored_device_key option) \<Rightarrow> device_key_store \<Rightarrow> bytes list \<Rightarrow> file_node option \<Rightarrow> bool" where
  "loads_one rt dec store ks r \<longleftrightarrow>
     (\<exists>x p. p \<in> set ks \<and> load_device_key rt (Some (store\<lparr>dk_disk := view_of dec r\<rparr>)) = Inr (x, p))"

lemma loads_one_mono: "loads_one rt dec store ks r \<Longrightarrow> loads_one rt dec store (p # ks) r"
  by (auto simp: loads_one_def)

lemma device_key_write_ok:
  "device_key_write rt enc env stored (Some store) fs = (Inr u, s, ts) \<Longrightarrow>
     dk_path store \<noteq> [] \<and> is_ok (validate_stored_device_key rt stored) \<and> (\<exists>us. ts = us @ [s])"
  by (auto simp: device_key_write_def io_bind_def io_lift_def is_ok_iff dest!: synced_save_cases split: if_splits sum.splits prod.splits)

lemma kept_key_write:
  assumes kept: "kept_nodes (loads_one rt dec store ks) (dk_path store) hist" and codec: "key_codec_ok rt enc dec"
    and temp: "temp_of env \<noteq> dk_path store"
    and run: "device_key_write rt enc env stored (Some store) (last hist) = (r, s, ts)"
    and loads: "dk_path store \<noteq> [] \<Longrightarrow> is_ok (validate_stored_device_key rt stored) \<Longrightarrow>
      load_device_key rt (Some (holding store stored)) = Inr (x, p) \<and> p \<in> set ks"
  shows "kept_nodes (loads_one rt dec store ks) (dk_path store) (hist @ take n ts)"
proof (cases "dk_path store \<noteq> [] \<and> is_ok (validate_stored_device_key rt stored)")
  case False
  then have "ts = []"
    using run by (auto simp: device_key_write_def io_bind_def io_lift_def is_ok_def split: sum.splits if_splits)
  then show ?thesis using kept by simp
next
  case True
  then have sv: "synced_save (\<lambda>_ e. e) (dk_path store) env (enc stored) (last hist) = (r, s, ts)"
    using run by (auto simp: device_key_write_def io_bind_def io_lift_def is_ok_def split: sum.splits prod.splits)
  show ?thesis
  proof (rule kept_nodes_save [OF kept temp sv])
    fix data assume "enc stored = Inr data"
    moreover have "encodes dec (enc stored) stored" using loaded_key_encodes [OF codec] loads True by blast
    ultimately have "encodes dec (Inr data) stored" by simp
    then have "view_of dec (Some \<lparr>nd_data = data, nd_mode = 384, nd_synced = True\<rparr>) = \<lparr>disk_file = Holds stored, disk_mode = 384\<rparr>"
      by (simp add: view_of_def view_def node_at_def encodes_def)
    then show "loads_one rt dec store ks (Some \<lparr>nd_data = data, nd_mode = 384, nd_synced = True\<rparr>)"
      using loads True unfolding loads_one_def by auto
  qed
qed

lemma kept_key_save:
  assumes kept: "kept_nodes (loads_one rt dec store ks) (dk_path store) hist" and codec: "key_codec_ok rt enc dec"
    and good: "good_protector (Some store)" and temp: "temp_of env \<noteq> dk_path store" and p: "p \<in> set ks"
    and run: "save_key_file rt enc env (Some store) v k p now (last hist) = (r, s, ts)"
  shows "kept_nodes (loads_one rt dec store ks) (dk_path store) (hist @ take n ts)"
proof -
  from save_key_file_cases [OF run good, of "dk_disk store"] show ?thesis
  proof
    assume "(\<exists>e. r = Inl e) \<and> s = last hist \<and> ts = []"
    then show ?thesis using kept by simp
  next
    assume "\<exists>stored w. device_key_write rt enc env stored (Some store) (last hist) = (w, s, ts) \<and>
      (w = Inr () \<and> r = Inr stored \<or> (\<exists>e. w = Inl e \<and> r = Inl e)) \<and>
      (dk_path store \<noteq> [] \<longrightarrow> is_ok (validate_stored_device_key rt stored) \<longrightarrow>
        load_device_key rt (Some (holding store stored)) = Inr (stored, p) \<and>
        save_device_key rt (Some (store\<lparr>dk_disk := dk_disk store\<rparr>)) v k p now True = (Inr stored, Some (holding store stored)))"
    then obtain stored w where "device_key_write rt enc env stored (Some store) (last hist) = (w, s, ts)"
      "dk_path store \<noteq> [] \<Longrightarrow> is_ok (validate_stored_device_key rt stored) \<Longrightarrow>
        load_device_key rt (Some (holding store stored)) = Inr (stored, p) \<and> p \<in> set ks" using p by blast
    from kept_key_write [OF kept codec temp this] show ?thesis .
  qed
qed

text \<open>A rotation is refused, or fails in its first write, or comes to its second.\<close>

lemma rotate_key_file_cases:
  assumes run: "rotate_key_file rt enc dec env env2 (Some store) k p now fs = (r, s, ts)" and good: "good_protector (Some store)"
  obtains e where "r = Inl e" "s = fs" "ts = []"
  | e v t0 where "r = Inl e" "save_key_file rt enc (ce_save env) (Some store) v k p t0 fs = (Inl e, s, ts)"
  | v t0 stored0 s1 us w ts2 where
      "save_key_file rt enc (ce_save env) (Some store) v k p t0 fs = (Inr stored0, s1, us @ [s1])"
      "device_key_write rt enc env2 (stored0\<lparr>sk_rotated_at := now\<rparr>) (Some store) s1 = (w, s, ts2)" "ts = (us @ [s1]) @ ts2"
      "w = Inr () \<and> r = Inr (stored0\<lparr>sk_rotated_at := now\<rparr>) \<or> (\<exists>e. w = Inl e \<and> r = Inl e)"
      "is_ok (validate_stored_device_key rt (stored0\<lparr>sk_rotated_at := now\<rparr>)) \<Longrightarrow>
        load_device_key rt (Some (holding store (stored0\<lparr>sk_rotated_at := now\<rparr>))) = Inr (stored0\<lparr>sk_rotated_at := now\<rparr>, p)"
proof (cases "\<exists>current q. load_key_file rt dec env (Some store) fs = Inr (current, q) \<and> now \<noteq> 0 \<and>
    sk_created_at current \<le> now \<and> valid_device_key_material (sk_device current) k p")
  case False
  then have "\<exists>e. r = Inl e \<and> s = fs \<and> ts = []"
    using run by (auto simp: rotate_key_file_def time_is_zero_def io_bind_def io_lift_def split: sum.splits if_splits)
  then show thesis using that(1) by blast
next
  case True
  then obtain current q where load: "load_key_file rt dec env (Some store) fs = Inr (current, q)" "now \<noteq> 0"
    "sk_created_at current \<le> now" "valid_device_key_material (sk_device current) k p" by blast
  obtain r1 s1 ts1 where sv: "save_key_file rt enc (ce_save env) (Some store) (sk_device current) k p (sk_created_at current) fs =
      (r1, s1, ts1)" by (cases "save_key_file rt enc (ce_save env) (Some store) (sk_device current) k p (sk_created_at current) fs") auto
  show thesis
  proof (cases r1)
    case (Inl e)
    then have "r = Inl e" "s = s1" "ts = ts1" using run sv load by (auto simp: rotate_key_file_def time_is_zero_def io_bind_def io_lift_def)
    then show thesis using that(2) sv Inl by blast
  next
    case (Inr stored0)
    let ?stored = "stored0\<lparr>sk_rotated_at := now\<rparr>" and ?disk = "view dec (dk_path store) fs"
    obtain w s2 ts2 where wr: "device_key_write rt enc env2 ?stored (Some store) s1 = (w, s2, ts2)"
      by (cases "device_key_write rt enc env2 ?stored (Some store) s1") auto
    have ends: "s = s2 \<and> ts = ts1 @ ts2 \<and> (w = Inr () \<and> r = Inr ?stored \<or> (\<exists>e. w = Inl e \<and> r = Inl e))"
      using run sv load Inr wr
      by (cases w) (auto simp: rotate_key_file_def time_is_zero_def io_bind_def io_lift_def Let_def)
    from save_key_file_cases [OF sv good, of ?disk] Inr have wr1: "device_key_write rt enc (ce_save env) stored0 (Some store) fs = (Inr (), s1, ts1)"
      and written: "dk_path store \<noteq> [] \<Longrightarrow> is_ok (validate_stored_device_key rt stored0) \<Longrightarrow>
        save_device_key rt (Some (store\<lparr>dk_disk := ?disk\<rparr>)) (sk_device current) k p (sk_created_at current) True =
          (Inr stored0, Some (holding store stored0))"
      by auto
    from device_key_write_ok [OF wr1] obtain us where us: "ts1 = us @ [s1]"
      and ok: "dk_path store \<noteq> []" "is_ok (validate_stored_device_key rt stored0)" by blast
    have loads: "load_device_key rt (Some (holding store ?stored)) = Inr (?stored, p)"
      if "is_ok (validate_stored_device_key rt ?stored)"
    proof -
      have "rotate_device_key rt (Some (store\<lparr>dk_disk := ?disk\<rparr>)) k p now True True = (Inr ?stored, Some (holding store ?stored))"
        using load_key_file_Inr [OF load(1)] load(2,3,4) written ok that
        by (auto simp: rotate_device_key_def time_is_zero_def Let_def write_device_key_def is_ok_iff not_less)
      moreover have "good_protector (Some (store\<lparr>dk_disk := ?disk\<rparr>))" using good by (simp add: good_protector_def)
      ultimately show ?thesis using rotation_outcomes by blast
    qed
    show thesis
      by (rule that(3) [of _ _ stored0 s1 us w ts2]) (use sv Inr us wr ends loads in auto)
  qed
qed

lemma kept_key_rotate:
  assumes kept: "kept_nodes (loads_one rt dec store ks) (dk_path store) hist" and codec: "key_codec_ok rt enc dec"
    and good: "good_protector (Some store)" and temp: "temp_of (ce_save env) \<noteq> dk_path store" "temp_of env2 \<noteq> dk_path store"
    and p: "p \<in> set ks"
    and run: "rotate_key_file rt enc dec env env2 (Some store) k p now (last hist) = (r, s, ts)"
  shows "kept_nodes (loads_one rt dec store ks) (dk_path store) (hist @ take n ts)"
  using run good
proof (cases rule: rotate_key_file_cases)
  case 1
  then show ?thesis using kept by simp
next
  case 2
  from kept_key_save [OF kept codec good temp(1) p 2(2)] show ?thesis .
next
  case (3 v t0 stored0 s1 us w ts2)
  note kept1 = kept_key_save [OF kept codec good temp(1) p 3(1)]
  have kept2: "kept_nodes (loads_one rt dec store ks) (dk_path store) ((hist @ us @ [s1]) @ take m ts2)" for m
    by (rule kept_key_write [where x = "stored0\<lparr>sk_rotated_at := now\<rparr>" and p = p, OF _ codec temp(2)])
      (use kept1 [of "length (us @ [s1])"] 3(2,5) p in auto)
  show ?thesis
  proof (cases "n \<le> length (us @ [s1])")
    case True
    then have "take n ts = take n (us @ [s1])" unfolding 3(3) by (subst take_append) simp
    then show ?thesis using kept1 [of n] by (simp only:)
  next
    case False
    then have "take n ts = (us @ [s1]) @ take (n - length (us @ [s1])) ts2" unfolding 3(3) by (subst take_append) simp
    then show ?thesis using kept2 [of "n - length (us @ [s1])"] by (simp only: append.assoc)
  qed
qed

lemma key_life_kept:
  assumes "key_life rt enc dec store ks hist" and codec: "key_codec_ok rt enc dec" and good: "good_protector (Some store)"
  shows "kept_nodes (loads_one rt dec store ks) (dk_path store) hist"
  using assms(1)
proof induction
  case (begins fs env x q)
  have "loads_one rt dec store [q] (node_at fs (dk_path store))"
    using load_key_file_Inr [OF begins(3)] by (auto simp: loads_one_def view_of_node)
  then show ?case
    using begins(1,2) by (auto simp: kept_nodes_def solid_def path_synced_def fs_wf_def node_at_def split: option.splits)
next
  case (saves ks hist env v k p now r s ts n)
  have "kept_nodes (loads_one rt dec store (p # ks)) (dk_path store) hist"
    by (rule kept_nodes_mono [OF saves.IH]) (rule loads_one_mono)
  from kept_key_save [OF this codec good saves.hyps(2) _ saves.hyps(3)] show ?case by simp
next
  case (rotates ks hist env env2 k p now r s ts n)
  have "kept_nodes (loads_one rt dec store (p # ks)) (dk_path store) hist"
    by (rule kept_nodes_mono [OF rotates.IH]) (rule loads_one_mono)
  from kept_key_rotate [OF this codec good rotates.hyps(2,3) _ rotates.hyps(4)] show ?case by simp
next
  case (loses_power ks hist fs')
  have content: "view_of dec (Some n') = view_of dec (Some n)" if "nd_data n' = nd_data n" "nd_mode n' = nd_mode n" for n n'
    using that by (simp add: view_of_def view_def node_at_def)
  have "loads_one rt dec store ks (Some n')"
    if "loads_one rt dec store ks (Some n)" "nd_data n' = nd_data n" "nd_mode n' = nd_mode n" for n n'
    using that(1) unfolding loads_one_def content [OF that(2,3)] .
  then have "loads_one rt dec store ks (node_at fs' (dk_path store))"
    by (rule kept_nodes_survive [OF loses_power.IH loses_power.hyps(2)])
  moreover have "nd_synced (fs_nodes fs' ! i)" if "i < length (fs_nodes fs')" for i
    using loses_power.hyps(2) that by (auto simp: survives_def list_all2_conv_all_nth)
  ultimately have "solid (loads_one rt dec store ks) (fs_nodes fs') (map_of (fs_names fs') (dk_path store))"
    using fs_wf_bound [OF loses_power.hyps(3), of "dk_path store"] by (auto simp: solid_def node_at_def split: option.splits)
  then show ?case using loses_power.hyps(3) by (simp add: kept_nodes_def)
qed

section \<open>Properties\<close>

lemma device_key_write_view:
  assumes "device_key_write rt enc env stored (Some store) fs = (Inr u, s, ts)" and "fs_wf fs" and "temp_of env \<noteq> dk_path store"
    and "encodes dec (enc stored) stored"
  shows "view dec (dk_path store) s = \<lparr>disk_file = Holds stored, disk_mode = 384\<rparr>"
proof -
  have sv: "synced_save (\<lambda>_ e. e) (dk_path store) env (enc stored) fs = (Inr (), s, ts)"
    using assms(1) by (auto simp: device_key_write_def io_bind_def io_lift_def split: if_splits sum.splits prod.splits)
  have ready: "synced_ready (dk_path store) env fs" using assms(2,3) by (simp add: synced_ready_def)
  from synced.success_view [OF ready sv assms(4)] show ?thesis .
qed

lemma completed_rotation_loads:
  assumes run: "rotate_key_file rt enc dec env env2 (Some store) k p now fs = (Inr stored, s, ts)" and good: "good_protector (Some store)"
    and wf: "fs_wf fs" and temp: "temp_of (ce_save env) \<noteq> dk_path store" "temp_of env2 \<noteq> dk_path store" and codec: "key_codec_ok rt enc dec"
    and reads: "reads_well env'"
  shows "load_key_file rt dec env' (Some store) s = Inr (stored, p) \<and> sk_rotated_at stored = now"
  using run good
proof (cases rule: rotate_key_file_cases)
  case (3 v t0 stored0 s1 us w ts2)
  then have wr: "device_key_write rt enc env2 stored (Some store) s1 = (Inr (), s, ts2)" and stored: "stored = stored0\<lparr>sk_rotated_at := now\<rparr>"
    by auto
  obtain w0 where "device_key_write rt enc (ce_save env) stored0 (Some store) fs = (w0, s1, us @ [s1])"
    using save_key_file_cases [OF 3(1) good] by auto
  then have "fs_wf s1"
    using wf temp(1) synced.others_kept [of "dk_path store" "ce_save env" fs _ "enc stored0" w0 s1 "us @ [s1]" s1]
    by (auto simp: device_key_write_def io_bind_def io_lift_def synced_ready_def split: if_splits sum.splits prod.splits)
  note view = device_key_write_view [OF wr this temp(2)]
  have "load_device_key rt (Some (holding store stored)) = Inr (stored, p)"
    using 3(5) device_key_write_ok [OF wr] by (simp add: stored)
  with view loaded_key_encodes [OF codec this] show ?thesis by (simp add: load_key_file_well [OF reads] stored)
qed simp_all

lemma life_loads:
  assumes "key_life rt enc dec store ks hist" and "key_codec_ok rt enc dec" and "good_protector (Some store)" and "reads_well env"
  shows "\<exists>x p. p \<in> set ks \<and> load_key_file rt dec env (Some store) (last hist) = Inr (x, p)"
proof -
  note kept = key_life_kept [OF assms(1-3)]
  then have "solid (loads_one rt dec store ks) (fs_nodes (last hist)) (map_of (fs_names (last hist)) (dk_path store))"
    by (simp add: kept_nodes_def)
  then have "loads_one rt dec store ks (node_at (last hist) (dk_path store))"
    by (auto simp: solid_def node_at_def split: option.splits)
  then show ?thesis by (simp add: loads_one_def load_key_file_well [OF assms(4)] view_of_node)
qed

text \<open>
  C13. A device never loses its key. From a store whose key loads, over any number of saves and
  rotations, failed calls, kills in the middle of a write or between the two writes of a
  rotation, and losses of power, a key loads: one that the store was given, with its stored form.
  A rotation that has returned without error has put the new key in place.
\<close>

theorem device_never_without_key:
  assumes life: "key_life rt enc dec store ks hist" and codec: "key_codec_ok rt enc dec" and good: "good_protector (Some store)"
    and reads: "reads_well env"
  shows "(\<exists>x p. p \<in> set ks \<and> load_key_file rt dec env (Some store) (last hist) = Inr (x, p)) \<and>
    (\<forall>fs'. survives hist fs' \<longrightarrow> fs_wf fs' \<longrightarrow>
       (\<exists>x p. p \<in> set ks \<and> load_key_file rt dec env (Some store) fs' = Inr (x, p))) \<and>
    (\<forall>env1 env2 k p now stored s ts. temp_of (ce_save env1) \<noteq> dk_path store \<longrightarrow> temp_of env2 \<noteq> dk_path store \<longrightarrow>
       rotate_key_file rt enc dec env1 env2 (Some store) k p now (last hist) = (Inr stored, s, ts) \<longrightarrow>
       load_key_file rt dec env (Some store) s = Inr (stored, p) \<and> sk_rotated_at stored = now)"
proof (intro conjI allI impI)
  show "\<exists>x p. p \<in> set ks \<and> load_key_file rt dec env (Some store) (last hist) = Inr (x, p)"
    by (rule life_loads [OF life codec good reads])
  show "\<exists>x p. p \<in> set ks \<and> load_key_file rt dec env (Some store) fs' = Inr (x, p)"
    if "survives hist fs'" "fs_wf fs'" for fs'
    using life_loads [OF loses_power [OF life that] codec good reads] by simp
  fix env1 env2 k p now stored s ts
  assume "temp_of (ce_save env1) \<noteq> dk_path store" "temp_of env2 \<noteq> dk_path store"
    "rotate_key_file rt enc dec env1 env2 (Some store) k p now (last hist) = (Inr stored, s, ts)"
  moreover have "fs_wf (last hist)" using key_life_kept [OF life codec good] by (simp add: kept_nodes_def)
  ultimately have "load_key_file rt dec env (Some store) s = Inr (stored, p) \<and> sk_rotated_at stored = now"
    using completed_rotation_loads good codec reads by blast
  then show "load_key_file rt dec env (Some store) s = Inr (stored, p)" "sk_rotated_at stored = now" by blast+
qed

text \<open>A key that is rotated once; the codec knows the three values that are written.\<close>

definition sample_sealed :: "bytes \<Rightarrow> bytes" where
  "sample_sealed p = ''sealed:'' @ p"

lemma sample_sealed_simps:
  "kp_seal sample_protector label p = Inr (sample_sealed p)" "kp_open sample_protector label (sample_sealed p) = Inr p"
  "sample_sealed p \<noteq> []"
  by (simp_all add: sample_sealed_def sample_protector_def)

definition sample_stored :: "bytes \<Rightarrow> time \<Rightarrow> stored_device_key" where
  "sample_stored p t = \<lparr>sk_device = sample_device, sk_public = b64_encode (public_of p),
     sk_protected = b64_encode (sample_sealed p), sk_created_at = 5, sk_rotated_at = t,
     sk_fingerprint = fingerprint sample_runtime (public_of p)\<rparr>"

definition sample_key_enc :: "stored_device_key \<Rightarrow> bytes result" where
  "sample_key_enc x =
     (if x = sample_stored sample_private 0 then Inr ''a'' else if x = sample_stored other_private 0 then Inr ''b''
      else if x = sample_stored other_private 9 then Inr ''c'' else Inl ErrWrite)"

definition sample_key_dec :: "bytes \<Rightarrow> stored_device_key option" where
  "sample_key_dec data =
     (if data = ''a'' then Some (sample_stored sample_private 0) else if data = ''b'' then Some (sample_stored other_private 0)
      else if data = ''c'' then Some (sample_stored other_private 9) else None)"

lemma sample_key_codec: "key_codec_ok sample_runtime sample_key_enc sample_key_dec"
  by (simp add: key_codec_ok_def encodes_def sample_key_enc_def sample_key_dec_def)

lemma sample_stored_loads:
  assumes "valid_device_key_material sample_device (public_of p) p" and "t = 0 \<or> 5 \<le> t"
  shows "load_device_key sample_runtime (Some (holding sample_key_store (sample_stored p t))) = Inr (sample_stored p t, p)"
    and "is_ok (validate_stored_device_key sample_runtime (sample_stored p t))"
  using assms
  by (auto simp: load_device_key_def sample_key_store_def sample_stored_def sample_sealed_simps valid_material_iff
      result_iff is_ok_iff)

definition sample_key_fs :: fs where
  "sample_key_fs = \<lparr>fs_names = [(''/keys/device'', 0)], fs_nodes = [\<lparr>nd_data = ''a'', nd_mode = 384, nd_synced = True\<rparr>]\<rparr>"

lemma sample_key_begins:
  "key_life sample_runtime sample_key_enc sample_key_dec sample_key_store [sample_private] [sample_key_fs]"
  "load_key_file sample_runtime sample_key_dec sample_call_env (Some sample_key_store) sample_key_fs =
     Inr (sample_stored sample_private 0, sample_private)"
proof -
  have "view sample_key_dec (dk_path sample_key_store) sample_key_fs = \<lparr>disk_file = Holds (sample_stored sample_private 0), disk_mode = 384\<rparr>"
    by (simp add: view_def node_at_def sample_key_fs_def sample_key_store_def sample_key_dec_def)
  moreover have "valid_device_key_material sample_device (public_of sample_private) sample_private"
    using sample_material by (simp add: valid_material_iff)
  ultimately show load: "load_key_file sample_runtime sample_key_dec sample_call_env (Some sample_key_store) sample_key_fs =
      Inr (sample_stored sample_private 0, sample_private)"
    using sample_stored_loads(1) by (simp add: load_key_file_well [OF sample_call_env_ok(2)])
  show "key_life sample_runtime sample_key_enc sample_key_dec sample_key_store [sample_private] [sample_key_fs]"
    by (rule begins [OF _ _ load])
      (auto simp: sample_key_fs_def fs_wf_def map_wf_def path_synced_def node_at_def sample_key_store_def split: if_splits)
qed

lemma sample_key_write:
  assumes "x \<in> {sample_stored other_private 0, sample_stored other_private 9}"
  shows "\<exists>s ts. device_key_write sample_runtime sample_key_enc sample_save_env x (Some sample_key_store) fs = (Inr (), s, ts)"
proof -
  have "is_ok (validate_stored_device_key sample_runtime x)" using assms sample_stored_loads(2) [OF other_material] by auto
  moreover have "is_ok (sample_key_enc x)" using assms by (auto simp: sample_key_enc_def)
  ultimately show ?thesis
    using synced_sample_succeeds [of "\<lambda>_ e. e" "dk_path sample_key_store" _ fs]
    by (auto simp: device_key_write_def io_bind_def io_lift_def is_ok_iff sample_key_store_def)
qed

lemma sample_key_temp: "temp_of sample_save_env \<noteq> dk_path sample_key_store"
  by (simp add: temp_of_def sample_save_env_def sample_key_store_def)

lemma sample_rotation:
  "\<exists>s ts. rotate_key_file sample_runtime sample_key_enc sample_key_dec sample_call_env sample_save_env (Some sample_key_store)
     (public_of other_private) other_private 9 sample_key_fs = (Inr (sample_stored other_private 9), s, ts)"
proof -
  obtain s1 ts1 where one: "device_key_write sample_runtime sample_key_enc sample_save_env (sample_stored other_private 0)
      (Some sample_key_store) sample_key_fs = (Inr (), s1, ts1)" using sample_key_write by blast
  obtain s2 ts2 where two: "device_key_write sample_runtime sample_key_enc sample_save_env (sample_stored other_private 9)
      (Some sample_key_store) s1 = (Inr (), s2, ts2)" using sample_key_write by blast
  have fields: "sk_device (sample_stored sample_private 0) = sample_device" "sk_created_at (sample_stored sample_private 0) = 5"
    "(sample_stored other_private 0)\<lparr>sk_rotated_at := 9\<rparr> = sample_stored other_private 9" "dk_protector sample_key_store = Some sample_protector"
    "ce_save sample_call_env = sample_save_env"
    by (simp_all add: sample_stored_def sample_key_store_def sample_call_env_def)
  have "save_key_file sample_runtime sample_key_enc sample_save_env (Some sample_key_store) sample_device (public_of other_private) other_private 5
      sample_key_fs = (Inr (sample_stored other_private 0), s1, ts1)"
    using one other_material fields(4)
    by (simp add: save_key_file_def time_is_zero_def sample_sealed_simps io_bind_def io_lift_def sample_stored_def Let_def)
  then show ?thesis
    using sample_key_begins(2) other_material two
    by (simp add: rotate_key_file_def time_is_zero_def io_bind_def io_lift_def fields Let_def)
qed

theorem device_never_without_key_witness:
  "\<exists>s ts n fs' x p. rotate_key_file sample_runtime sample_key_enc sample_key_dec sample_call_env sample_save_env (Some sample_key_store)
       (public_of other_private) other_private 9 sample_key_fs = (Inr (sample_stored other_private 9), s, ts) \<and>
     load_key_file sample_runtime sample_key_dec sample_call_env (Some sample_key_store) s = Inr (sample_stored other_private 9, other_private) \<and>
     survives ([sample_key_fs] @ take n ts) fs' \<and> fs_wf fs' \<and> p \<in> {sample_private, other_private} \<and>
     load_key_file sample_runtime sample_key_dec sample_call_env (Some sample_key_store) fs' = Inr (x, p)"
proof -
  have good: "good_protector (Some sample_key_store)" by (rule sample_protector_good)
  obtain s ts where run: "rotate_key_file sample_runtime sample_key_enc sample_key_dec sample_call_env sample_save_env (Some sample_key_store)
       (public_of other_private) other_private 9 sample_key_fs = (Inr (sample_stored other_private 9), s, ts)"
    using sample_rotation by blast
  have temp: "temp_of (ce_save sample_call_env) \<noteq> dk_path sample_key_store"
    using sample_key_temp by (simp add: sample_call_env_def)
  let ?hist = "[sample_key_fs] @ take 0 ts"
  have life: "key_life sample_runtime sample_key_enc sample_key_dec sample_key_store [other_private, sample_private] ?hist"
    by (rule rotates [OF sample_key_begins(1) temp sample_key_temp]) (use run in simp)
  have wf: "fs_wf (power_cut sample_key_fs sample_key_fs)" and lost: "survives ?hist (power_cut sample_key_fs sample_key_fs)"
    by (auto simp: sample_key_fs_def fs_wf_def map_wf_def power_cut_def survives_def split: if_splits)
  have "load_key_file sample_runtime sample_key_dec sample_call_env (Some sample_key_store) s = Inr (sample_stored other_private 9, other_private)"
    using device_never_without_key [OF sample_key_begins(1) sample_key_codec good sample_call_env_ok(2)] temp sample_key_temp run by simp blast
  moreover have "\<exists>x p. p \<in> {sample_private, other_private} \<and>
      load_key_file sample_runtime sample_key_dec sample_call_env (Some sample_key_store) (power_cut sample_key_fs sample_key_fs) = Inr (x, p)"
    using device_never_without_key [OF life sample_key_codec good sample_call_env_ok(2)] wf lost by auto
  ultimately show ?thesis using run wf lost by blast
qed

end
