(* ===== verification/Spec2Isabelle.thy ===== *)
theory Spec2Isabelle
  imports Peer_Factory Publication Store_Files Delivery Command Concurrent_Requests Tombstones Registry_Files Key_Files
begin

text \<open>
  A verification development for GoreeCloud Sync, the synchronization service under
  \<open>src/internal\<close> (Go). It replicates the records of first-party datasets between the devices of
  one account over HTTP, and transfers payload files between two devices over TLS. The model
  is a shallow embedding: Go structs are records, enumerations datatypes, and every function
  or method is a HOL function that takes the state it reads and returns it updated; errors are
  values, with every early return of the source a branch.

  \<^bold>\<open>Parts of the program and their theories.\<close>

  \<^item> \<open>Go_Base\<close>, \<open>Go_Text\<close>, \<open>Runtime\<close>: the shared vocabulary. Byte strings, instants, the result
    type \<open>go_error + 'a\<close>, Go maps in canonical form, state files; trimming, hexadecimal, base64
    and decimal texts with their round trips; the library functions that stay parameters.
  \<^item> \<open>Datasets\<close> (\<open>datasets/registry.go\<close>, \<open>envelope.go\<close>, \<open>conflict.go\<close>): the capability registry,
    its negotiation, record envelopes and their validation, the conflict resolver.
  \<^item> \<open>Identity\<close> (\<open>identity/identity.go\<close>, \<open>pairing.go\<close>, \<open>record_proof.go\<close>, \<open>challenge.go\<close>): fingerprints,
    signed pairing and record proofs, single-use challenges. \<open>Trusted_Devices\<close>
    (\<open>trusted_device_store.go\<close>): authorization and revocation of device keys.
    \<open>Device_Keys\<close> (\<open>device_key_store.go\<close>): the protected key of the device itself.
  \<^item> \<open>Sessions\<close> (package \<open>session\<close>): authenticated peers, records bound to them, bearer sessions.
    \<open>Policy\<close> (package \<open>policy\<close>): the decisions a record needs and the evidence they leave.
  \<^item> \<open>Record_Stores\<close>, \<open>Retrieval\<close>, \<open>Receipts\<close>, \<open>Replay\<close>, \<open>Ingest\<close> (package \<open>replication\<close>): the three
    record stores, the pages read from them, observation receipts and the compaction of
    tombstones, the replay guard, and the ingestion that passes a record through all of them.
    \<open>Concurrent_Ingest\<close>: the same ingestion as the moves that concurrent requests interleave,
    one per lock that it takes. \<open>Tombstones\<close>: compactions between these moves.
  \<^item> \<open>File_Paths\<close> (package \<open>filepath\<close> as the code uses it), \<open>Atomic_Files\<close>, \<open>Store_Files\<close>: \<open>load\<close> and \<open>save\<close>
    of every store and the whole of \<open>AcceptAndPersist\<close> as sequences of system calls on a small
    file system with syncing and loss of power. \<open>Registry_Files\<close>, \<open>Key_Files\<close>: the operations of the
    trust registry and the device key store in the same form.
  \<^item> \<open>Manifests\<close>, \<open>Payload_Protocol\<close> (package \<open>transfer\<close>): chunked manifests of a payload, offers and
    the messages that answer them.
  \<^item> \<open>Frames\<close>, \<open>Peers\<close>, \<open>Payload_Transfer\<close>, \<open>Secure_Peers\<close> (package \<open>transport\<close>): length-prefixed
    frames, connections and their handshake, both ends of a transfer and with them all calls in
    the life of a connection, admission over TLS.
  \<^item> \<open>Peer_Factory\<close>, \<open>Publication\<close>, \<open>Http_Api\<close> (package \<open>app\<close>): peers bound to the trust registry and
    operations guarded by it, publication of a received file, the HTTP handlers and routes.
    \<open>Delivery\<close>: retrieval over HTTP, with the session and trust resolvers, after ingestion and during it. \<open>Concurrent_Requests\<close>: the handlers
    of the dataset routes as moves, one per lock, interleaved with each other and with the
    authorization and revocation of devices and the opening of sessions. \<open>Command\<close>
    (\<open>cmd/goreecloud-sync\<close>): the command line and the server it makes.

  \<^bold>\<open>How they interact.\<close> A request enters at \<open>serve\<close>, is traced to a peer by the resolvers
  (\<open>Sessions\<close>, \<open>Trusted_Devices\<close>) and reaches \<open>ingest\<close> or \<open>validated_persisted_page\<close>. A payload goes
  from \<open>build_manifest\<close> through \<open>new_payload_offer\<close>, \<open>factory_send\<close> and \<open>factory_receive\<close> to \<open>publish\<close>;
  the last section of this theory follows it all the way. Interfaces between parts are locales,
  interpreted on the model in the theory that provides them: \<open>go_map\<close>, \<open>conflict_resolver\<close>,
  \<open>record_store\<close> (ingestion, over four stores), \<open>high_water\<close> (the replay guard with its two marks, in memory
  and in the file), \<open>trust_registry\<close>,
  \<open>frame_format\<close> (binary and JSON frames), \<open>peer_resolver\<close>, \<open>file_saver\<close> (the two ways to replace a
  file) and \<open>record_file\<close> (the files of the three record stores). A store operation has two
  levels: on an abstract disk, with one outcome for its write, and on files; \<open>Store_Files\<close> and
  \<open>Registry_Files\<close> show that the second implements the first, and everything else rests on the
  first.

  \<^bold>\<open>What the lemmas show.\<close> Refinements of a history: the trust registry, the replay guard and the
  challenge store decide as the list of past events says, restarts and failed writes included
  (\<open>trust_trace\<close>, \<open>replay_trace\<close>, \<open>challenge_trace\<close>, by rule induction); a failed save of the guard is
  an event of its history, which takes the mark away until a restart. Convergence of the stores:
  the conflict resolver is a total preorder and the stores keep its maximum. Equivalence of the
  page scan by binary insertion with filtering and sorting. Fail-closed gates: ingestion,
  admission, revalidation, publication and the HTTP routes have no effect unless every check
  passed. Integrity: a manifest identifies its payload, frames arrive whole or not at all,
  transfers that end with a receipt moved the payload, published bytes are those of the sender.
  Liveness: two trusted peers bring an approved transfer to its end, and a record that was
  answered for is served, if it survives the file and the reader stays admitted. Concurrency:
  every interleaving of ingestions fails closed; where the guard can write its marks a revision is
  admitted once; where all are cleared and written the interleavings leave the same greatest
  conflict keys; and a device that reads page by page meanwhile misses nothing that was held when
  it began. The service as a whole, under administration, goes through such interleavings and no
  others; what it stores goes back to a session and a trusted key it has met on the way; of a
  revoked device only the requests that were admitted and not yet answered can still store
  something; and a record that compaction has forgotten comes back from its own device only in a
  higher revision, because the replay guard remembers, or by an ingestion that had passed the
  guard before, which is a race that can really undo a deletion. Loss of power: the key store
  always has a key, and the registry answers as at one moment before. Some theorems state
  behaviour that the code hardly intends: a failed save that loses a replay mark, a refused
  revision that stays used up, an empty payload that blocks retrieval, a zero instant that
  spoils the registry, receipts that only ever confirm their origin, a rotation that half
  happens, records called converged whose contents differ, record stores that a loss of power
  may empty, a completed revocation that it may undo, a source that reports to be cut short and is taken
  for whole, and the race of compaction and ingestion.

  \<^bold>\<open>Bounds and loops.\<close> Revisions are 64-bit and frame lengths 32-bit words; sizes that the code
  checks (record identifiers of 512 bytes, pages of 1024 records, frames of a mebibyte, bodies of
  256 kibibytes, 64 operations) are written out. Loops are structural, or \<open>function\<close>s with a
  measure (the bytes left to write, the width of a search interval). Building a manifest reads
  its source until it ends, as a partial function whose value \<open>None\<close> would mean that it does
  not return; \<open>build_manifest_returns\<close> shows that it always does. Following the cursors of a store
  takes fuel greater than its number of records, which \<open>pages_enumerate_store\<close> and
  \<open>ingested_record_served\<close> show to be enough, also while the store is written to.
  An ingestion makes at most four moves (\<open>uninterrupted_moves_are_ingest\<close>), a request at most seven
  (\<open>request_alone_handled\<close>); blocking on a lock or in a provider is not part of a move. The limit of a
  page is an unbounded integer; the route allows no more than 1024, far from where \<open>limit + 1\<close> would wrap.

  \<^bold>\<open>Parameters and hypotheses.\<close> SHA-256, Ed25519, the JSON text of a payload and the text of an
  instant are fields of \<open>runtime\<close>; a theorem names what it needs of them: digest and signature
  lengths, that honest signatures verify, that two given inputs do not collide. JSON codecs,
  the TLS handshake, the platform's key protector, policy providers, authorizers, path
  resolution and the outcome of every system call are arguments; what an encoder promises is
  \<open>encodes\<close>, asked of the values that are written only: registries whose strings the codec keeps
  (\<open>keeps_text\<close>; \<open>encoding/json\<close> keeps valid UTF-8) and device keys that validate. On the abstract disks a
  file holds the value that was written, so account identifiers that are not valid UTF-8, which the
  source would read back changed, are outside the model there. After a loss of power the names are those of some state passed through, synced
  content is there and any other content is arbitrary (\<open>survives\<close>); the file system is consistent
  when it comes back (\<open>fs_wf\<close>), and only an absent file gives the error of one. Clocks are read once per
  operation, where the source may read them twice in a row (\<open>verify_secure_peer\<close> after the creation of the
  certificate).

  \<^bold>\<open>Not modelled.\<close> The listening and shutting down inside \<open>Server.Run\<close> (\<open>server_run\<close> has their
  outcomes), signals, printed texts and logging, \<open>NewKeyPair\<close> (a call of the runtime). Reads and
  writes of one store exclude each other by its mutex and are one step; the moves of
  \<open>Concurrent_Ingest\<close> and \<open>Concurrent_Requests\<close> interleave these steps, and the policy providers are
  functions there, whose answers do not change meanwhile. A compaction holds the lock of its
  store to its end; in \<open>Tombstones\<close> it reads all its receipts at one moment. Two processes on one
  state directory are not considered. Error texts leave out interpolated values.
\<close>

section \<open>From the source of a payload to its published file\<close>

text \<open>
  C21. A published file is what the other device sent. When one end has sent a payload under an
  offer, the other end has received under the same offer, and its application then publishes
  from whatever it kept as staging, the two ends hold the same receipt, the new file has
  exactly the bytes the sender read from its source, and the name was free before; both devices
  were trusted, the receiving end's at the moment the offer was approved. Only a collision of
  the digest could make the bytes differ.
\<close>

theorem published_as_sent:
  assumes send: "factory_send rt tc fs p offer (Some src) reads last_s = (Inr sent, p')"
    and receive: "factory_receive rt tc fr q (Some authorize) (Some dest) at_offer writes last_r =
      (Some offer, Inr received, q', Some staging)"
    and publish: "publish rt px env (Some pub) offer received (Some staged) dir = (Some y, res, dir')"
    and dir: "map_wf dir" "\<forall>temp. pe_temp env = Inr temp \<longrightarrow> map_of dir temp = None"
      "\<forall>n e. pe_copy env = Some (n, e) \<longrightarrow> e \<noteq> ErrEOF"
    and digest: "no_collision rt (rd_bytes staged) (rd_bytes src)"
  shows "sent = received \<and> map_of dir (mf_filename (po_manifest offer)) = None \<and>
    map_of dir' (mf_filename (po_manifest offer)) = Some (rd_bytes src) \<and>
    (\<exists>s. wr_bytes staging = wr_bytes dest @ s \<and> (no_collision rt s (rd_bytes src) \<longrightarrow> s = rd_bytes src)) \<and>
    (\<exists>p0 q0. p = Some p0 \<and> q = Some q0 \<and>
       is_trusted rt (fa_trusted fs) (fa_account fs) (pc_device p0) (pc_fingerprint p0) = Inr True \<and>
       is_trusted rt at_offer (fa_account fr) (pc_device q0) (pc_fingerprint q0) = Inr True)"
proof -
  have same: "b = rd_bytes src"
    if "hash_of rt b = mf_hash (po_manifest offer)" "hash_of rt (rd_bytes src) = mf_hash (po_manifest offer)"
      "no_collision rt b (rd_bytes src)" for b
    using that by (simp add: hash_of_def no_collision_def) (metis hex_decode_encode option.inject)
  obtain p0 where p0: "p = Some p0" "current rt fs (fa_trusted fs) p0" "sent = verified_payload_receipt offer"
    and src: "verify_payload rt (po_manifest offer) (Some src) = Inr ()"
    using factory_send_ok [OF send] by blast
  obtain q0 s where q0: "q = Some q0" "current rt fr at_offer q0" "received = verified_payload_receipt offer"
    and s: "wr_bytes staging = wr_bytes dest @ s"
      "verify_payload rt (po_manifest offer) (Some \<lparr>rd_bytes = s, rd_end = Eof\<rparr>) = Inr ()"
    using factory_receive_ok [OF receive] by auto
  note published = publish_Some [OF publish dir]
  note hashes = verify_payload_Inr [OF src] verify_payload_Inr [OF s(2)]
  have "hash_of rt (rd_bytes staged) = mf_hash (po_manifest offer)"
    using published verify_payload_Inr by blast
  then have "rd_bytes staged = rd_bytes src" using same hashes(1) digest by blast
  with published p0 q0 s(1) same [of s] hashes show ?thesis by (auto simp: current_def)
qed

theorem published_as_sent_witness:
  "\<exists>f q c sent received p' q' staging dir'.
    factory_send sample_runtime sample_codecs f (Some q) sample_offer (Some sample_source) [] (fa_trusted f) = (Inr sent, p') \<and>
    factory_receive sample_runtime sample_codecs f (Some c) (Some sample_approve) (Some sample_staging) (fa_trusted f) []
      (fa_trusted f) = (Some sample_offer, Inr received, q', Some staging) \<and>
    sent = received \<and> map_of dir' (mf_filename (po_manifest sample_offer)) = Some (rd_bytes sample_source)"
proof (rule sample_factory)
  fix f :: factory assume f: "current sample_runtime f (fa_trusted f) sample_bound"
  have "trusted_peer sample_bound"
    by (simp add: trusted_peer_def sample_bound_def sample_conn_def sample_device_def open_writer_def)
  then show ?thesis
  proof (rule sample_dialogue)
    fix b c p' q' dest'
    let ?q = "with_input sample_bound b Eof" and ?c = "with_input sample_bound c Eof"
    assume send: "send_transfer_payload sample_runtime sample_codecs (Some ?q) sample_offer (Some sample_source) =
        (Inr (verified_payload_receipt sample_offer), p')"
      and receive: "receive_transfer_payload sample_runtime sample_codecs (Some ?c) (Some sample_approve) (Some sample_staging) =
        (Some sample_offer, Inr (verified_payload_receipt sample_offer), q', Some dest')"
    have same: "f\<lparr>fa_trusted := fa_trusted f\<rparr> = f" by simp
    have current: "current sample_runtime f (fa_trusted f) ?q" "current sample_runtime f (fa_trusted f) ?c"
      using f by (simp_all add: current_def with_input_def)
    then have ok: "revalidate_peer sample_runtime f (Some ?q) = (Inr (), Some ?q)"
      "revalidate_peer sample_runtime f (Some ?c) = (Inr (), Some ?c)" by (simp_all add: revalidate_Inr)
    have "\<exists>d. p' = on_conn ?q d" "\<exists>d. q' = on_conn ?c d"
      using send_transfer_ok [OF send] receive_transfer_ok [OF receive] by blast+
    then have last: "revalidate_peer sample_runtime f p' = (Inr (), p')" "revalidate_peer sample_runtime f q' = (Inr (), q')"
      using current by (auto simp: revalidate_Inr on_conn_def current_def)
    have approve: "guarded_authorize sample_runtime f (Some ?c) (fa_trusted f) sample_approve = sample_approve"
      by (rule ext) (simp add: guarded_authorize_def same ok)
    have sent: "factory_send sample_runtime sample_codecs f (Some ?q) sample_offer (Some sample_source) [] (fa_trusted f) =
        (Inr (verified_payload_receipt sample_offer), p')"
      by (simp add: factory_send_def same ok last send)
    have received: "factory_receive sample_runtime sample_codecs f (Some ?c) (Some sample_approve) (Some sample_staging)
        (fa_trusted f) [] (fa_trusted f) =
        (Some sample_offer, Inr (verified_payload_receipt sample_offer), q', Some dest')"
      by (simp add: factory_receive_def same ok last approve receive current_trust_writer_def)
    have dir: "map_wf [(''b'', ''old'')]"
      "\<forall>temp. pe_temp sample_publish = Inr temp \<longrightarrow> map_of [(''b'', ''old'')] temp = None"
      "\<forall>n e. pe_copy sample_publish = Some (n, e) \<longrightarrow> e \<noteq> ErrEOF"
      by (simp_all add: sample_publish_def map_wf_def)
    have "no_collision sample_runtime (rd_bytes sample_source) (rd_bytes sample_source)" by (simp add: no_collision_def)
    from published_as_sent [OF sent received sample_publish_run dir this] sent received show ?thesis by blast
  qed
qed

end
